(* ===== verification/Prelude.thy ===== *)
theory Prelude
  imports "HOL-Library.Word" "HOL-Library.List_Lexorder" "HOL-Library.Char_ord"
begin

text \<open>
  The vocabulary every component of the Gabbro model shares.

  \<^item> Machine types: a byte is an \<open>8 word\<close>; \<open>u16\<close>, \<open>u32\<close>, \<open>u64\<close> are words of that
    width; \<open>usize\<close> is a \<open>nat\<close> whose 64-bit bound is written out where the code checks it.
  \<^item> Rust's \<open>String\<close> is the list of its UTF-8 bytes, a \<open>string\<close> of HOL: \<open>len()\<close> is
    \<open>length\<close>, \<open>==\<close> is \<open>=\<close>, and \<open><\<close> is the byte-wise lexicographic order of
    \<open>List_Lexorder\<close> over \<open>Char_ord\<close>, as in Rust.
  \<^item> Fallible code returns \<open>'a res\<close>, a sum whose left side is an \<open>Err\<close> with the
    message or a \<open>Panic\<close>; \<open>and_then\<close> is the question-mark operator.
  \<^item> \<open>BTreeMap\<close> is a key-sorted association list (\<open>bt_*\<close>), \<open>IndexMap\<close> an
    insertion-ordered one (\<open>ix_*\<close>); both are shown to be finite maps through the locale
    \<open>keyed_map\<close>. A \<open>HashMap\<close> collected from a list is \<open>last_by\<close> (the last element with
    a key wins).
  \<^item> Big-endian integers: \<open>be_encode\<close> and \<open>be_decode\<close>.
\<close>

section \<open>Types\<close>

type_synonym byte = "8 word"
type_synonym u8 = "8 word"
type_synonym u16 = "16 word"
type_synonym u32 = "32 word"
type_synonym u64 = "64 word"
type_synonym bytes = "8 word list"

datatype err = Err string | Panic

type_synonym 'a res = "err + 'a"

definition and_then :: "'a res \<Rightarrow> ('a \<Rightarrow> 'b res) \<Rightarrow> 'b res" where
  "and_then r f = (case r of Inl e \<Rightarrow> Inl e | Inr x \<Rightarrow> f x)"

definition is_ok :: "'a res \<Rightarrow> bool" where
  "is_ok r = (case r of Inl _ \<Rightarrow> False | Inr _ \<Rightarrow> True)"

definition unwrap_or :: "'a option \<Rightarrow> 'a \<Rightarrow> 'a" where
  "unwrap_or x d = (case x of None \<Rightarrow> d | Some y \<Rightarrow> y)"

named_theorems res_simps \<open>computation rules of the result type\<close>
named_theorems wf_intros \<open>operations that keep a well-formedness invariant\<close>

section \<open>Strings\<close>

definition strip_prefix :: "string \<Rightarrow> string \<Rightarrow> string option" where
  "strip_prefix p s = (if take (length p) s = p then Some (drop (length p) s) else None)"

definition starts_with :: "string \<Rightarrow> string \<Rightarrow> bool" where
  "starts_with p s = (take (length p) s = p)"

definition str_bytes :: "string \<Rightarrow> bytes" where
  "str_bytes s = map of_char s"

definition bytes_str :: "bytes \<Rightarrow> string" where
  "bytes_str bs = map (\<lambda>b. char_of (unat b)) bs"

text \<open>
  \<open>str::trim\<close>: the Unicode White\_Space characters, recognised as UTF-8 sequences from the
  front and, on the reversed string, from the back.
\<close>

fun ws_front :: "string \<Rightarrow> nat" where
  "ws_front (c # d # e # _) =
     (if of_char c \<in> {9..13::nat} \<or> c = CHR 0x20 then 1
      else if c = CHR 0xC2 \<and> (d = CHR 0x85 \<or> d = CHR 0xA0) then 2
      else if c = CHR 0xE1 \<and> d = CHR 0x9A \<and> e = CHR 0x80
        \<or> c = CHR 0xE2 \<and> d = CHR 0x80 \<and> (of_char e \<in> {128..138::nat} \<or> e \<in> {CHR 0xA8, CHR 0xA9, CHR 0xAF})
        \<or> c = CHR 0xE2 \<and> d = CHR 0x81 \<and> e = CHR 0x9F
        \<or> c = CHR 0xE3 \<and> d = CHR 0x80 \<and> e = CHR 0x80 then 3
      else 0)"
| "ws_front [c, d] =
     (if of_char c \<in> {9..13::nat} \<or> c = CHR 0x20 then 1
      else if c = CHR 0xC2 \<and> (d = CHR 0x85 \<or> d = CHR 0xA0) then 2 else 0)"
| "ws_front [c] = (if of_char c \<in> {9..13::nat} \<or> c = CHR 0x20 then 1 else 0)"
| "ws_front [] = 0"

definition ws_back :: "string \<Rightarrow> nat" where
  "ws_back r =
     (if ws_front (take 1 r) = 1 then 1
      else if ws_front (rev (take 2 r)) = 2 then 2
      else if ws_front (rev (take 3 r)) = 3 then 3 else 0)"

function trim_start :: "string \<Rightarrow> string" where
  "trim_start s = (if ws_front s = 0 \<or> s = [] then s else trim_start (drop (ws_front s) s))"
  by pat_completeness auto
termination
  by (relation "measure length") auto

function trim_end_rev :: "string \<Rightarrow> string" where
  "trim_end_rev r = (if ws_back r = 0 \<or> r = [] then r else trim_end_rev (drop (ws_back r) r))"
  by pat_completeness auto
termination
  by (relation "measure length") auto

declare trim_start.simps [simp del] trim_end_rev.simps [simp del]

definition trim :: "string \<Rightarrow> string" where
  "trim s = rev (trim_end_rev (rev (trim_start s)))"

fun join_str :: "string \<Rightarrow> string list \<Rightarrow> string" where
  "join_str sep [] = []"
| "join_str sep [x] = x"
| "join_str sep (x # y # zs) = x @ sep @ join_str sep (y # zs)"

text \<open>Decimal printing, zero padding (the format \<open>{:0k}\<close>) and \<open>str::from_utf8\<close>.\<close>

fun show_nat :: "nat \<Rightarrow> string" where
  "show_nat n =
     (if n < 10 then [char_of (48 + n)] else show_nat (n div 10) @ [char_of (48 + n mod 10)])"

declare show_nat.simps [simp del]

definition pad0 :: "nat \<Rightarrow> string \<Rightarrow> string" where
  "pad0 k s = replicate (k - length s) (CHR ''0'') @ s"

definition is_cont :: "byte \<Rightarrow> bool" where
  "is_cont b = (0x80 \<le> b \<and> b \<le> 0xBF)"

definition utf8_width :: "bytes \<Rightarrow> nat" where
  "utf8_width bs =
     (case bs of
        [] \<Rightarrow> 0
      | a # r \<Rightarrow>
          if a < 0x80 then 1
          else if 0xC2 \<le> a \<and> a \<le> 0xDF \<and> 1 \<le> length r \<and> is_cont (r ! 0) then 2
          else if 2 \<le> length r \<and> is_cont (r ! 1)
              \<and> (a = 0xE0 \<and> 0xA0 \<le> r ! 0 \<and> r ! 0 \<le> 0xBF
                 \<or> (0xE1 \<le> a \<and> a \<le> 0xEC \<or> 0xEE \<le> a \<and> a \<le> 0xEF) \<and> is_cont (r ! 0)
                 \<or> a = 0xED \<and> 0x80 \<le> r ! 0 \<and> r ! 0 \<le> 0x9F) then 3
          else if 3 \<le> length r \<and> is_cont (r ! 1) \<and> is_cont (r ! 2)
              \<and> (a = 0xF0 \<and> 0x90 \<le> r ! 0 \<and> r ! 0 \<le> 0xBF
                 \<or> 0xF1 \<le> a \<and> a \<le> 0xF3 \<and> is_cont (r ! 0)
                 \<or> a = 0xF4 \<and> 0x80 \<le> r ! 0 \<and> r ! 0 \<le> 0x8F) then 4
          else 0)"

function utf8_valid :: "bytes \<Rightarrow> bool" where
  "utf8_valid bs =
     (if bs = [] then True else if utf8_width bs = 0 then False
      else utf8_valid (drop (utf8_width bs) bs))"
  by pat_completeness auto
termination
  by (relation "measure length") auto

declare utf8_valid.simps [simp del]

section \<open>Maps\<close>

definition last_by :: "('a \<Rightarrow> 'k) \<Rightarrow> 'a list \<Rightarrow> 'k \<Rightarrow> 'a option" where
  "last_by key xs k = find (\<lambda>x. key x = k) (rev xs)"

fun bt_insert :: "'k::linorder \<Rightarrow> 'v \<Rightarrow> ('k \<times> 'v) list \<Rightarrow> ('k \<times> 'v) list" where
  "bt_insert k v [] = [(k, v)]"
| "bt_insert k v (p # m) =
     (if fst p = k then (k, v) # m
      else if k < fst p then (k, v) # p # m
      else p # bt_insert k v m)"

definition bt_remove :: "'k \<Rightarrow> ('k \<times> 'v) list \<Rightarrow> ('k \<times> 'v) list" where
  "bt_remove k m = filter (\<lambda>p. fst p \<noteq> k) m"

definition bt_get :: "('k \<times> 'v) list \<Rightarrow> 'k \<Rightarrow> 'v option" where
  "bt_get m k = map_of m k"

definition bt_wf :: "('k::linorder \<times> 'v) list \<Rightarrow> bool" where
  "bt_wf m = sorted_wrt (<) (map fst m)"

fun ix_insert :: "'k \<Rightarrow> 'v \<Rightarrow> ('k \<times> 'v) list \<Rightarrow> ('k \<times> 'v) list" where
  "ix_insert k v [] = [(k, v)]"
| "ix_insert k v (p # m) = (if fst p = k then (k, v) # m else p # ix_insert k v m)"

definition ix_get :: "('k \<times> 'v) list \<Rightarrow> 'k \<Rightarrow> 'v option" where
  "ix_get m k = map_of m k"

definition ix_wf :: "('k \<times> 'v) list \<Rightarrow> bool" where
  "ix_wf m = distinct (map fst m)"

text \<open>\<open>Iterator::position\<close> on a list.\<close>

fun position :: "('a \<Rightarrow> bool) \<Rightarrow> 'a list \<Rightarrow> nat option" where
  "position P [] = None"
| "position P (x # xs) = (if P x then Some 0 else map_option Suc (position P xs))"

text \<open>A loop that stops at the first error.\<close>

fun map_res :: "('a \<Rightarrow> 'b res) \<Rightarrow> 'a list \<Rightarrow> 'b list res" where
  "map_res f [] = Inr []"
| "map_res f (x # xs) = and_then (f x) (\<lambda>y. and_then (map_res f xs) (\<lambda>ys. Inr (y # ys)))"

section \<open>Integers as bytes\<close>

fun be_encode :: "nat \<Rightarrow> nat \<Rightarrow> bytes" where
  "be_encode 0 n = []"
| "be_encode (Suc k) n = be_encode k (n div 256) @ [of_nat (n mod 256)]"

definition be_decode :: "bytes \<Rightarrow> nat" where
  "be_decode bs = foldl (\<lambda>a b. 256 * a + unat b) 0 bs"

section \<open>Results\<close>

lemma and_then_simps [simp, res_simps]:
  "and_then (Inl e) f = Inl e"
  "and_then (Inr x) f = f x"
  by (simp_all add: and_then_def)

lemma and_then_Inr:
  "(and_then r f = Inr y) \<longleftrightarrow> (\<exists>x. r = Inr x \<and> f x = Inr y)"
  by (cases r) simp_all

lemma is_ok_simps [simp, res_simps]:
  "is_ok (Inl e) = False"
  "is_ok (Inr x) = True"
  by (simp_all add: is_ok_def)

lemma is_ok_iff: "is_ok r \<longleftrightarrow> (\<exists>x. r = Inr x)"
  by (cases r) simp_all

lemma unwrap_or_simps [simp]:
  "unwrap_or None d = d"
  "unwrap_or (Some x) d = x"
  by (simp_all add: unwrap_or_def)

lemma position_Some:
  "position P xs = Some i \<longleftrightarrow> i < length xs \<and> P (xs ! i) \<and> (\<forall>j < i. \<not> P (xs ! j))"
proof (induction xs arbitrary: i)
  case (Cons x xs)
  show ?case
  proof (cases i)
    case 0
    then show ?thesis using Cons by (auto simp: map_option_case split: option.splits)
  next
    case (Suc k)
    have "(\<forall>j < Suc k. \<not> P ((x # xs) ! j)) \<longleftrightarrow> \<not> P x \<and> (\<forall>j < k. \<not> P (xs ! j))"
      by (auto simp: less_Suc_eq_0_disj)
    with Suc Cons show ?thesis by auto
  qed
qed simp

lemma position_None: "position P xs = None \<longleftrightarrow> (\<forall>x \<in> set xs. \<not> P x)"
  by (induction xs) auto

lemma map_res_Inr:
  "map_res f xs = Inr ys \<longleftrightarrow> list_all2 (\<lambda>x y. f x = Inr y) xs ys"
  by (induction xs arbitrary: ys) (auto simp: and_then_Inr list_all2_Cons1)

section \<open>String lemmas\<close>

lemma strip_prefix_append [simp]: "strip_prefix p (p @ s) = Some s"
  by (simp add: strip_prefix_def)

lemma strip_prefix_Some: "strip_prefix p s = Some t \<longleftrightarrow> s = p @ t"
  by (auto simp: strip_prefix_def) (metis append_take_drop_id)

lemma strip_prefix_None: "strip_prefix p s = None \<longleftrightarrow> \<not> starts_with p s"
  by (simp add: strip_prefix_def starts_with_def)

lemma starts_with_append [simp]: "starts_with p (p @ s)"
  by (simp add: starts_with_def)

lemma length_str_bytes [simp]: "length (str_bytes s) = length s"
  by (simp add: str_bytes_def)

lemma char_byte_roundtrip: "char_of (unat (of_char c :: byte)) = c"
proof -
  have "unat (of_nat (of_char c) :: byte) = (of_char c :: nat)"
    by (simp add: unat_of_nat)
  then have "unat (of_char c :: byte) = (of_char c :: nat)"
    by (simp add: of_nat_of_char)
  then show ?thesis by simp
qed

lemma bytes_str_bytes [simp]: "bytes_str (str_bytes s) = s"
  by (simp add: bytes_str_def str_bytes_def o_def char_byte_roundtrip)

lemma str_bytes_str [simp]: "str_bytes (bytes_str bs) = bs"
proof -
  have "(of_char (char_of (unat b)) :: byte) = b" for b :: byte
  proof -
    have "(of_char (char_of (unat b)) :: byte) = of_nat (of_char (char_of (unat b)))"
      by (simp only: of_nat_of_char)
    also have "\<dots> = b"
      by (simp add: unsigned_less [of b, where 'a = nat, simplified])
    finally show ?thesis .
  qed
  then show ?thesis by (simp add: bytes_str_def str_bytes_def o_def)
qed

lemma str_bytes_Nil [simp]: "str_bytes s = [] \<longleftrightarrow> s = []" "str_bytes [] = []"
  by (simp_all add: str_bytes_def)

lemma bytes_str_Nil [simp]: "bytes_str bs = [] \<longleftrightarrow> bs = []" "bytes_str [] = []"
  by (simp_all add: bytes_str_def)

lemma utf8_valid_Nil [simp]: "utf8_valid []"
  by (simp add: utf8_valid.simps)

lemma length_bytes_str [simp]: "length (bytes_str bs) = length bs"
  by (simp add: bytes_str_def)

section \<open>Finite maps behind one interface\<close>

locale keyed_map =
  fixes get :: "'m \<Rightarrow> 'k \<Rightarrow> 'v option"
    and ins :: "'k \<Rightarrow> 'v \<Rightarrow> 'm \<Rightarrow> 'm"
    and del :: "'k \<Rightarrow> 'm \<Rightarrow> 'm"
    and nil :: 'm
    and wf :: "'m \<Rightarrow> bool"
  assumes get_nil: "get nil k = None"
    and get_ins: "wf m \<Longrightarrow> get (ins k v m) k' = (if k' = k then Some v else get m k')"
    and get_del: "wf m \<Longrightarrow> get (del k m) k' = (if k' = k then None else get m k')"
    and wf_nil: "wf nil"
    and wf_ins: "wf m \<Longrightarrow> wf (ins k v m)"
    and wf_del: "wf m \<Longrightarrow> wf (del k m)"
begin

lemma wf_fold_ins: "wf m \<Longrightarrow> wf (fold (\<lambda>k. ins k (f k)) ks m)"
  by (induction ks arbitrary: m) (auto intro: wf_ins)

lemma get_fold_ins:
  "wf m \<Longrightarrow> get (fold (\<lambda>k. ins k (f k)) ks m) k' =
     (if k' \<in> set ks then Some (f k') else get m k')"
  by (induction ks arbitrary: m) (auto simp: get_ins wf_ins)

lemma wf_fold_del: "wf m \<Longrightarrow> wf (fold (\<lambda>k. del (g k)) ks m)"
  by (induction ks arbitrary: m) (auto intro: wf_del)

lemma get_fold_del:
  "wf m \<Longrightarrow> get (fold (\<lambda>k. del (g k)) ks m) k' =
     (if k' \<in> g ` set ks then None else get m k')"
  by (induction ks arbitrary: m) (auto simp: get_del wf_del)

end

lemma set_bt_insert_keys: "fst ` set (bt_insert k v m) = insert k (fst ` set m)"
  by (induction m) auto

lemma bt_wf_Cons: "bt_wf (p # m) \<longleftrightarrow> (\<forall>q \<in> set m. fst p < fst q) \<and> bt_wf m"
  by (auto simp: bt_wf_def)

lemma bt_wf_insert: "bt_wf m \<Longrightarrow> bt_wf (bt_insert k v m)"
proof (induction m)
  case Nil
  then show ?case by (simp add: bt_wf_def)
next
  case (Cons p m)
  have keys: "\<And>q. q \<in> set (bt_insert k v m) \<Longrightarrow> fst q = k \<or> (\<exists>r \<in> set m. fst q = fst r)"
    using set_bt_insert_keys [of k v m] by (metis image_iff insert_iff)
  from Cons show ?case
    by (auto simp: bt_wf_Cons dest!: keys)
qed

lemma bt_get_insert: "bt_get (bt_insert k v m) k' = (if k' = k then Some v else bt_get m k')"
  by (induction m) (auto simp: bt_get_def)

lemma bt_get_remove: "bt_get (bt_remove k m) k' = (if k' = k then None else bt_get m k')"
  by (induction m) (auto simp: bt_get_def bt_remove_def)

lemma bt_wf_remove: "bt_wf m \<Longrightarrow> bt_wf (bt_remove k m)"
  by (induction m) (auto simp: bt_wf_Cons bt_remove_def)

interpretation btm: keyed_map bt_get bt_insert bt_remove "[]" bt_wf
  by unfold_locales
    (auto simp: bt_get_insert bt_get_remove bt_wf_insert bt_wf_remove, auto simp: bt_get_def bt_wf_def)

lemma fst_set_ix_insert: "fst ` set (ix_insert k v m) = insert k (fst ` set m)"
  by (induction m) auto

lemma ix_wf_insert: "ix_wf m \<Longrightarrow> ix_wf (ix_insert k v m)"
  by (induction m) (auto simp: ix_wf_def fst_set_ix_insert)

lemma ix_get_insert: "ix_get (ix_insert k v m) k' = (if k' = k then Some v else ix_get m k')"
  by (induction m) (auto simp: ix_get_def)

lemma ix_get_remove: "ix_get (bt_remove k m) k' = (if k' = k then None else ix_get m k')"
  by (induction m) (auto simp: ix_get_def bt_remove_def)

lemma ix_wf_remove: "ix_wf m \<Longrightarrow> ix_wf (bt_remove k m)"
  by (induction m) (auto simp: ix_wf_def bt_remove_def)

interpretation ixm: keyed_map ix_get ix_insert bt_remove "[]" ix_wf
  by unfold_locales
    (auto simp: ix_get_insert ix_get_remove ix_wf_insert ix_wf_remove, auto simp: ix_get_def ix_wf_def)

lemma bt_ext:
  "bt_wf m \<Longrightarrow> bt_wf m' \<Longrightarrow> (\<And>k. bt_get m k = bt_get m' k) \<Longrightarrow> m = m'"
proof (induction m arbitrary: m')
  case Nil
  then show ?case
    by (cases m') (auto simp: bt_get_def, metis option.distinct(1))
next
  case (Cons p m)
  obtain k v where p: "p = (k, v)" by (cases p)
  have "bt_get m' k = Some v" using Cons.prems(3) [of k] by (simp add: p bt_get_def)
  then obtain q m1 where m': "m' = q # m1" by (cases m') (auto simp: bt_get_def)
  obtain k1 v1 where q: "q = (k1, v1)" by (cases q)
  have small: "\<And>n j. bt_wf n \<Longrightarrow> \<forall>r \<in> set n. j < fst r \<Longrightarrow> bt_get n j = None"
    by (auto simp: bt_get_def map_of_eq_None_iff)
  have "k1 = k"
  proof (rule ccontr)
    assume "k1 \<noteq> k"
    then consider "k < k1" | "k1 < k" by (meson linorder_neqE)
    then show False
    proof cases
      case 1
      with Cons.prems(2) have "bt_get m' k = None"
        by (intro small) (auto simp: m' q bt_wf_Cons)
      with Cons.prems(3) [of k] show False by (simp add: p bt_get_def)
    next
      case 2
      with Cons.prems(1) have "bt_get (p # m) k1 = None"
        by (intro small) (auto simp: p bt_wf_Cons)
      with Cons.prems(3) [of k1] show False by (simp add: m' q bt_get_def)
    qed
  qed
  moreover have "v1 = v" using Cons.prems(3) [of k] \<open>k1 = k\<close> by (simp add: p m' q bt_get_def)
  moreover have "m = m1"
  proof (rule Cons.IH)
    show "bt_wf m" "bt_wf m1" using Cons.prems(1,2) by (simp_all add: m' bt_wf_Cons)
    fix j
    have "bt_get m k = None" "bt_get m1 k = None"
      using Cons.prems(1,2) \<open>k1 = k\<close> by (auto simp: m' p q bt_wf_Cons intro!: small)
    then show "bt_get m j = bt_get m1 j"
      using Cons.prems(3) [of j] \<open>k1 = k\<close> by (cases "j = k") (auto simp: p m' q bt_get_def)
  qed
  ultimately show ?case by (simp add: p m' q)
qed

lemma last_by_Some: "last_by key xs k = Some x \<Longrightarrow> x \<in> set xs \<and> key x = k"
  by (auto simp: last_by_def find_Some_iff) (metis nth_mem set_rev length_rev)

lemma last_by_None: "last_by key xs k = None \<longleftrightarrow> k \<notin> key ` set xs"
  by (auto simp: last_by_def find_None_iff)

lemma find_append: "find P (xs @ ys) = (case find P xs of None \<Rightarrow> find P ys | Some x \<Rightarrow> Some x)"
  by (induction xs) auto

lemma last_by_Cons:
  "last_by key (x # xs) k =
     (case last_by key xs k of Some y \<Rightarrow> Some y | None \<Rightarrow> if key x = k then Some x else None)"
  by (simp add: last_by_def find_append split: option.split)

lemma last_by_Nil [simp]: "last_by key [] k = None"
  by (simp add: last_by_def)

lemma last_by_distinct:
  assumes "distinct (map key xs)" and "x \<in> set xs"
  shows "last_by key xs (key x) = Some x"
proof (cases "last_by key xs (key x)")
  case None
  with assms(2) show ?thesis by (auto simp: last_by_None)
next
  case (Some y)
  from last_by_Some [OF this] assms have "y = x"
    by (auto simp: distinct_map inj_on_def)
  with Some show ?thesis by simp
qed

section \<open>Big-endian integers\<close>

lemma unat_byte_less: "unat (b :: byte) < 256"
  using unsigned_less [of b, where 'a = nat] by simp

lemma length_be_encode [simp]: "length (be_encode k n) = k"
  by (induction k arbitrary: n) auto

lemma be_decode_snoc: "be_decode (bs @ [b]) = 256 * be_decode bs + unat b"
  by (simp add: be_decode_def)

lemma be_decode_encode: "be_decode (be_encode k n) = n mod 256 ^ k"
proof (induction k arbitrary: n)
  case 0
  then show ?case by (simp add: be_decode_def)
next
  case (Suc k)
  have "unat (of_nat (n mod 256) :: byte) = n mod 256"
    by (simp add: unat_of_nat)
  with Suc show ?case
    by (simp add: be_decode_snoc mod_mult2_eq)
qed

lemma be_decode_encode_small: "n < 256 ^ k \<Longrightarrow> be_decode (be_encode k n) = n"
  by (simp add: be_decode_encode)

lemma be_encode_decode: "be_encode (length bs) (be_decode bs) = bs"
proof (induction bs rule: rev_induct)
  case Nil
  then show ?case by simp
next
  case (snoc b bs)
  have "unat b < 256" by (rule unat_byte_less)
  with snoc show ?case by (simp add: be_decode_snoc)
qed

lemma be_decode_bound: "be_decode bs < 256 ^ length bs"
proof (induction bs rule: rev_induct)
  case Nil
  then show ?case by (simp add: be_decode_def)
next
  case (snoc b bs)
  have "unat b < 256" by (rule unat_byte_less)
  with snoc show ?case by (simp add: be_decode_snoc)
qed

lemma be_encode_inject:
  "m < 256 ^ k \<Longrightarrow> n < 256 ^ k \<Longrightarrow> be_encode k m = be_encode k n \<Longrightarrow> m = n"
  by (metis be_decode_encode_small)

end
