(* ===== verification/Entry.thy ===== *)
theory Entry
  imports Prelude
begin

text \<open>
  The domain model of \<open>rust/src/vault/entry.rs\<close>: the seven entry types, their common
  metadata, the one-record-per-field history (\<open>record_previous\<close>), the card constructor with
  its validation, and the atomic key-material block of a passkey (\<open>credential_blob\<close>), whose
  encoder and decoder are shown to be inverse to each other. The per-variant accessors of
  \<open>session.rs\<close> and \<open>api/vault.rs\<close> (\<open>entry_id\<close>, \<open>meta_of\<close>, \<open>entry_attachments\<close>, ...) are here
  because every later component uses them.
\<close>

section \<open>Entry types\<close>

record HistoryRecord =
  hr_field :: string
  hr_value :: string
  hr_saved_at :: string
  hr_expires_at :: "string option"

record EntryMeta =
  em_id :: string
  em_created_at :: string
  em_updated_at :: string
  em_folder :: string
  em_field_times :: "(string \<times> u64) list"
  em_history :: "HistoryRecord list"

record EntryAttachment =
  at_uuid :: string
  at_name :: string
  at_kind :: string
  at_data :: bytes

record CustomField =
  cf_label :: string
  cf_value :: string
  cf_hidden :: bool

record LoginEntry =
  le_meta :: EntryMeta
  le_title :: string
  le_url :: string
  le_username :: string
  le_password :: string
  le_notes :: "string option"
  le_custom_fields :: "CustomField list"
  le_attachments :: "EntryAttachment list"
  le_app_id :: "string option"
  le_email :: "string option"

record NoteEntry =
  ne_meta :: EntryMeta
  ne_title :: string
  ne_content :: string
  ne_custom_fields :: "CustomField list"
  ne_attachments :: "EntryAttachment list"

record IdentityEntry =
  ie_meta :: EntryMeta
  ie_first_name :: string
  ie_last_name :: string
  ie_email :: string
  ie_phone :: "string option"
  ie_address :: "string option"
  ie_custom_fields :: "CustomField list"
  ie_attachments :: "EntryAttachment list"

record CardEntry =
  ce_meta :: EntryMeta
  ce_card_name :: "string option"
  ce_status :: string
  ce_cardholder_name :: string
  ce_card_number :: string
  ce_expiry :: string
  ce_cvv :: string
  ce_credit_limit :: "string option"
  ce_card_account_number :: "string option"
  ce_payment_network :: "string option"
  ce_pin :: "string option"
  ce_bank_name :: "string option"
  ce_transaction_password :: "string option"
  ce_notes :: "string option"
  ce_custom_fields :: "CustomField list"
  ce_attachments :: "EntryAttachment list"

record FileEntry =
  fe_meta :: EntryMeta
  fe_filename :: string
  fe_data :: bytes
  fe_notes :: "string option"
  fe_custom_fields :: "CustomField list"

record CustomEntry =
  xe_meta :: EntryMeta
  xe_title :: string
  xe_fields :: "(string \<times> CustomField) list"
  xe_attachments :: "EntryAttachment list"

record PasskeyEntry =
  pe_meta :: EntryMeta
  pe_rp_id :: string
  pe_user_name :: string
  pe_user_display_name :: string
  pe_user_handle :: bytes
  pe_credential_id :: bytes
  pe_private_key :: bytes
  pe_public_key_cose :: bytes
  pe_algorithm :: u64
  pe_notes :: "string option"
  pe_custom_fields :: "CustomField list"

datatype VaultEntry =
    Login LoginEntry
  | Note NoteEntry
  | Identity IdentityEntry
  | Card CardEntry
  | File FileEntry
  | Custom CustomEntry
  | Passkey PasskeyEntry

section \<open>Metadata\<close>

text \<open>\<open>EntryMeta::record_previous\<close>: overwrite the first record of the field, or append one.\<close>

fun replace_history :: "HistoryRecord \<Rightarrow> HistoryRecord list \<Rightarrow> HistoryRecord list" where
  "replace_history r [] = [r]"
| "replace_history r (h # hs) =
     (if hr_field h = hr_field r then r # hs else h # replace_history r hs)"

definition record_previous ::
  "EntryMeta \<Rightarrow> string \<Rightarrow> string \<Rightarrow> string \<Rightarrow> string option \<Rightarrow> EntryMeta" where
  "record_previous m fld val saved_at expires_at =
     m\<lparr>em_history := replace_history
        \<lparr>hr_field = fld, hr_value = val, hr_saved_at = saved_at, hr_expires_at = expires_at\<rparr>
        (em_history m)\<rparr>"

section \<open>Card entries\<close>

definition is_ascii_digit :: "char \<Rightarrow> bool" where
  "is_ascii_digit c = (of_char c \<in> {48..57::nat})"

definition msg_card_number :: string where
  "msg_card_number = ''card number must contain 6'' @ [CHR 0xE2, CHR 0x80, CHR 0x93] @ ''19 digits''"

definition CardEntry_new :: "CardEntry \<Rightarrow> CardEntry res" where
  "CardEntry_new c =
     (let digit_count = length (filter is_ascii_digit (ce_card_number c));
          errors =
            (if 6 \<le> digit_count \<and> digit_count \<le> 19 then [] else [msg_card_number])
            @ (if trim (ce_cardholder_name c) = [] then [''cardholder name is required''] else [])
            @ (if trim (ce_expiry c) = [] then [''expiry is required''] else [])
      in if errors \<noteq> [] then Inl (Err (join_str ''; '' errors)) else Inr c)"

section \<open>Passkey key material\<close>

definition len_prefixed :: "bytes \<Rightarrow> bytes" where
  "len_prefixed part = be_encode 2 (length part) @ part"

definition credential_blob :: "PasskeyEntry \<Rightarrow> bytes" where
  "credential_blob e =
     concat (map len_prefixed
       [pe_credential_id e, pe_private_key e, pe_public_key_cose e, pe_user_handle e])
     @ be_encode 8 (unat (pe_algorithm e))"

text \<open>The local function \<open>take\<close>, on the bytes left after the cursor.\<close>

definition blob_take :: "bytes \<Rightarrow> (bytes \<times> bytes) res" where
  "blob_take rest =
     (if length rest < 2 then Inl (Err ''credential blob truncated at length prefix'')
      else let len = be_decode (take 2 rest); r = drop 2 rest
        in if length r < len then Inl (Err ''credential blob truncated at field'')
           else Inr (take len r, drop len r))"

definition apply_credential_blob :: "PasskeyEntry \<Rightarrow> bytes \<Rightarrow> PasskeyEntry res" where
  "apply_credential_blob p blob =
     and_then (blob_take blob) (\<lambda>(credential_id, r1).
     and_then (blob_take r1) (\<lambda>(private_key, r2).
     and_then (blob_take r2) (\<lambda>(public_key_cose, r3).
     and_then (blob_take r3) (\<lambda>(user_handle, r4).
       if length r4 < 8 then Inl (Err ''credential blob truncated at algorithm'')
       else if length r4 \<noteq> 8 then Inl (Err ''credential blob has trailing bytes'')
       else Inr (p\<lparr>pe_credential_id := credential_id, pe_private_key := private_key,
                   pe_public_key_cose := public_key_cose, pe_user_handle := user_handle,
                   pe_algorithm := of_nat (be_decode (take 8 r4))\<rparr>)))))"

text \<open>The lengths the two-byte prefix can carry.\<close>

definition blob_wf :: "PasskeyEntry \<Rightarrow> bool" where
  "blob_wf e = (length (pe_credential_id e) < 65536 \<and> length (pe_private_key e) < 65536
     \<and> length (pe_public_key_cose e) < 65536 \<and> length (pe_user_handle e) < 65536)"

definition key_material :: "PasskeyEntry \<Rightarrow> bytes \<times> bytes \<times> bytes \<times> bytes \<times> u64" where
  "key_material e = (pe_credential_id e, pe_private_key e, pe_public_key_cose e,
     pe_user_handle e, pe_algorithm e)"

section \<open>Accessors over the seven variants\<close>

fun meta_of :: "VaultEntry \<Rightarrow> EntryMeta" where
  "meta_of (Login x) = le_meta x"
| "meta_of (Note x) = ne_meta x"
| "meta_of (Identity x) = ie_meta x"
| "meta_of (Card x) = ce_meta x"
| "meta_of (File x) = fe_meta x"
| "meta_of (Custom x) = xe_meta x"
| "meta_of (Passkey x) = pe_meta x"

text \<open>Writing through the reference \<open>meta_of_mut\<close> returns.\<close>

fun map_meta :: "(EntryMeta \<Rightarrow> EntryMeta) \<Rightarrow> VaultEntry \<Rightarrow> VaultEntry" where
  "map_meta f (Login x) = Login (x\<lparr>le_meta := f (le_meta x)\<rparr>)"
| "map_meta f (Note x) = Note (x\<lparr>ne_meta := f (ne_meta x)\<rparr>)"
| "map_meta f (Identity x) = Identity (x\<lparr>ie_meta := f (ie_meta x)\<rparr>)"
| "map_meta f (Card x) = Card (x\<lparr>ce_meta := f (ce_meta x)\<rparr>)"
| "map_meta f (File x) = File (x\<lparr>fe_meta := f (fe_meta x)\<rparr>)"
| "map_meta f (Custom x) = Custom (x\<lparr>xe_meta := f (xe_meta x)\<rparr>)"
| "map_meta f (Passkey x) = Passkey (x\<lparr>pe_meta := f (pe_meta x)\<rparr>)"

definition entry_id :: "VaultEntry \<Rightarrow> string" where
  "entry_id e = em_id (meta_of e)"

definition entry_folder :: "VaultEntry \<Rightarrow> string" where
  "entry_folder e = em_folder (meta_of e)"

fun entry_attachments :: "VaultEntry \<Rightarrow> EntryAttachment list" where
  "entry_attachments (Login e) = le_attachments e"
| "entry_attachments (Note e) = ne_attachments e"
| "entry_attachments (Identity e) = ie_attachments e"
| "entry_attachments (Card e) = ce_attachments e"
| "entry_attachments (Custom e) = xe_attachments e"
| "entry_attachments (File _) = []"
| "entry_attachments (Passkey _) = []"

text \<open>\<open>entry_attachments_mut\<close>: \<open>None\<close> for File and Passkey, else the writer of the list.\<close>

fun has_attachments :: "VaultEntry \<Rightarrow> bool" where
  "has_attachments (File _) = False"
| "has_attachments (Passkey _) = False"
| "has_attachments _ = True"

fun set_attachments :: "EntryAttachment list \<Rightarrow> VaultEntry \<Rightarrow> VaultEntry" where
  "set_attachments a (Login e) = Login (e\<lparr>le_attachments := a\<rparr>)"
| "set_attachments a (Note e) = Note (e\<lparr>ne_attachments := a\<rparr>)"
| "set_attachments a (Identity e) = Identity (e\<lparr>ie_attachments := a\<rparr>)"
| "set_attachments a (Card e) = Card (e\<lparr>ce_attachments := a\<rparr>)"
| "set_attachments a (Custom e) = Custom (e\<lparr>xe_attachments := a\<rparr>)"
| "set_attachments a (File e) = File e"
| "set_attachments a (Passkey e) = Passkey e"

text \<open>\<open>entry_custom_fields_mut\<close>: \<open>None\<close> for Custom, which keys its fields in a map.\<close>

fun entry_custom_fields :: "VaultEntry \<Rightarrow> CustomField list option" where
  "entry_custom_fields (Login e) = Some (le_custom_fields e)"
| "entry_custom_fields (Note e) = Some (ne_custom_fields e)"
| "entry_custom_fields (Identity e) = Some (ie_custom_fields e)"
| "entry_custom_fields (Card e) = Some (ce_custom_fields e)"
| "entry_custom_fields (File e) = Some (fe_custom_fields e)"
| "entry_custom_fields (Custom _) = None"
| "entry_custom_fields (Passkey e) = Some (pe_custom_fields e)"

fun set_custom_fields :: "CustomField list \<Rightarrow> VaultEntry \<Rightarrow> VaultEntry" where
  "set_custom_fields c (Login e) = Login (e\<lparr>le_custom_fields := c\<rparr>)"
| "set_custom_fields c (Note e) = Note (e\<lparr>ne_custom_fields := c\<rparr>)"
| "set_custom_fields c (Identity e) = Identity (e\<lparr>ie_custom_fields := c\<rparr>)"
| "set_custom_fields c (Card e) = Card (e\<lparr>ce_custom_fields := c\<rparr>)"
| "set_custom_fields c (File e) = File (e\<lparr>fe_custom_fields := c\<rparr>)"
| "set_custom_fields c (Custom e) = Custom e"
| "set_custom_fields c (Passkey e) = Passkey (e\<lparr>pe_custom_fields := c\<rparr>)"

fun entry_display_title :: "VaultEntry \<Rightarrow> string" where
  "entry_display_title (Login e) =
     (if le_title e \<noteq> [] then le_title e
      else if le_url e \<noteq> [] then le_url e else em_id (le_meta e))"
| "entry_display_title (Note e) = ne_title e"
| "entry_display_title (Identity e) = ie_first_name e @ '' '' @ ie_last_name e"
| "entry_display_title (Card e) =
     (case ce_card_name e of
        Some s \<Rightarrow> (if s \<noteq> [] then s else ce_cardholder_name e)
      | None \<Rightarrow> ce_cardholder_name e)"
| "entry_display_title (File e) = fe_filename e"
| "entry_display_title (Custom e) = xe_title e"
| "entry_display_title (Passkey e) =
     (if pe_rp_id e \<noteq> [] then pe_rp_id e
      else if pe_user_name e \<noteq> [] then pe_user_name e else em_id (pe_meta e))"

section \<open>Accessor laws\<close>

lemma meta_of_map_meta [simp]: "meta_of (map_meta f e) = f (meta_of e)"
  by (cases e) simp_all

lemma map_meta_map_meta [simp]: "map_meta f (map_meta g e) = map_meta (f \<circ> g) e"
  by (cases e) simp_all

lemma meta_of_set_attachments [simp]: "meta_of (set_attachments a e) = meta_of e"
  by (cases e) simp_all

lemma entry_attachments_set [simp]:
  "entry_attachments (set_attachments a e) = (if has_attachments e then a else [])"
  by (cases e) simp_all

lemma meta_of_set_custom_fields [simp]: "meta_of (set_custom_fields c e) = meta_of e"
  by (cases e) simp_all

lemma entry_custom_fields_map_meta [simp]:
  "entry_custom_fields (map_meta f e) = entry_custom_fields e"
  by (cases e) simp_all

lemma entry_attachments_map_meta [simp]:
  "entry_attachments (map_meta f e) = entry_attachments e"
  by (cases e) simp_all

lemma entry_id_map_meta [simp]: "entry_id (map_meta f e) = em_id (f (meta_of e))"
  by (simp add: entry_id_def)

lemma entry_id_set_attachments [simp]: "entry_id (set_attachments a e) = entry_id e"
  by (simp add: entry_id_def)

section \<open>History\<close>

definition history_of :: "EntryMeta \<Rightarrow> string \<Rightarrow> string option" where
  "history_of m f = map_option hr_value (find (\<lambda>h. hr_field h = f) (em_history m))"

definition history_wf :: "EntryMeta \<Rightarrow> bool" where
  "history_wf m = distinct (map hr_field (em_history m))"

lemma fields_replace_history:
  "map hr_field (replace_history r hs) =
     (if hr_field r \<in> hr_field ` set hs then map hr_field hs else map hr_field hs @ [hr_field r])"
  by (induction hs) auto

lemma find_replace_history:
  "find (\<lambda>h. hr_field h = f) (replace_history r hs) =
     (if f = hr_field r then Some r else find (\<lambda>h. hr_field h = f) hs)"
  by (induction hs) auto

lemma record_previous_id [simp]:
  "em_id (record_previous m f v s x) = em_id m"
  "em_field_times (record_previous m f v s x) = em_field_times m"
  "em_folder (record_previous m f v s x) = em_folder m"
  "em_updated_at (record_previous m f v s x) = em_updated_at m"
  "em_created_at (record_previous m f v s x) = em_created_at m"
  by (simp_all add: record_previous_def)

lemma history_wf_record_previous [wf_intros]:
  "history_wf m \<Longrightarrow> history_wf (record_previous m f v s x)"
  by (auto simp: history_wf_def record_previous_def fields_replace_history)

lemma history_of_record_previous:
  "history_of (record_previous m f v s x) g = (if g = f then Some v else history_of m g)"
  by (simp add: history_of_def record_previous_def find_replace_history)

section \<open>The credential blob\<close>

lemma blob_take_prefixed: "length p < 65536 \<Longrightarrow> blob_take (len_prefixed p @ r) = Inr (p, r)"
  by (simp add: blob_take_def len_prefixed_def be_decode_encode_small)

lemma blob_take_inverse:
  assumes "blob_take b = Inr (p, r)"
  shows "b = len_prefixed p @ r \<and> length p < 65536"
proof -
  let ?n = "be_decode (take 2 b)"
  from assms have 2: "2 \<le> length b" and n: "?n \<le> length (drop 2 b)"
    and p: "p = take ?n (drop 2 b)" and r: "r = drop ?n (drop 2 b)"
    by (auto simp: blob_take_def Let_def split: if_splits)
  from n p have lp: "length p = ?n" by simp
  have "be_encode 2 ?n = take 2 b"
    using be_encode_decode [of "take 2 b"] 2 by (simp add: min_absorb2)
  moreover have "b = take 2 b @ p @ r"
    unfolding p r by (metis append_take_drop_id)
  ultimately have "b = len_prefixed p @ r"
    by (simp add: len_prefixed_def lp)
  moreover have "?n < 65536"
    using be_decode_bound [of "take 2 b"] 2 by (simp add: min_absorb2)
  ultimately show ?thesis by (simp add: lp)
qed

lemma u64_bound: "unat (w :: u64) < 256 ^ 8"
  using unsigned_less [of w, where 'a = nat] by simp

lemma apply_credential_blob_Inr:
  assumes "blob_wf e"
  shows "apply_credential_blob p (credential_blob e) =
    Inr (p\<lparr>pe_credential_id := pe_credential_id e, pe_private_key := pe_private_key e,
           pe_public_key_cose := pe_public_key_cose e, pe_user_handle := pe_user_handle e,
           pe_algorithm := pe_algorithm e\<rparr>)"
proof -
  have "(of_nat (be_decode (be_encode 8 (unat (pe_algorithm e)))) :: u64) = pe_algorithm e"
    by (simp add: be_decode_encode_small [OF u64_bound])
  with assms show ?thesis
    by (simp add: apply_credential_blob_def credential_blob_def blob_wf_def blob_take_prefixed)
qed

lemma apply_credential_blob_inverse:
  assumes "apply_credential_blob p b = Inr q"
  shows "credential_blob q = b \<and> blob_wf q"
proof -
  from assms obtain c r1 k r2 u r3 h r4 where
    t: "blob_take b = Inr (c, r1)" "blob_take r1 = Inr (k, r2)"
       "blob_take r2 = Inr (u, r3)" "blob_take r3 = Inr (h, r4)"
    and l: "length r4 = 8"
    and q: "q = p\<lparr>pe_credential_id := c, pe_private_key := k, pe_public_key_cose := u,
                  pe_user_handle := h, pe_algorithm := of_nat (be_decode (take 8 r4))\<rparr>"
    by (auto simp: apply_credential_blob_def and_then_Inr split: if_splits)
  have "be_decode r4 < 256 ^ 8" using be_decode_bound [of r4] l by simp
  then have "unat (of_nat (be_decode r4) :: u64) = be_decode r4"
    by (simp add: unat_of_nat)
  moreover have "be_encode 8 (be_decode r4) = r4" using be_encode_decode [of r4] l by simp
  ultimately have "be_encode 8 (unat (pe_algorithm q)) = r4" using l by (simp add: q)
  then show ?thesis
    using t [THEN blob_take_inverse] by (auto simp: credential_blob_def q blob_wf_def)
qed

end
