(* ===== verification/Dates.thy ===== *)
theory Dates
  imports Prelude
begin

text \<open>
  The calendar of \<open>rust/src/api/vault.rs\<close>: day counts to dates and back, the ISO 8601
  timestamps of \<open>chrono_now\<close>, \<open>add_days_to_timestamp\<close> and the expiry test of history records.

  The clock is an argument: seconds since the Unix epoch. \<open>u64\<close> values are naturals with the
  wrap-around of a release build written out (\<open>month as usize - 1\<close> and \<open>d + day - 1\<close>). A string
  slice off a character boundary panics, so the two functions that slice return a result.

  Shown: the two conversions are inverse to each other, and a history record that is to live
  for \<open>n\<close> days expires exactly when the clock is more than \<open>n\<close> days past the save.
\<close>

section \<open>Calendar\<close>

definition is_leap :: "nat \<Rightarrow> bool" where
  "is_leap year = (4 dvd year \<and> \<not> 100 dvd year \<or> 400 dvd year)"

definition year_days :: "nat \<Rightarrow> nat" where
  "year_days year = (if is_leap year then 366 else 365)"

definition month_days :: "nat \<Rightarrow> nat list" where
  "month_days year = [31, if is_leap year then 29 else 28, 31, 30, 31, 30, 31, 31, 30, 31, 30, 31]"

definition u64_max :: nat where
  "u64_max = 2 ^ 64"

definition days_from_ymd :: "nat \<Rightarrow> nat \<Rightarrow> nat \<Rightarrow> nat" where
  "days_from_ymd year month day =
     (sum_list (map year_days [1970..<year])
      + sum_list (take ((month + (u64_max - 1)) mod u64_max) (month_days year))
      + day + (u64_max - 1)) mod u64_max"

text \<open>The two loops of \<open>days_to_ymd\<close>.\<close>

function ymd_year :: "nat \<Rightarrow> nat \<Rightarrow> nat \<times> nat" where
  "ymd_year year days =
     (if days < year_days year then (year, days) else ymd_year (year + 1) (days - year_days year))"
  by pat_completeness auto
termination
  by (relation "measure snd") (auto simp: year_days_def)

declare ymd_year.simps [simp del]

fun ymd_month :: "nat list \<Rightarrow> nat \<Rightarrow> nat \<Rightarrow> nat \<times> nat" where
  "ymd_month [] month days = (month, days)"
| "ymd_month (m # ms) month days =
     (if days < m then (month, days) else ymd_month ms (month + 1) (days - m))"

definition days_to_ymd :: "nat \<Rightarrow> nat \<times> nat \<times> nat" where
  "days_to_ymd days =
     (let (year, d) = ymd_year 1970 days; (month, r) = ymd_month (month_days year) 1 d
      in (year, month, r + 1))"

section \<open>Timestamps\<close>

definition date_str :: "nat \<times> nat \<times> nat \<Rightarrow> string" where
  "date_str d = (case d of (y, m, r) \<Rightarrow>
     pad0 4 (show_nat y) @ ''-'' @ pad0 2 (show_nat m) @ ''-'' @ pad0 2 (show_nat r))"

definition chrono_now :: "nat \<Rightarrow> string" where
  "chrono_now s = date_str (days_to_ymd (s div 86400)) @ ''T''
     @ pad0 2 (show_nat (s div 3600 mod 24)) @ '':'' @ pad0 2 (show_nat (s div 60 mod 60)) @ '':''
     @ pad0 2 (show_nat (s mod 60)) @ ''Z''"

text \<open>\<open>str::parse::<u64>\<close>: an optional plus sign, then at least one decimal digit.\<close>

fun digits_val :: "nat \<Rightarrow> string \<Rightarrow> nat option" where
  "digits_val acc [] = Some acc"
| "digits_val acc (c # cs) =
     (if of_char c \<in> {48..57::nat} then digits_val (10 * acc + (of_char c - 48)) cs else None)"

definition parse_u64 :: "string \<Rightarrow> nat option" where
  "parse_u64 s =
     (let t = (if take 1 s = ''+'' then drop 1 s else s) in
      if t = [] then None
      else case digits_val 0 t of None \<Rightarrow> None | Some n \<Rightarrow> if n < u64_max then Some n else None)"

text \<open>\<open>&s[a..b]\<close>: a panic when an end is past the string or inside a character.\<close>

definition is_char_boundary :: "string \<Rightarrow> nat \<Rightarrow> bool" where
  "is_char_boundary s i =
     (i = 0 \<or> i = length s \<or> i < length s \<and> of_char (s ! i) \<notin> {128..191::nat})"

definition str_slice :: "nat \<Rightarrow> nat \<Rightarrow> string \<Rightarrow> string res" where
  "str_slice a b s =
     (if a \<le> b \<and> is_char_boundary s a \<and> is_char_boundary s b then Inr (take (b - a) (drop a s))
      else Inl Panic)"

definition ymd_of_str :: "string \<Rightarrow> nat \<Rightarrow> nat \<Rightarrow> nat \<Rightarrow> (nat \<times> nat \<times> nat) res" where
  "ymd_of_str s y0 m0 d0 =
     and_then (str_slice 0 4 s) (\<lambda>ys.
     and_then (str_slice 5 7 s) (\<lambda>ms.
     and_then (str_slice 8 10 s) (\<lambda>ds.
       Inr (unwrap_or (parse_u64 ys) y0, unwrap_or (parse_u64 ms) m0, unwrap_or (parse_u64 ds) d0))))"

definition add_days_to_timestamp :: "string \<Rightarrow> nat \<Rightarrow> string res" where
  "add_days_to_timestamp timestamp days =
     (if length timestamp < 10 then Inr timestamp
      else and_then (ymd_of_str timestamp 2025 1 1) (\<lambda>(year, month, day).
        and_then (if length timestamp > 10 then str_slice 10 (length timestamp) timestamp
                  else Inr ''T00:00:00Z'') (\<lambda>time_suffix.
          let total_days = (days_from_ymd year month day + days) mod u64_max
          in Inr (date_str (days_to_ymd total_days) @ time_suffix))))"

definition is_expired :: "string option \<Rightarrow> nat \<Rightarrow> bool res" where
  "is_expired expires_at now_secs =
     (case expires_at of
        None \<Rightarrow> Inr False
      | Some ts \<Rightarrow>
          if length ts < 10 then Inr False
          else and_then (ymd_of_str ts 9999 12 31) (\<lambda>(year, month, day).
            Inr (days_from_ymd year month day < now_secs div 86400)))"

section \<open>Days and dates\<close>

lemma year_days_pos: "0 < year_days y"
  by (simp add: year_days_def)

lemma sum_month_days: "sum_list (month_days y) = year_days y"
  by (simp add: month_days_def year_days_def)

lemma length_month_days [simp]: "length (month_days y) = 12"
  by (simp add: month_days_def)

definition years_sum :: "nat \<Rightarrow> nat \<Rightarrow> nat" where
  "years_sum a b = sum_list (map year_days [a..<b])"

lemma years_sum_step: "a < b \<Longrightarrow> years_sum a b = year_days a + years_sum (Suc a) b"
  by (simp add: years_sum_def upt_rec [of a b])

lemma ymd_year_sound:
  "ymd_year y d = (y', r) \<Longrightarrow> y \<le> y' \<and> r < year_days y' \<and> years_sum y y' + r = d"
proof (induction y d rule: ymd_year.induct)
  case (1 y d)
  show ?case
  proof (cases "d < year_days y")
    case True
    with "1.prems" show ?thesis
      by (subst (asm) ymd_year.simps) (simp add: years_sum_def)
  next
    case False
    with "1.prems" have "ymd_year (y + 1) (d - year_days y) = (y', r)"
      by (subst (asm) ymd_year.simps) simp
    from "1.IH" [OF False this] False show ?thesis
      by (auto simp: years_sum_step)
  qed
qed

lemma ymd_year_complete:
  "y \<le> y' \<Longrightarrow> r < year_days y' \<Longrightarrow> ymd_year y (years_sum y y' + r) = (y', r)"
proof (induction "y' - y" arbitrary: y)
  case 0
  then show ?case by (subst ymd_year.simps) (simp add: years_sum_def)
next
  case (Suc n)
  then have lt: "y < y'" and n: "n = y' - Suc y" by auto
  have "ymd_year (Suc y) (years_sum (Suc y) y' + r) = (y', r)"
    using Suc.hyps(1) [OF n] lt Suc.prems(2) by simp
  with lt show ?case by (subst ymd_year.simps) (simp add: years_sum_step)
qed

lemma ymd_month_sound:
  "ymd_month ms m d = (m', r) \<Longrightarrow> d < sum_list ms \<Longrightarrow>
     m \<le> m' \<and> m' - m < length ms \<and> r < ms ! (m' - m) \<and> sum_list (take (m' - m) ms) + r = d"
proof (induction ms m d rule: ymd_month.induct)
  case (2 x ms m d)
  show ?case
  proof (cases "d < x")
    case False
    with 2 have "m + 1 \<le> m' \<and> m' - (m + 1) < length ms \<and> r < ms ! (m' - (m + 1))
        \<and> sum_list (take (m' - (m + 1)) ms) + r = d - x" by auto
    moreover from this obtain k where "m' - m = Suc k" "k = m' - (m + 1)"
      by (cases "m' - m") auto
    ultimately show ?thesis using False by auto
  qed (use 2 in auto)
qed simp

lemma ymd_month_complete:
  "k < length ms \<Longrightarrow> r < ms ! k \<Longrightarrow> ymd_month ms m (sum_list (take k ms) + r) = (m + k, r)"
proof (induction ms arbitrary: m k)
  case (Cons x ms)
  then show ?case by (cases k) auto
qed simp

text \<open>A date of the calendar from 1970 on.\<close>

definition valid_date :: "nat \<times> nat \<times> nat \<Rightarrow> bool" where
  "valid_date d = (case d of (y, m, r) \<Rightarrow>
     1970 \<le> y \<and> 1 \<le> m \<and> m \<le> 12 \<and> 1 \<le> r \<and> r \<le> month_days y ! (m - 1))"

lemma month_pred_mod: "1 \<le> m \<Longrightarrow> m \<le> 12 \<Longrightarrow> (m + (u64_max - 1)) mod u64_max = m - 1"
  by (cases m) (auto simp: u64_max_def)

lemma days_from_ymd_valid:
  assumes "valid_date (y, m, r)"
  shows "days_from_ymd y m r =
    (years_sum 1970 y + sum_list (take (m - 1) (month_days y)) + (r - 1)) mod u64_max"
proof -
  have shift: "(a + r + (u64_max - 1)) mod u64_max = (a + (r - 1)) mod u64_max" for a
  proof -
    have "a + r + (u64_max - 1) = a + (r - 1) + u64_max"
      using assms by (simp add: valid_date_def u64_max_def)
    then show ?thesis by (metis mod_add_self2)
  qed
  have "(m + (u64_max - 1)) mod u64_max = m - 1"
    using assms by (intro month_pred_mod) (auto simp: valid_date_def)
  then show ?thesis
    unfolding days_from_ymd_def years_sum_def by (simp only: shift add.assoc [symmetric])
qed

lemma days_to_ymd_sound:
  assumes "days_to_ymd n = (y, m, r)"
  shows "valid_date (y, m, r)"
    and "years_sum 1970 y + sum_list (take (m - 1) (month_days y)) + (r - 1) = n"
proof -
  obtain d where y: "ymd_year 1970 n = (y, d)" and m: "ymd_month (month_days y) 1 d = (m, r - 1)"
    and r: "1 \<le> r"
    using assms by (auto simp: days_to_ymd_def split: prod.splits)
  note ys = ymd_year_sound [OF y]
  have ms: "1 \<le> m \<and> m - 1 < 12 \<and> r - 1 < month_days y ! (m - 1)
      \<and> sum_list (take (m - 1) (month_days y)) + (r - 1) = d"
    using ymd_month_sound [OF m] ys by (simp add: sum_month_days)
  have "r \<le> month_days y ! (m - 1)" "m \<le> 12" using ms r by linarith+
  with ys ms r show "valid_date (y, m, r)" by (auto simp: valid_date_def)
  from ys ms show "years_sum 1970 y + sum_list (take (m - 1) (month_days y)) + (r - 1) = n" by simp
qed

lemma days_from_to_ymd:
  assumes "n < u64_max" and "days_to_ymd n = (y, m, r)"
  shows "days_from_ymd y m r = n"
  using days_to_ymd_sound [OF assms(2)] assms(1) by (simp add: days_from_ymd_valid)

lemma sum_take_month_less:
  assumes "k < 12" and "r < month_days y ! k"
  shows "sum_list (take k (month_days y)) + r < year_days y"
proof -
  have "sum_list (take (Suc k) (month_days y)) \<le> sum_list (month_days y)"
    by (metis append_take_drop_id sum_list_append le_add1)
  then show ?thesis using assms
    by (simp add: take_Suc_conv_app_nth sum_month_days)
qed

lemma days_to_from_ymd:
  assumes "valid_date (y, m, r)"
    and "years_sum 1970 y + sum_list (take (m - 1) (month_days y)) + (r - 1) < u64_max"
  shows "days_to_ymd (days_from_ymd y m r) = (y, m, r)"
proof -
  have v: "1970 \<le> y" "1 \<le> m" "m - 1 < 12" "1 \<le> r" "r - 1 < month_days y ! (m - 1)"
    using assms(1) by (auto simp: valid_date_def)
  let ?d = "sum_list (take (m - 1) (month_days y)) + (r - 1)"
  have "?d < year_days y" using v by (intro sum_take_month_less)
  then have "ymd_year 1970 (years_sum 1970 y + ?d) = (y, ?d)" using v(1) by (rule ymd_year_complete [rotated])
  moreover have "ymd_month (month_days y) 1 ?d = (1 + (m - 1), r - 1)"
    using v by (intro ymd_month_complete) simp_all
  moreover have "days_from_ymd y m r = years_sum 1970 y + ?d"
    using assms by (simp add: days_from_ymd_valid)
  ultimately show ?thesis using v by (simp add: days_to_ymd_def)
qed

section \<open>Printing and parsing numbers\<close>

definition all_digits :: "string \<Rightarrow> bool" where
  "all_digits s = list_all (\<lambda>c. of_char c \<in> {48..57::nat}) s"

lemma digit_char: "d < 10 \<Longrightarrow> of_char (char_of (48 + d) :: char) = (48 + d :: nat)"
  by simp

lemma digits_val_append:
  "digits_val acc (s @ t) = (case digits_val acc s of None \<Rightarrow> None | Some a \<Rightarrow> digits_val a t)"
  by (induction acc s rule: digits_val.induct) auto

lemma digits_val_zeros: "digits_val 0 (replicate k (CHR ''0'') @ s) = digits_val 0 s"
  by (induction k) auto

lemma show_nat_facts:
  "all_digits (show_nat n) \<and> digits_val 0 (show_nat n) = Some n \<and> show_nat n \<noteq> []
   \<and> (0 < k \<longrightarrow> n < 10 ^ k \<longrightarrow> length (show_nat n) \<le> k)"
proof (induction n arbitrary: k rule: show_nat.induct)
  case (1 n)
  show ?case
  proof (cases "n < 10")
    case True
    then show ?thesis
      by (subst (1 2 3 4) show_nat.simps) (simp add: all_digits_def digit_char)
  next
    case False
    have d: "of_char (char_of (48 + n mod 10) :: char) = (48 + n mod 10 :: nat)"
      by (rule digit_char) simp
    have "length (show_nat (n div 10)) \<le> k - 1" if "0 < k" "n < 10 ^ k"
    proof -
      from that False obtain j where k: "k = Suc (Suc j)"
        by (cases k; cases "k - 1") auto
      have "n div 10 < 10 ^ (k - 1)" using that(2) by (simp add: k less_mult_imp_div_less)
      with "1.IH" [OF False, of "k - 1"] k show ?thesis by simp
    qed
    with "1.IH" [OF False] False d show ?thesis
      by (subst (1 2 3 4) show_nat.simps) (auto simp: all_digits_def digits_val_append)
  qed
qed

lemma pad0_number:
  assumes "0 < k" and "n < 10 ^ k"
  shows "length (pad0 k (show_nat n)) = k" and "all_digits (pad0 k (show_nat n))"
    and "digits_val 0 (pad0 k (show_nat n)) = Some n"
  using show_nat_facts [of n k] assms
  by (auto simp: pad0_def digits_val_zeros all_digits_def list_all_iff)

lemma parse_pad0:
  assumes "0 < k" and "n < 10 ^ k" and "n < u64_max"
  shows "parse_u64 (pad0 k (show_nat n)) = Some n"
proof -
  obtain c cs where s: "pad0 k (show_nat n) = c # cs"
    using pad0_number(1) [OF assms(1,2)] assms(1) by (cases "pad0 k (show_nat n)") auto
  have "of_char c \<in> {48..57::nat}" using pad0_number(2) [OF assms(1,2)] by (simp add: s all_digits_def)
  then have "c \<noteq> CHR ''+''" by auto
  then show ?thesis
    using pad0_number(3) [OF assms(1,2)] assms(3) by (simp add: parse_u64_def s Let_def del: digits_val.simps)
qed

section \<open>Timestamps\<close>

lemma years_sum_bound: "years_sum a b \<le> 366 * (b - a)"
proof (induction "b - a" arbitrary: a)
  case 0
  then show ?case by (simp add: years_sum_def)
next
  case (Suc k)
  then have "a < b" "k = b - Suc a" by auto
  with Suc.hyps(1) [of "Suc a"] show ?case by (auto simp: years_sum_step year_days_def)
qed

lemma years_sum_split: "a \<le> b \<Longrightarrow> b \<le> c \<Longrightarrow> years_sum a c = years_sum a b + years_sum b c"
  unfolding years_sum_def by (metis map_append sum_list_append upt_add_eq_append le_add_diff_inverse)

lemma year_mono:
  assumes "a \<le> b"
  shows "fst (days_to_ymd a) \<le> fst (days_to_ymd b)"
proof (rule ccontr)
  obtain y d y' d' where y: "ymd_year 1970 a = (y, d)" and y': "ymd_year 1970 b = (y', d')"
    by fastforce
  assume "\<not> ?thesis"
  with y y' have lt: "y' < y" by (simp add: days_to_ymd_def split: prod.splits)
  note s = ymd_year_sound [OF y] ymd_year_sound [OF y']
  have "years_sum 1970 y = years_sum 1970 y' + (year_days y' + years_sum (Suc y') y)"
    using s lt years_sum_split [of 1970 y' y] years_sum_step [OF lt] by simp
  with s assms show False by linarith
qed

lemma date_small:
  assumes "fst (days_to_ymd n) < 10000" and "days_to_ymd n = (y, m, r)"
  shows "y < 10000" "m < 100" "r < 100" "n < u64_max"
proof -
  note s = days_to_ymd_sound [OF assms(2)]
  show y: "y < 10000" using assms by simp
  show "m < 100" using s by (simp add: valid_date_def)
  have k: "m - 1 < 12" "r - 1 < month_days y ! (m - 1)" "1 \<le> r"
    using s(1) by (auto simp: valid_date_def)
  from sum_take_month_less [OF k(1,2)] have d: "sum_list (take (m - 1) (month_days y)) + (r - 1) < 367"
    by (auto simp: year_days_def split: if_splits)
  have "\<forall>x \<in> set (month_days y). x \<le> 31" by (simp add: month_days_def)
  then have "month_days y ! (m - 1) \<le> 31" using k(1) by (metis nth_mem length_month_days)
  with k show "r < 100" by linarith
  show "n < u64_max" using s(2) d years_sum_bound [of 1970 y] y by (simp add: u64_max_def)
qed

lemma ymd_of_date_str:
  assumes "y < 10000" "m < 100" "r < 100" and "suf = [] \<or> of_char (hd suf) \<notin> {128..191::nat}"
  shows "ymd_of_str (date_str (y, m, r) @ suf) y0 m0 d0 = Inr (y, m, r)"
    and "length (date_str (y, m, r)) = 10"
proof -
  define Y M R where "Y = pad0 4 (show_nat y)" and "M = pad0 2 (show_nat m)" and "R = pad0 2 (show_nat r)"
  note num = pad0_number [of 4 y] pad0_number [of 2 m] pad0_number [of 2 r]
  have len: "length Y = 4" "length M = 2" "length R = 2"
    using num assms by (simp_all add: Y_def M_def R_def)
  have p: "parse_u64 Y = Some y" "parse_u64 M = Some m" "parse_u64 R = Some r"
    using assms by (simp_all add: Y_def M_def R_def parse_pad0 u64_max_def)
  have d: "all_digits M" "all_digits R" using num assms by (simp_all add: M_def R_def)
  have str: "date_str (y, m, r) @ suf = Y @ ''-'' @ M @ ''-'' @ R @ suf"
    by (simp add: date_str_def Y_def M_def R_def)
  obtain m1 m2 where m: "M = [m1, m2]" using len(2) by (auto simp: numeral_2_eq_2 length_Suc_conv)
  obtain r1 r2 where r: "R = [r1, r2]" using len(3) by (auto simp: numeral_2_eq_2 length_Suc_conv)
  let ?s = "Y @ ''-'' @ M @ ''-'' @ R @ suf"
  have b: "is_char_boundary ?s 0" "is_char_boundary ?s 4" "is_char_boundary ?s 5" "is_char_boundary ?s 7"
    "is_char_boundary ?s 8" "is_char_boundary ?s 10"
    using len d assms(4)
    by (auto simp: is_char_boundary_def nth_append all_digits_def m r hd_conv_nth)
  have "take 4 ?s = Y" "take 2 (drop 5 ?s) = M" "take 2 (drop 8 ?s) = R"
    using len by simp_all
  with b p show "ymd_of_str (date_str (y, m, r) @ suf) y0 m0 d0 = Inr (y, m, r)"
    unfolding str ymd_of_str_def str_slice_def by simp
  show "length (date_str (y, m, r)) = 10" using len by (simp add: date_str_def Y_def M_def R_def)
qed

lemma add_days_chrono_now:
  assumes "fst (days_to_ymd (s div 86400 + n)) < 10000"
  shows "\<exists>suf. add_days_to_timestamp (chrono_now s) n =
      Inr (date_str (days_to_ymd (s div 86400 + n)) @ CHR ''T'' # suf)
    \<and> length suf = 9"
proof -
  obtain y m r where d: "days_to_ymd (s div 86400) = (y, m, r)" by (metis prod_cases3)
  have y: "fst (days_to_ymd (s div 86400)) < 10000"
    using year_mono [of "s div 86400" "s div 86400 + n"] assms by linarith
  note small = date_small [OF y d]
  have bnd: "s div 86400 + n < u64_max" using date_small(4) [OF assms] by (metis prod_cases3)
  define suf where "suf = pad0 2 (show_nat (s div 3600 mod 24)) @ '':'' @ pad0 2 (show_nat (s div 60 mod 60))
     @ '':'' @ pad0 2 (show_nat (s mod 60)) @ ''Z''"
  have now: "chrono_now s = date_str (y, m, r) @ CHR ''T'' # suf"
    by (simp add: chrono_now_def suf_def d)
  have ls: "length suf = 9"
    using pad0_number(1) [of 2 "s div 3600 mod 24"] pad0_number(1) [of 2 "s div 60 mod 60"]
      pad0_number(1) [of 2 "s mod 60"]
    by (simp add: suf_def order.strict_trans [OF mod_less_divisor])
  have ymd: "ymd_of_str (chrono_now s) a b c = Inr (y, m, r)" for a b c
    unfolding now by (rule ymd_of_date_str) (use small in auto)
  have l10: "length (date_str (y, m, r)) = 10"
    by (rule ymd_of_date_str(2) [of _ _ _ "[]"]) (use small in auto)
  have "str_slice 10 (length (chrono_now s)) (chrono_now s) = Inr (CHR ''T'' # suf)"
    unfolding now str_slice_def is_char_boundary_def using l10 by (simp add: nth_append)
  moreover have "days_from_ymd y m r = s div 86400"
    using days_from_to_ymd [OF small(4) d] .
  moreover have "length (chrono_now s) > 10" unfolding now using l10 by simp
  ultimately have "add_days_to_timestamp (chrono_now s) n =
      Inr (date_str (days_to_ymd (s div 86400 + n)) @ CHR ''T'' # suf)"
    using bnd by (simp add: add_days_to_timestamp_def ymd)
  with ls show ?thesis by blast
qed

lemma is_expired_date:
  assumes "fst (days_to_ymd n) < 10000"
  shows "is_expired (Some (date_str (days_to_ymd n) @ CHR ''T'' # suf)) t = Inr (n < t div 86400)"
proof -
  obtain y m r where d: "days_to_ymd n = (y, m, r)" by (metis prod_cases3)
  note small = date_small [OF assms d]
  have "ymd_of_str (date_str (y, m, r) @ CHR ''T'' # suf) a b c = Inr (y, m, r)" for a b c
    by (rule ymd_of_date_str) (use small in auto)
  moreover have "length (date_str (y, m, r)) = 10"
    by (rule ymd_of_date_str(2) [of _ _ _ "[]"]) (use small in auto)
  ultimately show ?thesis
    using days_from_to_ymd [OF small(4) d] by (simp add: is_expired_def d)
qed

section \<open>Timestamps never panic\<close>

definition ascii :: "string \<Rightarrow> bool" where
  "ascii s = list_all (\<lambda>c. of_char c < (128::nat)) s"

lemma ascii_simps [simp]:
  "ascii []" "ascii (c # s) \<longleftrightarrow> of_char c < (128::nat) \<and> ascii s" "ascii (s @ t) \<longleftrightarrow> ascii s \<and> ascii t"
  by (auto simp: ascii_def)

lemma ascii_pad0 [simp]: "ascii (pad0 k (show_nat n))"
proof -
  have "all_digits (show_nat n)" using show_nat_facts by blast
  then show ?thesis by (auto simp: pad0_def ascii_def all_digits_def list_all_iff)
qed

lemma ascii_boundary: "ascii s \<Longrightarrow> i \<le> length s \<Longrightarrow> is_char_boundary s i"
  by (auto simp: is_char_boundary_def ascii_def list_all_length le_less)

lemma ascii_chrono_now: "ascii (chrono_now s)"
  by (auto simp: chrono_now_def date_str_def split: prod.splits)

lemma length_pad0: "k \<le> length (pad0 k s)"
  by (simp add: pad0_def)

lemma length_chrono_now: "10 \<le> length (chrono_now s)"
proof -
  obtain y m r where d: "days_to_ymd (s div 86400) = (y, m, r)" by (metis prod_cases3)
  show ?thesis
    using length_pad0 [of 4 "show_nat y"] length_pad0 [of 2 "show_nat m"] length_pad0 [of 2 "show_nat r"]
    by (simp add: chrono_now_def date_str_def d)
qed

lemma add_days_chrono_now_ok: "is_ok (add_days_to_timestamp (chrono_now s) n)"
proof -
  note b = ascii_boundary [OF ascii_chrono_now [of s]]
  have "str_slice i j (chrono_now s) = Inr (take (j - i) (drop i (chrono_now s)))"
    if "i \<le> j" "j \<le> length (chrono_now s)" for i j
    using that b by (simp add: str_slice_def)
  then show ?thesis
    using length_chrono_now [of s]
    by (auto simp: add_days_to_timestamp_def ymd_of_str_def Let_def not_less)
qed

section \<open>Properties of the calendar\<close>

text \<open>The two date conversions are inverse to each other: every day count in the 64-bit range
  becomes a valid calendar date that converts back to it, and every valid date from 1970 on whose
  count is in range survives the round trip.\<close>

theorem calendar_roundtrip:
  "(n < u64_max \<longrightarrow> (case days_to_ymd n of (y, m, r) \<Rightarrow>
      valid_date (y, m, r) \<and> days_from_ymd y m r = n))
   \<and> (valid_date (y, m, r) \<and> y < 10000 \<longrightarrow> days_to_ymd (days_from_ymd y m r) = (y, m, r))"
proof -
  have 1: "case days_to_ymd n of (y, m, r) \<Rightarrow> valid_date (y, m, r) \<and> days_from_ymd y m r = n"
    if "n < u64_max"
    using days_from_to_ymd [OF that] days_to_ymd_sound(1) by (auto split: prod.splits)
  have 2: "days_to_ymd (days_from_ymd y m r) = (y, m, r)" if v: "valid_date (y, m, r)" and "y < 10000"
  proof -
    have k: "m - 1 < 12" "r - 1 < month_days y ! (m - 1)" using v by (auto simp: valid_date_def)
    have "sum_list (take (m - 1) (month_days y)) + (r - 1) < 367"
      using sum_take_month_less [OF k] by (auto simp: year_days_def split: if_splits)
    with years_sum_bound [of 1970 y] that(2) show ?thesis
      by (intro days_to_from_ymd [OF v]) (simp add: u64_max_def)
  qed
  from 1 2 show ?thesis by blast
qed

lemma valid_date_sample: "valid_date (2024, 2, 29)"
  by (simp add: valid_date_def month_days_def is_leap_def)

theorem calendar_roundtrip_witness:
  "valid_date (2024, 2, 29) \<and> days_to_ymd (days_from_ymd 2024 2 29) = (2024, 2, 29)"
  using calendar_roundtrip [of _ 2024 2 29] valid_date_sample by simp

text \<open>A replaced password that is to be kept for \<open>n\<close> days: the expiry timestamp computed at save
  time is found expired exactly when the clock has moved more than \<open>n\<close> days on, so the history is
  neither purged early nor kept a day too long (for expiry dates up to the year 9999).\<close>

theorem expiry_after_days:
  assumes "fst (days_to_ymd (s div 86400 + n)) < 10000"
  shows "\<exists>ts. add_days_to_timestamp (chrono_now s) n = Inr ts
    \<and> is_expired (Some ts) t = Inr (s div 86400 + n < t div 86400)"
  using add_days_chrono_now [OF assms] is_expired_date [OF assms] by blast

theorem expiry_after_days_witness:
  "fst (days_to_ymd (86400 div 86400 + 90)) < 10000 \<and>
   (\<exists>ts. add_days_to_timestamp (chrono_now 86400) 90 = Inr ts \<and> is_expired (Some ts) 0 = Inr False)"
proof -
  have "fst (days_to_ymd (86400 div 86400 + 90)) < 10000"
    by (simp add: days_to_ymd_def ymd_year.simps [of 1970] year_days_def is_leap_def month_days_def)
  with expiry_after_days [OF this, of 0] show ?thesis by auto
qed

end
