(* ===== verification/Entry_Update.thy ===== *)
theory Entry_Update
  imports Entry Dates
begin

text \<open>
  Editing entries, from \<open>rust/src/api/vault.rs\<close>: the per-field diff that stamps change times
  (\<open>changed_field_keys\<close>, \<open>item_keys\<close>), writing a field by its merge key, \<open>update_entry\<close>,
  \<open>delete_entry\<close>, the masked listing and the purge of expired history.

  The base64 crate is a parameter: \<open>b64dec\<close> decodes a string to bytes or fails. The two clock
  reads of \<open>update_entry\<close> are arguments (\<open>now_secs\<close> for the timestamp, \<open>now_ms\<close> for the
  per-field change times).

  The abstract view \<open>scalars\<close> lists an entry's scalar fields under the keys the code uses; the
  diff, the writer and later the merge are characterised through it.
\<close>

section \<open>Change detection\<close>

definition push_if :: "string \<Rightarrow> bool \<Rightarrow> string list" where
  "push_if key changed = (if changed then [key] else [])"

definition custom_key :: "string \<Rightarrow> string" where
  "custom_key label = ''custom_fields:'' @ label"

definition attachment_key :: "string \<Rightarrow> string" where
  "attachment_key uuid = ''attachments:'' @ uuid"

definition del_key :: "string \<Rightarrow> string" where
  "del_key key = ''del:'' @ key"

definition same_custom :: "CustomField \<Rightarrow> CustomField \<Rightarrow> bool" where
  "same_custom f g = (cf_value f = cf_value g \<and> cf_hidden f = cf_hidden g)"

definition same_attachment :: "EntryAttachment \<Rightarrow> EntryAttachment \<Rightarrow> bool" where
  "same_attachment a b = (at_name a = at_name b \<and> at_kind a = at_kind b \<and> at_data a = at_data b)"

definition diff_custom :: "CustomField list \<Rightarrow> CustomField list \<Rightarrow> string list" where
  "diff_custom old new = concat (map (\<lambda>nf.
     push_if (custom_key (cf_label nf))
       (\<not> (case last_by cf_label old (cf_label nf) of None \<Rightarrow> False | Some f \<Rightarrow> same_custom f nf))) new)"

definition diff_attachments :: "EntryAttachment list \<Rightarrow> EntryAttachment list \<Rightarrow> string list" where
  "diff_attachments old new = concat (map (\<lambda>na.
     push_if (attachment_key (at_uuid na))
       (\<not> (case last_by at_uuid old (at_uuid na) of None \<Rightarrow> False | Some a \<Rightarrow> same_attachment a na))) new)"

definition diff_fields ::
  "(string \<times> CustomField) list \<Rightarrow> (string \<times> CustomField) list \<Rightarrow> string list" where
  "diff_fields old new = concat (map (\<lambda>(k, nf).
     push_if (custom_key k)
       (\<not> (case ix_get old k of None \<Rightarrow> False
          | Some f \<Rightarrow> same_custom f nf \<and> cf_label f = cf_label nf))) new)"

fun changed_field_keys :: "VaultEntry \<Rightarrow> VaultEntry \<Rightarrow> string list" where
  "changed_field_keys (Login u) (Login n) =
     push_if ''title'' (le_title u \<noteq> le_title n)
     @ push_if ''url'' (le_url u \<noteq> le_url n)
     @ push_if ''username'' (le_username u \<noteq> le_username n)
     @ push_if ''password'' (le_password u \<noteq> le_password n)
     @ push_if ''notes'' (le_notes u \<noteq> le_notes n)
     @ push_if ''app_id'' (le_app_id u \<noteq> le_app_id n)
     @ push_if ''email'' (le_email u \<noteq> le_email n)
     @ diff_custom (le_custom_fields u) (le_custom_fields n)
     @ diff_attachments (le_attachments u) (le_attachments n)"
| "changed_field_keys (Note u) (Note n) =
     push_if ''title'' (ne_title u \<noteq> ne_title n)
     @ push_if ''content'' (ne_content u \<noteq> ne_content n)
     @ diff_custom (ne_custom_fields u) (ne_custom_fields n)
     @ diff_attachments (ne_attachments u) (ne_attachments n)"
| "changed_field_keys (Identity u) (Identity n) =
     push_if ''first_name'' (ie_first_name u \<noteq> ie_first_name n)
     @ push_if ''last_name'' (ie_last_name u \<noteq> ie_last_name n)
     @ push_if ''email'' (ie_email u \<noteq> ie_email n)
     @ push_if ''phone'' (ie_phone u \<noteq> ie_phone n)
     @ push_if ''address'' (ie_address u \<noteq> ie_address n)
     @ diff_custom (ie_custom_fields u) (ie_custom_fields n)
     @ diff_attachments (ie_attachments u) (ie_attachments n)"
| "changed_field_keys (Card u) (Card n) =
     push_if ''card_name'' (ce_card_name u \<noteq> ce_card_name n)
     @ push_if ''status'' (ce_status u \<noteq> ce_status n)
     @ push_if ''cardholder_name'' (ce_cardholder_name u \<noteq> ce_cardholder_name n)
     @ push_if ''card_number'' (ce_card_number u \<noteq> ce_card_number n)
     @ push_if ''expiry'' (ce_expiry u \<noteq> ce_expiry n)
     @ push_if ''cvv'' (ce_cvv u \<noteq> ce_cvv n)
     @ push_if ''credit_limit'' (ce_credit_limit u \<noteq> ce_credit_limit n)
     @ push_if ''card_account_number'' (ce_card_account_number u \<noteq> ce_card_account_number n)
     @ push_if ''payment_network'' (ce_payment_network u \<noteq> ce_payment_network n)
     @ push_if ''pin'' (ce_pin u \<noteq> ce_pin n)
     @ push_if ''bank_name'' (ce_bank_name u \<noteq> ce_bank_name n)
     @ push_if ''transaction_password'' (ce_transaction_password u \<noteq> ce_transaction_password n)
     @ push_if ''notes'' (ce_notes u \<noteq> ce_notes n)
     @ diff_custom (ce_custom_fields u) (ce_custom_fields n)
     @ diff_attachments (ce_attachments u) (ce_attachments n)"
| "changed_field_keys (File u) (File n) =
     push_if ''filename'' (fe_filename u \<noteq> fe_filename n)
     @ push_if ''data'' (fe_data u \<noteq> fe_data n)
     @ push_if ''notes'' (fe_notes u \<noteq> fe_notes n)
     @ diff_custom (fe_custom_fields u) (fe_custom_fields n)"
| "changed_field_keys (Custom u) (Custom n) =
     push_if ''title'' (xe_title u \<noteq> xe_title n)
     @ diff_fields (xe_fields u) (xe_fields n)
     @ diff_attachments (xe_attachments u) (xe_attachments n)"
| "changed_field_keys (Passkey u) (Passkey n) =
     push_if ''rp_id'' (pe_rp_id u \<noteq> pe_rp_id n)
     @ push_if ''user_name'' (pe_user_name u \<noteq> pe_user_name n)
     @ push_if ''user_display_name'' (pe_user_display_name u \<noteq> pe_user_display_name n)
     @ push_if ''notes'' (pe_notes u \<noteq> pe_notes n)
     @ push_if ''credential'' (credential_blob u \<noteq> credential_blob n)
     @ diff_custom (pe_custom_fields u) (pe_custom_fields n)"
| "changed_field_keys _ _ = []"

text \<open>The \<open>HashSet\<close> of item keys, as the list it is collected from.\<close>

fun item_keys :: "VaultEntry \<Rightarrow> string list" where
  "item_keys (Login e) = map (custom_key \<circ> cf_label) (le_custom_fields e)
     @ map (attachment_key \<circ> at_uuid) (le_attachments e)"
| "item_keys (Note e) = map (custom_key \<circ> cf_label) (ne_custom_fields e)
     @ map (attachment_key \<circ> at_uuid) (ne_attachments e)"
| "item_keys (Identity e) = map (custom_key \<circ> cf_label) (ie_custom_fields e)
     @ map (attachment_key \<circ> at_uuid) (ie_attachments e)"
| "item_keys (Card e) = map (custom_key \<circ> cf_label) (ce_custom_fields e)
     @ map (attachment_key \<circ> at_uuid) (ce_attachments e)"
| "item_keys (File e) = map (custom_key \<circ> cf_label) (fe_custom_fields e)"
| "item_keys (Custom e) = map (custom_key \<circ> fst) (xe_fields e)
     @ map (attachment_key \<circ> at_uuid) (xe_attachments e)"
| "item_keys (Passkey e) = map (custom_key \<circ> cf_label) (pe_custom_fields e)"

section \<open>Writing a field by key\<close>

fun set_entry_scalar ::
  "(string \<Rightarrow> bytes option) \<Rightarrow> string \<Rightarrow> string \<Rightarrow> VaultEntry \<Rightarrow> VaultEntry" where
  "set_entry_scalar b64dec key s (Login e) = Login (
     if key = ''title'' then e\<lparr>le_title := s\<rparr>
     else if key = ''url'' then e\<lparr>le_url := s\<rparr>
     else if key = ''username'' then e\<lparr>le_username := s\<rparr>
     else if key = ''password'' then e\<lparr>le_password := s\<rparr>
     else if key = ''notes'' then e\<lparr>le_notes := Some s\<rparr>
     else if key = ''app_id'' then e\<lparr>le_app_id := Some s\<rparr>
     else if key = ''email'' then e\<lparr>le_email := Some s\<rparr>
     else e)"
| "set_entry_scalar b64dec key s (Note e) = Note (
     if key = ''title'' then e\<lparr>ne_title := s\<rparr>
     else if key = ''content'' then e\<lparr>ne_content := s\<rparr>
     else e)"
| "set_entry_scalar b64dec key s (Identity e) = Identity (
     if key = ''first_name'' then e\<lparr>ie_first_name := s\<rparr>
     else if key = ''last_name'' then e\<lparr>ie_last_name := s\<rparr>
     else if key = ''email'' then e\<lparr>ie_email := s\<rparr>
     else if key = ''phone'' then e\<lparr>ie_phone := Some s\<rparr>
     else if key = ''address'' then e\<lparr>ie_address := Some s\<rparr>
     else e)"
| "set_entry_scalar b64dec key s (Card e) = Card (
     if key = ''card_name'' then e\<lparr>ce_card_name := Some s\<rparr>
     else if key = ''status'' then e\<lparr>ce_status := s\<rparr>
     else if key = ''cardholder_name'' then e\<lparr>ce_cardholder_name := s\<rparr>
     else if key = ''card_number'' then e\<lparr>ce_card_number := s\<rparr>
     else if key = ''expiry'' then e\<lparr>ce_expiry := s\<rparr>
     else if key = ''cvv'' then e\<lparr>ce_cvv := s\<rparr>
     else if key = ''credit_limit'' then e\<lparr>ce_credit_limit := Some s\<rparr>
     else if key = ''card_account_number'' then e\<lparr>ce_card_account_number := Some s\<rparr>
     else if key = ''payment_network'' then e\<lparr>ce_payment_network := Some s\<rparr>
     else if key = ''pin'' then e\<lparr>ce_pin := Some s\<rparr>
     else if key = ''bank_name'' then e\<lparr>ce_bank_name := Some s\<rparr>
     else if key = ''transaction_password'' then e\<lparr>ce_transaction_password := Some s\<rparr>
     else if key = ''notes'' then e\<lparr>ce_notes := Some s\<rparr>
     else e)"
| "set_entry_scalar b64dec key s (File e) = File (
     if key = ''filename'' then e\<lparr>fe_filename := s\<rparr>
     else if key = ''notes'' then e\<lparr>fe_notes := Some s\<rparr>
     else if key = ''data'' then (case b64dec s of Some bs \<Rightarrow> e\<lparr>fe_data := bs\<rparr> | None \<Rightarrow> e)
     else e)"
| "set_entry_scalar b64dec key s (Custom e) = Custom (
     if key = ''title'' then e\<lparr>xe_title := s\<rparr> else e)"
| "set_entry_scalar b64dec key s (Passkey e) = Passkey (
     if key = ''rp_id'' then e\<lparr>pe_rp_id := s\<rparr>
     else if key = ''user_name'' then e\<lparr>pe_user_name := s\<rparr>
     else if key = ''user_display_name'' then e\<lparr>pe_user_display_name := s\<rparr>
     else if key = ''notes'' then e\<lparr>pe_notes := Some s\<rparr>
     else if key = ''credential'' then
       (case b64dec s of
          Some blob \<Rightarrow> (case apply_credential_blob e blob of Inr e' \<Rightarrow> e' | Inl _ \<Rightarrow> e)
        | None \<Rightarrow> e)
     else e)"

text \<open>\<open>iter_mut().find\<close> writes the first pair with the label, or a new pair is pushed.\<close>

fun set_custom_value :: "string \<Rightarrow> string \<Rightarrow> CustomField list \<Rightarrow> CustomField list" where
  "set_custom_value label v [] = [\<lparr>cf_label = label, cf_value = v, cf_hidden = False\<rparr>]"
| "set_custom_value label v (f # fs) =
     (if cf_label f = label then f\<lparr>cf_value := v\<rparr> # fs else f # set_custom_value label v fs)"

definition set_entry_field_by_key ::
  "(string \<Rightarrow> bytes option) \<Rightarrow> string \<Rightarrow> string \<Rightarrow> VaultEntry \<Rightarrow> VaultEntry" where
  "set_entry_field_by_key b64dec key v e =
     (case strip_prefix ''custom_fields:'' key of
        Some label \<Rightarrow>
          (case e of
             Custom x \<Rightarrow> Custom (x\<lparr>xe_fields := ix_insert label
               (case ix_get (xe_fields x) label of
                  Some f \<Rightarrow> f\<lparr>cf_value := v\<rparr>
                | None \<Rightarrow> \<lparr>cf_label = label, cf_value = v, cf_hidden = False\<rparr>) (xe_fields x)\<rparr>)
           | _ \<Rightarrow>
             (case entry_custom_fields e of
                Some fs \<Rightarrow> set_custom_fields (set_custom_value label v fs) e
              | None \<Rightarrow> e))
      | None \<Rightarrow>
          if starts_with ''attachments:'' key then e else set_entry_scalar b64dec key v e)"

definition remove_entry_item_by_key :: "string \<Rightarrow> VaultEntry \<Rightarrow> VaultEntry" where
  "remove_entry_item_by_key key e =
     (case strip_prefix ''custom_fields:'' key of
        Some label \<Rightarrow>
          (case e of
             Custom x \<Rightarrow> Custom (x\<lparr>xe_fields := bt_remove label (xe_fields x)\<rparr>)
           | _ \<Rightarrow>
             (case entry_custom_fields e of
                Some fs \<Rightarrow> set_custom_fields (filter (\<lambda>f. cf_label f \<noteq> label) fs) e
              | None \<Rightarrow> e))
      | None \<Rightarrow>
          (case strip_prefix ''attachments:'' key of
             Some uuid \<Rightarrow> set_attachments (filter (\<lambda>a. at_uuid a \<noteq> uuid) (entry_attachments e)) e
           | None \<Rightarrow> e))"

section \<open>Updating and deleting entries\<close>

text \<open>What the interface never carries is taken from the stored entry.\<close>

definition restore_stored :: "VaultEntry \<Rightarrow> VaultEntry \<Rightarrow> VaultEntry" where
  "restore_stored stored updated =
     (case (stored, set_attachments (entry_attachments stored) updated) of
        (Passkey src, Passkey dst) \<Rightarrow>
          Passkey (dst\<lparr>pe_user_handle := pe_user_handle src, pe_credential_id := pe_credential_id src,
            pe_private_key := pe_private_key src, pe_public_key_cose := pe_public_key_cose src,
            pe_algorithm := pe_algorithm src\<rparr>)
      | (_, e) \<Rightarrow> e)"

definition stamp_field_times :: "VaultEntry \<Rightarrow> VaultEntry \<Rightarrow> u64 \<Rightarrow> (string \<times> u64) list" where
  "stamp_field_times old new now_ms =
     (let t0 = em_field_times (meta_of old);
          t1 = fold (\<lambda>key. bt_insert key now_ms) (changed_field_keys old new) t0;
          new_items = item_keys new;
          removed = filter (\<lambda>i. i \<notin> set new_items) (item_keys old);
          t2 = fold (\<lambda>key. bt_insert key now_ms) (map del_key removed) t1
      in fold (\<lambda>i. bt_remove (del_key i)) new_items t2)"

definition touch :: "string \<Rightarrow> EntryMeta \<Rightarrow> EntryMeta" where
  "touch now m = m\<lparr>em_updated_at := now\<rparr>"

definition snapshot_secrets ::
  "VaultEntry \<Rightarrow> VaultEntry \<Rightarrow> string \<Rightarrow> string option \<Rightarrow> VaultEntry res" where
  "snapshot_secrets old new now expires_at =
     (case new of
        Login n \<Rightarrow> (case old of
          Login u \<Rightarrow>
            (let m = touch now (le_meta n);
                 m' = (if le_password u \<noteq> le_password n
                       then record_previous m ''password'' (le_password u) now expires_at else m)
             in Inr (Login (n\<lparr>le_meta := m'\<rparr>)))
          | _ \<Rightarrow> Inl (Err ''Entry type mismatch during update''))
      | Card n \<Rightarrow> (case old of
          Card u \<Rightarrow>
            (let m = touch now (ce_meta n);
                 m' = (if ce_cvv u \<noteq> ce_cvv n
                       then record_previous m ''cvv'' (ce_cvv u) now expires_at else m);
                 m'' = (if ce_pin u \<noteq> ce_pin n
                       then record_previous m' ''pin'' (unwrap_or (ce_pin u) []) now expires_at else m')
             in Inr (Card (n\<lparr>ce_meta := m''\<rparr>)))
          | _ \<Rightarrow> Inl (Err ''Entry type mismatch during update''))
      | _ \<Rightarrow> Inr (map_meta (touch now) new))"

definition no_entry :: "string \<Rightarrow> err" where
  "no_entry i = Err (''No entry found with id: '' @ i)"

definition update_entry ::
  "VaultEntry list \<Rightarrow> VaultEntry \<Rightarrow> nat option \<Rightarrow> nat \<Rightarrow> u64 \<Rightarrow> VaultEntry list res" where
  "update_entry entries updated expiry_days now_secs now_ms =
     (case position (\<lambda>e. entry_id e = entry_id updated) entries of
        None \<Rightarrow> Inl (no_entry (entry_id updated))
      | Some pos \<Rightarrow>
          (let now = chrono_now now_secs; old = entries ! pos in
           and_then (case expiry_days of None \<Rightarrow> Inr None
               | Some days \<Rightarrow> and_then (add_days_to_timestamp now days) (\<lambda>t. Inr (Some t))) (\<lambda>expires_at.
           let u1 = restore_stored old updated;
               times = stamp_field_times old u1 now_ms;
               u2 = map_meta (\<lambda>m. m\<lparr>em_history := em_history (meta_of old)\<rparr>) u1
           in and_then (snapshot_secrets old u2 now expires_at) (\<lambda>u3.
              Inr (entries[pos := map_meta (\<lambda>m. m\<lparr>em_field_times := times\<rparr>) u3])))))"

definition delete_entry :: "VaultEntry list \<Rightarrow> string \<Rightarrow> VaultEntry list res" where
  "delete_entry entries i =
     (case position (\<lambda>e. entry_id e = i) entries of
        None \<Rightarrow> Inl (no_entry i)
      | Some pos \<Rightarrow> Inr (take pos entries @ drop (Suc pos) entries))"

section \<open>Listing and purging\<close>

definition MASKED_VALUE :: string where
  "MASKED_VALUE = ''********''"

definition mask_custom :: "CustomField \<Rightarrow> CustomField" where
  "mask_custom f = f\<lparr>cf_value := (if cf_hidden f then MASKED_VALUE else cf_value f)\<rparr>"

fun mask_entry :: "VaultEntry \<Rightarrow> VaultEntry" where
  "mask_entry (Login e) = Login (e\<lparr>le_password := MASKED_VALUE,
     le_custom_fields := map mask_custom (le_custom_fields e)\<rparr>)"
| "mask_entry (Card e) = Card (e\<lparr>ce_cvv := MASKED_VALUE\<rparr>)"
| "mask_entry (Note e) = Note (e\<lparr>ne_custom_fields := map mask_custom (ne_custom_fields e)\<rparr>)"
| "mask_entry (File e) = File (e\<lparr>fe_custom_fields := map mask_custom (fe_custom_fields e)\<rparr>)"
| "mask_entry (Identity e) = Identity e"
| "mask_entry (Custom e) = Custom e"
| "mask_entry (Passkey e) = Passkey e"

definition list_entries :: "VaultEntry list \<Rightarrow> bool \<Rightarrow> VaultEntry list" where
  "list_entries entries masked = (if \<not> masked then entries else map mask_entry entries)"

text \<open>\<open>retain\<close> with a predicate that may panic.\<close>

fun retain_unexpired :: "nat \<Rightarrow> HistoryRecord list \<Rightarrow> HistoryRecord list res" where
  "retain_unexpired now_secs [] = Inr []"
| "retain_unexpired now_secs (h # hs) =
     and_then (is_expired (hr_expires_at h) now_secs) (\<lambda>x.
     and_then (retain_unexpired now_secs hs) (\<lambda>r. Inr (if x then r else h # r)))"

definition purge_expired_history :: "nat \<Rightarrow> VaultEntry list \<Rightarrow> VaultEntry list res" where
  "purge_expired_history now_secs entries = map_res (\<lambda>e.
     and_then (retain_unexpired now_secs (em_history (meta_of e))) (\<lambda>hs.
       Inr (map_meta (\<lambda>m. m\<lparr>em_history := hs\<rparr>) e))) entries"

section \<open>The scalar fields of an entry\<close>

text \<open>The abstract view: each scalar field of an entry under its key.\<close>

datatype FieldVal = FStr string | FOpt "string option" | FBytes bytes

fun scalars :: "VaultEntry \<Rightarrow> (string \<times> FieldVal) list" where
  "scalars (Login e) = [(''title'', FStr (le_title e)), (''url'', FStr (le_url e)),
     (''username'', FStr (le_username e)), (''password'', FStr (le_password e)),
     (''notes'', FOpt (le_notes e)), (''app_id'', FOpt (le_app_id e)), (''email'', FOpt (le_email e))]"
| "scalars (Note e) = [(''title'', FStr (ne_title e)), (''content'', FStr (ne_content e))]"
| "scalars (Identity e) = [(''first_name'', FStr (ie_first_name e)), (''last_name'', FStr (ie_last_name e)),
     (''email'', FStr (ie_email e)), (''phone'', FOpt (ie_phone e)), (''address'', FOpt (ie_address e))]"
| "scalars (Card e) = [(''card_name'', FOpt (ce_card_name e)), (''status'', FStr (ce_status e)),
     (''cardholder_name'', FStr (ce_cardholder_name e)), (''card_number'', FStr (ce_card_number e)),
     (''expiry'', FStr (ce_expiry e)), (''cvv'', FStr (ce_cvv e)),
     (''credit_limit'', FOpt (ce_credit_limit e)),
     (''card_account_number'', FOpt (ce_card_account_number e)),
     (''payment_network'', FOpt (ce_payment_network e)), (''pin'', FOpt (ce_pin e)),
     (''bank_name'', FOpt (ce_bank_name e)), (''transaction_password'', FOpt (ce_transaction_password e)),
     (''notes'', FOpt (ce_notes e))]"
| "scalars (File e) = [(''filename'', FStr (fe_filename e)), (''data'', FBytes (fe_data e)),
     (''notes'', FOpt (fe_notes e))]"
| "scalars (Custom e) = [(''title'', FStr (xe_title e))]"
| "scalars (Passkey e) = [(''rp_id'', FStr (pe_rp_id e)), (''user_name'', FStr (pe_user_name e)),
     (''user_display_name'', FStr (pe_user_display_name e)), (''notes'', FOpt (pe_notes e)),
     (''credential'', FBytes (credential_blob e))]"

definition scalar_keys :: "VaultEntry \<Rightarrow> string list" where
  "scalar_keys e = map fst (scalars e)"

definition scalar_at :: "VaultEntry \<Rightarrow> string \<Rightarrow> FieldVal option" where
  "scalar_at e k = map_of (scalars e) k"

fun same_type :: "VaultEntry \<Rightarrow> VaultEntry \<Rightarrow> bool" where
  "same_type (Login _) (Login _) = True"
| "same_type (Note _) (Note _) = True"
| "same_type (Identity _) (Identity _) = True"
| "same_type (Card _) (Card _) = True"
| "same_type (File _) (File _) = True"
| "same_type (Custom _) (Custom _) = True"
| "same_type (Passkey _) (Passkey _) = True"
| "same_type _ _ = False"

definition update_compatible :: "VaultEntry \<Rightarrow> VaultEntry \<Rightarrow> bool" where
  "update_compatible old new =
     (case new of Login _ \<Rightarrow> same_type old new | Card _ \<Rightarrow> same_type old new | _ \<Rightarrow> True)"

definition replaced_secrets :: "VaultEntry \<Rightarrow> VaultEntry \<Rightarrow> (string \<times> string) list" where
  "replaced_secrets old new =
     (case (old, new) of
        (Login u, Login n) \<Rightarrow> (if le_password u \<noteq> le_password n then [(''password'', le_password u)] else [])
      | (Card u, Card n) \<Rightarrow> (if ce_cvv u \<noteq> ce_cvv n then [(''cvv'', ce_cvv u)] else [])
          @ (if ce_pin u \<noteq> ce_pin n then [(''pin'', unwrap_or (ce_pin u) [])] else [])
      | _ \<Rightarrow> [])"

text \<open>The fields whose replaced value goes to the history.\<close>

fun recorded_fields :: "VaultEntry \<Rightarrow> string set" where
  "recorded_fields (Login _) = {''password''}"
| "recorded_fields (Card _) = {''cvv'', ''pin''}"
| "recorded_fields _ = {}"

text \<open>The string a value is shown as and set from; \<open>b64enc\<close> is the encoder of the base64 crate.\<close>

fun disp :: "(bytes \<Rightarrow> string) \<Rightarrow> FieldVal \<Rightarrow> string" where
  "disp b64enc (FStr s) = s"
| "disp b64enc (FOpt s) = unwrap_or s []"
| "disp b64enc (FBytes b) = b64enc b"

text \<open>Setting a scalar to what another entry of the same type shows for it gives the field that
  entry's value, except that an absent optional value becomes an empty one.\<close>

fun present :: "FieldVal \<Rightarrow> FieldVal" where
  "present (FOpt s) = FOpt (Some (unwrap_or s []))"
| "present v = v"

definition b64_inverse :: "(bytes \<Rightarrow> string) \<Rightarrow> (string \<Rightarrow> bytes option) \<Rightarrow> bool" where
  "b64_inverse enc dec = (\<forall>b. dec (enc b) = Some b)"

fun entry_blob_wf :: "VaultEntry \<Rightarrow> bool" where
  "entry_blob_wf (Passkey p) = blob_wf p"
| "entry_blob_wf _ = True"

text \<open>A login used by the witnesses.\<close>

definition sample_meta :: "string \<Rightarrow> EntryMeta" where
  "sample_meta i = \<lparr>em_id = i, em_created_at = ''2024-01-01T00:00:00Z'',
     em_updated_at = ''2024-01-01T00:00:00Z'', em_folder = ''Personal'', em_field_times = [], em_history = []\<rparr>"

definition sample_login :: "string \<Rightarrow> string \<Rightarrow> LoginEntry" where
  "sample_login i pw = \<lparr>le_meta = sample_meta i, le_title = ''Mail'', le_url = ''mail.example'',
     le_username = ''alice'', le_password = pw, le_notes = None, le_custom_fields = [],
     le_attachments = [], le_app_id = None, le_email = None\<rparr>"

section \<open>Keys\<close>

lemma custom_key_inject [simp]: "custom_key a = custom_key b \<longleftrightarrow> a = b"
  by (simp add: custom_key_def)

lemma attachment_key_inject [simp]: "attachment_key a = attachment_key b \<longleftrightarrow> a = b"
  by (simp add: attachment_key_def)

lemma del_key_inject [simp]: "del_key a = del_key b \<longleftrightarrow> a = b"
  by (simp add: del_key_def)

lemma key_kinds_distinct [simp]:
  "custom_key a \<noteq> attachment_key b" "attachment_key b \<noteq> custom_key a"
  "custom_key a \<noteq> del_key b" "del_key b \<noteq> custom_key a"
  "attachment_key a \<noteq> del_key b" "del_key b \<noteq> attachment_key a"
  by (simp_all add: custom_key_def attachment_key_def del_key_def)

lemma set_push_if [simp]: "x \<in> set (push_if k c) \<longleftrightarrow> c \<and> x = k"
  by (auto simp: push_if_def)

lemma scalar_keys_simple:
  "k \<in> set (scalar_keys e) \<Longrightarrow> k \<noteq> custom_key l \<and> k \<noteq> attachment_key u \<and> k \<noteq> del_key d"
  by (cases e) (auto simp: scalar_keys_def custom_key_def attachment_key_def del_key_def)

lemma distinct_scalar_keys [simp]: "distinct (scalar_keys e)"
  by (cases e) (simp_all add: scalar_keys_def)

lemma same_type_scalar_keys: "same_type a b \<Longrightarrow> scalar_keys a = scalar_keys b"
  by (cases a; cases b) (simp_all add: scalar_keys_def)

lemma same_type_refl [simp]: "same_type e e"
  by (cases e) simp_all

lemma scalars_map_meta [simp]: "scalars (map_meta f e) = scalars e"
  by (cases e) (simp_all add: credential_blob_def)

lemma same_type_map_meta [simp]: "same_type (map_meta f a) b = same_type a b"
  "same_type a (map_meta f b) = same_type a b"
  by (cases a; cases b; simp)+

lemma scalars_set_attachments [simp]: "scalars (set_attachments a e) = scalars e"
  by (cases e) simp_all

lemma item_keys_map_meta [simp]: "item_keys (map_meta f e) = item_keys e"
  by (cases e) simp_all

section \<open>The diff\<close>

lemma diff_custom_keys: "k \<in> set (diff_custom u n) \<Longrightarrow> \<exists>l. k = custom_key l"
  by (auto simp: diff_custom_def)

lemma diff_attachments_keys: "k \<in> set (diff_attachments u n) \<Longrightarrow> \<exists>l. k = attachment_key l"
  by (auto simp: diff_attachments_def)

lemma diff_fields_keys: "k \<in> set (diff_fields u n) \<Longrightarrow> \<exists>l. k = custom_key l"
  by (auto simp: diff_fields_def)

lemma diff_not_scalar:
  assumes "k \<in> set (scalar_keys e)"
  shows "k \<notin> set (diff_custom u n)" "k \<notin> set (diff_attachments u' n')" "k \<notin> set (diff_fields u'' n'')"
  using scalar_keys_simple [OF assms] diff_custom_keys diff_attachments_keys diff_fields_keys by blast+

lemma changed_scalar:
  assumes "same_type e n" and "k \<in> set (scalar_keys e)"
  shows "k \<in> set (changed_field_keys e n) \<longleftrightarrow> scalar_at e k \<noteq> scalar_at n k"
  using assms diff_not_scalar [OF assms(2)]
  by (cases e; cases n) (auto simp: scalar_keys_def scalar_at_def)

lemma changed_keys_not_del: "k \<in> set (changed_field_keys e n) \<Longrightarrow> k \<noteq> del_key d"
proof -
  have c: "\<And>d u n. del_key d \<notin> set (diff_custom u n)" using diff_custom_keys by fastforce
  have a: "\<And>d u n. del_key d \<notin> set (diff_attachments u n)" using diff_attachments_keys by fastforce
  have f: "\<And>d u n. del_key d \<notin> set (diff_fields u n)" using diff_fields_keys by fastforce
  have "del_key d \<notin> set (changed_field_keys e n)"
    by (cases e; cases n) (use c a f in \<open>simp_all add: del_key_def\<close>)
  then show "k \<in> set (changed_field_keys e n) \<Longrightarrow> k \<noteq> del_key d" by auto
qed

section \<open>Change times\<close>

lemma stamp_field_times_get:
  assumes "bt_wf (em_field_times (meta_of old))"
  shows "bt_get (stamp_field_times old new t) k =
    (if k \<in> del_key ` set (item_keys new) then None
     else if k \<in> del_key ` set (item_keys old) \<or> k \<in> set (changed_field_keys old new) then Some t
     else bt_get (em_field_times (meta_of old)) k)"
  and "bt_wf (stamp_field_times old new t)"
proof -
  define t1 where "t1 = fold (\<lambda>key. bt_insert key t) (changed_field_keys old new) (em_field_times (meta_of old))"
  define rm where "rm = map del_key (filter (\<lambda>i. i \<notin> set (item_keys new)) (item_keys old))"
  define t2 where "t2 = fold (\<lambda>key. bt_insert key t) rm t1"
  have "bt_wf t1" unfolding t1_def by (rule btm.wf_fold_ins [OF assms])
  then have wf: "bt_wf t1" "bt_wf t2" unfolding t2_def by (simp_all add: btm.wf_fold_ins)
  have st: "stamp_field_times old new t = fold (\<lambda>i. bt_remove (del_key i)) (item_keys new) t2"
    by (simp add: stamp_field_times_def t1_def t2_def rm_def Let_def)
  have g: "bt_get t2 k = (if k \<in> set rm \<or> k \<in> set (changed_field_keys old new) then Some t
       else bt_get (em_field_times (meta_of old)) k)"
    using btm.get_fold_ins [OF wf(1)] btm.get_fold_ins [OF assms] by (simp add: t1_def t2_def)
  have "bt_get (stamp_field_times old new t) k =
      (if k \<in> del_key ` set (item_keys new) then None else bt_get t2 k)"
    unfolding st by (rule btm.get_fold_del [OF wf(2)])
  moreover have "k \<in> set rm \<longleftrightarrow> k \<in> del_key ` set (item_keys old)" if "k \<notin> del_key ` set (item_keys new)"
    using that by (auto simp: rm_def)
  ultimately show "bt_get (stamp_field_times old new t) k =
    (if k \<in> del_key ` set (item_keys new) then None
     else if k \<in> del_key ` set (item_keys old) \<or> k \<in> set (changed_field_keys old new) then Some t
     else bt_get (em_field_times (meta_of old)) k)" by (simp add: g)
  show "bt_wf (stamp_field_times old new t)" unfolding st by (rule btm.wf_fold_del [OF wf(2)])
qed

section \<open>The stages of an update\<close>

lemma restore_stored_facts [simp]:
  "meta_of (restore_stored old u) = meta_of u"
  "same_type (restore_stored old u) x = same_type u x"
  "same_type x (restore_stored old u) = same_type x u"
  "has_attachments (restore_stored old u) = has_attachments u"
  "entry_attachments (restore_stored old u) = (if has_attachments u then entry_attachments old else [])"
  by (cases old; cases u; cases x; simp add: restore_stored_def)+

lemma has_attachments_map_meta [simp]: "has_attachments (map_meta f e) = has_attachments e"
  by (cases e) simp_all

lemma map_meta_const [simp]: "map_meta (\<lambda>_. meta_of e) e = e"
  by (cases e) simp_all

lemma snapshot_secrets_shape:
  assumes "snapshot_secrets old new now x = Inr r"
  shows "\<exists>m. r = map_meta (\<lambda>_. m) new \<and> em_id m = em_id (meta_of new)
    \<and> em_created_at m = em_created_at (meta_of new) \<and> em_folder m = em_folder (meta_of new)
    \<and> em_updated_at m = now"
proof (cases new)
  case (Login n)
  with assms show ?thesis
    by (auto simp: snapshot_secrets_def touch_def Let_def split: VaultEntry.splits if_splits)
next
  case (Card n)
  with assms show ?thesis
    by (auto simp: snapshot_secrets_def touch_def Let_def split: VaultEntry.splits if_splits)
qed (use assms in \<open>auto simp: snapshot_secrets_def touch_def intro: exI [of _ "touch now (meta_of new)"]\<close>)

lemma snapshot_secrets_ok:
  "is_ok (snapshot_secrets old new now x) \<longleftrightarrow> update_compatible old new"
  by (cases new; cases old) (auto simp: snapshot_secrets_def update_compatible_def Let_def)

lemma history_of_cong: "em_history m = em_history m' \<Longrightarrow> history_of m f = history_of m' f"
  by (simp add: history_of_def)

lemma history_of_touch [simp]: "history_of (touch now m) f = history_of m f"
  by (simp add: history_of_def touch_def)

lemma snapshot_secrets_history:
  assumes "snapshot_secrets old new now x = Inr r"
  shows "history_of (meta_of r) f =
    (case map_of (replaced_secrets old new) f of Some v \<Rightarrow> Some v | None \<Rightarrow> history_of (meta_of new) f)"
  and "history_wf (meta_of new) \<Longrightarrow> history_wf (meta_of r)"
proof -
  have tw: "history_wf (touch now m) = history_wf m" for m by (simp add: history_wf_def touch_def)
  show "history_of (meta_of r) f =
    (case map_of (replaced_secrets old new) f of Some v \<Rightarrow> Some v | None \<Rightarrow> history_of (meta_of new) f)"
    using assms
    by (cases new; cases old)
      (auto simp: snapshot_secrets_def replaced_secrets_def Let_def history_of_record_previous)
  show "history_wf (meta_of new) \<Longrightarrow> history_wf (meta_of r)"
    using assms
    by (cases new; cases old)
      (auto simp: snapshot_secrets_def Let_def tw intro!: history_wf_record_previous)
qed

lemma replaced_secrets_restore [simp]: "replaced_secrets old (restore_stored old u) = replaced_secrets old u"
  by (cases old; cases u) (simp_all add: replaced_secrets_def restore_stored_def)

lemma replaced_secrets_map_meta [simp]: "replaced_secrets old (map_meta f u) = replaced_secrets old u"
  by (cases old; cases u) (simp_all add: replaced_secrets_def)

lemma update_compatible_simps [simp]:
  "update_compatible old (map_meta f u) = update_compatible old u"
  "update_compatible old (restore_stored old u) = update_compatible old u"
  by (cases old; cases u; simp add: update_compatible_def restore_stored_def)+

text \<open>One description of a successful update, from which the properties are read off.\<close>

lemma update_entry_Inr:
  assumes "update_entry entries updated days s ms = Inr es"
  obtains pos m r where "position (\<lambda>e. entry_id e = entry_id updated) entries = Some pos"
    and "r = map_meta (\<lambda>_. m) (restore_stored (entries ! pos) updated)"
    and "es = entries[pos := r]"
    and "em_id m = entry_id updated" and "em_created_at m = em_created_at (meta_of updated)"
    and "em_folder m = em_folder (meta_of updated)" and "em_updated_at m = chrono_now s"
    and "em_field_times m = stamp_field_times (entries ! pos) (restore_stored (entries ! pos) updated) ms"
    and "\<And>f. history_of m f = (case map_of (replaced_secrets (entries ! pos) updated) f of Some v \<Rightarrow> Some v
          | None \<Rightarrow> history_of (meta_of (entries ! pos)) f)"
    and "history_wf (meta_of (entries ! pos)) \<Longrightarrow> history_wf m"
    and "update_compatible (entries ! pos) updated"
proof -
  from assms obtain pos where pos: "position (\<lambda>e. entry_id e = entry_id updated) entries = Some pos"
    by (auto simp: update_entry_def split: option.splits)
  define old u1 u2 where "old = entries ! pos" and "u1 = restore_stored old updated"
    and "u2 = map_meta (\<lambda>m. m\<lparr>em_history := em_history (meta_of old)\<rparr>) u1"
  from assms obtain x u3 where snap: "snapshot_secrets old u2 (chrono_now s) x = Inr u3"
    and es: "es = entries[pos := map_meta (\<lambda>m. m\<lparr>em_field_times := stamp_field_times old u1 ms\<rparr>) u3]"
    by (auto simp: update_entry_def pos and_then_Inr Let_def old_def u1_def u2_def)
  obtain m where u3: "u3 = map_meta (\<lambda>_. m) u2" and m: "em_id m = em_id (meta_of u2)"
     "em_created_at m = em_created_at (meta_of u2)" "em_folder m = em_folder (meta_of u2)"
     "em_updated_at m = chrono_now s"
    using snapshot_secrets_shape [OF snap] by blast
  have h: "history_of (meta_of u2) f = history_of (meta_of old) f" for f
    by (simp add: u2_def history_of_def)
  have hw: "history_wf (meta_of u2) = history_wf (meta_of old)" by (simp add: u2_def history_wf_def)
  let ?m = "m\<lparr>em_field_times := stamp_field_times old u1 ms\<rparr>"
  show ?thesis
  proof (rule that [OF pos, of "map_meta (\<lambda>_. ?m) (restore_stored (entries ! pos) updated)" ?m])
    show "es = entries[pos := map_meta (\<lambda>_. ?m) (restore_stored (entries ! pos) updated)]"
      by (simp add: es u3 u2_def u1_def old_def o_def)
    show "history_of ?m f = (case map_of (replaced_secrets (entries ! pos) updated) f of Some v \<Rightarrow> Some v
          | None \<Rightarrow> history_of (meta_of (entries ! pos)) f)" for f
    proof -
      have "history_of ?m f = history_of (meta_of u3) f" by (simp add: u3 history_of_def)
      moreover have "replaced_secrets old u2 = replaced_secrets (entries ! pos) updated"
        by (simp add: u2_def u1_def old_def)
      ultimately show ?thesis using snapshot_secrets_history(1) [OF snap, of f]
        by (simp add: h old_def split: option.split)
    qed
    show "history_wf ?m" if "history_wf (meta_of (entries ! pos))"
    proof -
      have "history_wf ?m = history_wf (meta_of u3)" by (simp add: u3 history_wf_def)
      then show ?thesis using snapshot_secrets_history(2) [OF snap] that by (simp add: hw old_def)
    qed
    show "update_compatible (entries ! pos) updated"
      using snapshot_secrets_ok [of old u2 "chrono_now s" x] snap by (simp add: u2_def u1_def old_def)
  qed (use m in \<open>simp_all add: u2_def u1_def old_def entry_id_def\<close>)
qed


section \<open>Writing by key\<close>

lemma meta_of_set_entry_scalar [simp]: "meta_of (set_entry_scalar d k v e) = meta_of e"
proof (cases e)
  case (Passkey p)
  have "pe_meta q = pe_meta p" if "apply_credential_blob p b = Inr q" for b q
    using that by (auto simp: apply_credential_blob_def and_then_Inr split: if_splits)
  with Passkey show ?thesis by (auto split: option.splits sum.splits)
qed (auto split: option.splits)

lemma meta_of_set_entry_field [simp]: "meta_of (set_entry_field_by_key d k v e) = meta_of e"
  by (cases e) (auto simp: set_entry_field_by_key_def simp del: set_entry_scalar.simps split: option.splits)

lemma meta_of_remove_item [simp]: "meta_of (remove_entry_item_by_key k e) = meta_of e"
  by (cases e) (auto simp: remove_entry_item_by_key_def split: option.splits)

lemma strip_prefix_scalar_key:
  "k \<in> set (scalar_keys e) \<Longrightarrow> strip_prefix ''custom_fields:'' k = None \<and> \<not> starts_with ''attachments:'' k"
  by (cases e) (auto simp: scalar_keys_def strip_prefix_def starts_with_def)

lemma scalar_at_key: "scalar_at e k = Some v \<Longrightarrow> k \<in> set (scalar_keys e)"
  by (auto simp: scalar_at_def scalar_keys_def dest!: map_of_SomeD intro: image_eqI [rotated])

lemma apply_credential_blob_frame:
  "apply_credential_blob p b = Inr q \<Longrightarrow> pe_rp_id q = pe_rp_id p \<and> pe_user_name q = pe_user_name p
     \<and> pe_notes q = pe_notes p \<and> pe_user_display_name q = pe_user_display_name p
     \<and> pe_custom_fields q = pe_custom_fields p \<and> pe_meta q = pe_meta p"
  by (auto simp: apply_credential_blob_def and_then_Inr split: if_splits)

lemma scalar_at_set_entry_scalar_frame:
  assumes "k \<in> set (scalar_keys e)" and "k' \<noteq> k"
  shows "scalar_at (set_entry_scalar d k v e) k' = scalar_at e k'"
proof (cases e)
  case (Passkey p)
  from Passkey assms show ?thesis
    by (auto simp: scalar_keys_def scalar_at_def credential_blob_def
        dest!: apply_credential_blob_frame split: option.splits sum.splits)
next
  case (Card c)
  with assms(1) have "k \<in> set (scalar_keys (Card c))" by simp
  then show ?thesis using assms(2) unfolding Card scalar_keys_def scalar_at_def scalars.simps
    by (simp only: list.map fst_conv set_simps insert_iff empty_iff) (elim disjE; simp)
qed (use assms in \<open>auto simp: scalar_keys_def scalar_at_def split: option.splits\<close>)

lemma scalar_at_set_passkey:
  assumes "b64_inverse enc dec" and "blob_wf p'" and "k \<in> set (scalar_keys (Passkey p'))"
  shows "scalar_at (set_entry_scalar dec k (disp enc (the (scalar_at (Passkey p') k))) (Passkey p)) k
    = Some (present (the (scalar_at (Passkey p') k)))"
proof -
  obtain q where q: "apply_credential_blob p (credential_blob p') = Inr q"
    using assms(2) by (simp add: apply_credential_blob_Inr)
  have blob: "credential_blob q = credential_blob p'"
    using apply_credential_blob_inverse [OF q] by simp
  have dec: "dec (enc b) = Some b" for b using assms(1) by (simp add: b64_inverse_def)
  show ?thesis using assms(3) unfolding scalar_keys_def scalar_at_def scalars.simps
    by (simp only: list.map fst_conv set_simps insert_iff empty_iff) (elim disjE; simp add: dec q blob)
qed

lemma scalar_at_set_other:
  assumes "b64_inverse enc dec" and "same_type e e'" and "k \<in> set (scalar_keys e')"
    and "\<nexists>p. e = Passkey p"
  shows "scalar_at (set_entry_scalar dec k (disp enc (the (scalar_at e' k))) e) k
    = Some (present (the (scalar_at e' k)))"
proof -
  have dec: "dec (enc b) = Some b" for b using assms(1) by (simp add: b64_inverse_def)
  from assms(2,4,3) show ?thesis
    unfolding scalar_keys_def scalar_at_def
    apply (cases e; cases e'; simp only: same_type.simps scalars.simps list.map fst_conv set_simps
        insert_iff empty_iff simp_thms)
    apply ((elim disjE)?; simp add: dec)+
    done
qed

lemma scalar_at_set_entry_scalar:
  assumes "b64_inverse enc dec" and "same_type e e'" and "entry_blob_wf e'"
    and "scalar_at e' k = Some v"
  shows "scalar_at (set_entry_scalar dec k (disp enc v) e) k = Some (present v)"
proof (cases e)
  case (Passkey p)
  with assms(2) obtain p' where "e' = Passkey p'" by (cases e') auto
  with Passkey show ?thesis
    using scalar_at_set_passkey [OF assms(1), of p' k] scalar_at_key [OF assms(4)] assms(3,4)
    by (simp del: set_entry_scalar.simps)
qed (use scalar_at_set_other [OF assms(1,2) scalar_at_key [OF assms(4)]] assms(4) in \<open>simp_all del: set_entry_scalar.simps\<close>)

section \<open>Properties of editing\<close>

lemma scalar_at_restore_stored:
  "k \<noteq> ''credential'' \<Longrightarrow> scalar_at (restore_stored old u) k = scalar_at u k"
  "same_type old u \<Longrightarrow> scalar_at (restore_stored old u) ''credential'' = scalar_at old ''credential''"
  by (cases old; cases u; simp add: scalar_at_def restore_stored_def credential_blob_def)+

lemma update_entry_ok:
  "(is_ok (update_entry entries updated days s ms) \<longleftrightarrow>
      (\<exists>pos. position (\<lambda>e. entry_id e = entry_id updated) entries = Some pos
         \<and> update_compatible (entries ! pos) updated))
   \<and> update_entry entries updated days s ms \<noteq> Inl Panic"
proof (cases "position (\<lambda>e. entry_id e = entry_id updated) entries")
  case None
  then show ?thesis by (simp add: update_entry_def no_entry_def)
next
  case (Some pos)
  define old u2 where "old = entries ! pos"
    and "u2 = map_meta (\<lambda>m. m\<lparr>em_history := em_history (meta_of old)\<rparr>) (restore_stored old updated)"
  have "\<exists>x. (case days of None \<Rightarrow> Inr None
      | Some d \<Rightarrow> and_then (add_days_to_timestamp (chrono_now s) d) (\<lambda>t. Inr (Some t))) = Inr x"
  proof (cases days)
    case (Some d)
    from add_days_chrono_now_ok [of s d] obtain t where "add_days_to_timestamp (chrono_now s) d = Inr t"
      unfolding is_ok_iff ..
    with Some show ?thesis by simp
  qed simp
  then obtain x where x: "(case days of None \<Rightarrow> Inr None
      | Some d \<Rightarrow> and_then (add_days_to_timestamp (chrono_now s) d) (\<lambda>t. Inr (Some t))) = Inr x" ..
  have "snapshot_secrets old u2 (chrono_now s) x \<noteq> Inl Panic"
    by (cases u2; cases old) (simp_all add: snapshot_secrets_def Let_def)
  moreover have "is_ok (snapshot_secrets old u2 (chrono_now s) x) = update_compatible old updated"
    by (simp add: snapshot_secrets_ok u2_def)
  ultimately show ?thesis
    by (cases "snapshot_secrets old u2 (chrono_now s) x")
      (simp_all add: update_entry_def Some Let_def x u2_def old_def)
qed

text \<open>Saving an edited entry replaces exactly the first entry with that id and no other. The
  stored result has the edited values of every scalar field, the attachments and (for a passkey)
  the key material of the stored entry, whatever the caller passed for them, and the edit time.\<close>

theorem update_entry_effect:
  assumes "update_entry entries updated days s ms = Inr es"
  shows "\<exists>pos r. position (\<lambda>e. entry_id e = entry_id updated) entries = Some pos
    \<and> es = entries[pos := r] \<and> same_type r updated \<and> entry_id r = entry_id updated
    \<and> em_updated_at (meta_of r) = chrono_now s
    \<and> entry_attachments r = (if has_attachments updated then entry_attachments (entries ! pos) else [])
    \<and> (\<forall>k. k \<noteq> ''credential'' \<longrightarrow> scalar_at r k = scalar_at updated k)
    \<and> (same_type (entries ! pos) updated \<longrightarrow>
        scalar_at r ''credential'' = scalar_at (entries ! pos) ''credential'')"
  apply (rule update_entry_Inr [OF assms])
  apply (intro exI conjI, assumption, assumption)
  apply (simp_all add: scalar_at_restore_stored entry_id_def scalar_at_def [of "map_meta _ _"]
      scalar_at_def [symmetric])
  done

lemma sample_update:
  "\<exists>es. update_entry [Login (sample_login ''1'' ''old'')] (Login (sample_login ''1'' ''new''))
    (Some 90) 1700000000 5 = Inr es"
proof -
  have "position (\<lambda>e. entry_id e = entry_id (Login (sample_login ''1'' ''new'')))
      [Login (sample_login ''1'' ''old'')] = Some 0"
    by (simp add: entry_id_def sample_login_def sample_meta_def)
  moreover have "update_compatible ([Login (sample_login ''1'' ''old'')] ! 0) (Login (sample_login ''1'' ''new''))"
    by (simp add: update_compatible_def)
  ultimately show ?thesis using update_entry_ok unfolding is_ok_iff by blast
qed

theorem update_entry_effect_witness:
  "\<exists>es. update_entry [Login (sample_login ''1'' ''old'')] (Login (sample_login ''1'' ''new''))
      (Some 90) 1700000000 5 = Inr es \<and> scalar_at (es ! 0) ''password'' = Some (FStr ''new'')"
proof -
  obtain es where es: "update_entry [Login (sample_login ''1'' ''old'')] (Login (sample_login ''1'' ''new''))
      (Some 90) 1700000000 5 = Inr es" using sample_update by blast
  from update_entry_effect [OF es] have "scalar_at (es ! 0) ''password'' = Some (FStr ''new'')"
    by (auto simp: entry_id_def sample_login_def sample_meta_def scalar_at_def)
  with es show ?thesis by blast
qed

text \<open>Every field that changed is stamped with the time of the save, a removed custom field or
  attachment leaves a deletion mark with that time, an item that is present has no deletion mark, and
  all other stamps are those of the stored entry. In particular a scalar field is stamped
  exactly when its value changed.\<close>

theorem update_stamps_changes:
  assumes "update_entry entries updated days s ms = Inr es"
    and "list_all (\<lambda>e. bt_wf (em_field_times (meta_of e))) entries"
  shows "\<exists>pos old r. position (\<lambda>e. entry_id e = entry_id updated) entries = Some pos
    \<and> old = entries ! pos \<and> r = es ! pos \<and> bt_wf (em_field_times (meta_of r))
    \<and> (\<forall>k. bt_get (em_field_times (meta_of r)) k =
         (if k \<in> del_key ` set (item_keys r) then None
          else if k \<in> del_key ` set (item_keys old) \<or> k \<in> set (changed_field_keys old r) then Some ms
          else bt_get (em_field_times (meta_of old)) k))
    \<and> (\<forall>k \<in> set (scalar_keys old). same_type old updated \<longrightarrow>
         (bt_get (em_field_times (meta_of r)) k = (if scalar_at old k \<noteq> scalar_at r k then Some ms
            else bt_get (em_field_times (meta_of old)) k)))"
proof -
  from assms(1) obtain pos m r where pos: "position (\<lambda>e. entry_id e = entry_id updated) entries = Some pos"
    and r: "r = map_meta (\<lambda>_. m) (restore_stored (entries ! pos) updated)" and es: "es = entries[pos := r]"
    and t: "em_field_times m = stamp_field_times (entries ! pos) (restore_stored (entries ! pos) updated) ms"
    by (rule update_entry_Inr) blast
  from pos have lt: "pos < length entries" by (simp add: position_Some)
  define old where "old = entries ! pos"
  have wf: "bt_wf (em_field_times (meta_of old))"
    using assms(2) lt by (simp add: list_all_length old_def)
  have ck: "changed_field_keys old (map_meta f u) = changed_field_keys old u" for f u
    by (cases old; cases u) (simp_all add: credential_blob_def)
  have "stamp_field_times old (map_meta f u) ms = stamp_field_times old u ms" for f u
    by (simp add: stamp_field_times_def ck)
  then have times: "em_field_times (meta_of r) = stamp_field_times old r ms"
    using t by (simp add: r old_def)
  note get = stamp_field_times_get [OF wf, of r ms, folded times]
  have sc: "bt_get (em_field_times (meta_of r)) k = (if scalar_at old k \<noteq> scalar_at r k then Some ms
            else bt_get (em_field_times (meta_of old)) k)"
    if "k \<in> set (scalar_keys old)" "same_type old updated" for k
  proof -
    have "same_type old r" using that(2) by (simp add: r)
    with that get(1) [of k] scalar_keys_simple [OF that(1)] show ?thesis
      by (auto simp: changed_scalar)
  qed
  show ?thesis
    using pos lt get sc by (intro exI [of _ pos] exI [of _ old] exI [of _ r]) (auto simp: old_def es)
qed

theorem update_stamps_changes_witness:
  "\<exists>es. update_entry [Login (sample_login ''1'' ''old'')] (Login (sample_login ''1'' ''new''))
      (Some 90) 1700000000 5 = Inr es \<and> bt_get (em_field_times (meta_of (es ! 0))) ''title'' = None"
proof -
  obtain es where es: "update_entry [Login (sample_login ''1'' ''old'')] (Login (sample_login ''1'' ''new''))
      (Some 90) 1700000000 5 = Inr es" using sample_update by blast
  have wf: "list_all (\<lambda>e. bt_wf (em_field_times (meta_of e))) [Login (sample_login ''1'' ''old'')]"
    by (simp add: sample_login_def sample_meta_def bt_wf_def)
  have sc: "scalar_at (es ! 0) ''title'' = Some (FStr ''Mail'')"
    by (rule update_entry_Inr [OF es])
      (auto simp: scalar_at_restore_stored sample_login_def sample_meta_def scalar_at_def entry_id_def
        restore_stored_def)
  have pos: "position (\<lambda>e. entry_id e = entry_id (Login (sample_login ''1'' ''new'')))
      [Login (sample_login ''1'' ''old'')] = Some 0"
    by (simp add: entry_id_def sample_login_def sample_meta_def)
  let ?old = "Login (sample_login ''1'' ''old'')"
  from update_stamps_changes [OF es wf] obtain p u r where
    p: "position (\<lambda>e. entry_id e = entry_id (Login (sample_login ''1'' ''new''))) [?old] = Some p"
    and u: "u = [?old] ! p" and r: "r = es ! p"
    and all: "\<forall>k \<in> set (scalar_keys u). same_type u (Login (sample_login ''1'' ''new'')) \<longrightarrow>
      bt_get (em_field_times (meta_of r)) k =
      (if scalar_at u k \<noteq> scalar_at r k then Some 5 else bt_get (em_field_times (meta_of u)) k)"
    by blast
  from p pos have "p = 0" by simp
  with all have "\<forall>k \<in> set (scalar_keys ?old). bt_get (em_field_times (meta_of (es ! 0))) k =
      (if scalar_at ?old k \<noteq> scalar_at (es ! 0) k then Some 5 else bt_get (em_field_times (meta_of ?old)) k)"
    by (simp add: u r)
  then have "bt_get (em_field_times (meta_of (es ! 0))) ''title'' =
      (if scalar_at ?old ''title'' \<noteq> scalar_at (es ! 0) ''title'' then Some 5
       else bt_get (em_field_times (meta_of ?old)) ''title'')"
    by (rule bspec) (simp add: scalar_keys_def)
  then have "bt_get (em_field_times (meta_of (es ! 0))) ''title'' = None"
    unfolding sc by (simp add: scalar_at_def sample_login_def sample_meta_def bt_get_def)
  with es show ?thesis by blast
qed

lemma replaced_secrets_fields:
  "map_of (replaced_secrets old new) f =
     (if same_type old new \<and> f \<in> recorded_fields old \<and> scalar_at new f \<noteq> scalar_at old f
      then map_option (disp b) (scalar_at old f) else None)"
  by (cases old; cases new) (auto simp: replaced_secrets_def scalar_at_def)

text \<open>C10. An edit keeps the secret it replaces: when an update changes the password of a login, or the CVV or PIN of a card, to another
  value in an entry of the same type, the old value is in the entry's history afterwards under its field; the history of every
  other field is untouched, the history still has one record per field, and the other entries stay as they were. No other
  field is recorded, a card's transaction password and hidden custom fields included, and nothing is when the update replaces the
  entry by one of another type.\<close>

theorem update_keeps_replaced_secrets:
  assumes "update_entry entries updated days s ms = Inr es"
    and "list_all (\<lambda>e. history_wf (meta_of e)) entries"
  shows "\<exists>pos. position (\<lambda>e. entry_id e = entry_id updated) entries = Some pos
    \<and> history_wf (meta_of (es ! pos))
    \<and> (\<forall>f. history_of (meta_of (es ! pos)) f =
         (if same_type (entries ! pos) updated \<and> f \<in> recorded_fields (entries ! pos)
             \<and> scalar_at updated f \<noteq> scalar_at (entries ! pos) f
          then map_option (disp (\<lambda>_. [])) (scalar_at (entries ! pos) f)
          else history_of (meta_of (entries ! pos)) f))
    \<and> (\<forall>n < length entries. n \<noteq> pos \<longrightarrow> es ! n = entries ! n)"
proof -
  from assms(1) obtain pos m r where pos: "position (\<lambda>e. entry_id e = entry_id updated) entries = Some pos"
    and r: "r = map_meta (\<lambda>_. m) (restore_stored (entries ! pos) updated)" and es: "es = entries[pos := r]"
    and h: "\<And>f. history_of m f = (case map_of (replaced_secrets (entries ! pos) updated) f of
          Some v \<Rightarrow> Some v | None \<Rightarrow> history_of (meta_of (entries ! pos)) f)"
    and hw: "history_wf (meta_of (entries ! pos)) \<Longrightarrow> history_wf m"
    by (rule update_entry_Inr) blast
  have some: "f \<in> recorded_fields e \<Longrightarrow> \<exists>v. scalar_at e f = Some v" for e f
    by (cases e) (auto simp: scalar_at_def)
  have hf: "history_of m f = (if same_type (entries ! pos) updated \<and> f \<in> recorded_fields (entries ! pos)
             \<and> scalar_at updated f \<noteq> scalar_at (entries ! pos) f
          then map_option (disp (\<lambda>_. [])) (scalar_at (entries ! pos) f)
          else history_of (meta_of (entries ! pos)) f)" for f
    using some [of f "entries ! pos"] by (auto simp: h replaced_secrets_fields [where b = "\<lambda>_. []"])
  from pos have "pos < length entries" by (simp add: position_Some)
  with pos hf hw assms(2) show ?thesis by (simp add: es r list_all_length)
qed

theorem update_keeps_replaced_secrets_witness:
  "\<exists>es. update_entry [Login (sample_login ''1'' ''old'')] (Login (sample_login ''1'' ''new''))
      (Some 90) 1700000000 5 = Inr es \<and> history_of (meta_of (es ! 0)) ''password'' = Some ''old''"
proof -
  obtain es where es: "update_entry [Login (sample_login ''1'' ''old'')] (Login (sample_login ''1'' ''new''))
      (Some 90) 1700000000 5 = Inr es" using sample_update by blast
  have wf: "list_all (\<lambda>e. history_wf (meta_of e)) [Login (sample_login ''1'' ''old'')]"
    by (simp add: sample_login_def sample_meta_def history_wf_def)
  from update_keeps_replaced_secrets [OF es wf]
  have "history_of (meta_of (es ! 0)) ''password'' = Some ''old''"
    by (auto simp: entry_id_def sample_login_def sample_meta_def scalar_at_def)
  with es show ?thesis by blast
qed

text \<open>When an update is refused: exactly when no entry has the id, or when a login or card is to
  replace an entry of another type. It never panics.\<close>

theorem update_entry_ok_iff:
  "(is_ok (update_entry entries updated days s ms) \<longleftrightarrow>
      (\<exists>pos. position (\<lambda>e. entry_id e = entry_id updated) entries = Some pos
         \<and> update_compatible (entries ! pos) updated))
   \<and> update_entry entries updated days s ms \<noteq> Inl Panic"
  by (rule update_entry_ok)

end
