(* ===== verification/Merge.thy ===== *)
theory Merge
  imports Entry_Update
begin

text \<open>
  The field-level merge of two copies of one entry, \<open>merge_entry_pair\<close> of
  \<open>rust/src/vault/session.rs\<close>. \<open>FieldMerger\<close> is threaded through the calls in the order the
  source makes them; it collects the merged change times, the clashes, the pending item
  deletions and the values brought over.

  A \<open>HashMap\<close> from label (uuid) to item, collected from a list, is \<open>last_by\<close>. The branch the
  source marks unreachable (an item found on neither side) keeps the state unchanged here;
  \<open>item_on_some_side\<close> shows that it is never taken.

  Shown: what each scalar field becomes and what is recorded about it; no label and no uuid is
  lost; identity of the entry and its metadata; when the merge changes nothing.
\<close>

section \<open>Decisions\<close>

datatype Side = Local | Incoming

definition merged_stamp :: "u64 option \<Rightarrow> u64 option \<Rightarrow> u64 option" where
  "merged_stamp lt it =
     (case (lt, it) of
        (Some l, Some i) \<Rightarrow> Some (max l i)
      | (Some l, None) \<Rightarrow> Some l
      | (None, Some i) \<Rightarrow> Some i
      | (None, None) \<Rightarrow> None)"

definition decide_field ::
  "u64 option \<Rightarrow> u64 option \<Rightarrow> string \<Rightarrow> string \<Rightarrow> bool \<Rightarrow> Side \<times> u64 option \<times> bool" where
  "decide_field lt it l_updated i_updated values_equal =
     (if values_equal then (Local, merged_stamp lt it, False)
      else case (lt, it) of
        (Some _, Some _) \<Rightarrow> (Local, merged_stamp lt it, True)
      | (Some _, None) \<Rightarrow> (Local, merged_stamp lt it, False)
      | (None, Some _) \<Rightarrow> (Incoming, merged_stamp lt it, False)
      | (None, None) \<Rightarrow>
          if l_updated < i_updated then (Incoming, None, False)
          else if i_updated < l_updated then (Local, None, False)
          else (Local, None, True))"

section \<open>The merger\<close>

record FieldConflictItem =
  fci_id :: string
  fci_title :: string
  fci_field :: string
  fci_local_value :: string
  fci_incoming_value :: string

record PendingItemDeleteItem =
  pid_id :: string
  pid_title :: string
  pid_field :: string
  pid_label :: string

record BroughtOverItem =
  bo_id :: string
  bo_title :: string
  bo_field :: string
  bo_old_value :: string
  bo_new_value :: string

record FieldMerger =
  fm_id :: string
  fm_title :: string
  fm_lm :: EntryMeta
  fm_im :: EntryMeta
  fm_times :: "(string \<times> u64) list"
  fm_conflicts :: "FieldConflictItem list"
  fm_pending :: "PendingItemDeleteItem list"
  fm_brought_over :: "BroughtOverItem list"

definition FieldMerger_new :: "EntryMeta \<Rightarrow> EntryMeta \<Rightarrow> string \<Rightarrow> FieldMerger" where
  "FieldMerger_new lm im title = \<lparr>fm_id = em_id lm, fm_title = title, fm_lm = lm, fm_im = im,
     fm_times = [], fm_conflicts = [], fm_pending = [], fm_brought_over = []\<rparr>"

definition record_brought_over :: "string \<Rightarrow> string \<Rightarrow> string \<Rightarrow> FieldMerger \<Rightarrow> FieldMerger" where
  "record_brought_over key old new m = m\<lparr>fm_brought_over := fm_brought_over m @
     [\<lparr>bo_id = fm_id m, bo_title = fm_title m, bo_field = key, bo_old_value = old, bo_new_value = new\<rparr>]\<rparr>"

definition record_stamp :: "string \<Rightarrow> u64 option \<Rightarrow> FieldMerger \<Rightarrow> FieldMerger" where
  "record_stamp key ts m = (case ts of None \<Rightarrow> m | Some t \<Rightarrow> m\<lparr>fm_times := bt_insert key t (fm_times m)\<rparr>)"

definition decide ::
  "string \<Rightarrow> bool \<Rightarrow> string \<Rightarrow> string \<Rightarrow> FieldMerger \<Rightarrow> Side \<times> FieldMerger" where
  "decide key equal l_disp i_disp m =
     (let lt = bt_get (em_field_times (fm_lm m)) key;
          it = bt_get (em_field_times (fm_im m)) key;
          (side, ts, clash) = decide_field lt it (em_updated_at (fm_lm m)) (em_updated_at (fm_im m)) equal;
          m1 = record_stamp key ts m;
          m2 = (if clash
                then m1\<lparr>fm_conflicts := fm_conflicts m1 @
                  [\<lparr>fci_id = fm_id m, fci_title = fm_title m, fci_field = key,
                    fci_local_value = l_disp, fci_incoming_value = i_disp\<rparr>]\<rparr>
                else if side = Incoming then record_brought_over key l_disp i_disp m1
                else m1)
      in (side, m2))"

definition pick_str :: "string \<Rightarrow> string \<Rightarrow> string \<Rightarrow> FieldMerger \<Rightarrow> string \<times> FieldMerger" where
  "pick_str key lv iv m =
     (case decide key (lv = iv) lv iv m of (Local, m') \<Rightarrow> (lv, m') | (Incoming, m') \<Rightarrow> (iv, m'))"

definition pick_opt ::
  "string \<Rightarrow> string option \<Rightarrow> string option \<Rightarrow> FieldMerger \<Rightarrow> string option \<times> FieldMerger" where
  "pick_opt key lv iv m =
     (case decide key (lv = iv) (unwrap_or lv []) (unwrap_or iv []) m of
        (Local, m') \<Rightarrow> (lv, m') | (Incoming, m') \<Rightarrow> (iv, m'))"

definition carry_one_sided :: "string \<Rightarrow> bool \<Rightarrow> FieldMerger \<Rightarrow> FieldMerger" where
  "carry_one_sided key from_incoming m =
     record_stamp key (bt_get (em_field_times (if from_incoming then fm_im m else fm_lm m)) key) m"

definition carry_or_flag_delete :: "string \<Rightarrow> string \<Rightarrow> bool \<Rightarrow> FieldMerger \<Rightarrow> bool \<times> FieldMerger" where
  "carry_or_flag_delete key label present_on_incoming m =
     (let present_meta = (if present_on_incoming then fm_im m else fm_lm m);
          other_meta = (if present_on_incoming then fm_lm m else fm_im m);
          item_ts = unwrap_or (bt_get (em_field_times present_meta) key) 0;
          flagged = (case bt_get (em_field_times other_meta) (del_key key) of
                       None \<Rightarrow> False | Some del_ts \<Rightarrow> item_ts < del_ts);
          m1 = (if flagged then m\<lparr>fm_pending := fm_pending m @
                  [\<lparr>pid_id = fm_id m, pid_title = fm_title m, pid_field = key, pid_label = label\<rparr>]\<rparr> else m)
      in (flagged, carry_one_sided key present_on_incoming m1))"

section \<open>Items\<close>

text \<open>
  One item under its key: \<open>eq\<close> compares the two copies, \<open>shown\<close> is what a clash or a brought-over
  record shows, \<open>label\<close> what a deletion prompt shows. This is the \<open>match\<close> of \<open>merge_custom\<close>,
  \<open>merge_attachments\<close> and the Custom branch, with its four arms.
\<close>

definition merge_item ::
  "('a \<Rightarrow> 'a \<Rightarrow> bool) \<Rightarrow> ('a \<Rightarrow> string) \<Rightarrow> ('a \<Rightarrow> string) \<Rightarrow> string \<Rightarrow> 'a option \<Rightarrow> 'a option
    \<Rightarrow> FieldMerger \<Rightarrow> 'a option \<times> FieldMerger" where
  "merge_item eq shown label key l i m =
     (case (l, i) of
        (Some lf, Some incf) \<Rightarrow>
          (case decide key (eq lf incf) (shown lf) (shown incf) m of
             (Local, m') \<Rightarrow> (Some lf, m') | (Incoming, m') \<Rightarrow> (Some incf, m'))
      | (Some lf, None) \<Rightarrow> (Some lf, snd (carry_or_flag_delete key (label lf) False m))
      | (None, Some incf) \<Rightarrow>
          (case carry_or_flag_delete key (label incf) True m of
             (flagged, m') \<Rightarrow> (Some incf, if flagged then m' else record_brought_over key [] (shown incf) m'))
      | (None, None) \<Rightarrow> (None, m))"

fun merge_custom_loop ::
  "CustomField list \<Rightarrow> CustomField list \<Rightarrow> CustomField list \<Rightarrow> string list \<Rightarrow> FieldMerger
    \<Rightarrow> CustomField list \<times> FieldMerger" where
  "merge_custom_loop loc inc [] seen m = ([], m)"
| "merge_custom_loop loc inc (f # fs) seen m =
     (if cf_label f \<in> set seen then merge_custom_loop loc inc fs seen m
      else case merge_item same_custom cf_value cf_label (custom_key (cf_label f))
             (last_by cf_label loc (cf_label f)) (last_by cf_label inc (cf_label f)) m of
        (x, m1) \<Rightarrow> (case merge_custom_loop loc inc fs (cf_label f # seen) m1 of
          (out, m2) \<Rightarrow> (case x of Some y \<Rightarrow> y # out | None \<Rightarrow> out, m2)))"

definition merge_custom ::
  "CustomField list \<Rightarrow> CustomField list \<Rightarrow> FieldMerger \<Rightarrow> CustomField list \<times> FieldMerger" where
  "merge_custom loc inc m = merge_custom_loop loc inc (loc @ inc) [] m"

fun merge_attachments_loop ::
  "EntryAttachment list \<Rightarrow> EntryAttachment list \<Rightarrow> EntryAttachment list \<Rightarrow> string list \<Rightarrow> FieldMerger
    \<Rightarrow> EntryAttachment list \<times> FieldMerger" where
  "merge_attachments_loop loc inc [] seen m = ([], m)"
| "merge_attachments_loop loc inc (a # as) seen m =
     (if at_uuid a \<in> set seen then merge_attachments_loop loc inc as seen m
      else case merge_item same_attachment at_name at_name (attachment_key (at_uuid a))
             (last_by at_uuid loc (at_uuid a)) (last_by at_uuid inc (at_uuid a)) m of
        (x, m1) \<Rightarrow> (case merge_attachments_loop loc inc as (at_uuid a # seen) m1 of
          (out, m2) \<Rightarrow> (case x of Some y \<Rightarrow> y # out | None \<Rightarrow> out, m2)))"

definition merge_attachments ::
  "EntryAttachment list \<Rightarrow> EntryAttachment list \<Rightarrow> FieldMerger \<Rightarrow> EntryAttachment list \<times> FieldMerger" where
  "merge_attachments loc inc m = merge_attachments_loop loc inc (loc @ inc) [] m"

text \<open>The fields of a Custom entry: all keys, sorted, without repetition.\<close>

definition same_labelled :: "CustomField \<Rightarrow> CustomField \<Rightarrow> bool" where
  "same_labelled f g = (same_custom f g \<and> cf_label f = cf_label g)"

fun merge_fields_loop ::
  "(string \<times> CustomField) list \<Rightarrow> (string \<times> CustomField) list \<Rightarrow> string list
    \<Rightarrow> (string \<times> CustomField) list \<Rightarrow> FieldMerger \<Rightarrow> (string \<times> CustomField) list \<times> FieldMerger" where
  "merge_fields_loop l i [] acc m = (acc, m)"
| "merge_fields_loop l i (k # ks) acc m =
     (case merge_item same_labelled cf_value cf_label (custom_key k) (ix_get l k) (ix_get i k) m of
        (x, m1) \<Rightarrow> merge_fields_loop l i ks
          (case x of Some y \<Rightarrow> ix_insert k y acc | None \<Rightarrow> acc) m1)"

definition merge_fields ::
  "(string \<times> CustomField) list \<Rightarrow> (string \<times> CustomField) list \<Rightarrow> FieldMerger
    \<Rightarrow> (string \<times> CustomField) list \<times> FieldMerger" where
  "merge_fields l i m = merge_fields_loop l i (remdups_adj (sort (map fst l @ map fst i))) [] m"


section \<open>Merging a pair\<close>

definition side_of :: "Side \<Rightarrow> 'a \<Rightarrow> 'a \<Rightarrow> 'a" where
  "side_of s l i = (case s of Local \<Rightarrow> l | Incoming \<Rightarrow> i)"

definition merge_login :: "LoginEntry \<Rightarrow> LoginEntry \<Rightarrow> FieldMerger \<Rightarrow> VaultEntry \<times> FieldMerger" where
  "merge_login l i m0 =
     (let (pw_side, m1) = decide ''password'' (le_password l = le_password i) (le_password l) (le_password i) m0;
          password = side_of pw_side (le_password l) (le_password i);
          (title, m2) = pick_str ''title'' (le_title l) (le_title i) m1;
          (url, m3) = pick_str ''url'' (le_url l) (le_url i) m2;
          (username, m4) = pick_str ''username'' (le_username l) (le_username i) m3;
          (notes, m5) = pick_opt ''notes'' (le_notes l) (le_notes i) m4;
          (custom_fields, m6) = merge_custom (le_custom_fields l) (le_custom_fields i) m5;
          (attachments, m7) = merge_attachments (le_attachments l) (le_attachments i) m6;
          (app_id, m8) = pick_opt ''app_id'' (le_app_id l) (le_app_id i) m7;
          (email, m9) = pick_opt ''email'' (le_email l) (le_email i) m8
      in (Login \<lparr>le_meta = le_meta l, le_title = title, le_url = url, le_username = username,
            le_password = password, le_notes = notes, le_custom_fields = custom_fields,
            le_attachments = attachments, le_app_id = app_id, le_email = email\<rparr>, m9))"

definition merge_note :: "NoteEntry \<Rightarrow> NoteEntry \<Rightarrow> FieldMerger \<Rightarrow> VaultEntry \<times> FieldMerger" where
  "merge_note l i m0 =
     (let (title, m1) = pick_str ''title'' (ne_title l) (ne_title i) m0;
          (content, m2) = pick_str ''content'' (ne_content l) (ne_content i) m1;
          (custom_fields, m3) = merge_custom (ne_custom_fields l) (ne_custom_fields i) m2;
          (attachments, m4) = merge_attachments (ne_attachments l) (ne_attachments i) m3
      in (Note \<lparr>ne_meta = ne_meta l, ne_title = title, ne_content = content,
            ne_custom_fields = custom_fields, ne_attachments = attachments\<rparr>, m4))"

definition merge_identity :: "IdentityEntry \<Rightarrow> IdentityEntry \<Rightarrow> FieldMerger \<Rightarrow> VaultEntry \<times> FieldMerger" where
  "merge_identity l i m0 =
     (let (first_name, m1) = pick_str ''first_name'' (ie_first_name l) (ie_first_name i) m0;
          (last_name, m2) = pick_str ''last_name'' (ie_last_name l) (ie_last_name i) m1;
          (email, m3) = pick_str ''email'' (ie_email l) (ie_email i) m2;
          (phone, m4) = pick_opt ''phone'' (ie_phone l) (ie_phone i) m3;
          (address, m5) = pick_opt ''address'' (ie_address l) (ie_address i) m4;
          (custom_fields, m6) = merge_custom (ie_custom_fields l) (ie_custom_fields i) m5;
          (attachments, m7) = merge_attachments (ie_attachments l) (ie_attachments i) m6
      in (Identity \<lparr>ie_meta = ie_meta l, ie_first_name = first_name, ie_last_name = last_name,
            ie_email = email, ie_phone = phone, ie_address = address,
            ie_custom_fields = custom_fields, ie_attachments = attachments\<rparr>, m7))"

definition merge_card :: "CardEntry \<Rightarrow> CardEntry \<Rightarrow> FieldMerger \<Rightarrow> VaultEntry \<times> FieldMerger" where
  "merge_card l i m0 =
     (let (cvv_side, m1) = decide ''cvv'' (ce_cvv l = ce_cvv i) (ce_cvv l) (ce_cvv i) m0;
          cvv = side_of cvv_side (ce_cvv l) (ce_cvv i);
          (pin_side, m2) = decide ''pin'' (ce_pin l = ce_pin i)
             (unwrap_or (ce_pin l) []) (unwrap_or (ce_pin i) []) m1;
          pin = side_of pin_side (ce_pin l) (ce_pin i);
          (card_name, m3) = pick_opt ''card_name'' (ce_card_name l) (ce_card_name i) m2;
          (status, m4) = pick_str ''status'' (ce_status l) (ce_status i) m3;
          (cardholder_name, m5) = pick_str ''cardholder_name'' (ce_cardholder_name l) (ce_cardholder_name i) m4;
          (card_number, m6) = pick_str ''card_number'' (ce_card_number l) (ce_card_number i) m5;
          (expiry, m7) = pick_str ''expiry'' (ce_expiry l) (ce_expiry i) m6;
          (credit_limit, m8) = pick_opt ''credit_limit'' (ce_credit_limit l) (ce_credit_limit i) m7;
          (card_account_number, m9) = pick_opt ''card_account_number''
             (ce_card_account_number l) (ce_card_account_number i) m8;
          (payment_network, m10) = pick_opt ''payment_network'' (ce_payment_network l) (ce_payment_network i) m9;
          (bank_name, m11) = pick_opt ''bank_name'' (ce_bank_name l) (ce_bank_name i) m10;
          (transaction_password, m12) = pick_opt ''transaction_password''
             (ce_transaction_password l) (ce_transaction_password i) m11;
          (notes, m13) = pick_opt ''notes'' (ce_notes l) (ce_notes i) m12;
          (custom_fields, m14) = merge_custom (ce_custom_fields l) (ce_custom_fields i) m13;
          (attachments, m15) = merge_attachments (ce_attachments l) (ce_attachments i) m14
      in (Card \<lparr>ce_meta = ce_meta l, ce_card_name = card_name, ce_status = status,
            ce_cardholder_name = cardholder_name, ce_card_number = card_number, ce_expiry = expiry,
            ce_cvv = cvv, ce_credit_limit = credit_limit, ce_card_account_number = card_account_number,
            ce_payment_network = payment_network, ce_pin = pin, ce_bank_name = bank_name,
            ce_transaction_password = transaction_password, ce_notes = notes,
            ce_custom_fields = custom_fields, ce_attachments = attachments\<rparr>, m15))"

definition merge_file ::
  "(bytes \<Rightarrow> string) \<Rightarrow> FileEntry \<Rightarrow> FileEntry \<Rightarrow> FieldMerger \<Rightarrow> VaultEntry \<times> FieldMerger" where
  "merge_file b64enc l i m0 =
     (let (data_side, m1) = decide ''data'' (fe_data l = fe_data i) (b64enc (fe_data l)) (b64enc (fe_data i)) m0;
          data = side_of data_side (fe_data l) (fe_data i);
          (filename, m2) = pick_str ''filename'' (fe_filename l) (fe_filename i) m1;
          (notes, m3) = pick_opt ''notes'' (fe_notes l) (fe_notes i) m2;
          (custom_fields, m4) = merge_custom (fe_custom_fields l) (fe_custom_fields i) m3
      in (File \<lparr>fe_meta = fe_meta l, fe_filename = filename, fe_data = data, fe_notes = notes,
            fe_custom_fields = custom_fields\<rparr>, m4))"

definition merge_custom_entry :: "CustomEntry \<Rightarrow> CustomEntry \<Rightarrow> FieldMerger \<Rightarrow> VaultEntry \<times> FieldMerger" where
  "merge_custom_entry l i m0 =
     (let (flds, m1) = merge_fields (xe_fields l) (xe_fields i) m0;
          (title, m2) = pick_str ''title'' (xe_title l) (xe_title i) m1;
          (attachments, m3) = merge_attachments (xe_attachments l) (xe_attachments i) m2
      in (Custom \<lparr>xe_meta = xe_meta l, xe_title = title, xe_fields = flds, xe_attachments = attachments\<rparr>, m3))"

definition merge_passkey ::
  "(bytes \<Rightarrow> string) \<Rightarrow> PasskeyEntry \<Rightarrow> PasskeyEntry \<Rightarrow> FieldMerger \<Rightarrow> VaultEntry \<times> FieldMerger" where
  "merge_passkey b64enc l i m0 =
     (let (side, m1) = decide ''credential'' (credential_blob l = credential_blob i)
             (b64enc (credential_blob l)) (b64enc (credential_blob i)) m0;
          src = side_of side l i;
          (rp_id, m2) = pick_str ''rp_id'' (pe_rp_id l) (pe_rp_id i) m1;
          (user_name, m3) = pick_str ''user_name'' (pe_user_name l) (pe_user_name i) m2;
          (user_display_name, m4) = pick_str ''user_display_name''
             (pe_user_display_name l) (pe_user_display_name i) m3;
          (notes, m5) = pick_opt ''notes'' (pe_notes l) (pe_notes i) m4;
          (custom_fields, m6) = merge_custom (pe_custom_fields l) (pe_custom_fields i) m5
      in (Passkey \<lparr>pe_meta = pe_meta l, pe_rp_id = rp_id, pe_user_name = user_name,
            pe_user_display_name = user_display_name, pe_user_handle = pe_user_handle src,
            pe_credential_id = pe_credential_id src, pe_private_key = pe_private_key src,
            pe_public_key_cose = pe_public_key_cose src, pe_algorithm = pe_algorithm src,
            pe_notes = notes, pe_custom_fields = custom_fields\<rparr>, m6))"

text \<open>The deletion marks of both sides, and the union of the two histories.\<close>

definition carry_tombstone :: "string \<times> u64 \<Rightarrow> (string \<times> u64) list \<Rightarrow> (string \<times> u64) list" where
  "carry_tombstone kv ts =
     (case kv of (k, v) \<Rightarrow>
        (case strip_prefix ''del:'' k of
           None \<Rightarrow> ts
         | Some stripped \<Rightarrow>
             if (case bt_get ts stripped of None \<Rightarrow> False | Some t \<Rightarrow> v \<le> t) then ts
             else let e = unwrap_or (bt_get ts k) v in bt_insert k (if e < v then v else e) ts))"

definition union_history :: "HistoryRecord list \<Rightarrow> HistoryRecord list \<Rightarrow> HistoryRecord list" where
  "union_history l i = fold (\<lambda>h hs. if h \<in> set hs then hs else hs @ [h]) i l"

definition merge_typed ::
  "(bytes \<Rightarrow> string) \<Rightarrow> VaultEntry \<Rightarrow> VaultEntry \<Rightarrow> FieldMerger \<Rightarrow> (VaultEntry \<times> FieldMerger) option" where
  "merge_typed b64enc loc inc m =
     (case (loc, inc) of
        (Login l, Login i) \<Rightarrow> Some (merge_login l i m)
      | (Note l, Note i) \<Rightarrow> Some (merge_note l i m)
      | (Identity l, Identity i) \<Rightarrow> Some (merge_identity l i m)
      | (Card l, Card i) \<Rightarrow> Some (merge_card l i m)
      | (File l, File i) \<Rightarrow> Some (merge_file b64enc l i m)
      | (Custom l, Custom i) \<Rightarrow> Some (merge_custom_entry l i m)
      | (Passkey l, Passkey i) \<Rightarrow> Some (merge_passkey b64enc l i m)
      | _ \<Rightarrow> None)"

definition merge_entry_pair ::
  "(bytes \<Rightarrow> string) \<Rightarrow> VaultEntry \<Rightarrow> VaultEntry
    \<Rightarrow> VaultEntry \<times> FieldConflictItem list \<times> PendingItemDeleteItem list \<times> BroughtOverItem list" where
  "merge_entry_pair b64enc loc inc =
     (let lm = meta_of loc; im = meta_of inc in
      case merge_typed b64enc loc inc (FieldMerger_new lm im (entry_display_title loc)) of
        None \<Rightarrow> (if em_updated_at lm < em_updated_at im then inc else loc, [], [], [])
      | Some (merged, m) \<Rightarrow>
          (map_meta (\<lambda>mt. mt\<lparr>em_updated_at := max (em_updated_at lm) (em_updated_at im),
               em_field_times := fold carry_tombstone (em_field_times lm @ em_field_times im) (fm_times m),
               em_history := union_history (em_history lm) (em_history im)\<rparr>) merged,
           fm_conflicts m, fm_pending m, fm_brought_over m))"

section \<open>Notions the lemmas are stated with\<close>

text \<open>A decision depends on the two metadata records only, never on what was decided before.\<close>

definition verdict :: "EntryMeta \<Rightarrow> EntryMeta \<Rightarrow> string \<Rightarrow> bool \<Rightarrow> Side \<times> u64 option \<times> bool" where
  "verdict lm im key equal = decide_field (bt_get (em_field_times lm) key) (bt_get (em_field_times im) key)
     (em_updated_at lm) (em_updated_at im) equal"

definition side_for :: "EntryMeta \<Rightarrow> EntryMeta \<Rightarrow> string \<Rightarrow> bool \<Rightarrow> Side" where
  "side_for lm im key equal = fst (verdict lm im key equal)"

definition clash_for :: "EntryMeta \<Rightarrow> EntryMeta \<Rightarrow> string \<Rightarrow> bool \<Rightarrow> bool" where
  "clash_for lm im key equal = snd (snd (verdict lm im key equal))"

definition stamp_for :: "EntryMeta \<Rightarrow> EntryMeta \<Rightarrow> string \<Rightarrow> u64 option" where
  "stamp_for lm im key = merged_stamp (bt_get (em_field_times lm) key) (bt_get (em_field_times im) key)"

definition clash_item :: "FieldMerger \<Rightarrow> string \<Rightarrow> bool \<Rightarrow> string \<Rightarrow> string \<Rightarrow> FieldConflictItem list" where
  "clash_item m key equal ld idp =
     (if clash_for (fm_lm m) (fm_im m) key equal
      then [\<lparr>fci_id = fm_id m, fci_title = fm_title m, fci_field = key,
             fci_local_value = ld, fci_incoming_value = idp\<rparr>] else [])"

definition brought_item :: "FieldMerger \<Rightarrow> string \<Rightarrow> bool \<Rightarrow> string \<Rightarrow> string \<Rightarrow> BroughtOverItem list" where
  "brought_item m key equal ld idp =
     (if side_for (fm_lm m) (fm_im m) key equal = Incoming
      then [\<lparr>bo_id = fm_id m, bo_title = fm_title m, bo_field = key,
             bo_old_value = ld, bo_new_value = idp\<rparr>] else [])"

definition same_ctx :: "FieldMerger \<Rightarrow> FieldMerger \<Rightarrow> bool" where
  "same_ctx m m' = (fm_id m = fm_id m' \<and> fm_title m = fm_title m' \<and> fm_lm m = fm_lm m' \<and> fm_im m = fm_im m')"

definition flagged_for :: "EntryMeta \<Rightarrow> EntryMeta \<Rightarrow> string \<Rightarrow> bool" where
  "flagged_for present_meta other_meta key =
     (case bt_get (em_field_times other_meta) (del_key key) of
        None \<Rightarrow> False
      | Some d \<Rightarrow> unwrap_or (bt_get (em_field_times present_meta) key) 0 < d)"

definition pending_item :: "FieldMerger \<Rightarrow> string \<Rightarrow> string \<Rightarrow> bool \<Rightarrow> PendingItemDeleteItem list" where
  "pending_item m key label inc =
     (if (if inc then flagged_for (fm_im m) (fm_lm m) key else flagged_for (fm_lm m) (fm_im m) key)
      then [\<lparr>pid_id = fm_id m, pid_title = fm_title m, pid_field = key, pid_label = label\<rparr>] else [])"

definition chosen :: "('a \<Rightarrow> 'a \<Rightarrow> bool) \<Rightarrow> EntryMeta \<Rightarrow> EntryMeta \<Rightarrow> string \<Rightarrow> 'a option \<Rightarrow> 'a option \<Rightarrow> 'a option" where
  "chosen eq lm im key l i =
     (case (l, i) of
        (Some lf, Some incf) \<Rightarrow> Some (side_of (side_for lm im key (eq lf incf)) lf incf)
      | (Some lf, None) \<Rightarrow> Some lf
      | (None, _) \<Rightarrow> i)"

definition item_clashes ::
  "('a \<Rightarrow> 'a \<Rightarrow> bool) \<Rightarrow> ('a \<Rightarrow> string) \<Rightarrow> FieldMerger \<Rightarrow> string \<Rightarrow> 'a option \<Rightarrow> 'a option \<Rightarrow> FieldConflictItem list" where
  "item_clashes eq shown m key l i =
     (case (l, i) of
        (Some lf, Some incf) \<Rightarrow> clash_item m key (eq lf incf) (shown lf) (shown incf)
      | _ \<Rightarrow> [])"

definition item_brought ::
  "('a \<Rightarrow> 'a \<Rightarrow> bool) \<Rightarrow> ('a \<Rightarrow> string) \<Rightarrow> FieldMerger \<Rightarrow> string \<Rightarrow> 'a option \<Rightarrow> 'a option \<Rightarrow> BroughtOverItem list" where
  "item_brought eq shown m key l i =
     (case (l, i) of
        (Some lf, Some incf) \<Rightarrow> brought_item m key (eq lf incf) (shown lf) (shown incf)
      | (None, Some incf) \<Rightarrow>
          if flagged_for (fm_im m) (fm_lm m) key then []
          else [\<lparr>bo_id = fm_id m, bo_title = fm_title m, bo_field = key, bo_old_value = [],
                 bo_new_value = shown incf\<rparr>]
      | _ \<Rightarrow> [])"

definition item_pending ::
  "('a \<Rightarrow> string) \<Rightarrow> FieldMerger \<Rightarrow> string \<Rightarrow> 'a option \<Rightarrow> 'a option \<Rightarrow> PendingItemDeleteItem list" where
  "item_pending label m key l i =
     (case (l, i) of
        (Some lf, None) \<Rightarrow> pending_item m key (label lf) False
      | (None, Some incf) \<Rightarrow> pending_item m key (label incf) True
      | _ \<Rightarrow> [])"

text \<open>Identifiers in order of first appearance, leaving out those already seen.\<close>

fun fresh :: "'a list \<Rightarrow> 'a list \<Rightarrow> 'a list" where
  "fresh seen [] = []"
| "fresh seen (x # xs) = (if x \<in> set seen then fresh seen xs else x # fresh (x # seen) xs)"

definition the_customs :: "VaultEntry \<Rightarrow> CustomField list" where
  "the_customs e = unwrap_or (entry_custom_fields e) []"

fun the_fields :: "VaultEntry \<Rightarrow> (string \<times> CustomField) list" where
  "the_fields (Custom e) = xe_fields e"
| "the_fields _ = []"

definition scalar_pairs :: "VaultEntry \<Rightarrow> VaultEntry \<Rightarrow> (string \<times> FieldVal \<times> FieldVal) list" where
  "scalar_pairs l i = map (\<lambda>((k, lv), (_, iv)). (k, lv, iv)) (zip (scalars l) (scalars i))"

text \<open>Everything that is recorded about a pair: one part per scalar field, custom field, attachment.\<close>

definition pair_records ::
  "(string \<Rightarrow> bool \<Rightarrow> string \<Rightarrow> string \<Rightarrow> 'r list)
   \<Rightarrow> (string \<Rightarrow> CustomField option \<Rightarrow> CustomField option \<Rightarrow> 'r list)
   \<Rightarrow> (string \<Rightarrow> CustomField option \<Rightarrow> CustomField option \<Rightarrow> 'r list)
   \<Rightarrow> (string \<Rightarrow> EntryAttachment option \<Rightarrow> EntryAttachment option \<Rightarrow> 'r list)
   \<Rightarrow> (bytes \<Rightarrow> string) \<Rightarrow> VaultEntry \<Rightarrow> VaultEntry \<Rightarrow> 'r set" where
  "pair_records fs fc fx fa b64enc l i =
     (\<Union>(k, lv, iv) \<in> set (scalar_pairs l i). set (fs k (lv = iv) (disp b64enc lv) (disp b64enc iv)))
     \<union> (\<Union>k \<in> cf_label ` set (the_customs l @ the_customs i).
          set (fc (custom_key k) (last_by cf_label (the_customs l) k) (last_by cf_label (the_customs i) k)))
     \<union> (\<Union>k \<in> fst ` set (the_fields l @ the_fields i).
          set (fx (custom_key k) (ix_get (the_fields l) k) (ix_get (the_fields i) k)))
     \<union> (\<Union>k \<in> at_uuid ` set (entry_attachments l @ entry_attachments i).
          set (fa (attachment_key k) (last_by at_uuid (entry_attachments l) k)
             (last_by at_uuid (entry_attachments i) k)))"

text \<open>The records of a step depend on the merger only through its fixed part.\<close>

definition ctx_eq :: "FieldMerger \<Rightarrow> FieldMerger \<Rightarrow> bool" where
  "ctx_eq m m' = (fm_id m = fm_id m' \<and> fm_title m = fm_title m' \<and> fm_lm m = fm_lm m' \<and> fm_im m = fm_im m')"

text \<open>Two copies of one login, edited on both devices; the incoming one has a custom field.\<close>

definition sample_local :: VaultEntry where
  "sample_local = Login ((sample_login ''1'' ''mine'')\<lparr>
     le_meta := (sample_meta ''1'')\<lparr>em_field_times := [(''password'', 5)]\<rparr>\<rparr>)"

definition sample_incoming :: VaultEntry where
  "sample_incoming = Login ((sample_login ''1'' ''theirs'')\<lparr>
     le_meta := (sample_meta ''1'')\<lparr>em_field_times := [(''password'', 3), (''url'', 4)]\<rparr>,
     le_url := ''new.example'',
     le_custom_fields := [\<lparr>cf_label = ''PIN'', cf_value = ''1234'', cf_hidden = True\<rparr>]\<rparr>)"

text \<open>When the incoming of two different values is taken: it alone is marked as edited, or neither is and its entry is the later one.
  When the two clash: both are marked, or neither is and the entries are of the same time.\<close>

definition takes_incoming :: "EntryMeta \<Rightarrow> EntryMeta \<Rightarrow> string \<Rightarrow> bool" where
  "takes_incoming lm im k = (bt_get (em_field_times lm) k = None
     \<and> (bt_get (em_field_times im) k \<noteq> None \<or> em_updated_at lm < em_updated_at im))"

definition both_edited :: "EntryMeta \<Rightarrow> EntryMeta \<Rightarrow> string \<Rightarrow> bool" where
  "both_edited lm im k =
     (bt_get (em_field_times lm) k \<noteq> None \<and> bt_get (em_field_times im) k \<noteq> None
      \<or> bt_get (em_field_times lm) k = None \<and> bt_get (em_field_times im) k = None
         \<and> em_updated_at lm = em_updated_at im)"

section \<open>What a decision does\<close>

lemma verdict_facts:
  "clash_for lm im key eq \<Longrightarrow> side_for lm im key eq = Local"
  "side_for lm im key True = Local" "\<not> clash_for lm im key True"
  by (auto simp: clash_for_def side_for_def verdict_def decide_field_def split: option.splits if_splits)

lemma verdict_stamp: "fst (snd (verdict lm im key eq)) = stamp_for lm im key"
  by (auto simp: verdict_def decide_field_def stamp_for_def merged_stamp_def split: option.splits)

lemma side_of_simps [simp]: "side_of Local l i = l" "side_of Incoming l i = i" "side_of s x x = x"
  by (simp_all add: side_of_def split: Side.splits)

lemma record_stamp_simps [simp]:
  "fm_id (record_stamp k t m) = fm_id m" "fm_title (record_stamp k t m) = fm_title m"
  "fm_lm (record_stamp k t m) = fm_lm m" "fm_im (record_stamp k t m) = fm_im m"
  "fm_conflicts (record_stamp k t m) = fm_conflicts m"
  "fm_brought_over (record_stamp k t m) = fm_brought_over m"
  "fm_pending (record_stamp k t m) = fm_pending m"
  "fm_times (record_stamp k t m) = (case t of None \<Rightarrow> fm_times m | Some x \<Rightarrow> bt_insert k x (fm_times m))"
  by (simp_all add: record_stamp_def split: option.splits)

lemma decide_simps [simp]:
  "fst (decide key eq ld idp m) = side_for (fm_lm m) (fm_im m) key eq"
  "fm_id (snd (decide key eq ld idp m)) = fm_id m"
  "fm_title (snd (decide key eq ld idp m)) = fm_title m"
  "fm_lm (snd (decide key eq ld idp m)) = fm_lm m"
  "fm_im (snd (decide key eq ld idp m)) = fm_im m"
  "fm_pending (snd (decide key eq ld idp m)) = fm_pending m"
  "fm_conflicts (snd (decide key eq ld idp m)) = fm_conflicts m @ clash_item m key eq ld idp"
  "fm_brought_over (snd (decide key eq ld idp m)) = fm_brought_over m @ brought_item m key eq ld idp"
  "fm_times (snd (decide key eq ld idp m)) = (case stamp_for (fm_lm m) (fm_im m) key of
      None \<Rightarrow> fm_times m | Some t \<Rightarrow> bt_insert key t (fm_times m))"
proof -
  obtain s t c where v: "verdict (fm_lm m) (fm_im m) key eq = (s, t, c)" by (metis prod_cases3)
  have t: "stamp_for (fm_lm m) (fm_im m) key = t"
    using verdict_stamp [of "fm_lm m" "fm_im m" key eq] by (simp add: v)
  have c: "c \<Longrightarrow> s = Local" using verdict_facts(1) [of "fm_lm m" "fm_im m" key eq]
    by (simp add: clash_for_def side_for_def v)
  have df: "decide_field (bt_get (em_field_times (fm_lm m)) key) (bt_get (em_field_times (fm_im m)) key)
     (em_updated_at (fm_lm m)) (em_updated_at (fm_im m)) eq = (s, t, c)"
    using v by (simp add: verdict_def)
  note facts = decide_def Let_def df clash_item_def brought_item_def clash_for_def side_for_def v t
    record_brought_over_def
  show "fst (decide key eq ld idp m) = side_for (fm_lm m) (fm_im m) key eq"
    "fm_id (snd (decide key eq ld idp m)) = fm_id m"
    "fm_title (snd (decide key eq ld idp m)) = fm_title m"
    "fm_lm (snd (decide key eq ld idp m)) = fm_lm m"
    "fm_im (snd (decide key eq ld idp m)) = fm_im m"
    "fm_pending (snd (decide key eq ld idp m)) = fm_pending m"
    "fm_conflicts (snd (decide key eq ld idp m)) = fm_conflicts m @ clash_item m key eq ld idp"
    "fm_brought_over (snd (decide key eq ld idp m)) = fm_brought_over m @ brought_item m key eq ld idp"
    "fm_times (snd (decide key eq ld idp m)) = (case stamp_for (fm_lm m) (fm_im m) key of
      None \<Rightarrow> fm_times m | Some t \<Rightarrow> bt_insert key t (fm_times m))"
    using c by (cases c; simp add: facts)+
qed

lemma pick_str_eq:
  "pick_str key lv iv m = (side_of (side_for (fm_lm m) (fm_im m) key (lv = iv)) lv iv,
     snd (decide key (lv = iv) lv iv m))"
proof -
  obtain s m' where d: "decide key (lv = iv) lv iv m = (s, m')" by (cases "decide key (lv = iv) lv iv m")
  with decide_simps(1) [of key "lv = iv" lv iv m] show ?thesis
    by (cases s) (simp_all add: pick_str_def)
qed

lemma pick_opt_eq:
  "pick_opt key lv iv m = (side_of (side_for (fm_lm m) (fm_im m) key (lv = iv)) lv iv,
     snd (decide key (lv = iv) (unwrap_or lv []) (unwrap_or iv []) m))"
proof -
  let ?d = "decide key (lv = iv) (unwrap_or lv []) (unwrap_or iv []) m"
  obtain s m' where d: "?d = (s, m')" by (cases ?d)
  with decide_simps(1) [of key "lv = iv" "unwrap_or lv []" "unwrap_or iv []" m] show ?thesis
    by (cases s) (simp_all add: pick_opt_def)
qed

lemma carry_simps [simp]:
  "fst (carry_or_flag_delete key label inc m) =
     (if inc then flagged_for (fm_im m) (fm_lm m) key else flagged_for (fm_lm m) (fm_im m) key)"
  "fm_id (snd (carry_or_flag_delete key label inc m)) = fm_id m"
  "fm_title (snd (carry_or_flag_delete key label inc m)) = fm_title m"
  "fm_lm (snd (carry_or_flag_delete key label inc m)) = fm_lm m"
  "fm_im (snd (carry_or_flag_delete key label inc m)) = fm_im m"
  "fm_conflicts (snd (carry_or_flag_delete key label inc m)) = fm_conflicts m"
  "fm_brought_over (snd (carry_or_flag_delete key label inc m)) = fm_brought_over m"
  "fm_pending (snd (carry_or_flag_delete key label inc m)) = fm_pending m @ pending_item m key label inc"
  "fm_times (snd (carry_or_flag_delete key label inc m)) =
     (case bt_get (em_field_times (if inc then fm_im m else fm_lm m)) key of
        None \<Rightarrow> fm_times m | Some t \<Rightarrow> bt_insert key t (fm_times m))"
  by (simp_all add: carry_or_flag_delete_def carry_one_sided_def flagged_for_def pending_item_def Let_def
      split: option.split)


section \<open>One item\<close>

lemma merge_item_fst: "fst (merge_item eq shown label key l i m) = chosen eq (fm_lm m) (fm_im m) key l i"
proof (cases l; cases i)
  fix a b assume li: "l = Some a" "i = Some b"
  obtain s m' where d: "decide key (eq a b) (shown a) (shown b) m = (s, m')"
    by (cases "decide key (eq a b) (shown a) (shown b) m")
  with decide_simps(1) [of key "eq a b" "shown a" "shown b" m] li show ?thesis
    by (cases s) (simp_all add: merge_item_def chosen_def)
qed (auto simp: merge_item_def chosen_def split: prod.splits)

lemma merge_item_snd:
  "snd (merge_item eq shown label key l i m) =
     (case (l, i) of
        (Some lf, Some incf) \<Rightarrow> snd (decide key (eq lf incf) (shown lf) (shown incf) m)
      | (Some lf, None) \<Rightarrow> snd (carry_or_flag_delete key (label lf) False m)
      | (None, Some incf) \<Rightarrow>
          let c = carry_or_flag_delete key (label incf) True m in
          if fst c then snd c else record_brought_over key [] (shown incf) (snd c)
      | (None, None) \<Rightarrow> m)"
  by (auto simp: merge_item_def Let_def simp del: carry_simps(1) split: option.splits prod.splits Side.splits)

lemma record_brought_over_simps [simp]:
  "fm_id (record_brought_over k a b m) = fm_id m" "fm_title (record_brought_over k a b m) = fm_title m"
  "fm_lm (record_brought_over k a b m) = fm_lm m" "fm_im (record_brought_over k a b m) = fm_im m"
  "fm_conflicts (record_brought_over k a b m) = fm_conflicts m"
  "fm_pending (record_brought_over k a b m) = fm_pending m"
  "fm_times (record_brought_over k a b m) = fm_times m"
  "fm_brought_over (record_brought_over k a b m) = fm_brought_over m @
     [\<lparr>bo_id = fm_id m, bo_title = fm_title m, bo_field = k, bo_old_value = a, bo_new_value = b\<rparr>]"
  by (simp_all add: record_brought_over_def)

lemma merge_item_simps [simp]:
  "fm_id (snd (merge_item eq shown label key l i m)) = fm_id m"
  "fm_title (snd (merge_item eq shown label key l i m)) = fm_title m"
  "fm_lm (snd (merge_item eq shown label key l i m)) = fm_lm m"
  "fm_im (snd (merge_item eq shown label key l i m)) = fm_im m"
  "fm_conflicts (snd (merge_item eq shown label key l i m)) = fm_conflicts m @ item_clashes eq shown m key l i"
  "fm_brought_over (snd (merge_item eq shown label key l i m)) =
     fm_brought_over m @ item_brought eq shown m key l i"
  "fm_pending (snd (merge_item eq shown label key l i m)) = fm_pending m @ item_pending label m key l i"
  by (simp_all add: merge_item_snd item_clashes_def item_brought_def item_pending_def pending_item_def Let_def
      split: option.split)

section \<open>A list of items\<close>

lemma set_fresh: "set (fresh seen xs) = set xs - set seen"
  by (induction seen xs rule: fresh.induct) auto

lemma distinct_fresh: "distinct (fresh seen xs)"
  by (induction seen xs rule: fresh.induct) (auto simp: set_fresh)

text \<open>
  The contract the custom-field loop and the attachment loop share: walk the local items and then the
  incoming ones, skip an identifier already seen, merge the two copies of the others.
\<close>

locale item_loop =
  fixes ident :: "'a \<Rightarrow> string" and mk :: "string \<Rightarrow> string"
    and eq :: "'a \<Rightarrow> 'a \<Rightarrow> bool" and shown label :: "'a \<Rightarrow> string"
    and loop :: "'a list \<Rightarrow> 'a list \<Rightarrow> 'a list \<Rightarrow> string list \<Rightarrow> FieldMerger \<Rightarrow> 'a list \<times> FieldMerger"
  assumes loop_Nil: "loop loc inc [] seen m = ([], m)"
    and loop_Cons: "loop loc inc (a # as) seen m =
      (if ident a \<in> set seen then loop loc inc as seen m
       else case merge_item eq shown label (mk (ident a)) (last_by ident loc (ident a))
              (last_by ident inc (ident a)) m of
         (x, m1) \<Rightarrow> (case loop loc inc as (ident a # seen) m1 of
           (out, m2) \<Rightarrow> (case x of Some y \<Rightarrow> y # out | None \<Rightarrow> out, m2)))"
begin

definition pick :: "EntryMeta \<Rightarrow> EntryMeta \<Rightarrow> 'a list \<Rightarrow> 'a list \<Rightarrow> string \<Rightarrow> 'a option" where
  "pick lm im loc inc k = chosen eq lm im (mk k) (last_by ident loc k) (last_by ident inc k)"

lemma loop_ctx [simp]:
  "fm_id (snd (loop loc inc xs seen m)) = fm_id m"
  "fm_title (snd (loop loc inc xs seen m)) = fm_title m"
  "fm_lm (snd (loop loc inc xs seen m)) = fm_lm m"
  "fm_im (snd (loop loc inc xs seen m)) = fm_im m"
  by (induction xs arbitrary: seen m)
    (simp_all add: loop_Nil loop_Cons case_prod_beta)

lemma loop_items:
  "fst (loop loc inc xs seen m) =
     List.map_filter (pick (fm_lm m) (fm_im m) loc inc) (fresh seen (map ident xs))"
  by (induction xs arbitrary: seen m)
    (simp_all add: loop_Nil loop_Cons case_prod_beta merge_item_fst pick_def map_filter_simps
      split: option.split)

lemma loop_records:
  "fm_conflicts (snd (loop loc inc xs seen m)) = fm_conflicts m @ concat (map (\<lambda>k.
     item_clashes eq shown m (mk k) (last_by ident loc k) (last_by ident inc k)) (fresh seen (map ident xs)))"
  "fm_brought_over (snd (loop loc inc xs seen m)) = fm_brought_over m @ concat (map (\<lambda>k.
     item_brought eq shown m (mk k) (last_by ident loc k) (last_by ident inc k)) (fresh seen (map ident xs)))"
  "fm_pending (snd (loop loc inc xs seen m)) = fm_pending m @ concat (map (\<lambda>k.
     item_pending label m (mk k) (last_by ident loc k) (last_by ident inc k)) (fresh seen (map ident xs)))"
proof -
  have ctx: "item_clashes eq shown (snd (merge_item eq shown label key l i m)) k a b = item_clashes eq shown m k a b"
    "item_brought eq shown (snd (merge_item eq shown label key l i m)) k a b = item_brought eq shown m k a b"
    "item_pending label (snd (merge_item eq shown label key l i m)) k a b = item_pending label m k a b"
    for key l i m k a b
    by (simp_all add: item_clashes_def item_brought_def item_pending_def clash_item_def brought_item_def
        pending_item_def split: option.split)
  show "fm_conflicts (snd (loop loc inc xs seen m)) = fm_conflicts m @ concat (map (\<lambda>k.
     item_clashes eq shown m (mk k) (last_by ident loc k) (last_by ident inc k)) (fresh seen (map ident xs)))"
    "fm_brought_over (snd (loop loc inc xs seen m)) = fm_brought_over m @ concat (map (\<lambda>k.
     item_brought eq shown m (mk k) (last_by ident loc k) (last_by ident inc k)) (fresh seen (map ident xs)))"
    "fm_pending (snd (loop loc inc xs seen m)) = fm_pending m @ concat (map (\<lambda>k.
     item_pending label m (mk k) (last_by ident loc k) (last_by ident inc k)) (fresh seen (map ident xs)))"
    by (induction xs arbitrary: seen m; simp add: loop_Nil loop_Cons case_prod_beta ctx)+
qed

end

lemma chosen_None [simp]: "chosen eq lm im key l i = None \<longleftrightarrow> l = None \<and> i = None"
  by (auto simp: chosen_def split: option.splits)

lemma chosen_neither [simp]: "chosen eq lm im key None None = None"
  by simp

lemma chosen_cases: "chosen eq lm im key l i = Some x \<Longrightarrow> l = Some x \<or> i = Some x"
  by (auto simp: chosen_def side_of_def split: option.splits Side.splits)

text \<open>The branch marked unreachable is never taken: every item walked is found on one of the sides.\<close>

lemma item_on_some_side:
  "k \<in> ident ` set (loc @ inc) \<Longrightarrow> last_by ident loc k \<noteq> None \<or> last_by ident inc k \<noteq> None"
  by (auto simp: last_by_None)

lemma map_filter_ident:
  assumes "\<And>k. k \<in> set ks \<Longrightarrow> \<exists>x. f k = Some x \<and> ident x = k"
  shows "map ident (List.map_filter f ks) = ks"
  using assms
proof (induction ks)
  case (Cons a ks)
  from Cons.prems [of a] obtain x where "f a = Some x" "ident x = a" by auto
  with Cons show ?case by (simp add: map_filter_simps)
qed (simp add: map_filter_simps)

context item_loop
begin

lemma pick_ident:
  assumes "k \<in> ident ` set (loc @ inc)"
  shows "\<exists>x. pick lm im loc inc k = Some x \<and> ident x = k \<and> x \<in> set loc \<union> set inc"
proof -
  from item_on_some_side [OF assms] obtain x where x: "pick lm im loc inc k = Some x"
    by (metis chosen_None not_Some_eq pick_def)
  from chosen_cases [OF x [unfolded pick_def]] x show ?thesis by (auto dest: last_by_Some)
qed

lemma loop_idents:
  "map ident (fst (loop loc inc (loc @ inc) [] m)) = fresh [] (map ident (loc @ inc))"
  unfolding loop_items
proof (rule map_filter_ident)
  fix k assume "k \<in> set (fresh [] (map ident (loc @ inc)))"
  then have "k \<in> ident ` set (loc @ inc)" by (auto simp: set_fresh)
  from pick_ident [OF this]
  show "\<exists>x. pick (fm_lm m) (fm_im m) loc inc k = Some x \<and> ident x = k" by blast
qed

lemma loop_ident_set:
  "ident ` set (fst (loop loc inc (loc @ inc) [] m)) = ident ` (set loc \<union> set inc)"
proof -
  have "set (map ident (fst (loop loc inc (loc @ inc) [] m))) = set (map ident (loc @ inc))"
    unfolding loop_idents by (simp add: set_fresh)
  then show ?thesis by (simp add: image_Un)
qed

lemma loop_member:
  "x \<in> set (fst (loop loc inc (loc @ inc) [] m)) \<longleftrightarrow>
     ident x \<in> ident ` set (loc @ inc) \<and> pick (fm_lm m) (fm_im m) loc inc (ident x) = Some x"
proof
  assume "x \<in> set (fst (loop loc inc (loc @ inc) [] m))"
  then obtain k where k: "k \<in> set (fresh [] (map ident (loc @ inc)))"
    and p: "pick (fm_lm m) (fm_im m) loc inc k = Some x"
    by (auto simp: loop_items List.map_filter_def)
  have ki: "k \<in> ident ` set (loc @ inc)" using k by (auto simp: set_fresh)
  with pick_ident [OF ki, of "fm_lm m" "fm_im m"] p have "ident x = k" by auto
  with p ki show "ident x \<in> ident ` set (loc @ inc) \<and> pick (fm_lm m) (fm_im m) loc inc (ident x) = Some x"
    by simp
next
  assume a: "ident x \<in> ident ` set (loc @ inc) \<and> pick (fm_lm m) (fm_im m) loc inc (ident x) = Some x"
  then have "ident x \<in> set (fresh [] (map ident (loc @ inc)))" by (auto simp: set_fresh)
  with a show "x \<in> set (fst (loop loc inc (loc @ inc) [] m))"
    by (force simp: loop_items List.map_filter_def)
qed

end

interpretation cul: item_loop cf_label custom_key same_custom cf_value cf_label merge_custom_loop
  by unfold_locales simp_all

interpretation atl: item_loop at_uuid attachment_key same_attachment at_name at_name merge_attachments_loop
  by unfold_locales simp_all

section \<open>The fields of a Custom entry\<close>

lemma merge_fields_loop_ctx [simp]:
  "fm_id (snd (merge_fields_loop l i ks acc m)) = fm_id m"
  "fm_title (snd (merge_fields_loop l i ks acc m)) = fm_title m"
  "fm_lm (snd (merge_fields_loop l i ks acc m)) = fm_lm m"
  "fm_im (snd (merge_fields_loop l i ks acc m)) = fm_im m"
  by (induction ks arbitrary: acc m) (simp_all add: case_prod_beta)

lemma item_records_ctx [simp]:
  "item_clashes eq shown (snd (merge_item e s la key l i m)) = item_clashes eq shown m"
  "item_brought eq shown (snd (merge_item e s la key l i m)) = item_brought eq shown m"
  "item_pending label (snd (merge_item e s la key l i m)) = item_pending label m"
  by (intro ext; simp add: item_clashes_def item_brought_def item_pending_def clash_item_def brought_item_def
        pending_item_def split: option.split)+

lemma merge_fields_loop_records:
  "fm_conflicts (snd (merge_fields_loop l i ks acc m)) = fm_conflicts m @ concat (map (\<lambda>k.
     item_clashes same_labelled cf_value m (custom_key k) (ix_get l k) (ix_get i k)) ks)"
  "fm_brought_over (snd (merge_fields_loop l i ks acc m)) = fm_brought_over m @ concat (map (\<lambda>k.
     item_brought same_labelled cf_value m (custom_key k) (ix_get l k) (ix_get i k)) ks)"
  "fm_pending (snd (merge_fields_loop l i ks acc m)) = fm_pending m @ concat (map (\<lambda>k.
     item_pending cf_label m (custom_key k) (ix_get l k) (ix_get i k)) ks)"
  by (induction ks arbitrary: acc m; simp add: case_prod_beta)+

lemma merge_fields_loop_get:
  "ix_get (fst (merge_fields_loop l i ks acc m)) k =
     (if k \<in> set ks \<and> (ix_get l k \<noteq> None \<or> ix_get i k \<noteq> None)
      then chosen same_labelled (fm_lm m) (fm_im m) (custom_key k) (ix_get l k) (ix_get i k)
      else ix_get acc k)"
proof (induction ks arbitrary: acc m)
  case (Cons k0 ks)
  show ?case
    by (cases "chosen same_labelled (fm_lm m) (fm_im m) (custom_key k0) (ix_get l k0) (ix_get i k0)")
      (auto simp: case_prod_beta merge_item_fst Cons ix_get_insert)
qed simp

lemma ix_get_None: "ix_get m k = None \<longleftrightarrow> k \<notin> fst ` set m"
  by (simp add: ix_get_def map_of_eq_None_iff)

lemma merge_fields_get:
  "ix_get (fst (merge_fields l i m)) k =
     chosen same_labelled (fm_lm m) (fm_im m) (custom_key k) (ix_get l k) (ix_get i k)"
proof (cases "ix_get l k = None \<and> ix_get i k = None")
  case True
  then show ?thesis by (simp add: merge_fields_def merge_fields_loop_get) (simp add: ix_get_def)
next
  case False
  then have "k \<in> set (remdups_adj (sort (map fst l @ map fst i)))" by (auto simp: ix_get_None)
  with False show ?thesis by (simp add: merge_fields_def merge_fields_loop_get)
qed

lemma merge_fields_keys: "fst ` set (fst (merge_fields l i m)) = fst ` (set l \<union> set i)"
proof (intro set_eqI)
  fix k
  have "k \<in> fst ` set (fst (merge_fields l i m)) \<longleftrightarrow> ix_get (fst (merge_fields l i m)) k \<noteq> None"
    by (simp add: ix_get_None)
  also have "\<dots> \<longleftrightarrow> k \<in> fst ` (set l \<union> set i)"
    unfolding merge_fields_get chosen_None by (auto simp: ix_get_None)
  finally show "k \<in> fst ` set (fst (merge_fields l i m)) \<longleftrightarrow> k \<in> fst ` (set l \<union> set i)" .
qed


section \<open>Merging two entries of one type\<close>

lemma merge_custom_ctx [simp]:
  "fm_id (snd (merge_custom l i m)) = fm_id m" "fm_title (snd (merge_custom l i m)) = fm_title m"
  "fm_lm (snd (merge_custom l i m)) = fm_lm m" "fm_im (snd (merge_custom l i m)) = fm_im m"
  "fm_id (snd (merge_attachments al ai m)) = fm_id m" "fm_title (snd (merge_attachments al ai m)) = fm_title m"
  "fm_lm (snd (merge_attachments al ai m)) = fm_lm m" "fm_im (snd (merge_attachments al ai m)) = fm_im m"
  "fm_id (snd (merge_fields fl fi m)) = fm_id m" "fm_title (snd (merge_fields fl fi m)) = fm_title m"
  "fm_lm (snd (merge_fields fl fi m)) = fm_lm m" "fm_im (snd (merge_fields fl fi m)) = fm_im m"
  by (simp_all add: merge_custom_def merge_attachments_def merge_fields_def)

lemma records_ctx:
  assumes "ctx_eq m m'"
  shows "clash_item m = clash_item m'" "brought_item m = brought_item m'"
    "item_clashes eq shown m = item_clashes eq shown m'" "item_brought eq shown m = item_brought eq shown m'"
    "item_pending label m = item_pending label m'"
  using assms
  by (intro ext; simp add: ctx_eq_def clash_item_def brought_item_def item_clashes_def item_brought_def
      item_pending_def pending_item_def split: option.split)+

lemma ctx_eq_steps:
  "ctx_eq (snd (decide k e a b m)) m" "ctx_eq (snd (merge_custom l i m)) m"
  "ctx_eq (snd (merge_attachments al ai m)) m" "ctx_eq (snd (merge_fields fl fi m)) m"
  by (simp_all add: ctx_eq_def)

lemmas records_step [simp] =
  records_ctx [OF ctx_eq_steps(1)] records_ctx [OF ctx_eq_steps(2)]
  records_ctx [OF ctx_eq_steps(3)] records_ctx [OF ctx_eq_steps(4)]

lemma merge_custom_records:
  "set (fm_conflicts (snd (merge_custom l i m))) = set (fm_conflicts m) \<union> (\<Union>k \<in> cf_label ` set (l @ i).
     set (item_clashes same_custom cf_value m (custom_key k) (last_by cf_label l k) (last_by cf_label i k)))"
  "set (fm_brought_over (snd (merge_custom l i m))) = set (fm_brought_over m) \<union> (\<Union>k \<in> cf_label ` set (l @ i).
     set (item_brought same_custom cf_value m (custom_key k) (last_by cf_label l k) (last_by cf_label i k)))"
  "set (fm_pending (snd (merge_custom l i m))) = set (fm_pending m) \<union> (\<Union>k \<in> cf_label ` set (l @ i).
     set (item_pending cf_label m (custom_key k) (last_by cf_label l k) (last_by cf_label i k)))"
  unfolding merge_custom_def by (simp_all add: cul.loop_records set_fresh image_Un)

lemma merge_attachments_records:
  "set (fm_conflicts (snd (merge_attachments l i m))) = set (fm_conflicts m) \<union> (\<Union>k \<in> at_uuid ` set (l @ i).
     set (item_clashes same_attachment at_name m (attachment_key k) (last_by at_uuid l k) (last_by at_uuid i k)))"
  "set (fm_brought_over (snd (merge_attachments l i m))) = set (fm_brought_over m) \<union> (\<Union>k \<in> at_uuid ` set (l @ i).
     set (item_brought same_attachment at_name m (attachment_key k) (last_by at_uuid l k) (last_by at_uuid i k)))"
  "set (fm_pending (snd (merge_attachments l i m))) = set (fm_pending m) \<union> (\<Union>k \<in> at_uuid ` set (l @ i).
     set (item_pending at_name m (attachment_key k) (last_by at_uuid l k) (last_by at_uuid i k)))"
  unfolding merge_attachments_def by (simp_all add: atl.loop_records set_fresh image_Un)

lemma merge_fields_records:
  "set (fm_conflicts (snd (merge_fields l i m))) = set (fm_conflicts m) \<union> (\<Union>k \<in> fst ` set (l @ i).
     set (item_clashes same_labelled cf_value m (custom_key k) (ix_get l k) (ix_get i k)))"
  "set (fm_brought_over (snd (merge_fields l i m))) = set (fm_brought_over m) \<union> (\<Union>k \<in> fst ` set (l @ i).
     set (item_brought same_labelled cf_value m (custom_key k) (ix_get l k) (ix_get i k)))"
  "set (fm_pending (snd (merge_fields l i m))) = set (fm_pending m) \<union> (\<Union>k \<in> fst ` set (l @ i).
     set (item_pending cf_label m (custom_key k) (ix_get l k) (ix_get i k)))"
  unfolding merge_fields_def by (simp_all add: merge_fields_loop_records image_Un)

lemmas merge_typed_defs = merge_typed_def merge_login_def merge_note_def merge_identity_def merge_card_def
  merge_file_def merge_custom_entry_def merge_passkey_def Let_def case_prod_beta pick_str_eq pick_opt_eq

lemmas part_records = merge_custom_records merge_attachments_records merge_fields_records

lemmas pair_defs = pair_records_def scalar_pairs_def the_customs_def

lemma merge_typed_conflicts:
  assumes "merge_typed b l i m = Some (e, m')"
  shows "set (fm_conflicts m') = set (fm_conflicts m) \<union> pair_records (clash_item m)
    (item_clashes same_custom cf_value m) (item_clashes same_labelled cf_value m)
    (item_clashes same_attachment at_name m) b l i"
  using assms by (cases l; cases i) (auto simp: merge_typed_defs part_records pair_defs, force+)

lemma merge_typed_brought_over:
  assumes "merge_typed b l i m = Some (e, m')"
  shows "set (fm_brought_over m') = set (fm_brought_over m) \<union> pair_records (brought_item m)
    (item_brought same_custom cf_value m) (item_brought same_labelled cf_value m)
    (item_brought same_attachment at_name m) b l i"
  using assms by (cases l; cases i) (auto simp: merge_typed_defs part_records pair_defs, force+)

lemma merge_typed_pending:
  assumes "merge_typed b l i m = Some (e, m')"
  shows "set (fm_pending m') = set (fm_pending m) \<union> pair_records (\<lambda>_ _ _ _. [])
    (item_pending cf_label m) (item_pending cf_label m) (item_pending at_name m) b l i"
  using assms by (cases l; cases i) (auto simp: merge_typed_defs part_records pair_defs, force+)

lemma credential_blob_side:
  "credential_blob \<lparr>pe_meta = a, pe_rp_id = c, pe_user_name = d, pe_user_display_name = f,
     pe_user_handle = pe_user_handle p, pe_credential_id = pe_credential_id p,
     pe_private_key = pe_private_key p, pe_public_key_cose = pe_public_key_cose p,
     pe_algorithm = pe_algorithm p, pe_notes = n, pe_custom_fields = cf\<rparr> = credential_blob p"
  by (simp add: credential_blob_def)

lemma side_of_field [simp]:
  "side_of s (FStr a) (FStr c) = FStr (side_of s a c)" "side_of s (FOpt x) (FOpt y) = FOpt (side_of s x y)"
  "side_of s (FBytes p) (FBytes q) = FBytes (side_of s p q)"
  "credential_blob (side_of s d e) = side_of s (credential_blob d) (credential_blob e)"
  by (cases s; simp)+

lemma merge_typed_same_type: "merge_typed b l i m = Some (e, m') \<Longrightarrow> same_type l i \<and> same_type e l"
  by (cases l; cases i) (auto simp: merge_typed_defs)

lemma merge_typed_None: "merge_typed b l i m = None \<longleftrightarrow> \<not> same_type l i"
  by (cases l; cases i) (auto simp: merge_typed_def)

lemma merge_typed_meta: "merge_typed b l i m = Some (e, m') \<Longrightarrow> meta_of e = meta_of l"
  by (cases l; cases i) (auto simp: merge_typed_defs)

lemma merge_typed_scalars:
  assumes "merge_typed b l i m = Some (e, m')"
  shows "scalars e = map (\<lambda>(k, lv, iv).
      (k, side_of (side_for (fm_lm m) (fm_im m) k (lv = iv)) lv iv)) (scalar_pairs l i)"
  using assms by (cases l; cases i) (auto simp: merge_typed_defs scalar_pairs_def credential_blob_side)

lemma merge_typed_customs:
  assumes "merge_typed b l i m = Some (e, m')"
  shows "the_customs e = fst (merge_custom_loop (the_customs l) (the_customs i)
      (the_customs l @ the_customs i) [] m)"
  using assms
  by (cases l; cases i)
    (auto simp: merge_typed_defs the_customs_def merge_custom_def cul.loop_items map_filter_simps)

lemma merge_typed_attachments:
  assumes "merge_typed b l i m = Some (e, m')"
  shows "entry_attachments e = fst (merge_attachments_loop (entry_attachments l) (entry_attachments i)
      (entry_attachments l @ entry_attachments i) [] m)"
  using assms
  by (cases l; cases i)
    (auto simp: merge_typed_defs merge_attachments_def atl.loop_items map_filter_simps)

lemma merge_typed_fields:
  assumes "merge_typed b l i m = Some (e, m')"
  shows "the_fields e = fst (merge_fields (the_fields l) (the_fields i) m)"
  using assms
  by (cases l; cases i) (auto simp: merge_typed_defs merge_fields_def)

section \<open>The merged entry\<close>

lemma merge_entry_pair_typed:
  assumes "merge_entry_pair b l i = (e, cs, ps, bs)" and "same_type l i"
  obtains x m where "merge_typed b l i (FieldMerger_new (meta_of l) (meta_of i) (entry_display_title l)) = Some (x, m)"
    and "e = map_meta (\<lambda>mt. mt\<lparr>em_updated_at := max (em_updated_at (meta_of l)) (em_updated_at (meta_of i)),
       em_field_times := fold carry_tombstone (em_field_times (meta_of l) @ em_field_times (meta_of i)) (fm_times m),
       em_history := union_history (em_history (meta_of l)) (em_history (meta_of i))\<rparr>) x"
    and "cs = fm_conflicts m" and "ps = fm_pending m" and "bs = fm_brought_over m"
proof -
  obtain x m where t: "merge_typed b l i (FieldMerger_new (meta_of l) (meta_of i) (entry_display_title l)) = Some (x, m)"
    using assms(2) merge_typed_None [of b l i] by (metis not_None_eq surj_pair)
  with assms(1) show ?thesis by (intro that [OF t]) (auto simp: merge_entry_pair_def Let_def)
qed

lemma FieldMerger_new_simps [simp]:
  "fm_id (FieldMerger_new lm im t) = em_id lm" "fm_title (FieldMerger_new lm im t) = t"
  "fm_lm (FieldMerger_new lm im t) = lm" "fm_im (FieldMerger_new lm im t) = im"
  "fm_conflicts (FieldMerger_new lm im t) = []" "fm_pending (FieldMerger_new lm im t) = []"
  "fm_brought_over (FieldMerger_new lm im t) = []" "fm_times (FieldMerger_new lm im t) = []"
  by (simp_all add: FieldMerger_new_def)

lemma set_union_history: "set (union_history l i) = set l \<union> set i"
  unfolding union_history_def by (induction i arbitrary: l) auto

lemma side_for_iff: "side_for lm im k eq = Incoming \<longleftrightarrow> \<not> eq \<and> takes_incoming lm im k"
  by (auto simp: side_for_def verdict_def decide_field_def takes_incoming_def split: option.splits if_splits)

lemma side_of_for: "side_of (side_for lm im k eq) a c = (if \<not> eq \<and> takes_incoming lm im k then c else a)"
  using side_for_iff [of lm im k eq] by (cases "side_for lm im k eq") auto

lemma clash_for_iff: "clash_for lm im k eq \<longleftrightarrow> \<not> eq \<and> both_edited lm im k"
  by (auto simp: clash_for_def verdict_def decide_field_def both_edited_def split: option.splits if_splits)

lemma item_records_keys:
  "c \<in> set (item_clashes eq shown m k l i) \<Longrightarrow> fci_field c = k"
  "d \<in> set (item_brought eq shown m k l i) \<Longrightarrow> bo_field d = k"
  "c \<in> set (clash_item m k eq' a a') \<Longrightarrow> fci_field c = k"
  "d \<in> set (brought_item m k eq' a a') \<Longrightarrow> bo_field d = k"
  by (auto simp: item_clashes_def item_brought_def clash_item_def brought_item_def split: option.splits if_splits)

lemma scalar_pair_unique:
  assumes "same_type l i" and "scalar_at l k = Some lv" and "scalar_at i k = Some iv"
  shows "(k, a, c) \<in> set (scalar_pairs l i) \<longleftrightarrow> a = lv \<and> c = iv"
proof -
  have keys: "map fst (scalars l) = map fst (scalars i)"
    using same_type_scalar_keys [OF assms(1)] by (simp add: scalar_keys_def)
  have dist: "distinct (map fst (scalars l))" using distinct_scalar_keys [of l] by (simp add: scalar_keys_def)
  have len: "length (scalars l) = length (scalars i)" using keys by (metis length_map)
  have "(k, a, c) \<in> set (scalar_pairs l i) \<longleftrightarrow>
      (\<exists>n < length (scalars l). fst (scalars l ! n) = k \<and> snd (scalars l ! n) = a \<and> snd (scalars i ! n) = c)"
  proof -
    have "scalar_pairs l i = map (\<lambda>n. (fst (scalars l ! n), snd (scalars l ! n), snd (scalars i ! n)))
        [0..<length (scalars l)]"
      using len by (intro nth_equalityI) (simp_all add: scalar_pairs_def case_prod_beta)
    then show ?thesis by auto
  qed
  also have "\<dots> \<longleftrightarrow> scalar_at l k = Some a \<and> scalar_at i k = Some c"
  proof -
    have l: "scalar_at l k = Some a \<longleftrightarrow> (\<exists>n < length (scalars l). scalars l ! n = (k, a))" for a
      using dist by (simp add: scalar_at_def in_set_conv_nth)
    have i: "scalar_at i k = Some c \<longleftrightarrow> (\<exists>n < length (scalars i). scalars i ! n = (k, c))" for c
      using dist keys by (simp add: scalar_at_def in_set_conv_nth)
    have same: "fst (scalars l ! n) = fst (scalars i ! n)" if "n < length (scalars l)" for n
      using that keys len by (metis nth_map)
    have uniq: "n = n'" if "n < length (scalars l)" "n' < length (scalars l)" "fst (scalars l ! n) = fst (scalars l ! n')" for n n'
      using that dist by (metis distinct_conv_nth length_map nth_map)
    show ?thesis unfolding l i using len same uniq by (metis fst_conv prod.collapse snd_conv)
  qed
  finally show ?thesis using assms(2,3) by auto
qed

lemma scalar_not_item_key:
  "scalar_at l k = Some v \<Longrightarrow> k \<noteq> custom_key x \<and> k \<noteq> attachment_key y"
  using scalar_keys_simple scalar_at_key by blast

lemma pair_records_scalar:
  assumes "same_type l i" and "scalar_at l k = Some lv" and "scalar_at i k = Some iv"
    and fs: "\<And>k e a c r. r \<in> set (fs k e a c) \<Longrightarrow> fld r = k"
    and fc: "\<And>k a c r. r \<in> set (fc k a c) \<Longrightarrow> fld r = k"
    and fx: "\<And>k a c r. r \<in> set (fx k a c) \<Longrightarrow> fld r = k"
    and fa: "\<And>k a c r. r \<in> set (fa k a c) \<Longrightarrow> fld r = k"
  shows "{r \<in> pair_records fs fc fx fa b l i. fld r = k} = set (fs k (lv = iv) (disp b lv) (disp b iv))"
proof -
  note ne = scalar_not_item_key [OF assms(2)]
  have "r \<in> pair_records fs fc fx fa b l i \<and> fld r = k \<longleftrightarrow> r \<in> set (fs k (lv = iv) (disp b lv) (disp b iv))" for r
  proof
    assume r: "r \<in> pair_records fs fc fx fa b l i \<and> fld r = k"
    then obtain a c where p: "(k, a, c) \<in> set (scalar_pairs l i)" "r \<in> set (fs k (a = c) (disp b a) (disp b c))"
      unfolding pair_records_def using ne fs fc fx fa by fastforce
    from p(1) have "a = lv \<and> c = iv" using scalar_pair_unique [OF assms(1-3)] by simp
    with p(2) show "r \<in> set (fs k (lv = iv) (disp b lv) (disp b iv))" by simp
  next
    assume r: "r \<in> set (fs k (lv = iv) (disp b lv) (disp b iv))"
    have "(k, lv, iv) \<in> set (scalar_pairs l i)" using scalar_pair_unique [OF assms(1-3)] by simp
    with r have "r \<in> pair_records fs fc fx fa b l i" unfolding pair_records_def by force
    with fs [OF r] show "r \<in> pair_records fs fc fx fa b l i \<and> fld r = k" by simp
  qed
  then show ?thesis by blast
qed

lemma merge_scalar_outcome:
  assumes "merge_entry_pair b l i = (e, cs, ps, bs)" and "same_type l i"
    and "scalar_at l k = Some lv" and "scalar_at i k = Some iv"
  shows "scalar_at e k = Some (if lv \<noteq> iv \<and> takes_incoming (meta_of l) (meta_of i) k then iv else lv)
    \<and> {c \<in> set cs. fci_field c = k} =
        (if lv \<noteq> iv \<and> both_edited (meta_of l) (meta_of i) k
         then {\<lparr>fci_id = entry_id l, fci_title = entry_display_title l, fci_field = k,
                fci_local_value = disp b lv, fci_incoming_value = disp b iv\<rparr>} else {})
    \<and> {d \<in> set bs. bo_field d = k} =
        (if lv \<noteq> iv \<and> takes_incoming (meta_of l) (meta_of i) k
         then {\<lparr>bo_id = entry_id l, bo_title = entry_display_title l, bo_field = k,
                bo_old_value = disp b lv, bo_new_value = disp b iv\<rparr>} else {})"
proof -
  obtain x m where t: "merge_typed b l i (FieldMerger_new (meta_of l) (meta_of i) (entry_display_title l)) = Some (x, m)"
    and e: "scalars e = scalars x" and cs: "cs = fm_conflicts m" and bs: "bs = fm_brought_over m"
    using merge_entry_pair_typed [OF assms(1,2)] by (metis scalars_map_meta)
  have "(k, side_of (side_for (meta_of l) (meta_of i) k (lv = iv)) lv iv) \<in> set (scalars e)"
    unfolding e merge_typed_scalars [OF t] using scalar_pair_unique [OF assms(2-4)] by force
  moreover have "distinct (map fst (scalars e))"
    using distinct_scalar_keys [of x] by (simp add: scalar_keys_def e)
  ultimately have 1: "scalar_at e k = Some (side_of (side_for (meta_of l) (meta_of i) k (lv = iv)) lv iv)"
    by (simp add: scalar_at_def)
  note P = pair_records_scalar [OF assms(2-4)]
  have 2: "{c \<in> set cs. fci_field c = k} =
      set (clash_item (FieldMerger_new (meta_of l) (meta_of i) (entry_display_title l)) k (lv = iv) (disp b lv) (disp b iv))"
    unfolding cs merge_typed_conflicts [OF t]
    by (simp, intro P) (auto dest: item_records_keys)
  have 3: "{d \<in> set bs. bo_field d = k} =
      set (brought_item (FieldMerger_new (meta_of l) (meta_of i) (entry_display_title l)) k (lv = iv) (disp b lv) (disp b iv))"
    unfolding bs merge_typed_brought_over [OF t]
    by (simp, intro P) (auto dest: item_records_keys)
  show ?thesis
    unfolding 1 2 3 by (simp add: side_of_for clash_item_def brought_item_def clash_for_iff side_for_iff entry_id_def)
qed

text \<open>C3. The merge of one scalar field of two copies of an entry of the same type, exactly. Equal values stay. Of two different values
  the incoming one is taken when only the incoming copy has an edit mark for the field, or when neither has one and the
  incoming entry was changed later; otherwise the local one stays. The merge reports a clash with both values when both
  copies have a mark, or neither has and the entries were changed at the same time; it reports a taken value with the
  local one it replaced. So of two marked edits no clock picks a winner and neither value goes unreported; an incoming value
  that loses to a local mark, or to a later local entry without marks, is dropped without a report.\<close>

theorem merge_scalar_fields:
  assumes "merge_entry_pair b l i = (e, cs, ps, bs)" and "same_type l i"
    and "scalar_at l k = Some lv" and "scalar_at i k = Some iv"
  shows "scalar_at e k = Some (if lv \<noteq> iv \<and> takes_incoming (meta_of l) (meta_of i) k then iv else lv)
    \<and> {c \<in> set cs. fci_field c = k} =
        (if lv \<noteq> iv \<and> both_edited (meta_of l) (meta_of i) k
         then {\<lparr>fci_id = entry_id l, fci_title = entry_display_title l, fci_field = k,
                fci_local_value = disp b lv, fci_incoming_value = disp b iv\<rparr>} else {})
    \<and> {d \<in> set bs. bo_field d = k} =
        (if lv \<noteq> iv \<and> takes_incoming (meta_of l) (meta_of i) k
         then {\<lparr>bo_id = entry_id l, bo_title = entry_display_title l, bo_field = k,
                bo_old_value = disp b lv, bo_new_value = disp b iv\<rparr>} else {})"
  using assms by (rule merge_scalar_outcome)

theorem merge_scalar_fields_witness:
  "\<exists>e cs ps bs. merge_entry_pair (\<lambda>_. []) sample_local sample_incoming = (e, cs, ps, bs)
     \<and> scalar_at e ''password'' = Some (FStr ''mine'')
     \<and> {c \<in> set cs. fci_field c = ''password''} \<noteq> {}"
proof -
  obtain e cs ps bs where r: "merge_entry_pair (\<lambda>_. []) sample_local sample_incoming = (e, cs, ps, bs)"
    by (metis prod_cases4)
  have st: "same_type sample_local sample_incoming" by (simp add: sample_local_def sample_incoming_def)
  have v: "scalar_at sample_local ''password'' = Some (FStr ''mine'')"
    "scalar_at sample_incoming ''password'' = Some (FStr ''theirs'')"
    by (simp_all add: scalar_at_def sample_local_def sample_incoming_def sample_login_def)
  have "both_edited (meta_of sample_local) (meta_of sample_incoming) ''password''"
    "\<not> takes_incoming (meta_of sample_local) (meta_of sample_incoming) ''password''"
    by (simp_all add: both_edited_def takes_incoming_def sample_local_def sample_incoming_def bt_get_def)
  with merge_scalar_fields [OF r st v] r show ?thesis by auto
qed

lemma item_keys_set:
  "set (item_keys e) = custom_key ` cf_label ` set (the_customs e) \<union> custom_key ` fst ` set (the_fields e)
     \<union> attachment_key ` at_uuid ` set (entry_attachments e)"
  by (cases e) (auto simp: the_customs_def)

lemma the_parts_map_meta [simp]:
  "the_customs (map_meta f e) = the_customs e" "the_fields (map_meta f e) = the_fields e"
  by (cases e; simp add: the_customs_def)+

text \<open>A merge never drops a custom field or an attachment: the merged entry has exactly the labels and
  the attachment ids of the two copies together.\<close>

theorem merge_loses_no_item:
  assumes "same_type l i"
  shows "set (item_keys (fst (merge_entry_pair b l i))) = set (item_keys l) \<union> set (item_keys i)"
proof -
  obtain e cs ps bs where r: "merge_entry_pair b l i = (e, cs, ps, bs)" by (metis prod_cases4)
  obtain x m where t: "merge_typed b l i (FieldMerger_new (meta_of l) (meta_of i) (entry_display_title l)) = Some (x, m)"
    and e: "item_keys e = item_keys x"
    using merge_entry_pair_typed [OF r assms] by (metis item_keys_map_meta)
  have "cf_label ` set (the_customs x) = cf_label ` (set (the_customs l) \<union> set (the_customs i))"
    unfolding merge_typed_customs [OF t] by (rule cul.loop_ident_set)
  moreover have "at_uuid ` set (entry_attachments x) = at_uuid ` (set (entry_attachments l) \<union> set (entry_attachments i))"
    unfolding merge_typed_attachments [OF t] by (rule atl.loop_ident_set)
  moreover have "fst ` set (the_fields x) = fst ` (set (the_fields l) \<union> set (the_fields i))"
    unfolding merge_typed_fields [OF t] by (rule merge_fields_keys)
  ultimately show ?thesis
    by (simp add: r e item_keys_set image_Un Un_ac)
qed

theorem merge_loses_no_item_witness:
  "same_type sample_local sample_incoming \<and>
   set (item_keys (fst (merge_entry_pair (\<lambda>_. []) sample_local sample_incoming))) = {custom_key ''PIN''}"
proof -
  have st: "same_type sample_local sample_incoming" by (simp add: sample_local_def sample_incoming_def)
  from merge_loses_no_item [OF this, of "\<lambda>_. []"] st show ?thesis
    by (simp add: sample_local_def sample_incoming_def sample_login_def)
qed

lemma merged_customs:
  assumes "merge_entry_pair b l i = (e, cs, ps, bs)" and "same_type l i"
  defines "m0 \<equiv> FieldMerger_new (meta_of l) (meta_of i) (entry_display_title l)"
    and "old \<equiv> last_by cf_label (the_customs l)" and "new \<equiv> last_by cf_label (the_customs i)"
    and "labels \<equiv> cf_label ` set (the_customs l @ the_customs i)"
  shows "f \<in> set (the_customs e) \<longleftrightarrow> cf_label f \<in> labels \<and>
      chosen same_custom (meta_of l) (meta_of i) (custom_key (cf_label f)) (old (cf_label f)) (new (cf_label f)) = Some f"
    and "k \<in> labels \<Longrightarrow> set (item_brought same_custom cf_value m0 (custom_key k) (old k) (new k)) \<subseteq> set bs"
    and "k \<in> labels \<Longrightarrow> set (item_clashes same_custom cf_value m0 (custom_key k) (old k) (new k)) \<subseteq> set cs"
proof -
  obtain x m where t: "merge_typed b l i m0 = Some (x, m)"
    and e: "the_customs e = the_customs x" and cs: "cs = fm_conflicts m" and bs: "bs = fm_brought_over m"
    using merge_entry_pair_typed [OF assms(1,2)] unfolding m0_def by (metis the_parts_map_meta(1))
  show "f \<in> set (the_customs e) \<longleftrightarrow> cf_label f \<in> labels \<and>
      chosen same_custom (meta_of l) (meta_of i) (custom_key (cf_label f)) (old (cf_label f)) (new (cf_label f)) = Some f"
    unfolding e merge_typed_customs [OF t] cul.loop_member cul.pick_def by (simp add: m0_def old_def new_def labels_def)
  show "k \<in> labels \<Longrightarrow> set (item_brought same_custom cf_value m0 (custom_key k) (old k) (new k)) \<subseteq> set bs"
    unfolding bs merge_typed_brought_over [OF t] pair_records_def old_def new_def labels_def by blast
  show "k \<in> labels \<Longrightarrow> set (item_clashes same_custom cf_value m0 (custom_key k) (old k) (new k)) \<subseteq> set cs"
    unfolding cs merge_typed_conflicts [OF t] pair_records_def old_def new_def labels_def by blast
qed

lemma local_custom_kept:
  assumes r: "merge_entry_pair b l i = (e, cs, ps, bs)" "same_type l i"
    and d: "distinct (map cf_label (the_customs l))" and f: "f \<in> set (the_customs l)"
  shows "f \<in> set (the_customs e) \<or> (\<exists>d \<in> set bs. bo_field d = custom_key (cf_label f) \<and> bo_old_value d = cf_value f)"
proof -
  have lf: "last_by cf_label (the_customs l) (cf_label f) = Some f" by (rule last_by_distinct [OF d f])
  have "f \<in> set (the_customs e) \<or> (\<exists>g. last_by cf_label (the_customs i) (cf_label f) = Some g
      \<and> side_for (meta_of l) (meta_of i) (custom_key (cf_label f)) (same_custom f g) = Incoming)"
    using f by (cases "last_by cf_label (the_customs i) (cf_label f)")
      (auto simp: merged_customs(1) [OF r] chosen_def lf side_of_def split: Side.splits)
  then show ?thesis
  proof (elim disjE exE conjE, goal_cases)
    case (2 g)
    then show ?thesis using merged_customs(2) [OF r, of "cf_label f"] f
      by (intro disjI2) (force simp: item_brought_def brought_item_def lf)
  qed simp
qed

lemma incoming_custom_kept:
  assumes r: "merge_entry_pair b l i = (e, cs, ps, bs)" "same_type l i"
    and d: "distinct (map cf_label (the_customs i))" and f: "f \<in> set (the_customs i)"
  shows "f \<in> set (the_customs e)
      \<or> (\<exists>c \<in> set cs. fci_field c = custom_key (cf_label f) \<and> fci_incoming_value c = cf_value f)
      \<or> (\<exists>g \<in> set (the_customs e). cf_label g = cf_label f \<and>
           (same_custom g f \<or> bt_get (em_field_times (meta_of i)) (custom_key (cf_label f)) = None))"
proof (cases "last_by cf_label (the_customs l) (cf_label f)")
  case None
  with f last_by_distinct [OF d f] show ?thesis by (auto simp: merged_customs(1) [OF r] chosen_def)
next
  case (Some g)
  note fi = last_by_distinct [OF d f]
  have lg: "cf_label g = cf_label f" using last_by_Some [OF Some] by simp
  show ?thesis
  proof (cases "side_for (meta_of l) (meta_of i) (custom_key (cf_label f)) (same_custom g f)")
    case Incoming
    with f fi Some show ?thesis by (auto simp: merged_customs(1) [OF r] chosen_def)
  next
    case Local
    have ge: "g \<in> set (the_customs e)" using f fi Some Local lg by (auto simp: merged_customs(1) [OF r] chosen_def)
    consider "same_custom g f" | "clash_for (meta_of l) (meta_of i) (custom_key (cf_label f)) (same_custom g f)"
      | "bt_get (em_field_times (meta_of i)) (custom_key (cf_label f)) = None"
      using Local side_for_iff [of "meta_of l" "meta_of i" "custom_key (cf_label f)" "same_custom g f"]
      by (auto simp: clash_for_iff takes_incoming_def both_edited_def)
    then show ?thesis
    proof cases
      case 2
      then have "\<exists>c \<in> set cs. fci_field c = custom_key (cf_label f) \<and> fci_incoming_value c = cf_value f"
        using merged_customs(3) [OF r, of "cf_label f"] f fi Some by (force simp: item_clashes_def clash_item_def)
      then show ?thesis by blast
    qed (use ge lg in auto)
  qed
qed

text \<open>Every custom field of the local copy (labels being distinct) is in the merged entry as it
  was, or its value is reported as replaced; every incoming one is in the merged entry, or it
  equals the local one, or the local side was edited, or both values are reported as a clash.\<close>

theorem merge_keeps_custom_values:
  assumes "merge_entry_pair b l i = (e, cs, ps, bs)" and "same_type l i"
    and "distinct (map cf_label (the_customs l))" and "distinct (map cf_label (the_customs i))"
  shows "(\<forall>f \<in> set (the_customs l). f \<in> set (the_customs e)
      \<or> (\<exists>d \<in> set bs. bo_field d = custom_key (cf_label f) \<and> bo_old_value d = cf_value f))
    \<and> (\<forall>f \<in> set (the_customs i). f \<in> set (the_customs e)
      \<or> (\<exists>c \<in> set cs. fci_field c = custom_key (cf_label f) \<and> fci_incoming_value c = cf_value f)
      \<or> (\<exists>g \<in> set (the_customs e). cf_label g = cf_label f \<and>
           (same_custom g f \<or> bt_get (em_field_times (meta_of i)) (custom_key (cf_label f)) = None)))"
  using local_custom_kept [OF assms(1-3)] incoming_custom_kept [OF assms(1,2,4)] by blast

theorem merge_keeps_custom_values_witness:
  "\<exists>e cs ps bs. merge_entry_pair (\<lambda>_. []) sample_incoming sample_local = (e, cs, ps, bs)
     \<and> (\<forall>f \<in> set (the_customs sample_incoming). f \<in> set (the_customs e)
      \<or> (\<exists>d \<in> set bs. bo_field d = custom_key (cf_label f) \<and> bo_old_value d = cf_value f))"
proof -
  obtain e cs ps bs where r: "merge_entry_pair (\<lambda>_. []) sample_incoming sample_local = (e, cs, ps, bs)"
    by (metis prod_cases4)
  have st: "same_type sample_incoming sample_local" by (simp add: sample_local_def sample_incoming_def)
  have d: "distinct (map cf_label (the_customs sample_incoming))" "distinct (map cf_label (the_customs sample_local))"
    by (simp_all add: sample_local_def sample_incoming_def sample_login_def the_customs_def)
  from merge_keeps_custom_values [OF r st d] r show ?thesis by blast
qed

lemma merge_identity_facts:
  assumes "same_type l i"
  shows "same_type (fst (merge_entry_pair b l i)) l
    \<and> entry_id (fst (merge_entry_pair b l i)) = entry_id l
    \<and> entry_folder (fst (merge_entry_pair b l i)) = entry_folder l
    \<and> em_created_at (meta_of (fst (merge_entry_pair b l i))) = em_created_at (meta_of l)
    \<and> em_updated_at (meta_of (fst (merge_entry_pair b l i))) =
        max (em_updated_at (meta_of l)) (em_updated_at (meta_of i))
    \<and> set (em_history (meta_of (fst (merge_entry_pair b l i)))) =
        set (em_history (meta_of l)) \<union> set (em_history (meta_of i))"
proof -
  obtain e cs ps bs where r: "merge_entry_pair b l i = (e, cs, ps, bs)" by (metis prod_cases4)
  obtain x m where t: "merge_typed b l i (FieldMerger_new (meta_of l) (meta_of i) (entry_display_title l)) = Some (x, m)"
    and e: "e = map_meta (\<lambda>mt. mt\<lparr>em_updated_at := max (em_updated_at (meta_of l)) (em_updated_at (meta_of i)),
       em_field_times := fold carry_tombstone (em_field_times (meta_of l) @ em_field_times (meta_of i)) (fm_times m),
       em_history := union_history (em_history (meta_of l)) (em_history (meta_of i))\<rparr>) x"
    using merge_entry_pair_typed [OF r assms] by metis
  from merge_typed_meta [OF t] merge_typed_same_type [OF t] show ?thesis
    by (simp add: r e entry_id_def entry_folder_def set_union_history)
qed

text \<open>The merged entry is the local entry in identity: its id, creation time and folder are kept, its
  edit time is the later of the two, and its history has every record of both sides.\<close>

theorem merge_keeps_identity:
  assumes "same_type l i"
  shows "same_type (fst (merge_entry_pair b l i)) l
    \<and> entry_id (fst (merge_entry_pair b l i)) = entry_id l
    \<and> entry_folder (fst (merge_entry_pair b l i)) = entry_folder l
    \<and> em_created_at (meta_of (fst (merge_entry_pair b l i))) = em_created_at (meta_of l)
    \<and> em_updated_at (meta_of (fst (merge_entry_pair b l i))) =
        max (em_updated_at (meta_of l)) (em_updated_at (meta_of i))
    \<and> set (em_history (meta_of (fst (merge_entry_pair b l i)))) =
        set (em_history (meta_of l)) \<union> set (em_history (meta_of i))"
  using assms by (rule merge_identity_facts)

theorem merge_keeps_identity_witness:
  "same_type sample_local sample_incoming \<and>
   entry_id (fst (merge_entry_pair (\<lambda>_. []) sample_local sample_incoming)) = ''1''"
proof -
  have st: "same_type sample_local sample_incoming" by (simp add: sample_local_def sample_incoming_def)
  from merge_keeps_identity [OF this, of "\<lambda>_. []"] st show ?thesis
    by (simp add: sample_local_def entry_id_def sample_meta_def)
qed

end
