(* ===== verification/Sync.thy ===== *)
theory Sync
  imports Merge "HOL-Library.Multiset"
begin

text \<open>
  The vault in memory and its synchronisation with another vault: \<open>VaultBody\<close> of
  \<open>rust/src/vault/serialization.rs\<close>, \<open>VaultSession\<close>, \<open>do_merge\<close>, \<open>do_fast_merge\<close> and
  \<open>do_apply_sync_decisions\<close> of \<open>rust/src/vault/session.rs\<close>.

  The deletion marks of a merge are collected in a \<open>HashMap\<close> and read back in its iteration
  order, which is unspecified: the parameter \<open>hash_order\<close> is that order, and what is known
  of it is that it permutes (\<open>permutes_lists\<close>). The counters of a summary are 32-bit words.

  Shown: a merge keeps every local entry in its place and appends exactly the new incoming ones, so
  nothing is deleted; folders and deletion marks are united; a resolved clash has the
  incoming value and keeps the local one in the history.
\<close>

section \<open>The vault body and the session\<close>

record DeletedEntry =
  de_id :: string
  de_deleted_at :: string

record VaultBody =
  vb_folders :: "string list"
  vb_entries :: "VaultEntry list"
  vb_yubikey_aliases :: "string \<rightharpoonup> string"
  vb_vault_updated_at :: string
  vb_deleted_ids :: "DeletedEntry list"

definition DEFAULT_FOLDERS :: "string list" where
  "DEFAULT_FOLDERS = [''Work'', ''Private'', ''Other'']"

definition VaultBody_empty :: VaultBody where
  "VaultBody_empty = \<lparr>vb_folders = DEFAULT_FOLDERS, vb_entries = [], vb_yubikey_aliases = Map.empty,
     vb_vault_updated_at = [], vb_deleted_ids = []\<rparr>"

record YubikeyMaterial =
  ym_vault_key_master :: bytes
  ym_wrapping_key :: "bytes option"

record SyncBackup =
  sb_folders :: "string list"
  sb_entries :: "VaultEntry list"
  sb_deleted_ids :: "DeletedEntry list"

record VaultSession =
  vs_folders :: "string list"
  vs_entries :: "VaultEntry list"
  vs_path :: string
  vs_passphrase :: bytes
  vs_yubikey :: "YubikeyMaterial option"
  vs_yubikey_aliases :: "string \<rightharpoonup> string"
  vs_deleted_ids :: "DeletedEntry list"
  vs_pre_sync_backup :: "SyncBackup option"

section \<open>Merge summaries and review decisions\<close>

record PendingDeleteItem =
  pdi_id :: string
  pdi_title :: string

record FolderConflictItem =
  foc_id :: string
  foc_title :: string
  foc_local_folder :: string
  foc_incoming_folder :: string

record AddedEntryItem =
  aei_id :: string
  aei_title :: string

record MergeSummary =
  ms_added :: u32
  ms_updated :: u32
  ms_added_entries :: "AddedEntryItem list"
  ms_brought_over :: "BroughtOverItem list"
  ms_pending_deletes :: "PendingDeleteItem list"
  ms_folder_conflicts :: "FolderConflictItem list"
  ms_field_conflicts :: "FieldConflictItem list"
  ms_pending_item_deletes :: "PendingItemDeleteItem list"

record SyncFieldResolutionInput =
  sfr_id :: string
  sfr_field :: string
  sfr_keep_incoming :: bool
  sfr_value :: string

record SyncHistoryReplacementInput =
  shr_id :: string
  shr_field :: string
  shr_new_value :: string
  shr_replaced_value :: string

record SyncItemDeleteInput =
  sid_id :: string
  sid_field :: string
  sid_delete :: bool

record SyncFolderInput =
  sfi_id :: string
  sfi_folder :: string

section \<open>Merging a body into the session\<close>

text \<open>\<open>PartialEq\<close> of entries: two \<open>IndexMap\<close>s are equal when they have the same pairs, in any
  order.\<close>

definition fields_eq :: "(string \<times> CustomField) list \<Rightarrow> (string \<times> CustomField) list \<Rightarrow> bool" where
  "fields_eq a c = (length a = length c \<and> list_all (\<lambda>(k, v). ix_get c k = Some v) a)"

fun entry_eq :: "VaultEntry \<Rightarrow> VaultEntry \<Rightarrow> bool" where
  "entry_eq (Custom a) (Custom c) =
     (a\<lparr>xe_fields := []\<rparr> = c\<lparr>xe_fields := []\<rparr> \<and> fields_eq (xe_fields a) (xe_fields c))"
| "entry_eq a c = (a = c)"

text \<open>The two loops of \<open>do_merge\<close>: what one local entry becomes and what is reported about it.\<close>

record LocalOutcome =
  lo_entry :: VaultEntry
  lo_updated :: bool
  lo_pending :: "PendingDeleteItem list"
  lo_folder :: "FolderConflictItem list"
  lo_conflicts :: "FieldConflictItem list"
  lo_item_deletes :: "PendingItemDeleteItem list"
  lo_carried :: "BroughtOverItem list"

definition merge_local :: "(bytes \<Rightarrow> string) \<Rightarrow> VaultBody \<Rightarrow> VaultEntry \<Rightarrow> LocalOutcome" where
  "merge_local b64enc incoming e =
     (case last_by entry_id (vb_entries incoming) (entry_id e) of
        Some inc \<Rightarrow>
          (case merge_entry_pair b64enc e inc of (merged, conflicts, item_deletes, carried) \<Rightarrow>
             \<lparr>lo_entry = merged, lo_updated = (\<not> entry_eq merged e), lo_pending = [],
              lo_folder = (if entry_folder e \<noteq> entry_folder inc
                 then [\<lparr>foc_id = entry_id e, foc_title = entry_display_title e,
                        foc_local_folder = entry_folder e, foc_incoming_folder = entry_folder inc\<rparr>]
                 else []),
              lo_conflicts = conflicts, lo_item_deletes = item_deletes, lo_carried = carried\<rparr>)
      | None \<Rightarrow>
          \<lparr>lo_entry = e, lo_updated = False,
           lo_pending = (if last_by de_id (vb_deleted_ids incoming) (entry_id e) \<noteq> None
              then [\<lparr>pdi_id = entry_id e, pdi_title = entry_display_title e\<rparr>] else []),
           lo_folder = [], lo_conflicts = [], lo_item_deletes = [], lo_carried = []\<rparr>)"

definition new_entries :: "VaultEntry list \<Rightarrow> VaultEntry list \<Rightarrow> VaultEntry list" where
  "new_entries loc inc = filter (\<lambda>e. last_by entry_id loc (entry_id e) = None) inc"

definition merge_folders :: "string list \<Rightarrow> string list \<Rightarrow> string list" where
  "merge_folders loc inc = fold (\<lambda>f fs. if f \<in> set fs then fs else fs @ [f]) inc loc"

definition merge_tombstones :: "DeletedEntry list \<Rightarrow> DeletedEntry list \<Rightarrow> (string \<times> string) list" where
  "merge_tombstones loc inc =
     fold (\<lambda>d m. let e = unwrap_or (ix_get m (de_id d)) (de_deleted_at d)
                 in ix_insert (de_id d) (if e < de_deleted_at d then de_deleted_at d else e) m) inc
       (fold (\<lambda>d. ix_insert (de_id d) (de_deleted_at d)) loc [])"

definition do_merge ::
  "(bytes \<Rightarrow> string) \<Rightarrow> (DeletedEntry list \<Rightarrow> DeletedEntry list) \<Rightarrow> VaultSession \<Rightarrow> VaultBody
    \<Rightarrow> VaultSession \<times> MergeSummary" where
  "do_merge b64enc hash_order session incoming =
     (let outs = map (merge_local b64enc incoming) (vs_entries session);
          new = new_entries (vs_entries session) (vb_entries incoming)
      in (session\<lparr>vs_entries := map lo_entry outs @ new,
            vs_folders := merge_folders (vs_folders session) (vb_folders incoming),
            vs_deleted_ids := hash_order (map (\<lambda>(i, a). \<lparr>de_id = i, de_deleted_at = a\<rparr>)
               (merge_tombstones (vs_deleted_ids session) (vb_deleted_ids incoming)))\<rparr>,
          \<lparr>ms_added = of_nat (length new),
           ms_updated = of_nat (length (filter lo_updated outs)),
           ms_added_entries = map (\<lambda>e. \<lparr>aei_id = entry_id e, aei_title = entry_display_title e\<rparr>) new,
           ms_brought_over = concat (map lo_carried outs),
           ms_pending_deletes = concat (map lo_pending outs),
           ms_folder_conflicts = concat (map lo_folder outs),
           ms_field_conflicts = concat (map lo_conflicts outs),
           ms_pending_item_deletes = concat (map lo_item_deletes outs)\<rparr>))"

section \<open>Applying decisions\<close>

text \<open>Change the first entry with an id, if there is one (the closure \<open>find\<close> and the index after it).\<close>

definition modify_entry ::
  "string \<Rightarrow> (VaultEntry \<Rightarrow> VaultEntry) \<Rightarrow> VaultEntry list \<Rightarrow> VaultEntry list" where
  "modify_entry i f es =
     (case position (\<lambda>e. entry_id e = i) es of None \<Rightarrow> es | Some p \<Rightarrow> es[p := f (es ! p)])"

definition stamp :: "string \<Rightarrow> u64 \<Rightarrow> EntryMeta \<Rightarrow> EntryMeta" where
  "stamp k now_ms m = m\<lparr>em_field_times := bt_insert k now_ms (em_field_times m)\<rparr>"

definition unstamp :: "string \<Rightarrow> EntryMeta \<Rightarrow> EntryMeta" where
  "unstamp k m = m\<lparr>em_field_times := bt_remove k (em_field_times m)\<rparr>"

definition replace_keeping_history ::
  "(string \<Rightarrow> bytes option) \<Rightarrow> string \<Rightarrow> u64 \<Rightarrow> string \<Rightarrow> string \<Rightarrow> string \<Rightarrow> VaultEntry \<Rightarrow> VaultEntry" where
  "replace_keeping_history b64dec now now_ms fld new_value replaced e =
     map_meta (\<lambda>m. touch now (stamp fld now_ms (record_previous m fld replaced now None)))
       (set_entry_field_by_key b64dec fld new_value e)"

definition delete_item :: "string \<Rightarrow> u64 \<Rightarrow> string \<Rightarrow> VaultEntry \<Rightarrow> VaultEntry" where
  "delete_item now now_ms fld e =
     map_meta (\<lambda>m. touch now (unstamp fld (stamp (del_key fld) now_ms m))) (remove_entry_item_by_key fld e)"

definition apply_brought_over :: "string \<Rightarrow> BroughtOverItem \<Rightarrow> VaultEntry list \<Rightarrow> VaultEntry list" where
  "apply_brought_over now b es =
     (if bo_old_value b = [] \<or> starts_with ''attachments:'' (bo_field b) then es
      else modify_entry (bo_id b)
        (map_meta (\<lambda>m. record_previous m (bo_field b) (bo_old_value b) now None)) es)"

definition do_fast_merge ::
  "(bytes \<Rightarrow> string) \<Rightarrow> (string \<Rightarrow> bytes option) \<Rightarrow> (DeletedEntry list \<Rightarrow> DeletedEntry list)
    \<Rightarrow> nat \<Rightarrow> u64 \<Rightarrow> VaultSession \<Rightarrow> VaultBody \<Rightarrow> VaultSession \<times> MergeSummary" where
  "do_fast_merge b64enc b64dec hash_order now_secs now_ms session0 incoming =
     (let (session, summary) = do_merge b64enc hash_order session0 incoming;
          now = chrono_now now_secs;
          e1 = fold (apply_brought_over now) (ms_brought_over summary) (vs_entries session);
          e2 = fold (\<lambda>c. modify_entry (fci_id c) (replace_keeping_history b64dec now now_ms
                 (fci_field c) (fci_incoming_value c) (fci_local_value c))) (ms_field_conflicts summary) e1;
          e3 = fold (\<lambda>f. modify_entry (foc_id f) (map_meta (\<lambda>m. touch now
                 (m\<lparr>em_folder := foc_incoming_folder f\<rparr>)))) (ms_folder_conflicts summary) e2;
          e4 = fold (\<lambda>d. modify_entry (pid_id d) (delete_item now now_ms (pid_field d)))
                 (ms_pending_item_deletes summary) e3;
          e5 = fold (\<lambda>d. filter (\<lambda>e. entry_id e \<noteq> pdi_id d)) (ms_pending_deletes summary) e4
      in (session\<lparr>vs_entries := e5\<rparr>, summary))"

definition apply_resolution ::
  "(string \<Rightarrow> bytes option) \<Rightarrow> string \<Rightarrow> u64 \<Rightarrow> SyncFieldResolutionInput \<Rightarrow> VaultEntry \<Rightarrow> VaultEntry" where
  "apply_resolution b64dec now now_ms f e =
     map_meta (\<lambda>m. touch now (stamp (sfr_field f) now_ms m))
       (if sfr_keep_incoming f then set_entry_field_by_key b64dec (sfr_field f) (sfr_value f) e else e)"

definition apply_item_delete :: "string \<Rightarrow> u64 \<Rightarrow> SyncItemDeleteInput \<Rightarrow> VaultEntry \<Rightarrow> VaultEntry" where
  "apply_item_delete now now_ms d e =
     (if sid_delete d then delete_item now now_ms (sid_field d) e
      else map_meta (\<lambda>m. touch now (stamp (sid_field d) now_ms m)) e)"

text \<open>The folder loop stops at the first unknown folder; the changes made before it remain in the
  session, so the session is returned with the result.\<close>

fun apply_folders ::
  "string \<Rightarrow> string list \<Rightarrow> SyncFolderInput list \<Rightarrow> VaultEntry list \<Rightarrow> VaultEntry list \<times> unit res" where
  "apply_folders now known [] es = (es, Inr ())"
| "apply_folders now known (f # fs) es =
     (if sfi_folder f \<noteq> [] \<and> sfi_folder f \<notin> set known
      then (es, Inl (Err (''Folder not found: '' @ sfi_folder f)))
      else apply_folders now known fs
        (modify_entry (sfi_id f) (map_meta (\<lambda>m. touch now (m\<lparr>em_folder := sfi_folder f\<rparr>))) es))"

fun apply_entry_deletes :: "string \<Rightarrow> string list \<Rightarrow> VaultSession \<Rightarrow> VaultSession \<times> unit res" where
  "apply_entry_deletes now [] s = (s, Inr ())"
| "apply_entry_deletes now (i # is) s =
     (if \<exists>e \<in> set (vs_entries s). entry_id e = i
      then case delete_entry (vs_entries s) i of
          Inl e \<Rightarrow> (s, Inl e)
        | Inr es \<Rightarrow> apply_entry_deletes now is (s\<lparr>vs_entries := es,
            vs_deleted_ids := vs_deleted_ids s @ [\<lparr>de_id = i, de_deleted_at = now\<rparr>]\<rparr>)
      else apply_entry_deletes now is s)"

definition do_apply_sync_decisions ::
  "(string \<Rightarrow> bytes option) \<Rightarrow> nat \<Rightarrow> u64 \<Rightarrow> VaultSession \<Rightarrow> SyncFieldResolutionInput list
    \<Rightarrow> SyncHistoryReplacementInput list \<Rightarrow> SyncItemDeleteInput list \<Rightarrow> SyncFolderInput list
    \<Rightarrow> string list \<Rightarrow> VaultSession \<times> unit res" where
  "do_apply_sync_decisions b64dec now_secs now_ms session resolutions replacements item_deletes folders entry_deletes =
     (let now = chrono_now now_secs;
          e1 = fold (\<lambda>f. modify_entry (sfr_id f) (apply_resolution b64dec now now_ms f)) resolutions
                 (vs_entries session);
          e2 = fold (\<lambda>h. modify_entry (shr_id h) (replace_keeping_history b64dec now now_ms
                 (shr_field h) (shr_new_value h) (shr_replaced_value h))) replacements e1;
          e3 = fold (\<lambda>d. modify_entry (sid_id d) (apply_item_delete now now_ms d)) item_deletes e2
      in case apply_folders now (vs_folders session) folders e3 of
          (e4, Inl err) \<Rightarrow> (session\<lparr>vs_entries := e4\<rparr>, Inl err)
        | (e4, Inr _) \<Rightarrow> apply_entry_deletes now entry_deletes (session\<lparr>vs_entries := e4\<rparr>))"

section \<open>Legacy folders\<close>

definition migrate_folders :: "VaultEntry list \<Rightarrow> VaultEntry list" where
  "migrate_folders entries = map (map_meta (\<lambda>m.
     if em_folder m = ''Personal'' then m\<lparr>em_folder := []\<rparr> else m)) entries"

section \<open>Notions the lemmas are stated with\<close>

definition permutes_lists :: "('a list \<Rightarrow> 'a list) \<Rightarrow> bool" where
  "permutes_lists f = (\<forall>xs. mset (f xs) = mset xs)"

definition latest :: "DeletedEntry list \<Rightarrow> (string \<times> string) list \<Rightarrow> string \<Rightarrow> string option" where
  "latest ds m i = (let ts = map de_deleted_at (filter (\<lambda>d. de_id d = i) ds) @ (case ix_get m i of None \<Rightarrow> [] | Some t \<Rightarrow> [t])
     in if ts = [] then None else Some (Max (set ts)))"

definition resolved :: "string \<Rightarrow> FieldVal \<Rightarrow> string \<Rightarrow> VaultEntry \<Rightarrow> bool" where
  "resolved k iv old e = (scalar_at e k = Some (present iv) \<and> history_of (meta_of e) k = Some old)"

text \<open>All changes of a fast merge as one run of changes by id.\<close>

definition keep_replaced :: "string \<Rightarrow> BroughtOverItem \<Rightarrow> VaultEntry \<Rightarrow> VaultEntry" where
  "keep_replaced now b = (if bo_old_value b = [] \<or> starts_with ''attachments:'' (bo_field b) then id
      else map_meta (\<lambda>m. record_previous m (bo_field b) (bo_old_value b) now None))"

definition take_conflict ::
  "(string \<Rightarrow> bytes option) \<Rightarrow> string \<Rightarrow> u64 \<Rightarrow> FieldConflictItem \<Rightarrow> VaultEntry \<Rightarrow> VaultEntry" where
  "take_conflict d now ms c =
     replace_keeping_history d now ms (fci_field c) (fci_incoming_value c) (fci_local_value c)"

definition take_folder :: "string \<Rightarrow> FolderConflictItem \<Rightarrow> VaultEntry \<Rightarrow> VaultEntry" where
  "take_folder now f = map_meta (\<lambda>m. touch now (m\<lparr>em_folder := foc_incoming_folder f\<rparr>))"

definition fast_changes ::
  "(string \<Rightarrow> bytes option) \<Rightarrow> string \<Rightarrow> u64 \<Rightarrow> MergeSummary \<Rightarrow> (string \<times> (VaultEntry \<Rightarrow> VaultEntry)) list" where
  "fast_changes d now ms sm =
     map (\<lambda>b. (bo_id b, keep_replaced now b)) (ms_brought_over sm)
     @ map (\<lambda>c. (fci_id c, take_conflict d now ms c)) (ms_field_conflicts sm)
     @ map (\<lambda>f. (foc_id f, take_folder now f)) (ms_folder_conflicts sm)
     @ map (\<lambda>x. (pid_id x, delete_item now ms (pid_field x))) (ms_pending_item_deletes sm)"

definition tombs :: "string \<Rightarrow> string list \<Rightarrow> DeletedEntry list" where
  "tombs now is = map (\<lambda>i. \<lparr>de_id = i, de_deleted_at = now\<rparr>) is"

definition sample_session :: VaultSession where
  "sample_session = \<lparr>vs_folders = [''Work''], vs_entries = [sample_local], vs_path = ''/v.gabbro'',
     vs_passphrase = [1, 2, 3], vs_yubikey = None, vs_yubikey_aliases = Map.empty,
     vs_deleted_ids = [\<lparr>de_id = ''9'', de_deleted_at = ''2024''\<rparr>], vs_pre_sync_backup = None\<rparr>"

definition sample_body :: VaultBody where
  "sample_body = \<lparr>vb_folders = [''Home''], vb_entries = [sample_incoming], vb_yubikey_aliases = Map.empty,
     vb_vault_updated_at = [], vb_deleted_ids = [\<lparr>de_id = ''9'', de_deleted_at = ''2025''\<rparr>]\<rparr>"

section \<open>Entries and ids\<close>

lemma entry_id_merge_pair:
  assumes "entry_id i = entry_id l"
  shows "entry_id (fst (merge_entry_pair b l i)) = entry_id l"
proof (cases "same_type l i")
  case False
  then have "merge_typed b l i m = None" for m by (simp add: merge_typed_None)
  with assms show ?thesis by (simp add: merge_entry_pair_def Let_def)
qed (simp add: merge_identity_facts)

lemma merge_local_id [simp]: "entry_id (lo_entry (merge_local b inc e)) = entry_id e"
proof (cases "last_by entry_id (vb_entries inc) (entry_id e)")
  case (Some x)
  from last_by_Some [OF Some] have "entry_id x = entry_id e" by simp
  from entry_id_merge_pair [OF this, of b] Some show ?thesis
    by (auto simp: merge_local_def split: prod.splits)
qed (simp add: merge_local_def)

lemma merge_local_pending:
  "lo_pending (merge_local b inc e) =
     (if entry_id e \<notin> entry_id ` set (vb_entries inc) \<and> entry_id e \<in> de_id ` set (vb_deleted_ids inc)
      then [\<lparr>pdi_id = entry_id e, pdi_title = entry_display_title e\<rparr>] else [])"
proof (cases "last_by entry_id (vb_entries inc) (entry_id e)")
  case None
  then have 1: "entry_id e \<notin> entry_id ` set (vb_entries inc)" by (simp add: last_by_None)
  have 2: "last_by de_id (vb_deleted_ids inc) (entry_id e) \<noteq> None \<longleftrightarrow> entry_id e \<in> de_id ` set (vb_deleted_ids inc)"
    by (simp add: last_by_None)
  show ?thesis unfolding merge_local_def using None 1 2 by simp
next
  case (Some x)
  then have "entry_id e \<in> entry_id ` set (vb_entries inc)" by (metis last_by_None option.distinct(1))
  with Some show ?thesis by (simp add: merge_local_def split: prod.splits)
qed

lemma merge_entries:
  "vs_entries (fst (do_merge b ho s inc)) =
     map (lo_entry \<circ> merge_local b inc) (vs_entries s) @ new_entries (vs_entries s) (vb_entries inc)"
  by (simp add: do_merge_def Let_def)

lemma merge_ids:
  "map entry_id (vs_entries (fst (do_merge b ho s inc))) =
     map entry_id (vs_entries s) @ map entry_id (new_entries (vs_entries s) (vb_entries inc))"
  by (simp add: merge_entries)

lemma new_entries_iff: "e \<in> set (new_entries loc inc) \<longleftrightarrow> e \<in> set inc \<and> entry_id e \<notin> entry_id ` set loc"
  by (auto simp: new_entries_def last_by_None)

section \<open>Folders and deletion marks\<close>

lemma merge_folders_facts:
  "set (merge_folders loc inc) = set loc \<union> set inc" "take (length loc) (merge_folders loc inc) = loc"
  "length loc \<le> length (merge_folders loc inc)"
proof -
  have "set (merge_folders loc inc) = set loc \<union> set inc \<and> (\<exists>r. merge_folders loc inc = loc @ r)"
    unfolding merge_folders_def
  proof (induction inc arbitrary: loc)
    case (Cons f inc)
    show ?case
    proof (cases "f \<in> set loc")
      case True
      then show ?thesis using Cons [of loc] by auto
    next
      case False
      then show ?thesis using Cons [of "loc @ [f]"] by auto
    qed
  qed auto
  then show "set (merge_folders loc inc) = set loc \<union> set inc" "take (length loc) (merge_folders loc inc) = loc"
    "length loc \<le> length (merge_folders loc inc)" by auto
qed

lemma fold_ix_insert_get:
  "ix_get (fold (\<lambda>d. ix_insert (de_id d) (de_deleted_at d)) ds m) i =
     (case last_by de_id ds i of Some d \<Rightarrow> Some (de_deleted_at d) | None \<Rightarrow> ix_get m i)"
  by (induction ds arbitrary: m)
    (auto simp: last_by_Cons ix_get_insert split: option.splits)

lemma ix_wf_fold_insert: "ix_wf m \<Longrightarrow> ix_wf (fold (\<lambda>d. ix_insert (f d) (g d)) ds m)"
  by (induction ds arbitrary: m) (auto intro: ix_wf_insert)

lemma tombstone_step_get:
  "ix_get (let e = unwrap_or (ix_get m (de_id d)) (de_deleted_at d)
           in ix_insert (de_id d) (if e < de_deleted_at d then de_deleted_at d else e) m) i =
     (if i = de_id d then Some (case ix_get m i of None \<Rightarrow> de_deleted_at d | Some t \<Rightarrow> max t (de_deleted_at d))
      else ix_get m i)"
  by (auto simp: Let_def ix_get_insert max_def split: option.splits)

lemma latest_step:
  "latest ds (let e = unwrap_or (ix_get m (de_id d)) (de_deleted_at d)
              in ix_insert (de_id d) (if e < de_deleted_at d then de_deleted_at d else e) m) i = latest (d # ds) m i"
proof -
  let ?m = "let e = unwrap_or (ix_get m (de_id d)) (de_deleted_at d)
              in ix_insert (de_id d) (if e < de_deleted_at d then de_deleted_at d else e) m"
  have mx: "Max (insert (max a c) S) = Max (insert a (insert c S))" if "finite S" for a c :: string and S
    using that by (cases "S = {}") (auto simp: max.assoc)
  show ?thesis
    unfolding latest_def tombstone_step_get
    by (cases "ix_get m i"; cases "i = de_id d") (auto simp: Let_def mx insert_commute max.commute)
qed

lemma merge_tombstones_get:
  "ix_get (merge_tombstones loc inc) i =
     latest inc (fold (\<lambda>d. ix_insert (de_id d) (de_deleted_at d)) loc []) i"
proof -
  have "ix_get (fold (\<lambda>d m. let e = unwrap_or (ix_get m (de_id d)) (de_deleted_at d)
                 in ix_insert (de_id d) (if e < de_deleted_at d then de_deleted_at d else e) m) inc m) i
      = latest inc m i" for m
  proof (induction inc arbitrary: m)
    case Nil
    then show ?case by (simp add: latest_def split: option.split)
  next
    case (Cons d inc)
    show ?case by (simp only: fold_simps o_apply Cons latest_step)
  qed
  then show ?thesis by (simp add: merge_tombstones_def)
qed

section \<open>Changing entries in place\<close>

lemma modify_entry_ids [simp]:
  assumes "\<And>e. entry_id (f e) = entry_id e"
  shows "map entry_id (modify_entry i f es) = map entry_id es"
proof (cases "position (\<lambda>e. entry_id e = i) es")
  case (Some p)
  then have "p < length es" by (simp add: position_Some)
  then have "(map entry_id es)[p := entry_id (es ! p)] = map entry_id es" by (metis list_update_id nth_map)
  with Some assms show ?thesis by (simp add: modify_entry_def map_update)
qed (simp add: modify_entry_def)

lemma position_cong_ids:
  "map entry_id es = map entry_id es' \<Longrightarrow>
     position (\<lambda>e. entry_id e = i) es = position (\<lambda>e. entry_id e = i) es'"
proof (induction es arbitrary: es')
  case (Cons e es)
  then show ?case by (cases es') auto
qed simp

lemma nth_modify_entry:
  assumes "position (\<lambda>e. entry_id e = i) es = Some p"
  shows "modify_entry j f es ! p = (if j = i then f (es ! p) else es ! p)"
proof (cases "position (\<lambda>e. entry_id e = j) es")
  case None
  then have "j \<noteq> i" using assms by auto
  with None show ?thesis by (simp add: modify_entry_def)
next
  case (Some q)
  have p: "p < length es" "entry_id (es ! p) = i" using assms by (auto simp: position_Some)
  have q: "q < length es" "entry_id (es ! q) = j" using Some by (auto simp: position_Some)
  show ?thesis
  proof (cases "j = i")
    case True
    with assms Some p show ?thesis by (simp add: modify_entry_def)
  next
    case False
    with p q have "q \<noteq> p" by auto
    with Some False show ?thesis by (simp add: modify_entry_def)
  qed
qed

text \<open>A run of changes, seen at one entry: only the changes that name it act, in order.\<close>

lemma fold_modify_entry:
  assumes "\<And>x e. entry_id (f x e) = entry_id e" and "position (\<lambda>e. entry_id e = i) es = Some p"
  shows "map entry_id (fold (\<lambda>x. modify_entry (k x) (f x)) xs es) = map entry_id es"
    and "fold (\<lambda>x. modify_entry (k x) (f x)) xs es ! p = fold f (filter (\<lambda>x. k x = i) xs) (es ! p)"
proof -
  have "map entry_id (fold (\<lambda>x. modify_entry (k x) (f x)) xs es) = map entry_id es
     \<and> (position (\<lambda>e. entry_id e = i) es = Some p \<longrightarrow>
        fold (\<lambda>x. modify_entry (k x) (f x)) xs es ! p = fold f (filter (\<lambda>x. k x = i) xs) (es ! p))"
  proof (induction xs arbitrary: es)
    case (Cons x xs)
    have ids: "map entry_id (modify_entry (k x) (f x) es) = map entry_id es" using assms(1) by simp
    with Cons [of "modify_entry (k x) (f x) es"] position_cong_ids [OF ids, of i] show ?case
      by (auto simp: nth_modify_entry)
  qed simp
  with assms(2) show "map entry_id (fold (\<lambda>x. modify_entry (k x) (f x)) xs es) = map entry_id es"
    "fold (\<lambda>x. modify_entry (k x) (f x)) xs es ! p = fold f (filter (\<lambda>x. k x = i) xs) (es ! p)" by auto
qed

lemma fold_modify_ids:
  "(\<And>x e. entry_id (f x e) = entry_id e) \<Longrightarrow>
     map entry_id (fold (\<lambda>x. modify_entry (k x) (f x)) xs es) = map entry_id es"
  by (induction xs arbitrary: es) simp_all

lemma change_ids [simp]:
  "entry_id (replace_keeping_history d now ms k v r e) = entry_id e"
  "entry_id (delete_item now ms k e) = entry_id e"
  "entry_id (apply_resolution d now ms fr e) = entry_id e"
  "entry_id (apply_item_delete now ms di e) = entry_id e"
  by (simp_all add: replace_keeping_history_def delete_item_def apply_resolution_def apply_item_delete_def
      entry_id_def touch_def stamp_def unstamp_def)

lemma apply_brought_over_modify:
  "apply_brought_over now b = modify_entry (bo_id b)
     (if bo_old_value b = [] \<or> starts_with ''attachments:'' (bo_field b) then id
      else map_meta (\<lambda>m. record_previous m (bo_field b) (bo_old_value b) now None))"
proof
  fix es
  have "modify_entry i id es = es" for i by (auto simp: modify_entry_def split: option.split)
  then show "apply_brought_over now b es = modify_entry (bo_id b)
     (if bo_old_value b = [] \<or> starts_with ''attachments:'' (bo_field b) then id
      else map_meta (\<lambda>m. record_previous m (bo_field b) (bo_old_value b) now None)) es"
    by (simp add: apply_brought_over_def)
qed

section \<open>Which entries a fast merge keeps\<close>

lemma fold_filter_ids:
  "map entry_id (fold (\<lambda>d. filter (\<lambda>e. entry_id e \<noteq> k d)) ds es) = filter (\<lambda>i. i \<notin> k ` set ds) (map entry_id es)"
  "fold (\<lambda>d. filter (\<lambda>e. entry_id e \<noteq> k d)) ds es = filter (\<lambda>e. entry_id e \<notin> k ` set ds) es"
  by (induction ds arbitrary: es; auto simp: filter_map o_def intro: filter_cong)+

lemma fast_merge_ids:
  "map entry_id (vs_entries (fst (do_fast_merge b d ho sec ms s inc))) =
     filter (\<lambda>i. i \<notin> pdi_id ` set (ms_pending_deletes (snd (do_merge b ho s inc))))
       (map entry_id (vs_entries (fst (do_merge b ho s inc))))"
proof -
  have 1: "map entry_id (fold (apply_brought_over now) bs es) = map entry_id es" for now bs es
    unfolding apply_brought_over_modify by (rule fold_modify_ids) (simp add: entry_id_def)
  show ?thesis
    by (simp add: do_fast_merge_def Let_def case_prod_beta fold_filter_ids(1) 1 fold_modify_ids
        entry_id_def [of "map_meta _ _"] touch_def entry_id_def [symmetric])
qed


section \<open>Scalars and history under the changes\<close>

lemma scalars_set_custom_fields [simp]: "scalars (set_custom_fields c e) = scalars e"
  by (cases e) (simp_all add: credential_blob_def)

lemma set_entry_scalar_unknown: "k \<notin> set (scalar_keys e) \<Longrightarrow> set_entry_scalar d k v e = e"
  by (cases e) (simp_all add: scalar_keys_def)

lemma scalar_at_set_field_other:
  assumes "k' \<noteq> k"
  shows "scalar_at (set_entry_field_by_key d k' v e) k = scalar_at e k"
proof (cases "strip_prefix ''custom_fields:'' k'")
  case None
  then show ?thesis
    using assms scalar_at_set_entry_scalar_frame [of k' e k d v] set_entry_scalar_unknown [of k' e d v]
    by (cases "k' \<in> set (scalar_keys e)") (auto simp: set_entry_field_by_key_def)
next
  case (Some l)
  then show ?thesis
    by (cases e) (simp_all add: set_entry_field_by_key_def scalar_at_def credential_blob_def)
qed

lemma set_entry_field_scalar:
  "k \<in> set (scalar_keys e) \<Longrightarrow> set_entry_field_by_key d k v e = set_entry_scalar d k v e"
  using strip_prefix_scalar_key [of k e] by (simp add: set_entry_field_by_key_def)

lemma same_type_trans: "same_type a b \<Longrightarrow> same_type b c \<Longrightarrow> same_type a c"
  by (cases a; cases b; cases c) simp_all

lemma same_type_sym: "same_type a b \<Longrightarrow> same_type b a"
  by (cases a; cases b) simp_all

lemma same_type_set_field [simp]: "same_type (set_entry_field_by_key d k v e) e"
  by (cases e) (auto simp: set_entry_field_by_key_def split: option.split)

lemma same_type_remove_item [simp]: "same_type (remove_entry_item_by_key k e) e"
  by (cases e) (auto simp: remove_entry_item_by_key_def split: option.split)

lemma scalars_remove_item [simp]: "scalars (remove_entry_item_by_key k e) = scalars e"
  by (cases e) (auto simp: remove_entry_item_by_key_def credential_blob_def split: option.split)

text \<open>Resolving a clash to the incoming value.\<close>

lemma replace_keeping_history_at:
  assumes "b64_inverse b d" and "same_type e i" and "entry_blob_wf i" and "scalar_at i k = Some iv"
  shows "scalar_at (replace_keeping_history d now ms k (disp b iv) r e) k = Some (present iv)"
    and "history_of (meta_of (replace_keeping_history d now ms k (disp b iv) r e)) k = Some r"
proof -
  have "k \<in> set (scalar_keys e)"
    using scalar_at_key [OF assms(4)] same_type_scalar_keys [OF assms(2)] by simp
  then show "scalar_at (replace_keeping_history d now ms k (disp b iv) r e) k = Some (present iv)"
    using scalar_at_set_entry_scalar [OF assms]
    by (simp add: replace_keeping_history_def scalar_at_def set_entry_field_scalar)
  have "history_of (touch now (stamp k ms m)) k = history_of m k" for m
    by (simp add: history_of_def touch_def stamp_def)
  then show "history_of (meta_of (replace_keeping_history d now ms k (disp b iv) r e)) k = Some r"
    by (simp add: replace_keeping_history_def history_of_record_previous)
qed

lemma replace_keeping_history_other:
  assumes "k' \<noteq> k"
  shows "scalar_at (replace_keeping_history d now ms k' v r e) k = scalar_at e k"
    and "history_of (meta_of (replace_keeping_history d now ms k' v r e)) k = history_of (meta_of e) k"
proof -
  show "scalar_at (replace_keeping_history d now ms k' v r e) k = scalar_at e k"
    using scalar_at_set_field_other [OF assms] by (simp add: replace_keeping_history_def scalar_at_def)
  have "history_of (touch now (stamp k' ms m)) k = history_of m k" for m
    by (simp add: history_of_def touch_def stamp_def)
  then show "history_of (meta_of (replace_keeping_history d now ms k' v r e)) k = history_of (meta_of e) k"
    using assms by (simp add: replace_keeping_history_def history_of_record_previous)
qed

lemma same_type_replace [simp]: "same_type (replace_keeping_history d now ms k v r e) e"
  by (simp add: replace_keeping_history_def)

lemma fold_conflicts_resolved:
  assumes "b64_inverse b d" and "same_type e i" and "entry_blob_wf i" and "scalar_at i k = Some iv"
    and "\<forall>c \<in> set cs. fci_field c = k \<longrightarrow> fci_incoming_value c = disp b iv \<and> fci_local_value c = old"
    and "resolved k iv old e \<or> (\<exists>c \<in> set cs. fci_field c = k)"
  shows "resolved k iv old (fold (\<lambda>c. replace_keeping_history d now ms (fci_field c)
    (fci_incoming_value c) (fci_local_value c)) cs e)"
  using assms(2,5,6)
proof (induction cs arbitrary: e)
  case (Cons c cs)
  let ?e = "replace_keeping_history d now ms (fci_field c) (fci_incoming_value c) (fci_local_value c) e"
  have st: "same_type ?e i" using Cons.prems(1) same_type_trans same_type_replace by blast
  have "resolved k iv old ?e \<or> (\<exists>c \<in> set cs. fci_field c = k)"
  proof (cases "fci_field c = k")
    case True
    with Cons.prems have "fci_incoming_value c = disp b iv" "fci_local_value c = old" by auto
    with True replace_keeping_history_at [OF assms(1) Cons.prems(1) assms(3,4)] show ?thesis
      by (simp add: resolved_def)
  next
    case False
    with Cons.prems(3) show ?thesis by (auto simp: resolved_def replace_keeping_history_other)
  qed
  with Cons.IH [OF st] Cons.prems(2) show ?case by simp
qed simp

lemma conflict_ids:
  assumes "merge_entry_pair b l i = (e, cs, ps, bs)" and "c \<in> set cs"
  shows "fci_id c = entry_id l" and "same_type l i"
proof -
  show st: "same_type l i"
  proof (rule ccontr)
    assume "\<not> same_type l i"
    then have "merge_typed b l i m = None" for m by (simp add: merge_typed_None)
    with assms show False by (auto simp: merge_entry_pair_def Let_def)
  qed
  obtain x m where t: "merge_typed b l i (FieldMerger_new (meta_of l) (meta_of i) (entry_display_title l)) = Some (x, m)"
    and cs: "cs = fm_conflicts m"
    using merge_entry_pair_typed [OF assms(1) st] by metis
  have "c \<in> pair_records
      (clash_item (FieldMerger_new (meta_of l) (meta_of i) (entry_display_title l)))
      (item_clashes same_custom cf_value (FieldMerger_new (meta_of l) (meta_of i) (entry_display_title l)))
      (item_clashes same_labelled cf_value (FieldMerger_new (meta_of l) (meta_of i) (entry_display_title l)))
      (item_clashes same_attachment at_name (FieldMerger_new (meta_of l) (meta_of i) (entry_display_title l))) b l i"
    using assms(2) unfolding cs merge_typed_conflicts [OF t] by simp
  then show "fci_id c = entry_id l"
    by (auto simp: pair_records_def item_clashes_def clash_item_def entry_id_def split: option.splits if_splits)
qed

lemma position_distinct:
  assumes "distinct (map entry_id es)" and "n < length es"
  shows "position (\<lambda>e. entry_id e = entry_id (es ! n)) es = Some n"
proof -
  have "entry_id (es ! j) \<noteq> entry_id (es ! n)" if "j < n" for j
    using nth_eq_iff_index_eq [OF assms(1), of j n] that assms(2) by simp
  with assms(2) show ?thesis by (auto simp: position_Some)
qed

lemma merged_conflicts_of:
  assumes "distinct (map entry_id (vs_entries s))" and "l \<in> set (vs_entries s)"
    and "c \<in> set (ms_field_conflicts (snd (do_merge b ho s inc)))" and "fci_id c = entry_id l"
  shows "c \<in> set (lo_conflicts (merge_local b inc l))"
proof -
  from assms(3) obtain l' where l': "l' \<in> set (vs_entries s)" "c \<in> set (lo_conflicts (merge_local b inc l'))"
    by (auto simp: do_merge_def Let_def)
  have "fci_id c = entry_id l'"
    using l'(2) by (auto simp: merge_local_def split: option.splits prod.splits dest: conflict_ids(1))
  with assms(1,2,4) l' show ?thesis by (auto simp: distinct_map inj_on_def)
qed

lemma fast_merge_as_changes:
  "vs_entries (fst (do_fast_merge b d ho sec ms s inc)) =
     filter (\<lambda>e. entry_id e \<notin> pdi_id ` set (ms_pending_deletes (snd (do_merge b ho s inc))))
       (fold (\<lambda>(i, f). modify_entry i f) (fast_changes d (chrono_now sec) ms (snd (do_merge b ho s inc)))
         (vs_entries (fst (do_merge b ho s inc))))"
proof -
  have g: "apply_brought_over now = (\<lambda>x. modify_entry (bo_id x) (keep_replaced now x))" for now
    unfolding apply_brought_over_modify keep_replaced_def ..
  have f: "fold (\<lambda>(i, f). modify_entry i f) (map (\<lambda>x. (k x, h x)) xs) es = fold (\<lambda>x. modify_entry (k x) (h x)) xs es"
    for k :: "'x \<Rightarrow> string" and h xs es by (induction xs arbitrary: es) simp_all
  show ?thesis
    by (simp add: do_fast_merge_def Let_def case_prod_beta fold_filter_ids(2) fast_changes_def f
        g take_conflict_def take_folder_def fold_append o_def case_prod_beta' [symmetric])
qed

lemma fast_changes_ids:
  "(i, f) \<in> set (fast_changes d now ms sm) \<Longrightarrow> entry_id (f e) = entry_id e"
  by (auto simp: fast_changes_def keep_replaced_def take_conflict_def take_folder_def entry_id_def touch_def
      record_previous_def replace_keeping_history_def delete_item_def stamp_def unstamp_def)

lemma fold_changes_at:
  assumes "\<forall>(i, f) \<in> set xs. \<forall>e. entry_id (f e) = entry_id e"
    and "position (\<lambda>e. entry_id e = i) es = Some p"
  shows "position (\<lambda>e. entry_id e = i) (fold (\<lambda>(i, f). modify_entry i f) xs es) = Some p"
    and "fold (\<lambda>(i, f). modify_entry i f) xs es ! p = fold snd (filter (\<lambda>x. fst x = i) xs) (es ! p)"
proof -
  have "position (\<lambda>e. entry_id e = i) (fold (\<lambda>(i, f). modify_entry i f) xs es) = Some p
     \<and> fold (\<lambda>(i, f). modify_entry i f) xs es ! p = fold snd (filter (\<lambda>x. fst x = i) xs) (es ! p)"
    using assms
  proof (induction xs arbitrary: es)
    case (Cons x xs)
    obtain j f where x: "x = (j, f)" by (cases x)
    have ids: "map entry_id (modify_entry j f es) = map entry_id es" using Cons.prems(1) by (simp add: x)
    with Cons.IH [of "modify_entry j f es"] Cons.prems position_cong_ids [OF ids, of i] show ?case
      by (auto simp: x nth_modify_entry)
  qed simp
  then show "position (\<lambda>e. entry_id e = i) (fold (\<lambda>(i, f). modify_entry i f) xs es) = Some p"
    "fold (\<lambda>(i, f). modify_entry i f) xs es ! p = fold snd (filter (\<lambda>x. fst x = i) xs) (es ! p)" by auto
qed

lemma fold_keeps: "(\<And>f x. f \<in> set fs \<Longrightarrow> P x \<Longrightarrow> P (f x)) \<Longrightarrow> P x \<Longrightarrow> P (fold (\<lambda>f. f) fs x)"
  by (induction fs arbitrary: x) auto

lemma resolved_later:
  "resolved k iv old x \<Longrightarrow> resolved k iv old (take_folder now f x)"
  "resolved k iv old x \<Longrightarrow> resolved k iv old (delete_item now ms fld x)"
  by (simp_all add: resolved_def scalar_at_def history_of_def delete_item_def take_folder_def touch_def
      stamp_def unstamp_def)

lemma resolved_fold_later:
  "resolved k iv old x \<Longrightarrow> resolved k iv old (fold (\<lambda>f. take_folder now f) fs x)"
  "resolved k iv old x \<Longrightarrow> resolved k iv old (fold (\<lambda>d. delete_item now ms (pid_field d)) ds x)"
  by (induction fs arbitrary: x) (simp_all add: resolved_later,
      induction ds arbitrary: x, simp_all add: resolved_later)

lemma same_type_fold_keep: "same_type (fold (keep_replaced now) bs x) i = same_type x i"
  by (induction bs arbitrary: x) (simp_all add: keep_replaced_def)

text \<open>The entry at one place after all changes, when a clash on \<open>k\<close> is among them.\<close>

lemma fast_changes_resolve:
  assumes "b64_inverse b d" and "same_type e i" and "entry_blob_wf i" and "scalar_at i k = Some iv"
    and "\<forall>c \<in> set (ms_field_conflicts sm). fci_id c = j \<and> fci_field c = k \<longrightarrow>
       fci_incoming_value c = disp b iv \<and> fci_local_value c = old"
    and "\<exists>c \<in> set (ms_field_conflicts sm). fci_id c = j \<and> fci_field c = k"
  shows "resolved k iv old (fold snd (filter (\<lambda>x. fst x = j) (fast_changes d now ms sm)) e)"
proof -
  have fm: "fold snd (filter (\<lambda>x. fst x = j) (map (\<lambda>x. (key x, h x)) xs)) = fold h (filter (\<lambda>x. key x = j) xs)"
    for key :: "'x \<Rightarrow> string" and h :: "'x \<Rightarrow> VaultEntry \<Rightarrow> VaultEntry" and xs
    by (induction xs) auto
  let ?e1 = "fold (keep_replaced now) (filter (\<lambda>x. bo_id x = j) (ms_brought_over sm)) e"
  have "same_type ?e1 i" using assms(2) by (simp add: same_type_fold_keep)
  from fold_conflicts_resolved [OF assms(1) this assms(3,4),
      of "filter (\<lambda>c. fci_id c = j) (ms_field_conflicts sm)" old now ms] assms(5,6)
  have "resolved k iv old (fold (take_conflict d now ms) (filter (\<lambda>c. fci_id c = j) (ms_field_conflicts sm)) ?e1)"
    by (auto simp: take_conflict_def [abs_def])
  then show ?thesis
    by (simp add: fast_changes_def fm fold_append resolved_fold_later)
qed


lemma position_merged:
  assumes "distinct (map entry_id (vs_entries s))" and "n < length (vs_entries s)"
  shows "position (\<lambda>x. entry_id x = entry_id (vs_entries s ! n)) (vs_entries (fst (do_merge b ho s inc))) = Some n"
  using position_distinct [OF assms] assms(2) by (auto simp: position_Some merge_entries nth_append)

lemma fast_merge_resolves:
  assumes "distinct (map entry_id (vs_entries s))" and "l \<in> set (vs_entries s)"
    and "last_by entry_id (vb_entries inc) (entry_id l) = Some i" and "same_type l i"
    and "scalar_at l k = Some lv" and "scalar_at i k = Some iv"
    and "lv \<noteq> iv" and "both_edited (meta_of l) (meta_of i) k"
    and "b64_inverse b d" and "entry_blob_wf i"
  shows "\<exists>r \<in> set (vs_entries (fst (do_fast_merge b d ho sec ms s inc))). entry_id r = entry_id l
    \<and> resolved k iv (disp b lv) r"
proof -
  obtain n where n: "n < length (vs_entries s)" "vs_entries s ! n = l"
    using assms(2) by (auto simp: in_set_conv_nth)
  define M where "M = do_merge b ho s inc"
  obtain e lcs lps lbs where mp: "merge_entry_pair b l i = (e, lcs, lps, lbs)" by (metis prod_cases4)
  have ml: "lo_entry (merge_local b inc l) = e" "lo_conflicts (merge_local b inc l) = lcs"
    by (simp_all add: merge_local_def assms(3) mp)
  have en: "vs_entries (fst M) ! n = e" using n ml by (simp add: M_def merge_entries nth_append)
  have ei: "same_type e i"
    using merge_identity_facts [OF assms(4), of b] mp same_type_trans assms(4) by (metis fst_conv)
  have lcs: "{c \<in> set lcs. fci_field c = k} = {\<lparr>fci_id = entry_id l, fci_title = entry_display_title l,
      fci_field = k, fci_local_value = disp b lv, fci_incoming_value = disp b iv\<rparr>}" (is "_ = {?c}")
    using merge_scalar_outcome [OF mp assms(4-6)] assms(7,8) by simp
  have all: "\<forall>c \<in> set (ms_field_conflicts (snd M)). fci_id c = entry_id l \<and> fci_field c = k \<longrightarrow>
      fci_incoming_value c = disp b iv \<and> fci_local_value c = disp b lv"
  proof (intro ballI impI)
    fix c assume c: "c \<in> set (ms_field_conflicts (snd M))" "fci_id c = entry_id l \<and> fci_field c = k"
    then have "c \<in> {c \<in> set lcs. fci_field c = k}"
      using merged_conflicts_of [OF assms(1,2), of c b ho inc] ml(2) by (simp add: M_def)
    then show "fci_incoming_value c = disp b iv \<and> fci_local_value c = disp b lv" unfolding lcs by simp
  qed
  have "?c \<in> set lcs" using lcs by blast
  then have "?c \<in> set (ms_field_conflicts (snd M))"
    using assms(2) ml(2) by (force simp: M_def do_merge_def Let_def)
  then have ex: "\<exists>c \<in> set (ms_field_conflicts (snd M)). fci_id c = entry_id l \<and> fci_field c = k" by force
  let ?r = "fold (\<lambda>(i, f). modify_entry i f) (fast_changes d (chrono_now sec) ms (snd M)) (vs_entries (fst M))"
  note pos = position_merged [OF assms(1) n(1), of b ho inc, folded M_def, unfolded n(2)]
  have ids: "\<forall>(i, f) \<in> set (fast_changes d (chrono_now sec) ms (snd M)). \<forall>e. entry_id (f e) = entry_id e"
    using fast_changes_ids by blast
  note at = fold_changes_at [OF ids pos]
  have "resolved k iv (disp b lv) (?r ! n)"
    unfolding at(2) en by (rule fast_changes_resolve [OF assms(9) ei assms(10,6) all ex])
  moreover have "n < length ?r" "entry_id (?r ! n) = entry_id l" using at(1) by (auto simp: position_Some)
  moreover have "entry_id l \<notin> pdi_id ` set (ms_pending_deletes (snd M))"
  proof -
    have "entry_id l \<in> entry_id ` set (vb_entries inc)" using assms(3) by (metis last_by_None option.distinct(1))
    then show ?thesis by (auto simp: M_def do_merge_def Let_def merge_local_pending split: if_splits)
  qed
  ultimately show ?thesis
    unfolding fast_merge_as_changes M_def [symmetric] by (intro bexI [of _ "?r ! n"]) auto
qed

section \<open>Applying a review\<close>

lemma apply_folders_ids: "map entry_id (fst (apply_folders now known fs es)) = map entry_id es"
proof (induction fs arbitrary: es)
  case (Cons f fs)
  have "map entry_id (modify_entry (sfi_id f) (map_meta (\<lambda>m. touch now (m\<lparr>em_folder := sfi_folder f\<rparr>))) es)
      = map entry_id es" by (rule modify_entry_ids) (simp add: entry_id_def touch_def)
  with Cons show ?case by simp
qed simp

lemma delete_entry_present:
  assumes "distinct (map entry_id es)" and "\<exists>e \<in> set es. entry_id e = i"
  shows "delete_entry es i = Inr (filter (\<lambda>e. entry_id e \<noteq> i) es)"
proof -
  obtain p where p: "position (\<lambda>e. entry_id e = i) es = Some p"
    using assms(2) by (metis (mono_tags, lifting) not_None_eq position_None)
  then have lt: "p < length es" and pi: "entry_id (es ! p) = i" by (auto simp: position_Some)
  have es: "es = take p es @ es ! p # drop (Suc p) es" using lt by (rule id_take_nth_drop)
  have d: "distinct (map entry_id (take p es @ es ! p # drop (Suc p) es))" using assms(1) es by simp
  then have "i \<notin> entry_id ` set (take p es)" "i \<notin> entry_id ` set (drop (Suc p) es)" by (auto simp: pi)
  then have "filter (\<lambda>e. entry_id e \<noteq> i) (take p es) = take p es"
    "filter (\<lambda>e. entry_id e \<noteq> i) (drop (Suc p) es) = drop (Suc p) es"
    by (auto simp: filter_id_conv)
  then have "filter (\<lambda>e. entry_id e \<noteq> i) es = take p es @ drop (Suc p) es"
    by (subst es) (simp add: pi)
  with p show ?thesis by (simp add: delete_entry_def)
qed

lemma fresh_cong: "set s = set s' \<Longrightarrow> fresh s xs = fresh s' xs"
proof (induction xs arbitrary: s s')
  case (Cons x xs)
  have "fresh s xs = fresh s' xs" using Cons.prems by (rule Cons.IH)
  moreover have "fresh (x # s) xs = fresh (x # s') xs" using Cons.prems by (intro Cons.IH) simp
  ultimately show ?case using Cons.prems by simp
qed simp

lemma fresh_Cons_seen: "fresh (x # seen) xs = filter (\<lambda>y. y \<noteq> x) (fresh seen xs)"
proof (induction xs arbitrary: seen)
  case (Cons y xs)
  have "fresh (y # x # seen) xs = fresh (x # y # seen) xs" "fresh (x # x # seen) xs = fresh (x # seen) xs"
    by (rule fresh_cong, auto)+
  with Cons [of seen] Cons [of "y # seen"] show ?case by (cases "y = x") auto
qed simp

lemma apply_entry_deletes_spec:
  "distinct (map entry_id (vs_entries s)) \<Longrightarrow>
    apply_entry_deletes now is s = (s\<lparr>vs_entries := filter (\<lambda>e. entry_id e \<notin> set is) (vs_entries s),
      vs_deleted_ids := vs_deleted_ids s
        @ tombs now (filter (\<lambda>i. i \<in> entry_id ` set (vs_entries s)) (fresh [] is))\<rparr>, Inr ())"
proof (induction "is" arbitrary: s)
  case Nil
  then show ?case by (simp add: tombs_def)
next
  case (Cons i "is")
  let ?es = "filter (\<lambda>e. entry_id e \<noteq> i) (vs_entries s)"
  show ?case
  proof (cases "\<exists>e \<in> set (vs_entries s). entry_id e = i")
    case True
    let ?s = "s\<lparr>vs_entries := ?es, vs_deleted_ids := vs_deleted_ids s @ [\<lparr>de_id = i, de_deleted_at = now\<rparr>]\<rparr>"
    have d: "distinct (map entry_id (vs_entries ?s))" using Cons.prems by (simp add: distinct_map_filter)
    have "filter (\<lambda>x. x \<in> entry_id ` set ?es) (fresh [] is) =
        filter (\<lambda>x. x \<in> entry_id ` set (vs_entries s)) (fresh [i] is)"
      unfolding fresh_Cons_seen filter_filter by (intro filter_cong) auto
    moreover have "filter (\<lambda>e. entry_id e \<notin> set is) ?es = filter (\<lambda>e. entry_id e \<notin> set (i # is)) (vs_entries s)"
      by (simp add: conj_commute)
    ultimately show ?thesis
      using True Cons.IH [OF d] delete_entry_present [OF Cons.prems True] by (auto simp: tombs_def)
  next
    case False
    then have "filter (\<lambda>x. x \<in> entry_id ` set (vs_entries s)) (fresh [i] is) =
        filter (\<lambda>x. x \<in> entry_id ` set (vs_entries s)) (fresh [] is)"
      unfolding fresh_Cons_seen filter_filter by (intro filter_cong) auto
    moreover have "filter (\<lambda>e. entry_id e \<notin> set (i # is)) (vs_entries s) =
        filter (\<lambda>e. entry_id e \<notin> set is) (vs_entries s)"
      using False by (intro filter_cong) auto
    ultimately show ?thesis using False Cons.IH [OF Cons.prems] by auto
  qed
qed

lemma review_result:
  assumes "distinct (map entry_id (vs_entries s))"
    and "do_apply_sync_decisions d sec ms s rs hs is fs ds = (s', Inr ())"
  shows "map entry_id (vs_entries s') = filter (\<lambda>i. i \<notin> set ds) (map entry_id (vs_entries s))"
    and "vs_deleted_ids s' = vs_deleted_ids s
      @ tombs (chrono_now sec) (filter (\<lambda>i. i \<in> entry_id ` set (vs_entries s)) (fresh [] ds))"
    and "vs_folders s' = vs_folders s"
proof -
  define now where "now = chrono_now sec"
  define e3 where "e3 = fold (\<lambda>d. modify_entry (sid_id d) (apply_item_delete now ms d)) is
    (fold (\<lambda>h. modify_entry (shr_id h) (replace_keeping_history d now ms (shr_field h) (shr_new_value h)
       (shr_replaced_value h))) hs
     (fold (\<lambda>f. modify_entry (sfr_id f) (apply_resolution d now ms f)) rs (vs_entries s)))"
  have i3: "map entry_id e3 = map entry_id (vs_entries s)"
    by (simp add: e3_def fold_modify_ids)
  obtain e4 u where f: "apply_folders now (vs_folders s) fs e3 = (e4, u)"
    by (cases "apply_folders now (vs_folders s) fs e3")
  have i4: "map entry_id e4 = map entry_id (vs_entries s)"
    using apply_folders_ids [of now "vs_folders s" fs e3] f i3 by simp
  from assms(2) f obtain y where u: "u = Inr y"
    by (cases u) (auto simp: do_apply_sync_decisions_def Let_def e3_def now_def)
  have ap: "apply_entry_deletes now ds (s\<lparr>vs_entries := e4\<rparr>) = (s', Inr ())"
    using assms(2) f u by (simp add: do_apply_sync_decisions_def Let_def e3_def now_def)
  have dist: "distinct (map entry_id (vs_entries (s\<lparr>vs_entries := e4\<rparr>)))" using assms(1) i4 by simp
  have s': "s' = s\<lparr>vs_entries := filter (\<lambda>e. entry_id e \<notin> set ds) e4,
      vs_deleted_ids := vs_deleted_ids s @ tombs now (filter (\<lambda>i. i \<in> entry_id ` set e4) (fresh [] ds))\<rparr>"
    using apply_entry_deletes_spec [OF dist, of now ds] ap by simp
  have img: "entry_id ` set e4 = entry_id ` set (vs_entries s)" using i4 by (metis list.set_map)
  show "map entry_id (vs_entries s') = filter (\<lambda>i. i \<notin> set ds) (map entry_id (vs_entries s))"
    by (simp add: s' i4 [symmetric] filter_map o_def)
  show "vs_deleted_ids s' = vs_deleted_ids s
      @ tombs (chrono_now sec) (filter (\<lambda>i. i \<in> entry_id ` set (vs_entries s)) (fresh [] ds))"
    by (simp add: s' img now_def)
  show "vs_folders s' = vs_folders s" by (simp add: s')
qed

lemma merge_tombstones_wf: "ix_wf (merge_tombstones loc inc)"
proof -
  have step: "ix_wf (fold (\<lambda>d m. let e = unwrap_or (ix_get m (de_id d)) (de_deleted_at d)
      in ix_insert (de_id d) (if e < de_deleted_at d then de_deleted_at d else e) m) ds m)" if "ix_wf m" for ds m
    using that by (induction ds arbitrary: m) (auto simp: Let_def intro: ix_wf_insert)
  show ?thesis unfolding merge_tombstones_def
    by (rule step) (simp add: ix_wf_fold_insert ixm.wf_nil)
qed

section \<open>Properties of synchronisation\<close>

text \<open>C8. Merging another vault deletes nothing and reorders nothing: the local entries keep their
  places, each merged with the incoming copy of the same id if there is one and untouched
  otherwise, followed by exactly the incoming entries the vault did not have.\<close>

theorem sync_keeps_every_entry:
  "vs_entries (fst (do_merge b ho s inc)) =
     map (\<lambda>e. case last_by entry_id (vb_entries inc) (entry_id e) of
                None \<Rightarrow> e | Some i \<Rightarrow> fst (merge_entry_pair b e i)) (vs_entries s)
     @ filter (\<lambda>e. entry_id e \<notin> entry_id ` set (vs_entries s)) (vb_entries inc)
   \<and> map entry_id (vs_entries (fst (do_merge b ho s inc))) = map entry_id (vs_entries s)
     @ map entry_id (filter (\<lambda>e. entry_id e \<notin> entry_id ` set (vs_entries s)) (vb_entries inc))"
proof -
  have new: "new_entries (vs_entries s) (vb_entries inc) =
      filter (\<lambda>e. entry_id e \<notin> entry_id ` set (vs_entries s)) (vb_entries inc)"
    by (simp add: new_entries_def last_by_None)
  have "lo_entry (merge_local b inc e) = (case last_by entry_id (vb_entries inc) (entry_id e) of
                None \<Rightarrow> e | Some i \<Rightarrow> fst (merge_entry_pair b e i))" for e
    by (auto simp: merge_local_def split: option.split prod.split)
  then show ?thesis using merge_ids [of b ho s inc] by (simp add: merge_entries new)
qed

text \<open>Folders are united, the local ones first, and each deleted id has one mark, with the latest
  time of the incoming marks and the local one, whatever order the hash map is read in.\<close>

theorem sync_unites_folders_and_marks:
  assumes "permutes_lists ho"
  shows "set (vs_folders (fst (do_merge b ho s inc))) = set (vs_folders s) \<union> set (vb_folders inc)
    \<and> take (length (vs_folders s)) (vs_folders (fst (do_merge b ho s inc))) = vs_folders s
    \<and> distinct (map de_id (vs_deleted_ids (fst (do_merge b ho s inc))))
    \<and> (\<forall>i t. \<lparr>de_id = i, de_deleted_at = t\<rparr> \<in> set (vs_deleted_ids (fst (do_merge b ho s inc))) \<longleftrightarrow>
         latest (vb_deleted_ids inc)
           (fold (\<lambda>d. ix_insert (de_id d) (de_deleted_at d)) (vs_deleted_ids s) []) i = Some t)"
proof -
  let ?t = "merge_tombstones (vs_deleted_ids s) (vb_deleted_ids inc)"
  let ?l = "map (\<lambda>(i, a). \<lparr>de_id = i, de_deleted_at = a\<rparr>) ?t"
  have ho: "mset (ho ?l) = mset ?l" using assms by (simp add: permutes_lists_def)
  have wf: "ix_wf ?t" by (rule merge_tombstones_wf)
  have res: "vs_deleted_ids (fst (do_merge b ho s inc)) = ho ?l" by (simp add: do_merge_def Let_def)
  have "mset (map de_id (ho ?l)) = mset (map de_id ?l)" using ho by (metis mset_map)
  moreover have "map de_id ?l = map fst ?t" by (simp add: case_prod_beta o_def)
  ultimately have d: "distinct (map de_id (ho ?l))"
    using wf unfolding ix_wf_def by (metis mset_eq_imp_distinct_iff)
  have m: "\<lparr>de_id = i, de_deleted_at = t\<rparr> \<in> set (ho ?l) \<longleftrightarrow> ix_get ?t i = Some t" for i t
  proof -
    have "set (ho ?l) = set ?l" using ho by (rule mset_eq_setD)
    moreover have "\<lparr>de_id = i, de_deleted_at = t\<rparr> \<in> set ?l \<longleftrightarrow> (i, t) \<in> set ?t" by force
    ultimately show ?thesis using wf by (simp add: ix_get_def ix_wf_def)
  qed
  have f: "vs_folders (fst (do_merge b ho s inc)) = merge_folders (vs_folders s) (vb_folders inc)"
    by (simp add: do_merge_def Let_def)
  show ?thesis using d m merge_folders_facts by (simp add: res f merge_tombstones_get)
qed

theorem sync_unites_folders_and_marks_witness:
  "permutes_lists (rev :: DeletedEntry list \<Rightarrow> DeletedEntry list) \<and>
   \<lparr>de_id = ''9'', de_deleted_at = ''2025''\<rparr>
     \<in> set (vs_deleted_ids (fst (do_merge (\<lambda>_. []) rev sample_session sample_body)))"
proof -
  have p: "permutes_lists (rev :: DeletedEntry list \<Rightarrow> DeletedEntry list)" by (simp add: permutes_lists_def)
  have "latest (vb_deleted_ids sample_body)
      (fold (\<lambda>d. ix_insert (de_id d) (de_deleted_at d)) (vs_deleted_ids sample_session) []) ''9'' = Some ''2025''"
    by (simp add: latest_def sample_body_def sample_session_def ix_get_def max_def less_char_def)
  with sync_unites_folders_and_marks [OF p] p show ?thesis by blast
qed

text \<open>C9. A fast merge drops an entry only when the other vault has a deletion mark for it and no copy of
  it: the ids afterwards are those of both vaults without these.\<close>

theorem fast_merge_drops_only_marked:
  "entry_id ` set (vs_entries (fst (do_fast_merge b d ho sec ms s inc))) =
     (entry_id ` set (vs_entries s) - (de_id ` set (vb_deleted_ids inc) - entry_id ` set (vb_entries inc)))
     \<union> entry_id ` set (vb_entries inc)"
proof -
  have "entry_id ` set (vs_entries (fst (do_fast_merge b d ho sec ms s inc))) =
      set (map entry_id (vs_entries (fst (do_fast_merge b d ho sec ms s inc))))" by simp
  also have "\<dots> = {i \<in> set (map entry_id (vs_entries (fst (do_merge b ho s inc)))).
      i \<notin> pdi_id ` set (ms_pending_deletes (snd (do_merge b ho s inc)))}"
    unfolding fast_merge_ids by auto
  also have "set (map entry_id (vs_entries (fst (do_merge b ho s inc)))) =
      entry_id ` set (vs_entries s) \<union> entry_id ` set (vb_entries inc)"
    unfolding merge_ids by (auto simp: new_entries_iff)
  also have "pdi_id ` set (ms_pending_deletes (snd (do_merge b ho s inc))) =
      entry_id ` set (vs_entries s) \<inter> (de_id ` set (vb_deleted_ids inc) - entry_id ` set (vb_entries inc))"
    by (force simp: do_merge_def Let_def merge_local_pending image_iff split: if_splits)
  finally show ?thesis by auto
qed

text \<open>A fast merge resolves a clash for the incoming side and loses nothing: the entry is still there
  with the incoming value of the field, and the local value is in its history.\<close>

theorem fast_merge_takes_incoming:
  assumes "distinct (map entry_id (vs_entries s))" and "l \<in> set (vs_entries s)"
    and "last_by entry_id (vb_entries inc) (entry_id l) = Some i" and "same_type l i"
    and "scalar_at l k = Some lv" and "scalar_at i k = Some iv"
    and "lv \<noteq> iv" and "both_edited (meta_of l) (meta_of i) k"
    and "b64_inverse b d" and "entry_blob_wf i"
  shows "\<exists>r \<in> set (vs_entries (fst (do_fast_merge b d ho sec ms s inc))). entry_id r = entry_id l
    \<and> scalar_at r k = Some (present iv) \<and> history_of (meta_of r) k = Some (disp b lv)"
  using fast_merge_resolves [OF assms] by (simp add: resolved_def)

theorem fast_merge_takes_incoming_witness:
  "\<exists>r \<in> set (vs_entries (fst (do_fast_merge bytes_str (\<lambda>x. Some (str_bytes x)) rev 0 7 sample_session sample_body))).
     entry_id r = ''1'' \<and> scalar_at r ''password'' = Some (FStr ''theirs'')
     \<and> history_of (meta_of r) ''password'' = Some ''mine''"
proof -
  have s: "distinct (map entry_id (vs_entries sample_session))" "sample_local \<in> set (vs_entries sample_session)"
    by (simp_all add: sample_session_def)
  have i: "last_by entry_id (vb_entries sample_body) (entry_id sample_local) = Some sample_incoming"
    by (simp add: sample_body_def last_by_def entry_id_def sample_local_def sample_incoming_def sample_meta_def)
  have st: "same_type sample_local sample_incoming" by (simp add: sample_local_def sample_incoming_def)
  have v: "scalar_at sample_local ''password'' = Some (FStr ''mine'')"
    "scalar_at sample_incoming ''password'' = Some (FStr ''theirs'')"
    by (simp_all add: scalar_at_def sample_local_def sample_incoming_def sample_login_def)
  have be: "both_edited (meta_of sample_local) (meta_of sample_incoming) ''password''"
    by (simp add: both_edited_def sample_local_def sample_incoming_def bt_get_def)
  have b: "b64_inverse bytes_str (\<lambda>x. Some (str_bytes x))" by (simp add: b64_inverse_def)
  have w: "entry_blob_wf sample_incoming" by (simp add: sample_incoming_def)
  have id: "entry_id sample_local = ''1''" by (simp add: entry_id_def sample_local_def sample_meta_def)
  from fast_merge_takes_incoming [OF s i st v _ be b w] show ?thesis by (simp add: id)
qed

text \<open>A completed review deletes exactly the entries the user chose and leaves a deletion mark for each
  of them, once; all other entries keep their places, and the folders are untouched.\<close>

theorem review_deletes_exactly:
  assumes "distinct (map entry_id (vs_entries s))"
    and "do_apply_sync_decisions d sec ms s rs hs is fs ds = (s', Inr ())"
  shows "map entry_id (vs_entries s') = filter (\<lambda>i. i \<notin> set ds) (map entry_id (vs_entries s))
    \<and> vs_deleted_ids s' = vs_deleted_ids s
      @ tombs (chrono_now sec) (filter (\<lambda>i. i \<in> entry_id ` set (vs_entries s)) (fresh [] ds))
    \<and> vs_folders s' = vs_folders s"
  using review_result [OF assms] by blast

theorem review_deletes_exactly_witness:
  "\<exists>s'. do_apply_sync_decisions (\<lambda>_. None) 0 7 sample_session [] [] [] [] [''1'', ''1''] = (s', Inr ())
     \<and> vs_entries s' = []"
proof -
  have d: "distinct (map entry_id (vs_entries sample_session))" by (simp add: sample_session_def)
  obtain s' where a: "do_apply_sync_decisions (\<lambda>_. None) 0 7 sample_session [] [] [] [] [''1'', ''1''] = (s', Inr ())"
    by (simp add: do_apply_sync_decisions_def Let_def apply_entry_deletes_spec [OF d [simplified]] sample_session_def
        delete_entry_def entry_id_def sample_local_def sample_meta_def)
  from review_deletes_exactly [OF d a] have "map entry_id (vs_entries s') = []"
    by (simp add: sample_session_def entry_id_def sample_local_def sample_meta_def)
  with a show ?thesis by auto
qed

end
