(* ===== verification/Effects.thy ===== *)
theory Effects
  imports Prelude
begin

text \<open>
  Code with effects is a function from the state it acts on (the random source, the disk, the whole
  application) to a result and the next state. The state survives an error: what was done before a
  failing call stays done. \<open>rbind\<close> is sequencing with the question-mark operator, \<open>rtry\<close> hands the
  result over as a value (\<open>if let Err(e) = ...\<close>), \<open>map_err\<close> rewrites the error message, and
  \<open>zoom\<close> runs code on a part of the state.
\<close>

type_synonym ('s, 'a) run = "'s \<Rightarrow> 'a res \<times> 's"

definition rret :: "'a \<Rightarrow> ('s, 'a) run" where
  "rret x r = (Inr x, r)"

definition rlift :: "'a res \<Rightarrow> ('s, 'a) run" where
  "rlift x r = (x, r)"

definition rbind :: "('s, 'a) run \<Rightarrow> ('a \<Rightarrow> ('s, 'b) run) \<Rightarrow> ('s, 'b) run" where
  "rbind m f r = (case m r of (Inl e, r') \<Rightarrow> (Inl e, r') | (Inr x, r') \<Rightarrow> f x r')"

definition rthen :: "('s, 'a) run \<Rightarrow> ('s, 'b) run \<Rightarrow> ('s, 'b) run" where
  "rthen m n = rbind m (\<lambda>_. n)"

definition rtry :: "('s, 'a) run \<Rightarrow> ('s, 'a res) run" where
  "rtry m r = (case m r of (x, r') \<Rightarrow> (Inr x, r'))"

fun rmap :: "('a \<Rightarrow> ('s, 'b) run) \<Rightarrow> 'a list \<Rightarrow> ('s, 'b list) run" where
  "rmap f [] = rret []"
| "rmap f (x # xs) = rbind (f x) (\<lambda>y. rbind (rmap f xs) (\<lambda>ys. rret (y # ys)))"

definition zoom :: "('s \<Rightarrow> 't) \<Rightarrow> ('t \<Rightarrow> 's \<Rightarrow> 's) \<Rightarrow> ('t, 'a) run \<Rightarrow> ('s, 'a) run" where
  "zoom get put m s = (case m (get s) of (x, t) \<Rightarrow> (x, put t s))"

fun prefix_err :: "string \<Rightarrow> err \<Rightarrow> err" where
  "prefix_err p (Err e) = Err (p @ e)"
| "prefix_err p Panic = Panic"

definition map_err :: "string \<Rightarrow> ('s, 'a) run \<Rightarrow> ('s, 'a) run" where
  "map_err p m r = (case m r of (Inl e, r') \<Rightarrow> (Inl (prefix_err p e), r') | (Inr x, r') \<Rightarrow> (Inr x, r'))"

definition res_map_err :: "string \<Rightarrow> 'a res \<Rightarrow> 'a res" where
  "res_map_err p x = (case x of Inl e \<Rightarrow> Inl (prefix_err p e) | Inr y \<Rightarrow> Inr y)"

definition em_dash :: string where
  "em_dash = [CHR 0xE2, CHR 0x80, CHR 0x94]"

named_theorems rnd_simps \<open>results of computations with effects\<close>

lemma rbind_Inr [rnd_simps]:
  "rbind m f r = (Inr y, r'') \<longleftrightarrow> (\<exists>x r'. m r = (Inr x, r') \<and> f x r' = (Inr y, r''))"
  by (auto simp: rbind_def split: prod.splits sum.splits)

lemma rret_Inr [rnd_simps]: "rret x r = (Inr y, r') \<longleftrightarrow> y = x \<and> r' = r"
  by (auto simp: rret_def)

lemma rlift_Inr [rnd_simps]: "rlift x r = (Inr y, r') \<longleftrightarrow> x = Inr y \<and> r' = r"
  by (auto simp: rlift_def)

lemma map_err_Inr [rnd_simps]: "map_err p m r = (Inr y, r') \<longleftrightarrow> m r = (Inr y, r')"
  by (auto simp: map_err_def split: prod.splits sum.splits)

lemma res_map_err_Inr [rnd_simps]: "res_map_err p x = Inr y \<longleftrightarrow> x = Inr y"
  by (auto simp: res_map_err_def split: sum.splits)

lemma rmap_Inr:
  "rmap f xs r = (Inr ys, r') \<Longrightarrow> list_all2 (\<lambda>x y. \<exists>s s'. f x s = (Inr y, s')) xs ys"
  by (induction xs arbitrary: r ys) (auto simp: rnd_simps)

lemma rbind_rlift_Inr: "rbind (rlift (Inr x)) f = f x"
  by (simp add: rbind_def rlift_def fun_eq_iff)

lemma rbind_rret: "rbind (rret x) f = f x"
  by (simp add: rbind_def rret_def fun_eq_iff)

lemma rbind_snd:
  "snd (rbind m f r) = (case m r of (Inl e, r') \<Rightarrow> r' | (Inr x, r') \<Rightarrow> snd (f x r'))"
  by (auto simp: rbind_def split: prod.splits sum.splits)

lemma map_err_snd [simp]: "snd (map_err p m r) = snd (m r)"
  by (auto simp: map_err_def split: prod.splits sum.splits)

end
