(* ===== verification/Serialization.thy ===== *)
theory Serialization
  imports Sync Effects
begin

text \<open>
  The JSON form of a vault body: \<open>rust/src/vault/serialization.rs\<close>.

  The parser and printer of \<open>serde_json\<close> and the derived conversions are a parameter, the record
  \<open>serde\<close>; a JSON object is an insertion-ordered map, as the crate is configured. Modelled are the choice
  of the format by the first byte, the migration of the old bare array and the folding of the old
  single-slot secrets into the history, on JSON values.

  Shown: a written body reads back, the folding is idempotent and loses no old secret.
\<close>

section \<open>JSON values\<close>

datatype json = JNull | JBool bool | JNum string | JStr string | JArr "json list" | JObj "(string \<times> json) list"

text \<open>The functions of \<open>serde_json\<close> and the derived conversions the code calls.\<close>

record serde =
  sd_to_vec :: "VaultBody \<Rightarrow> string + bytes"
  sd_from_slice :: "bytes \<Rightarrow> string + json"
  sd_body :: "json \<Rightarrow> string + VaultBody"
  sd_entries :: "json \<Rightarrow> string + VaultEntry list"

definition ser_err :: "string \<Rightarrow> string + 'a \<Rightarrow> 'a res" where
  "ser_err msg r = (case r of Inl e \<Rightarrow> Inl (Err (msg @ e)) | Inr x \<Rightarrow> Inr x)"

definition serialize_vault_body :: "serde \<Rightarrow> VaultBody \<Rightarrow> bytes res" where
  "serialize_vault_body S body = ser_err ''Failed to serialize vault body: '' (sd_to_vec S body)"

section \<open>Migrating the old single-slot secrets\<close>

definition SLOTS :: "(string \<times> string) list" where
  "SLOTS = [(''previous_password'', ''password''), (''previous_cvv'', ''cvv''), (''previous_pin'', ''pin'')]"

definition slot_record :: "string \<Rightarrow> (string \<times> json) list \<Rightarrow> json" where
  "slot_record fld prev = JObj [(''field'', JStr fld), (''value'', unwrap_or (ix_get prev ''value'') (JStr [])),
     (''saved_at'', unwrap_or (ix_get prev ''saved_at'') (JStr [])),
     (''expires_at'', unwrap_or (ix_get prev ''expires_at'') JNull)]"

definition take_slot ::
  "string \<times> string \<Rightarrow> (string \<times> json) list \<times> json list \<Rightarrow> (string \<times> json) list \<times> json list" where
  "take_slot s acc =
     (case (s, acc) of ((key, fld), (m, recs)) \<Rightarrow>
        (case ix_get m key of
           Some (JObj prev) \<Rightarrow> (ix_insert key JNull m, recs @ [slot_record fld prev])
         | _ \<Rightarrow> (m, recs)))"

fun as_str :: "json \<Rightarrow> string option" where
  "as_str (JStr s) = Some s"
| "as_str _ = None"

fun json_field :: "json \<Rightarrow> string option" where
  "json_field (JObj m) = (case ix_get m ''field'' of None \<Rightarrow> None | Some v \<Rightarrow> as_str v)"
| "json_field _ = None"

definition push_record :: "json \<Rightarrow> json list \<Rightarrow> json list" where
  "push_record r hist = (if \<exists>h \<in> set hist. json_field h = json_field r then hist else hist @ [r])"

fun fold_inner_previous_secrets :: "json \<Rightarrow> json" where
  "fold_inner_previous_secrets (JObj m0) =
     (case fold take_slot SLOTS (m0, []) of (m, recs) \<Rightarrow>
        if recs = [] then JObj m
        else case unwrap_or (ix_get m ''meta'') (JObj []) of
            JObj meta \<Rightarrow>
              (case unwrap_or (ix_get meta ''history'') (JArr []) of
                 JArr hist \<Rightarrow> JObj (ix_insert ''meta'' (JObj (ix_insert ''history'' (JArr (fold push_record recs hist)) meta)) m)
               | _ \<Rightarrow> JObj m)
          | _ \<Rightarrow> JObj m)"
| "fold_inner_previous_secrets v = v"

fun fold_previous_secrets :: "json \<Rightarrow> json" where
  "fold_previous_secrets (JObj m) = JObj (map (\<lambda>(k, v). (k, fold_inner_previous_secrets v)) m)"
| "fold_previous_secrets v = v"

section \<open>Reading a body\<close>

definition is_ascii_whitespace :: "byte \<Rightarrow> bool" where
  "is_ascii_whitespace b = (b \<in> {9, 10, 12, 13, 32})"

fun fold_entries :: "json \<Rightarrow> json" where
  "fold_entries (JArr es) = JArr (map fold_previous_secrets es)"
| "fold_entries v = v"

fun fold_body :: "json \<Rightarrow> json" where
  "fold_body (JObj m) =
     (case ix_get m ''entries'' of None \<Rightarrow> JObj m | Some v \<Rightarrow> JObj (ix_insert ''entries'' (fold_entries v) m))"
| "fold_body v = v"

definition deserialize_vault_body :: "serde \<Rightarrow> bytes \<Rightarrow> VaultBody res" where
  "deserialize_vault_body S bs =
     (if find (\<lambda>b. \<not> is_ascii_whitespace b) bs = Some 0x5B
      then and_then (ser_err ''Failed to deserialize legacy entries: '' (sd_from_slice S bs)) (\<lambda>v.
           and_then (ser_err ''Failed to deserialize legacy entries: '' (sd_entries S (fold_entries v))) (\<lambda>es.
             Inr \<lparr>vb_folders = DEFAULT_FOLDERS, vb_entries = migrate_folders es, vb_yubikey_aliases = Map.empty,
                  vb_vault_updated_at = [], vb_deleted_ids = []\<rparr>))
      else and_then (ser_err ''Failed to deserialize vault body: '' (sd_from_slice S bs)) (\<lambda>v.
             ser_err ''Failed to deserialize vault body: '' (sd_body S (fold_body v))))"

section \<open>Notions the lemmas are stated with\<close>

text \<open>An entry value with no single-slot secret left, and a body all of whose entries are such.\<close>

fun slot_free :: "json \<Rightarrow> bool" where
  "slot_free (JObj m) = (\<forall>s \<in> set SLOTS. case ix_get m (fst s) of Some (JObj _) \<Rightarrow> False | _ \<Rightarrow> True)"
| "slot_free _ = True"

fun entry_slot_free :: "json \<Rightarrow> bool" where
  "entry_slot_free (JObj m) = (\<forall>kv \<in> set m. slot_free (snd kv))"
| "entry_slot_free _ = True"

fun body_slot_free :: "json \<Rightarrow> bool" where
  "body_slot_free (JObj m) = (case ix_get m ''entries'' of Some (JArr es) \<Rightarrow> list_all entry_slot_free es | _ \<Rightarrow> True)"
| "body_slot_free _ = True"

text \<open>What is relied on: reading what was written gives an object, in today's format, that converts back.\<close>

definition serde_roundtrip :: "serde \<Rightarrow> bool" where
  "serde_roundtrip S = (\<forall>b bs. sd_to_vec S b = Inr bs \<longrightarrow>
     (\<exists>v. sd_from_slice S bs = Inr v \<and> sd_body S v = Inr b \<and> body_slot_free v
        \<and> find (\<lambda>c. \<not> is_ascii_whitespace c) bs = Some 0x7B))"

definition sample_serde :: serde where
  "sample_serde = \<lparr>sd_to_vec = (\<lambda>b. if b = VaultBody_empty then Inr [0x7B, 0x7D] else Inl ''too big''),
     sd_from_slice = (\<lambda>bs. if bs = [0x7B, 0x7D] then Inr (JObj []) else Inl ''EOF''),
     sd_body = (\<lambda>v. Inr VaultBody_empty), sd_entries = (\<lambda>v. Inr [])\<rparr>"

definition slot_records :: "(string \<times> json) list \<Rightarrow> json list" where
  "slot_records m = List.map_filter (\<lambda>(k, f). case ix_get m k of Some (JObj prev) \<Rightarrow> Some (slot_record f prev) | _ \<Rightarrow> None) SLOTS"

section \<open>Folding\<close>

lemma ix_insert_same: "ix_get m k = Some v \<Longrightarrow> ix_insert k v m = m"
  by (induction m) (auto simp: ix_get_def split: if_splits)

lemma take_slot_free:
  "(case ix_get m k of Some (JObj _) \<Rightarrow> False | _ \<Rightarrow> True) \<Longrightarrow> take_slot (k, f) (m, r) = (m, r)"
  by (auto simp: take_slot_def split: option.splits json.splits)

lemma fold_inner_slot_free: "slot_free v \<Longrightarrow> fold_inner_previous_secrets v = v"
  by (cases v) (simp_all add: SLOTS_def take_slot_free)

lemma take_slot_other: "k \<noteq> k' \<Longrightarrow> ix_get (fst (take_slot (k, f) (m, r))) k' = ix_get m k'"
  by (auto simp: take_slot_def ix_get_insert split: option.splits json.splits)

lemma take_slot_done: "case ix_get (fst (take_slot (k, f) (m, r))) k of Some (JObj _) \<Rightarrow> False | _ \<Rightarrow> True"
  by (auto simp: take_slot_def ix_get_insert split: option.splits json.splits)

text \<open>The three slots one after another.\<close>

lemma fold_slots:
  obtains m1 r1 m2 r2 where "take_slot (''previous_password'', ''password'') (m, []) = (m1, r1)"
    and "take_slot (''previous_cvv'', ''cvv'') (m1, r1) = (m2, r2)"
    and "fold take_slot SLOTS (m, []) = take_slot (''previous_pin'', ''pin'') (m2, r2)"
proof -
  obtain m1 r1 where a: "take_slot (''previous_password'', ''password'') (m, []) = (m1, r1)" by (rule prod.exhaust)
  obtain m2 r2 where b: "take_slot (''previous_cvv'', ''cvv'') (m1, r1) = (m2, r2)" by (rule prod.exhaust)
  show thesis by (rule that [OF a b]) (simp add: SLOTS_def a b)
qed

lemma slots_done:
  assumes "fold take_slot SLOTS (m, []) = (m', recs)"
  shows "slot_free (JObj m')" and "k \<notin> fst ` set SLOTS \<Longrightarrow> ix_get m' k = ix_get m k"
proof -
  obtain m1 r1 m2 r2 where a: "take_slot (''previous_password'', ''password'') (m, []) = (m1, r1)"
    and b: "take_slot (''previous_cvv'', ''cvv'') (m1, r1) = (m2, r2)"
    and c: "take_slot (''previous_pin'', ''pin'') (m2, r2) = (m', recs)"
    by (rule fold_slots [of m]) (simp add: assms)
  note oth = take_slot_other [where f = "''password''" and m = m and r = "[]" and k = "''previous_password''", unfolded a fst_conv]
    take_slot_other [where f = "''cvv''" and m = m1 and r = r1 and k = "''previous_cvv''", unfolded b fst_conv]
    take_slot_other [where f = "''pin''" and m = m2 and r = r2 and k = "''previous_pin''", unfolded c fst_conv]
  note fin = take_slot_done [where f = "''password''" and m = m and r = "[]" and k = "''previous_password''", unfolded a fst_conv]
    take_slot_done [where f = "''cvv''" and m = m1 and r = r1 and k = "''previous_cvv''", unfolded b fst_conv]
    take_slot_done [where f = "''pin''" and m = m2 and r = r2 and k = "''previous_pin''", unfolded c fst_conv]
  show "slot_free (JObj m')" using fin oth by (simp add: SLOTS_def)
  show "k \<notin> fst ` set SLOTS \<Longrightarrow> ix_get m' k = ix_get m k" using oth by (auto simp: SLOTS_def)
qed

lemma slot_free_insert: "k \<notin> fst ` set SLOTS \<Longrightarrow> slot_free (JObj m) \<Longrightarrow> slot_free (JObj (ix_insert k v m))"
  by (auto simp: ix_get_insert)

lemma fold_inner_gives_slot_free: "slot_free (fold_inner_previous_secrets v)"
proof (cases v)
  case (JObj m0)
  obtain m recs where f: "fold take_slot SLOTS (m0, []) = (m, recs)" by force
  note free = slots_done(1) [OF f]
  have "''meta'' \<notin> fst ` set SLOTS" by (simp add: SLOTS_def)
  from slot_free_insert [OF this free] free show ?thesis
    by (simp add: JObj f split: json.split)
qed simp_all

lemma fold_slots_records: "snd (fold take_slot SLOTS (m, [])) = slot_records m"
  by (auto simp: SLOTS_def slot_records_def List.map_filter_def take_slot_def ix_get_insert split: option.splits json.splits)

lemma slot_record_field [simp]: "json_field (slot_record f p) = Some f"
  by (simp add: slot_record_def ix_get_def)

lemma slot_records_distinct: "distinct (map json_field (slot_records m))"
  by (auto simp: SLOTS_def slot_records_def List.map_filter_def split: option.splits json.splits)

lemma push_records_keeps: "\<exists>more. fold push_record recs hist = hist @ more"
proof (induction recs arbitrary: hist)
  case (Cons r recs)
  have "push_record r hist = hist @ [] \<or> push_record r hist = hist @ [r]" by (simp add: push_record_def)
  then obtain a where "push_record r hist = hist @ a" by blast
  with Cons.IH [of "hist @ a"] show ?case by auto
qed simp

lemma push_records_adds:
  assumes "distinct (map json_field recs)" and "r \<in> set recs"
  shows "r \<in> set (fold push_record recs hist) \<or> (\<exists>h \<in> set hist. json_field h = json_field r)"
  using assms
proof (induction recs arbitrary: hist)
  case (Cons x recs)
  obtain more where more: "fold push_record recs (push_record x hist) = push_record x hist @ more"
    using push_records_keeps by blast
  show ?case
  proof (cases "r = x")
    case True
    then show ?thesis by (simp add: more) (auto simp: push_record_def)
  next
    case False
    with Cons.prems have r: "r \<in> set recs" by simp
    then have "json_field r \<in> json_field ` set recs" by (rule imageI)
    with Cons.prems(1) have "json_field r \<noteq> json_field x" by auto
    with r Cons.IH [of "push_record x hist"] Cons.prems show ?thesis
      by (auto simp: push_record_def split: if_splits)
  qed
qed simp

lemma body_roundtrip_lemma:
  assumes "serialize_vault_body S b = Inr bs" and "serde_roundtrip S"
  shows "deserialize_vault_body S bs = Inr b"
proof -
  from assms(1) have "sd_to_vec S b = Inr bs" by (auto simp: serialize_vault_body_def ser_err_def split: sum.splits)
  with assms(2) obtain v where v: "sd_from_slice S bs = Inr v" "sd_body S v = Inr b" "body_slot_free v"
    and f: "find (\<lambda>c. \<not> is_ascii_whitespace c) bs = Some 0x7B" unfolding serde_roundtrip_def by blast
  have e: "fold_previous_secrets x = x" if "entry_slot_free x" for x
    using that by (cases x) (auto simp: fold_inner_slot_free intro!: map_idI)
  have "fold_body v = v"
  proof (cases v)
    case (JObj m)
    have "ix_insert ''entries'' (fold_entries w) m = m" if "ix_get m ''entries'' = Some w" for w
      using v(3) that e by (cases w) (auto simp: JObj list_all_iff map_idI intro!: ix_insert_same)
    then show ?thesis by (simp add: JObj split: option.split)
  qed simp_all
  with v f show ?thesis by (simp add: deserialize_vault_body_def ser_err_def and_then_def)
qed

section \<open>Properties of the body format\<close>

text \<open>A serialized body reads back as the same body.\<close>

theorem body_roundtrip:
  assumes "serialize_vault_body S b = Inr bs" and "serde_roundtrip S"
  shows "deserialize_vault_body S bs = Inr b"
  using assms by (rule body_roundtrip_lemma)

theorem body_roundtrip_witness:
  "serialize_vault_body sample_serde VaultBody_empty = Inr [0x7B, 0x7D]
   \<and> deserialize_vault_body sample_serde [0x7B, 0x7D] = Inr VaultBody_empty"
proof -
  have s: "serialize_vault_body sample_serde VaultBody_empty = Inr [0x7B, 0x7D]"
    by (simp add: serialize_vault_body_def sample_serde_def ser_err_def)
  have "serde_roundtrip sample_serde"
    by (auto simp: serde_roundtrip_def sample_serde_def is_ascii_whitespace_def ix_get_def split: if_splits)
  from body_roundtrip [OF s this] s show ?thesis by blast
qed

text \<open>Folding the old single-slot secrets twice is folding them once.\<close>

theorem fold_previous_secrets_idempotent:
  "fold_previous_secrets (fold_previous_secrets v) = fold_previous_secrets v"
  by (cases v) (auto simp: fold_inner_slot_free fold_inner_gives_slot_free)

text \<open>The migration of the old slots loses nothing: a slot's value becomes a history record of its field unless one
  is there already, the records of before stay in front, the slot is emptied and every other key is untouched.\<close>

theorem old_slot_becomes_history:
  assumes "(key, fld) \<in> set SLOTS" and "ix_get m key = Some (JObj prev)"
    and "ix_get m ''meta'' = Some (JObj meta)" and "ix_get meta ''history'' = Some (JArr hist)"
  shows "\<exists>m' meta' more. fold_inner_previous_secrets (JObj m) = JObj m'
    \<and> ix_get m' ''meta'' = Some (JObj meta') \<and> ix_get meta' ''history'' = Some (JArr (hist @ more))
    \<and> (slot_record fld prev \<in> set (hist @ more) \<or> (\<exists>h \<in> set hist. json_field h = Some fld))
    \<and> (\<forall>v. ix_get m' key \<noteq> Some (JObj v))
    \<and> (\<forall>k. k \<noteq> ''meta'' \<and> k \<notin> fst ` set SLOTS \<longrightarrow> ix_get m' k = ix_get m k)
    \<and> (\<forall>k. k \<noteq> ''history'' \<longrightarrow> ix_get meta' k = ix_get meta k)"
proof -
  obtain m1 recs where f: "fold take_slot SLOTS (m, []) = (m1, recs)" by (rule prod.exhaust)
  have recs: "recs = slot_records m" using fold_slots_records [of m] f by simp
  have r: "slot_record fld prev \<in> set recs"
    unfolding recs slot_records_def List.map_filter_def using assms(1,2) by force
  then have ne: "recs \<noteq> []" by auto
  note sld = slots_done [OF f]
  have meta: "ix_get m1 ''meta'' = Some (JObj meta)" using sld(2) [of "''meta''"] assms(3) by (simp add: SLOTS_def)
  obtain more where more: "fold push_record recs hist = hist @ more" using push_records_keeps by blast
  have kept: "slot_record fld prev \<in> set (hist @ more) \<or> (\<exists>h \<in> set hist. json_field h = Some fld)"
    using push_records_adds [OF slot_records_distinct [of m, folded recs] r, of hist] more by simp
  let ?meta' = "ix_insert ''history'' (JArr (hist @ more)) meta"
  have km: "key \<noteq> ''meta''" using assms(1) by (auto simp: SLOTS_def)
  have "fold_inner_previous_secrets (JObj m) = JObj (ix_insert ''meta'' (JObj ?meta') m1)"
    using f ne meta assms(4) more by (simp add: unwrap_or_def)
  moreover have "\<forall>v. ix_get m1 key \<noteq> Some (JObj v)" using sld(1) assms(1) by (fastforce split: option.splits)
  ultimately show ?thesis using kept sld(2) km
    by (intro exI [of _ "ix_insert ''meta'' (JObj ?meta') m1"] exI [of _ ?meta'] exI [of _ more]) (auto simp: ix_get_insert)
qed

theorem old_slot_becomes_history_witness:
  "\<exists>m' meta' more. fold_inner_previous_secrets (JObj [(''previous_pin'', JObj [(''value'', JStr ''1'')]),
       (''meta'', JObj [(''history'', JArr [])])]) = JObj m'
    \<and> ix_get m' ''meta'' = Some (JObj meta') \<and> ix_get meta' ''history'' = Some (JArr ([] @ more))
    \<and> slot_record ''pin'' [(''value'', JStr ''1'')] \<in> set ([] @ more)"
  using old_slot_becomes_history [of "''previous_pin''" "''pin''"
      "[(''previous_pin'', JObj [(''value'', JStr ''1'')]), (''meta'', JObj [(''history'', JArr [])])]"
      "[(''value'', JStr ''1'')]" "[(''history'', JArr [])]" "[]"]
  by (force simp: SLOTS_def ix_get_def)

end
