(* ===== verification/File_Format.thy ===== *)
theory File_Format
  imports Entry
begin

text \<open>
  The \<open>.gabbro\<close> container of \<open>rust/src/vault/file_format.rs\<close>: \<open>to_bytes\<close>, \<open>header_aad\<close> and
  \<open>from_bytes\<close> over a \<open>SealedVault\<close>, and the version probes. Reading is modelled with the bytes
  left after the cursor \<open>pos\<close>; a check \<open>data.len() < pos + n\<close> of the source is \<open>read_n\<close>.

  Shown: reading inverts writing, every accepted file is the encoding of what was read followed
  by ignored bytes, a truncated file is refused, the version probes agree with the reader, and
  the authenticated header determines every header field.
\<close>

section \<open>Data\<close>

record Argon2idParams =
  m_cost :: u32
  t_cost :: u32
  p_cost :: u32

record YubiKeyRecord =
  yr_credential_id :: bytes
  yr_salt :: bytes
  yr_key_blob :: bytes

record SealedVault =
  sv_version :: u8
  sv_params :: Argon2idParams
  sv_argon2_salt :: bytes
  sv_hkdf_salt :: bytes
  sv_nonce :: bytes
  sv_ciphertext :: bytes
  sv_yubikey_records :: "YubiKeyRecord list"
  sv_alias :: "string option"
  sv_passphrase_blob :: bytes

definition MAGIC :: bytes where
  "MAGIC = str_bytes ''GABBRO''"

definition VERSION :: u8 where
  "VERSION = 12"

definition VERSION_MIN_READABLE :: u8 where
  "VERSION_MIN_READABLE = 11"

definition UPGRADE_PATH_URL :: string where
  "UPGRADE_PATH_URL = ''https://github.com/gabbro-foss/gabbro/blob/master/docs/VAULT_UPGRADE_PATH.md''"

section \<open>Version probes\<close>

definition peek_version :: "bytes \<Rightarrow> u8 res" where
  "peek_version data =
     (if length data < 7 then Inl (Err ''File too short to be a Gabbro vault'')
      else if take 6 data \<noteq> MAGIC then Inl (Err ''Not a Gabbro vault file'')
      else Inr (data ! 6))"

definition is_format_too_old :: "bytes \<Rightarrow> bool res" where
  "is_format_too_old data = and_then (peek_version data) (\<lambda>v. Inr (v < VERSION_MIN_READABLE))"

definition is_format_too_new :: "bytes \<Rightarrow> bool res" where
  "is_format_too_new data = and_then (peek_version data) (\<lambda>v. Inr (VERSION < v))"

section \<open>Writing\<close>

definition u16_prefixed :: "bytes \<Rightarrow> bytes" where
  "u16_prefixed b = be_encode 2 (length b) @ b"

definition params_bytes :: "Argon2idParams \<Rightarrow> bytes" where
  "params_bytes p = be_encode 4 (unat (m_cost p)) @ be_encode 4 (unat (t_cost p))
     @ be_encode 4 (unat (p_cost p))"

definition record_bytes :: "YubiKeyRecord \<Rightarrow> bytes" where
  "record_bytes r = u16_prefixed (yr_credential_id r) @ yr_salt r @ u16_prefixed (yr_key_blob r)"

definition records_bytes :: "YubiKeyRecord list \<Rightarrow> bytes" where
  "records_bytes rs = of_nat (length rs) # concat (map record_bytes rs)"

definition alias_bytes :: "string option \<Rightarrow> bytes" where
  "alias_bytes a = str_bytes (unwrap_or a [])"

definition header_aad :: "SealedVault \<Rightarrow> bytes" where
  "header_aad s = MAGIC @ [sv_version s] @ params_bytes (sv_params s)
     @ sv_argon2_salt s @ sv_hkdf_salt s
     @ records_bytes (sv_yubikey_records s)
     @ u16_prefixed (alias_bytes (sv_alias s))
     @ u16_prefixed (sv_passphrase_blob s)"

definition to_bytes :: "SealedVault \<Rightarrow> bytes" where
  "to_bytes s = MAGIC @ [sv_version s] @ params_bytes (sv_params s)
     @ sv_argon2_salt s @ sv_hkdf_salt s @ sv_nonce s
     @ records_bytes (sv_yubikey_records s)
     @ u16_prefixed (alias_bytes (sv_alias s))
     @ u16_prefixed (sv_passphrase_blob s)
     @ be_encode 8 (length (sv_ciphertext s)) @ sv_ciphertext s"

section \<open>Reading\<close>

definition read_n :: "nat \<Rightarrow> string \<Rightarrow> bytes \<Rightarrow> (bytes \<times> bytes) res" where
  "read_n n msg d = (if length d < n then Inl (Err msg) else Inr (take n d, drop n d))"

definition read_u16_prefixed :: "string \<Rightarrow> string \<Rightarrow> bytes \<Rightarrow> (bytes \<times> bytes) res" where
  "read_u16_prefixed msg_len msg d =
     and_then (read_n 2 msg_len d) (\<lambda>(l, r). read_n (be_decode l) msg r)"

definition newer_msg :: "u8 \<Rightarrow> string" where
  "newer_msg v = ''This vault was created by a newer version of Gabbro (format v''
     @ show_nat (unat v) @ ''). Please update Gabbro to open it.''"

definition older_msg :: "u8 \<Rightarrow> string" where
  "older_msg v = ''file version not supported: v'' @ show_nat (unat v)
     @ '' (this build opens v'' @ show_nat (unat VERSION_MIN_READABLE) @ '' and later) - ''
     @ UPGRADE_PATH_URL"

definition read_version :: "bytes \<Rightarrow> (u8 \<times> bytes) res" where
  "read_version data =
     (if length data < 6 then Inl (Err ''File too short to be a Gabbro vault'')
      else if take 6 data \<noteq> MAGIC then Inl (Err ''Not a Gabbro vault file'')
      else and_then (read_n 1 ''File truncated at version byte'' (drop 6 data)) (\<lambda>(v, r).
        let version = hd v in
        if VERSION < version then Inl (Err (newer_msg version))
        else if version < VERSION_MIN_READABLE then Inl (Err (older_msg version))
        else Inr (version, r)))"

definition read_params :: "bytes \<Rightarrow> (Argon2idParams \<times> bytes) res" where
  "read_params d =
     and_then (read_n 12 ''File truncated at Argon2id params'' d) (\<lambda>(p, r).
       Inr (\<lparr>m_cost = of_nat (be_decode (take 4 p)),
             t_cost = of_nat (be_decode (take 4 (drop 4 p))),
             p_cost = of_nat (be_decode (take 4 (drop 8 p)))\<rparr>, r))"

definition read_record :: "bytes \<Rightarrow> (YubiKeyRecord \<times> bytes) res" where
  "read_record d =
     and_then (read_u16_prefixed ''File truncated at YubiKey credential_id length''
         ''File truncated at YubiKey credential_id'' d) (\<lambda>(credential_id, r1).
     and_then (read_n 32 ''File truncated at YubiKey salt'' r1) (\<lambda>(salt, r2).
     and_then (read_u16_prefixed ''File truncated at YubiKey key_blob length''
         ''File truncated at YubiKey key_blob'' r2) (\<lambda>(key_blob, r3).
       Inr (\<lparr>yr_credential_id = credential_id, yr_salt = salt, yr_key_blob = key_blob\<rparr>, r3))))"

fun read_records :: "nat \<Rightarrow> bytes \<Rightarrow> (YubiKeyRecord list \<times> bytes) res" where
  "read_records 0 d = Inr ([], d)"
| "read_records (Suc n) d =
     and_then (read_record d) (\<lambda>(x, r).
     and_then (read_records n r) (\<lambda>(xs, r'). Inr (x # xs, r')))"

definition read_alias :: "bytes \<Rightarrow> (string option \<times> bytes) res" where
  "read_alias d =
     and_then (read_u16_prefixed ''File truncated at alias length''
         ''File truncated at alias'' d) (\<lambda>(a, r).
       if \<not> utf8_valid a then Inl (Err ''Invalid UTF-8 in alias'')
       else Inr (if a = [] then None else Some (bytes_str a), r))"

text \<open>
  The body length is read from eight bytes; the end of the body is computed with a checked
  addition, so a sum past the 64-bit range and a body past the end of the file give the same
  error. \<open>pos\<close> is the cursor, the length of the file less what is left.
\<close>

definition read_body :: "nat \<Rightarrow> bytes \<Rightarrow> bytes res" where
  "read_body fsize d =
     and_then (read_n 8 ''File truncated at body length'' d) (\<lambda>(l, r).
       let body_len = be_decode l; pos = fsize - length r in
       if 2 ^ 64 \<le> pos + body_len then Inl (Err ''File truncated at body'')
       else if fsize < pos + body_len then Inl (Err ''File truncated at body'')
       else Inr (take body_len r))"

definition from_bytes :: "bytes \<Rightarrow> SealedVault res" where
  "from_bytes data =
     and_then (read_version data) (\<lambda>(version, r0).
     and_then (read_params r0) (\<lambda>(params, r1).
     and_then (read_n 32 ''File truncated at Argon2id salt'' r1) (\<lambda>(argon2_salt, r2).
     and_then (read_n 32 ''File truncated at HKDF salt'' r2) (\<lambda>(hkdf_salt, r3).
     and_then (read_n 12 ''File truncated at nonce'' r3) (\<lambda>(nonce, r4).
     and_then (read_n 1 ''File truncated at YubiKey record count'' r4) (\<lambda>(count, r5).
     and_then (read_records (unat (hd count)) r5) (\<lambda>(records, r6).
     and_then (read_alias r6) (\<lambda>(alias, r7).
     and_then (read_u16_prefixed ''File truncated at passphrase_blob length''
        ''File truncated at passphrase_blob'' r7) (\<lambda>(passphrase_blob, r8).
     and_then (read_body (length data) r8) (\<lambda>ciphertext.
       Inr \<lparr>sv_version = version, sv_params = params, sv_argon2_salt = argon2_salt,
            sv_hkdf_salt = hkdf_salt, sv_nonce = nonce, sv_ciphertext = ciphertext,
            sv_yubikey_records = records, sv_alias = alias,
            sv_passphrase_blob = passphrase_blob\<rparr>))))))))))"

section \<open>Well-formed vaults\<close>

text \<open>What the Rust types and the fixed-width prefixes can carry.\<close>

definition record_wf :: "YubiKeyRecord \<Rightarrow> bool" where
  "record_wf r = (length (yr_credential_id r) < 65536 \<and> length (yr_salt r) = 32
     \<and> length (yr_key_blob r) < 65536)"

definition alias_wf :: "string option \<Rightarrow> bool" where
  "alias_wf a = (case a of None \<Rightarrow> True
     | Some s \<Rightarrow> s \<noteq> [] \<and> length s < 65536 \<and> utf8_valid (str_bytes s))"

definition header_wf :: "SealedVault \<Rightarrow> bool" where
  "header_wf s = (length (sv_argon2_salt s) = 32 \<and> length (sv_hkdf_salt s) = 32
     \<and> length (sv_yubikey_records s) < 256 \<and> list_all record_wf (sv_yubikey_records s)
     \<and> alias_wf (sv_alias s) \<and> length (sv_passphrase_blob s) < 65536)"

definition sealed_wf :: "SealedVault \<Rightarrow> bool" where
  "sealed_wf s = (header_wf s \<and> length (sv_nonce s) = 12
     \<and> VERSION_MIN_READABLE \<le> sv_version s \<and> sv_version s \<le> VERSION
     \<and> length (to_bytes s) < 2 ^ 64)"

definition sample_vault :: SealedVault where
  "sample_vault = \<lparr>sv_version = 12, sv_params = \<lparr>m_cost = 65536, t_cost = 25, p_cost = 4\<rparr>,
     sv_argon2_salt = replicate 32 1, sv_hkdf_salt = replicate 32 2, sv_nonce = replicate 12 3,
     sv_ciphertext = [7, 8, 9],
     sv_yubikey_records = [\<lparr>yr_credential_id = [1, 2], yr_salt = replicate 32 5,
        yr_key_blob = replicate 60 6\<rparr>],
     sv_alias = Some ''home'', sv_passphrase_blob = replicate 60 4\<rparr>"

section \<open>Reading one field\<close>

lemma read_n_Inr [simp]: "read_n n msg d = Inr (p, r) \<longleftrightarrow> d = p @ r \<and> length p = n"
  by (auto simp: read_n_def)

lemma read_n_append: "length p = n \<Longrightarrow> read_n n msg (p @ r) = Inr (p, r)"
  by simp

lemma read_n_one: "read_n (Suc 0) msg (x # r) = Inr ([x], r)"
  by (simp add: read_n_def)

lemma u16_prefixed_read:
  "length b < 65536 \<Longrightarrow> read_u16_prefixed ml m (u16_prefixed b @ r) = Inr (b, r)"
  by (simp add: read_u16_prefixed_def u16_prefixed_def read_n_append be_decode_encode_small)

lemma read_u16_prefixed_Inr:
  assumes "read_u16_prefixed ml m d = Inr (b, r)"
  shows "d = u16_prefixed b @ r \<and> length b < 65536"
proof -
  from assms obtain l where l: "d = l @ b @ r" "length l = 2" "length b = be_decode l"
    by (auto simp: read_u16_prefixed_def and_then_Inr)
  have "be_encode 2 (be_decode l) = l" using be_encode_decode [of l] l(2) by simp
  moreover have "be_decode l < 65536" using be_decode_bound [of l] l(2) by simp
  ultimately show ?thesis using l by (simp add: u16_prefixed_def)
qed

lemma unat_u32_bound: "unat (w :: u32) < 256 ^ 4"
  using unsigned_less [of w, where 'a = nat] by simp

lemma length_params_bytes [simp]: "length (params_bytes p) = 12"
  by (simp add: params_bytes_def)

lemma read_params_bytes: "read_params (params_bytes p @ r) = Inr (p, r)"
proof -
  have u: "\<And>w :: u32. (of_nat (be_decode (be_encode 4 (unat w))) :: u32) = w"
    by (simp add: be_decode_encode_small [OF unat_u32_bound])
  have "take 4 (params_bytes p) = be_encode 4 (unat (m_cost p))"
    "take 4 (drop 4 (params_bytes p)) = be_encode 4 (unat (t_cost p))"
    "take 4 (drop 8 (params_bytes p)) = be_encode 4 (unat (p_cost p))"
    by (simp_all add: params_bytes_def)
  then show ?thesis
    by (simp add: read_params_def read_n_append u)
qed

lemma read_params_Inr:
  assumes "read_params d = Inr (p, r)"
  shows "d = params_bytes p @ r"
proof -
  from assms obtain q where q: "d = q @ r" "length q = 12"
    and p: "p = \<lparr>m_cost = of_nat (be_decode (take 4 q)),
       t_cost = of_nat (be_decode (take 4 (drop 4 q))),
       p_cost = of_nat (be_decode (take 4 (drop 8 q)))\<rparr>"
    by (auto simp: read_params_def and_then_Inr)
  have e: "be_encode 4 (unat (of_nat (be_decode b) :: u32)) = b" if "length b = 4" for b
  proof -
    have "be_decode b < 256 ^ 4" using be_decode_bound [of b] that by simp
    then have "unat (of_nat (be_decode b) :: u32) = be_decode b" by (simp add: unat_of_nat)
    with be_encode_decode [of b] that show ?thesis by simp
  qed
  have "q = take 4 q @ take 4 (drop 4 q) @ take 4 (drop 8 q)"
    using q(2) append_take_drop_id [of 4 q] append_take_drop_id [of 4 "drop 4 q"] by simp
  then show ?thesis
    using q by (simp add: params_bytes_def p e)
qed

section \<open>Records, alias, body\<close>

lemma read_record_bytes:
  "record_wf x \<Longrightarrow> read_record (record_bytes x @ r) = Inr (x, r)"
  by (simp add: read_record_def record_bytes_def record_wf_def u16_prefixed_read read_n_append)

lemma read_record_Inr:
  "read_record d = Inr (x, r) \<Longrightarrow> d = record_bytes x @ r \<and> record_wf x"
  by (auto simp: read_record_def and_then_Inr record_bytes_def record_wf_def dest!: read_u16_prefixed_Inr)

lemma read_records_bytes:
  "list_all record_wf xs \<Longrightarrow>
     read_records (length xs) (concat (map record_bytes xs) @ r) = Inr (xs, r)"
  by (induction xs) (simp_all add: read_record_bytes)

lemma read_records_Inr:
  "read_records n d = Inr (xs, r) \<Longrightarrow>
     d = concat (map record_bytes xs) @ r \<and> length xs = n \<and> list_all record_wf xs"
  by (induction n arbitrary: d xs) (auto simp: and_then_Inr dest!: read_record_Inr)

lemma read_alias_bytes:
  "alias_wf a \<Longrightarrow> read_alias (u16_prefixed (alias_bytes a) @ r) = Inr (a, r)"
  by (cases a)
    (auto simp: read_alias_def alias_bytes_def alias_wf_def u16_prefixed_read)

lemma read_alias_Inr:
  assumes "read_alias d = Inr (a, r)"
  shows "d = u16_prefixed (alias_bytes a) @ r \<and> alias_wf a"
proof -
  from assms obtain b where b: "read_u16_prefixed ''File truncated at alias length''
      ''File truncated at alias'' d = Inr (b, r)"
    and v: "utf8_valid b" and a: "a = (if b = [] then None else Some (bytes_str b))"
    by (auto simp: read_alias_def and_then_Inr split: if_splits)
  from read_u16_prefixed_Inr [OF b] v show ?thesis
    by (auto simp: a alias_bytes_def alias_wf_def)
qed

lemma read_body_bytes:
  assumes "fsize - length x < 2 ^ 64" and "length (be_encode 8 (length c) @ c @ x) \<le> fsize"
  shows "read_body fsize (be_encode 8 (length c) @ c @ x) = Inr c"
proof -
  have "length c < 256 ^ 8" using assms by simp
  then have "be_decode (be_encode 8 (length c)) = length c" by (rule be_decode_encode_small)
  with assms show ?thesis by (simp add: read_body_def read_n_append Let_def)
qed

lemma read_body_Inr:
  assumes "read_body fsize d = Inr c" and "length d \<le> fsize"
  shows "\<exists>x. d = be_encode 8 (length c) @ c @ x"
    and "fsize - length d + 8 + length c < 2 ^ 64"
proof -
  from assms(1) obtain l r where d: "d = l @ r" "length l = 8"
    and b: "\<not> 2 ^ 64 \<le> fsize - length r + be_decode l" "\<not> fsize < fsize - length r + be_decode l"
    and c: "c = take (be_decode l) r"
    by (auto simp: read_body_def and_then_Inr Let_def split: if_splits)
  have "be_decode l \<le> length r" using b(2) d assms(2) by auto
  then have lc: "length c = be_decode l" by (simp add: c)
  have "be_encode 8 (length c) = l" using be_encode_decode [of l] d(2) by (simp add: lc)
  then have "d = be_encode 8 (length c) @ c @ drop (be_decode l) r"
    using d(1) c by simp
  then show "\<exists>x. d = be_encode 8 (length c) @ c @ x" by blast
  show "fsize - length d + 8 + length c < 2 ^ 64"
    using b(1) d assms(2) by (simp add: lc)
qed

section \<open>The whole file\<close>

lemma length_MAGIC [simp]: "length MAGIC = 6"
  by (simp add: MAGIC_def)

lemma read_version_bytes:
  "VERSION_MIN_READABLE \<le> v \<Longrightarrow> v \<le> VERSION \<Longrightarrow> read_version (MAGIC @ v # r) = Inr (v, r)"
  by (simp add: read_version_def read_n_def Let_def not_less)

lemma read_version_Inr:
  assumes "read_version d = Inr (v, r)"
  shows "d = MAGIC @ v # r \<and> VERSION_MIN_READABLE \<le> v \<and> v \<le> VERSION"
proof -
  from assms obtain w where m: "take 6 d = MAGIC" and w: "drop 6 d = w @ r" "length w = 1"
    and v: "v = hd w" and b: "\<not> VERSION < hd w" "\<not> hd w < VERSION_MIN_READABLE"
    by (auto simp: read_version_def and_then_Inr Let_def split: if_splits)
  from w(2) have "w = [v]" by (cases w) (auto simp: v)
  with m w(1) have "d = MAGIC @ v # r" by (metis append_Cons append_Nil append_take_drop_id)
  with b v show ?thesis by auto
qed

lemma from_bytes_to_bytes:
  assumes "sealed_wf s"
  shows "from_bytes (to_bytes s @ x) = Inr s"
proof -
  have wf: "header_wf s" "length (sv_nonce s) = 12" "VERSION_MIN_READABLE \<le> sv_version s"
    "sv_version s \<le> VERSION" "length (to_bytes s) < 2 ^ 64"
    using assms by (auto simp: sealed_wf_def)
  have n: "unat (of_nat (length (sv_yubikey_records s)) :: byte) = length (sv_yubikey_records s)"
    using wf(1) by (simp add: header_wf_def unat_of_nat)
  have b: "read_body (length (to_bytes s @ x))
      (be_encode 8 (length (sv_ciphertext s)) @ sv_ciphertext s @ x) = Inr (sv_ciphertext s)"
    using wf(5) by (intro read_body_bytes) (simp_all add: to_bytes_def)
  have r: "read_records (length (sv_yubikey_records s))
      (concat (map record_bytes (sv_yubikey_records s)) @ t) = Inr (sv_yubikey_records s, t)" for t
    using wf(1) by (intro read_records_bytes) (simp add: header_wf_def)
  show ?thesis
    using wf(1-4) b
    by (simp add: from_bytes_def to_bytes_def records_bytes_def header_wf_def read_version_bytes
        read_params_bytes read_n_append read_n_one read_alias_bytes u16_prefixed_read n r)
qed

lemma from_bytes_Inr:
  assumes "from_bytes d = Inr s"
  shows "sealed_wf s \<and> (\<exists>x. d = to_bytes s @ x)"
proof -
  from assms obtain v r0 p r1 sa r2 hs r3 no r4 ct r5 rs r6 al r7 pb r8 ci where
    st: "read_version d = Inr (v, r0)" "read_params r0 = Inr (p, r1)"
      "r1 = sa @ r2" "length sa = 32" "r2 = hs @ r3" "length hs = 32"
      "r3 = no @ r4" "length no = 12" "r4 = ct @ r5" "length ct = 1"
      "read_records (unat (hd ct)) r5 = Inr (rs, r6)" "read_alias r6 = Inr (al, r7)"
      "read_u16_prefixed ''File truncated at passphrase_blob length''
        ''File truncated at passphrase_blob'' r7 = Inr (pb, r8)"
      "read_body (length d) r8 = Inr ci"
    and s: "s = \<lparr>sv_version = v, sv_params = p, sv_argon2_salt = sa, sv_hkdf_salt = hs,
       sv_nonce = no, sv_ciphertext = ci, sv_yubikey_records = rs, sv_alias = al,
       sv_passphrase_blob = pb\<rparr>"
    by (auto simp: from_bytes_def and_then_Inr)
  note parts = read_version_Inr [OF st(1)] read_params_Inr [OF st(2)]
    read_records_Inr [OF st(11)] read_alias_Inr [OF st(12)] read_u16_prefixed_Inr [OF st(13)]
  from st(10) have ct: "ct = [hd ct]" by (cases ct) auto
  have cnt: "of_nat (length rs) = hd ct" "length rs < 256"
    using parts unat_byte_less [of "hd ct"] by auto
  define h where "h = MAGIC @ [v] @ params_bytes p @ sa @ hs @ no @ records_bytes rs
    @ u16_prefixed (alias_bytes al) @ u16_prefixed pb"
  have d: "d = h @ r8"
    using parts st(3,5,7,9) ct cnt(1) by (simp add: h_def records_bytes_def)
  then obtain x where x: "r8 = be_encode 8 (length ci) @ ci @ x"
    and bound: "length h + 8 + length ci < 2 ^ 64"
    using read_body_Inr [OF st(14)] by auto
  have "to_bytes s = h @ be_encode 8 (length ci) @ ci"
    by (simp add: to_bytes_def s h_def)
  with d x bound parts st cnt show ?thesis
    by (auto simp: sealed_wf_def header_wf_def s)
qed

lemma header_aad_inject:
  assumes "header_wf s" and "header_wf t" and "header_aad s = header_aad t"
  shows "sv_version s = sv_version t \<and> sv_params s = sv_params t
    \<and> sv_argon2_salt s = sv_argon2_salt t \<and> sv_hkdf_salt s = sv_hkdf_salt t
    \<and> sv_yubikey_records s = sv_yubikey_records t \<and> sv_alias s = sv_alias t
    \<and> sv_passphrase_blob s = sv_passphrase_blob t"
proof -
  define tl where "tl u = u16_prefixed (alias_bytes (sv_alias u)) @ u16_prefixed (sv_passphrase_blob u)"
    for u :: SealedVault
  have tail: "sv_alias u = sv_alias w \<and> sv_passphrase_blob u = sv_passphrase_blob w"
    if "header_wf u" "header_wf w" "tl u = tl w" for u w
  proof -
    have "read_alias (tl v) = Inr (sv_alias v, u16_prefixed (sv_passphrase_blob v))"
      if "header_wf v" for v
      using that by (simp add: tl_def header_wf_def read_alias_bytes)
    with that have "(sv_alias u, u16_prefixed (sv_passphrase_blob u)) =
        (sv_alias w, u16_prefixed (sv_passphrase_blob w))" by (metis Inr_inject)
    then show ?thesis by (simp add: u16_prefixed_def)
  qed
  have eqs: "sv_version s = sv_version t" "params_bytes (sv_params s) = params_bytes (sv_params t)"
    "sv_argon2_salt s = sv_argon2_salt t" "sv_hkdf_salt s = sv_hkdf_salt t"
    "records_bytes (sv_yubikey_records s) @ tl s = records_bytes (sv_yubikey_records t) @ tl t"
    using assms by (auto simp: header_aad_def header_wf_def tl_def)
  have n: "unat (of_nat (length (sv_yubikey_records v)) :: byte) = length (sv_yubikey_records v)"
    if "header_wf v" for v
    using that by (simp add: header_wf_def unat_of_nat)
  have recs: "read_records (length (sv_yubikey_records v))
      (concat (map record_bytes (sv_yubikey_records v)) @ tl v) = Inr (sv_yubikey_records v, tl v)"
    if "header_wf v" for v
    using that by (intro read_records_bytes) (simp add: header_wf_def)
  have "length (sv_yubikey_records s) = length (sv_yubikey_records t)"
    using eqs(5) n assms(1,2) by (metis append_Cons list.inject records_bytes_def)
  moreover have "concat (map record_bytes (sv_yubikey_records s)) @ tl s =
      concat (map record_bytes (sv_yubikey_records t)) @ tl t"
    using eqs(5) by (simp add: records_bytes_def)
  ultimately have "(sv_yubikey_records s, tl s) = (sv_yubikey_records t, tl t)"
    using recs [OF assms(1)] recs [OF assms(2)] by (metis Inr_inject)
  moreover have "sv_params s = sv_params t"
    using eqs(2) read_params_bytes [of _ "[]"] by (metis Inr_inject Pair_inject)
  ultimately show ?thesis using eqs tail [OF assms(1,2)] by simp
qed

section \<open>Properties of the format\<close>

text \<open>C4. Writing a vault and reading it back gives the same vault, whatever bytes follow the
  body: \<open>from_bytes\<close> inverts \<open>to_bytes\<close> on every vault the format can carry.\<close>

theorem vault_file_roundtrip:
  assumes "sealed_wf s"
  shows "from_bytes (to_bytes s @ trailing) = Inr s"
  using assms by (rule from_bytes_to_bytes)

lemma sample_vault_wf: "sealed_wf sample_vault"
  by (simp add: sealed_wf_def header_wf_def record_wf_def alias_wf_def sample_vault_def
      VERSION_def VERSION_MIN_READABLE_def to_bytes_def params_bytes_def records_bytes_def
      record_bytes_def u16_prefixed_def alias_bytes_def utf8_valid.simps utf8_width_def
      str_bytes_def)

theorem vault_file_roundtrip_witness:
  "sealed_wf sample_vault \<and> from_bytes (to_bytes sample_vault @ [0]) = Inr sample_vault"
  using vault_file_roundtrip [OF sample_vault_wf] sample_vault_wf by blast

text \<open>Every file \<open>from_bytes\<close> accepts is the encoding of the vault it returns, followed by
  bytes the reader ignores, and the vault is well formed: readable version, 32-byte salts,
  12-byte nonce, valid UTF-8 alias.\<close>

theorem vault_file_canonical:
  assumes "from_bytes data = Inr s"
  shows "sealed_wf s \<and> data = to_bytes s @ drop (length (to_bytes s)) data"
  using from_bytes_Inr [OF assms] by auto

theorem vault_file_canonical_witness:
  "from_bytes (to_bytes sample_vault) = Inr sample_vault \<and> sealed_wf sample_vault"
proof -
  have "from_bytes (to_bytes sample_vault) = Inr sample_vault"
    using from_bytes_to_bytes [OF sample_vault_wf, of "[]"] by simp
  with vault_file_canonical [OF this] show ?thesis by blast
qed

text \<open>C38. A vault file cut short anywhere is refused: the reader accepts no proper prefix of an encoded vault.\<close>

theorem truncated_vault_refused:
  assumes "sealed_wf s" and "n < length (to_bytes s)"
  shows "\<not> is_ok (from_bytes (take n (to_bytes s)))"
proof
  assume "is_ok (from_bytes (take n (to_bytes s)))"
  then obtain t where t: "from_bytes (take n (to_bytes s)) = Inr t"
    by (auto simp: is_ok_def split: sum.splits)
  from from_bytes_Inr [OF t] obtain x where wf: "sealed_wf t" and x: "take n (to_bytes s) = to_bytes t @ x"
    by auto
  have "to_bytes s = to_bytes t @ x @ drop n (to_bytes s)"
    using append_take_drop_id [of n "to_bytes s"] x by simp
  then have "from_bytes (to_bytes s @ []) = Inr t"
    using from_bytes_to_bytes [OF wf] by (metis append_Nil2)
  then have "t = s" using from_bytes_to_bytes [OF assms(1)] by (metis Inr_inject)
  with x have "length (to_bytes s) \<le> n" by (metis append_eq_append_conv_if length_take min.cobounded2
        length_append le_add1 le_trans)
  with assms(2) show False by simp
qed

theorem truncated_vault_refused_witness:
  "sealed_wf sample_vault \<and> \<not> is_ok (from_bytes (take 20 (to_bytes sample_vault)))"
proof -
  have "20 < length (to_bytes sample_vault)"
    by (simp add: to_bytes_def sample_vault_def)
  from truncated_vault_refused [OF sample_vault_wf this] sample_vault_wf show ?thesis by blast
qed

text \<open>C40. The probes the app uses before unlocking agree with the reader: a file called too new or
  too old is refused with exactly that message, and a file the reader opens is neither.\<close>

theorem version_probes_agree:
  "(is_format_too_new data = Inr True \<longrightarrow> (\<exists>v. peek_version data = Inr v
       \<and> from_bytes data = Inl (Err (newer_msg v))))
   \<and> (is_format_too_old data = Inr True \<longrightarrow> (\<exists>v. peek_version data = Inr v
       \<and> from_bytes data = Inl (Err (older_msg v))))
   \<and> (is_ok (from_bytes data) \<longrightarrow>
       is_format_too_new data = Inr False \<and> is_format_too_old data = Inr False)"
proof -
  have pv: "\<exists>r. data = MAGIC @ v # r" if "peek_version data = Inr v" for v
  proof -
    from that have l: "7 \<le> length data" and m: "take 6 data = MAGIC" and v: "v = data ! 6"
      by (auto simp: peek_version_def split: if_splits)
    from l have "data = take 6 data @ data ! 6 # drop (Suc 6) data" by (intro id_take_nth_drop) simp
    with m v show ?thesis by metis
  qed
  have rv: "from_bytes (MAGIC @ v # r) = Inl (Err (newer_msg v))" if "VERSION < v" for v r
    using that by (simp add: from_bytes_def read_version_def read_n_def)
  have ro: "from_bytes (MAGIC @ v # r) = Inl (Err (older_msg v))" if "v < VERSION_MIN_READABLE" for v r
  proof -
    from that have "\<not> VERSION < v" by (simp add: VERSION_def VERSION_MIN_READABLE_def word_less_nat_alt)
    with that show ?thesis by (simp add: from_bytes_def read_version_def read_n_def)
  qed
  have new: "\<exists>v. peek_version data = Inr v \<and> from_bytes data = Inl (Err (newer_msg v))"
    if "is_format_too_new data = Inr True"
    using that rv pv by (auto simp: is_format_too_new_def and_then_Inr)
  have old: "\<exists>v. peek_version data = Inr v \<and> from_bytes data = Inl (Err (older_msg v))"
    if "is_format_too_old data = Inr True"
    using that ro pv by (auto simp: is_format_too_old_def and_then_Inr)
  have ok: "is_format_too_new data = Inr False \<and> is_format_too_old data = Inr False"
    if "is_ok (from_bytes data)"
  proof -
    from that obtain s where "from_bytes data = Inr s" by (auto simp: is_ok_def split: sum.splits)
    from from_bytes_Inr [OF this] obtain x where "sealed_wf s" "data = to_bytes s @ x" by blast
    then have "peek_version data = Inr (sv_version s)" "VERSION_MIN_READABLE \<le> sv_version s"
      "sv_version s \<le> VERSION"
      by (auto simp: peek_version_def to_bytes_def sealed_wf_def nth_append)
    then show ?thesis by (simp add: is_format_too_new_def is_format_too_old_def not_less)
  qed
  show ?thesis using new old ok by blast
qed

theorem version_probes_agree_witness:
  "is_ok (from_bytes (to_bytes sample_vault)) \<and> is_format_too_new (to_bytes sample_vault) = Inr False
   \<and> is_format_too_old (to_bytes sample_vault) = Inr False"
proof -
  have "is_ok (from_bytes (to_bytes sample_vault))"
    using from_bytes_to_bytes [OF sample_vault_wf, of "[]"] by simp
  with version_probes_agree [of "to_bytes sample_vault"] show ?thesis by blast
qed

text \<open>The authenticated header determines the header: two vaults with the same associated data
  have the same version, Argon2id parameters, salts, YubiKey records, passphrase blob and alias, so
  no plaintext header field can change without changing what AES-GCM authenticates.\<close>

theorem header_aad_determines_header:
  assumes "header_wf s" and "header_wf t" and "header_aad s = header_aad t"
  shows "sv_version s = sv_version t \<and> sv_params s = sv_params t
    \<and> sv_argon2_salt s = sv_argon2_salt t \<and> sv_hkdf_salt s = sv_hkdf_salt t
    \<and> sv_yubikey_records s = sv_yubikey_records t \<and> sv_alias s = sv_alias t
    \<and> sv_passphrase_blob s = sv_passphrase_blob t"
  using assms by (rule header_aad_inject)

theorem header_aad_determines_header_witness:
  "header_wf sample_vault \<and> header_wf (sample_vault\<lparr>sv_nonce := replicate 12 0\<rparr>)
   \<and> sv_alias sample_vault = sv_alias (sample_vault\<lparr>sv_nonce := replicate 12 0\<rparr>)"
proof -
  have 1: "header_wf sample_vault" using sample_vault_wf by (simp add: sealed_wf_def)
  then have 2: "header_wf (sample_vault\<lparr>sv_nonce := replicate 12 0\<rparr>)" by (simp add: header_wf_def)
  have "header_aad sample_vault = header_aad (sample_vault\<lparr>sv_nonce := replicate 12 0\<rparr>)"
    by (simp add: header_aad_def)
  from header_aad_determines_header [OF 1 2 this] 1 2 show ?thesis by blast
qed

end
