(* ===== verification/Vault_Crypto.thy ===== *)
theory Vault_Crypto
  imports File_Format Effects
begin

text \<open>
  Sealing and opening a vault: \<open>rust/src/crypto/vault_crypto.rs\<close> over \<open>kdf.rs\<close>, \<open>hkdf.rs\<close> and
  \<open>aes_gcm.rs\<close>.

  The cryptographic crates are a parameter, the record \<open>crypto\<close>: Argon2id (the parameter check and
  the hash), HKDF-SHA-256 and AES-256-GCM with its nonce and associated data. What is relied
  on is stated as hypotheses on it: \<open>aead_correct\<close> (decryption inverts encryption),
  \<open>aead_lengths\<close> (the tag is 16 bytes), \<open>aead_authentic\<close> (a ciphertext opens only under the key, nonce
  and associated data it was made with). The random source of the operating system is a stream of
  bytes; an operation that draws from it returns the rest of the stream with its result.

  Shown: what is sealed opens again, with every registered key; changing the passphrase, adding
  and removing a key keep the others working; the number of keys stays within its bounds; a
  changed header does not open.
\<close>

section \<open>Randomness\<close>

type_synonym rng = "nat \<Rightarrow> byte"
type_synonym 'a rnd = "(rng, 'a) run"

definition fill_bytes :: "nat \<Rightarrow> bytes rnd" where
  "fill_bytes n r = (Inr (map r [0..<n]), \<lambda>i. r (i + n))"

section \<open>Primitives\<close>

record crypto =
  argon2_params :: "Argon2idParams \<Rightarrow> string option"
  argon2_hash :: "bytes \<Rightarrow> bytes \<Rightarrow> Argon2idParams \<Rightarrow> string + bytes"
  hkdf_sha256 :: "bytes \<Rightarrow> bytes \<Rightarrow> bytes \<Rightarrow> bytes"
  gcm_encrypt :: "bytes \<Rightarrow> bytes \<Rightarrow> bytes \<Rightarrow> bytes \<Rightarrow> string + bytes"
  gcm_decrypt :: "bytes \<Rightarrow> bytes \<Rightarrow> bytes \<Rightarrow> bytes \<Rightarrow> bytes option"

definition Argon2idParams_default :: Argon2idParams where
  "Argon2idParams_default = \<lparr>m_cost = 65536, t_cost = 25, p_cost = 4\<rparr>"

definition derive_key :: "crypto \<Rightarrow> bytes \<Rightarrow> bytes \<Rightarrow> Argon2idParams \<Rightarrow> bytes res" where
  "derive_key C passphrase salt params =
     (case argon2_params C params of
        Some e \<Rightarrow> Inl (Err (''invalid Argon2id params: '' @ e))
      | None \<Rightarrow>
          (case argon2_hash C passphrase salt params of
             Inl e \<Rightarrow> Inl (Err (''Argon2id derivation failed: '' @ e))
           | Inr out \<Rightarrow> Inr out))"

definition INFO_YUBIKEY :: bytes where
  "INFO_YUBIKEY = str_bytes ''gabbro-yubikey-v1''"

definition INFO_VAULT_KEY_V11 :: bytes where
  "INFO_VAULT_KEY_V11 = str_bytes ''gabbro-vault-key-from-argon2id-v1''"

definition derive_vault_key_v11 :: "crypto \<Rightarrow> bytes \<Rightarrow> bytes \<Rightarrow> bytes" where
  "derive_vault_key_v11 C km salt = hkdf_sha256 C salt km INFO_VAULT_KEY_V11"

definition combine_yubikey :: "crypto \<Rightarrow> bytes \<Rightarrow> bytes \<Rightarrow> bytes \<Rightarrow> bytes" where
  "combine_yubikey C passphrase_key yubikey_output salt =
     hkdf_sha256 C salt (passphrase_key @ yubikey_output) INFO_YUBIKEY"

text \<open>Encryption draws a nonce; \<open>encrypt\<close> is encryption with empty associated data.\<close>

definition encrypt_with_aad :: "crypto \<Rightarrow> bytes \<Rightarrow> bytes \<Rightarrow> bytes \<Rightarrow> (bytes \<times> bytes) rnd" where
  "encrypt_with_aad C key plaintext aad =
     rbind (fill_bytes 12) (\<lambda>nonce.
       case gcm_encrypt C key nonce aad plaintext of
         Inl e \<Rightarrow> rlift (Inl (Err (''AES-256-GCM encryption failed: '' @ e)))
       | Inr ct \<Rightarrow> rret (ct, nonce))"

definition encrypt :: "crypto \<Rightarrow> bytes \<Rightarrow> bytes \<Rightarrow> (bytes \<times> bytes) rnd" where
  "encrypt C key plaintext = encrypt_with_aad C key plaintext []"

definition decrypt_with_aad :: "crypto \<Rightarrow> bytes \<Rightarrow> bytes \<Rightarrow> bytes \<Rightarrow> bytes \<Rightarrow> bytes res" where
  "decrypt_with_aad C key ciphertext nonce aad =
     (case gcm_decrypt C key nonce aad ciphertext of
        None \<Rightarrow> Inl (Err ''decryption failed: wrong key, tampered ciphertext, or modified header'')
      | Some m \<Rightarrow> Inr m)"

definition decrypt :: "crypto \<Rightarrow> bytes \<Rightarrow> bytes \<Rightarrow> bytes \<Rightarrow> bytes res" where
  "decrypt C key ciphertext nonce =
     (case gcm_decrypt C key nonce [] ciphertext of
        None \<Rightarrow> Inl (Err ''decryption failed: wrong key or tampered ciphertext'')
      | Some m \<Rightarrow> Inr m)"

section \<open>Passphrase-only vaults\<close>

definition encrypt_body :: "crypto \<Rightarrow> bytes \<Rightarrow> bytes \<Rightarrow> SealedVault \<Rightarrow> SealedVault rnd" where
  "encrypt_body C key plaintext sealed =
     rbind (encrypt_with_aad C key plaintext (header_aad sealed)) (\<lambda>(ciphertext, nonce).
       rret (sealed\<lparr>sv_ciphertext := ciphertext, sv_nonce := nonce\<rparr>))"

definition seal_vault_with_params ::
  "crypto \<Rightarrow> bytes \<Rightarrow> bytes \<Rightarrow> string option \<Rightarrow> Argon2idParams \<Rightarrow> SealedVault rnd" where
  "seal_vault_with_params C passphrase plaintext alias params =
     rbind (fill_bytes 32) (\<lambda>argon2_salt.
     rbind (rlift (derive_key C passphrase argon2_salt params)) (\<lambda>kdf_output.
     rbind (fill_bytes 32) (\<lambda>hkdf_salt.
       encrypt_body C (derive_vault_key_v11 C kdf_output hkdf_salt) plaintext
         \<lparr>sv_version = VERSION, sv_params = params, sv_argon2_salt = argon2_salt, sv_hkdf_salt = hkdf_salt,
          sv_nonce = replicate 12 0, sv_ciphertext = [], sv_yubikey_records = [], sv_alias = alias,
          sv_passphrase_blob = []\<rparr>)))"

definition seal_vault :: "crypto \<Rightarrow> bytes \<Rightarrow> bytes \<Rightarrow> string option \<Rightarrow> SealedVault rnd" where
  "seal_vault C passphrase plaintext alias =
     seal_vault_with_params C passphrase plaintext alias Argon2idParams_default"

definition open_vault :: "crypto \<Rightarrow> bytes \<Rightarrow> SealedVault \<Rightarrow> bytes res" where
  "open_vault C passphrase sealed =
     and_then (derive_key C passphrase (sv_argon2_salt sealed) (sv_params sealed)) (\<lambda>kdf_output.
       decrypt_with_aad C (derive_vault_key_v11 C kdf_output (sv_hkdf_salt sealed))
         (sv_ciphertext sealed) (sv_nonce sealed) (header_aad sealed))"

section \<open>Vaults with security keys\<close>

record YubiKeyRegistration =
  reg_credential_id :: bytes
  reg_hmac_secret :: bytes
  reg_salt :: bytes

text \<open>A blob is the nonce followed by the ciphertext.\<close>

definition encrypt_blob :: "crypto \<Rightarrow> bytes \<Rightarrow> bytes \<Rightarrow> bytes rnd" where
  "encrypt_blob C key plaintext = rbind (encrypt C key plaintext) (\<lambda>(ct, nonce). rret (nonce @ ct))"

definition make_record :: "crypto \<Rightarrow> bytes \<Rightarrow> bytes \<Rightarrow> YubiKeyRegistration \<Rightarrow> YubiKeyRecord rnd" where
  "make_record C wrapping_key vault_key_master k =
     rbind (encrypt_blob C (combine_yubikey C wrapping_key (reg_hmac_secret k) (reg_salt k)) vault_key_master)
       (\<lambda>key_blob. rret \<lparr>yr_credential_id = reg_credential_id k, yr_salt = reg_salt k, yr_key_blob = key_blob\<rparr>)"

definition seal_vault_with_keys ::
  "crypto \<Rightarrow> bytes \<Rightarrow> YubiKeyRegistration list \<Rightarrow> bytes \<Rightarrow> string option \<Rightarrow> SealedVault rnd" where
  "seal_vault_with_keys C passphrase keys plaintext alias =
     (if length keys < 2
      then rlift (Inl (Err (''at least 2 YubiKeys required; got '' @ show_nat (length keys))))
      else
        rbind (fill_bytes 32) (\<lambda>argon2_salt.
        rbind (rlift (derive_key C passphrase argon2_salt Argon2idParams_default)) (\<lambda>kdf_output.
        rbind (fill_bytes 32) (\<lambda>hkdf_salt.
        rbind (fill_bytes 32) (\<lambda>wrapping_key.
        rbind (encrypt_blob C (derive_vault_key_v11 C kdf_output hkdf_salt) wrapping_key) (\<lambda>passphrase_blob.
        rbind (fill_bytes 32) (\<lambda>vault_key_master.
        rbind (rmap (make_record C wrapping_key vault_key_master) keys) (\<lambda>records.
          encrypt_body C vault_key_master plaintext
            \<lparr>sv_version = VERSION, sv_params = Argon2idParams_default, sv_argon2_salt = argon2_salt,
             sv_hkdf_salt = hkdf_salt, sv_nonce = replicate 12 0, sv_ciphertext = [],
             sv_yubikey_records = records, sv_alias = alias, sv_passphrase_blob = passphrase_blob\<rparr>))))))))"

definition unwrap_wrapping_key :: "crypto \<Rightarrow> bytes \<Rightarrow> SealedVault \<Rightarrow> string \<Rightarrow> bytes res" where
  "unwrap_wrapping_key C intermediate_key sealed msg =
     (case decrypt C intermediate_key (drop 12 (sv_passphrase_blob sealed)) (take 12 (sv_passphrase_blob sealed)) of
        Inl _ \<Rightarrow> Inl (Err msg)
      | Inr wk \<Rightarrow> if length wk = 32 then Inr wk else Inl (Err ''wrapping_key must be 32 bytes''))"

definition open_vault_with_key_record ::
  "crypto \<Rightarrow> bytes \<Rightarrow> bytes \<Rightarrow> bytes \<Rightarrow> SealedVault \<Rightarrow> (bytes \<times> bytes \<times> bytes option) res" where
  "open_vault_with_key_record C passphrase hmac_secret credential_id sealed =
     and_then (derive_key C passphrase (sv_argon2_salt sealed) (sv_params sealed)) (\<lambda>kdf_output.
     let intermediate_key = derive_vault_key_v11 C kdf_output (sv_hkdf_salt sealed) in
     case find (\<lambda>r. yr_credential_id r = credential_id) (sv_yubikey_records sealed) of
       None \<Rightarrow> Inl (Err ''no YubiKey record found for this credential'')
     | Some record \<Rightarrow>
         if yr_key_blob record = [] then Inl (Err ''unsupported legacy single-key vault (empty key_blob)'')
         else if length (sv_passphrase_blob sealed) \<noteq> 60
         then Inl (Err (''invalid passphrase_blob length: '' @ show_nat (length (sv_passphrase_blob sealed))
                @ '' (expected 60 for VERSION 4 multi-key vault)''))
         else and_then (unwrap_wrapping_key C intermediate_key sealed
                ''decryption failed: wrong passphrase or corrupted vault'') (\<lambda>wrapping_key.
           if length (yr_key_blob record) \<noteq> 60
           then Inl (Err (''invalid key_blob length: '' @ show_nat (length (yr_key_blob record)) @ '' (expected 60)''))
           else and_then (decrypt C (combine_yubikey C wrapping_key hmac_secret (yr_salt record))
                  (drop 12 (yr_key_blob record)) (take 12 (yr_key_blob record))) (\<lambda>master.
             if length master \<noteq> 32 then Inl (Err ''vault_key_master must be 32 bytes'')
             else and_then (decrypt_with_aad C master (sv_ciphertext sealed) (sv_nonce sealed) (header_aad sealed))
               (\<lambda>plaintext. Inr (plaintext, master, Some wrapping_key)))))"

definition add_key_to_sealed ::
  "crypto \<Rightarrow> SealedVault \<Rightarrow> bytes \<Rightarrow> bytes \<Rightarrow> bytes \<Rightarrow> bytes \<Rightarrow> bytes \<Rightarrow> SealedVault rnd" where
  "add_key_to_sealed C sealed new_cred_id new_hmac new_salt wrapping_key vault_key_master =
     (if 4 \<le> length (sv_yubikey_records sealed)
      then rlift (Inl (Err (''maximum 4 YubiKeys; vault already has '' @ show_nat (length (sv_yubikey_records sealed)))))
      else if \<exists>r \<in> set (sv_yubikey_records sealed). yr_credential_id r = new_cred_id
      then rlift (Inl (Err ''credential_id already registered in this vault''))
      else rbind (make_record C wrapping_key vault_key_master
             \<lparr>reg_credential_id = new_cred_id, reg_hmac_secret = new_hmac, reg_salt = new_salt\<rparr>) (\<lambda>record.
        rret (sealed\<lparr>sv_yubikey_records := sv_yubikey_records sealed @ [record]\<rparr>)))"

definition remove_key_from_sealed :: "SealedVault \<Rightarrow> bytes \<Rightarrow> SealedVault res" where
  "remove_key_from_sealed sealed cred_id =
     (case position (\<lambda>r. yr_credential_id r = cred_id) (sv_yubikey_records sealed) of
        None \<Rightarrow> Inl (Err ''credential_id not found in vault'')
      | Some pos \<Rightarrow>
          if length (sv_yubikey_records sealed) \<le> 1
          then Inl (Err ''cannot remove the last YubiKey from the vault'')
          else Inr (sealed\<lparr>sv_yubikey_records :=
            take pos (sv_yubikey_records sealed) @ drop (Suc pos) (sv_yubikey_records sealed)\<rparr>))"

definition reseal_vault_body :: "crypto \<Rightarrow> SealedVault \<Rightarrow> bytes \<Rightarrow> bytes \<Rightarrow> SealedVault rnd" where
  "reseal_vault_body C sealed vault_key_master plaintext =
     encrypt_body C vault_key_master plaintext (sealed\<lparr>sv_version := VERSION\<rparr>)"

definition change_vault_passphrase_with_keys ::
  "crypto \<Rightarrow> SealedVault \<Rightarrow> bytes \<Rightarrow> bytes \<Rightarrow> SealedVault rnd" where
  "change_vault_passphrase_with_keys C sealed old_passphrase new_passphrase =
     rbind (rlift (derive_key C old_passphrase (sv_argon2_salt sealed) (sv_params sealed))) (\<lambda>old_kdf.
     if length (sv_passphrase_blob sealed) \<noteq> 60
     then rlift (Inl (Err (''vault does not support single-key passphrase change ''
            @ em_dash @ '' not a VERSION 4 multi-key vault'')))
     else rbind (rlift (unwrap_wrapping_key C (derive_vault_key_v11 C old_kdf (sv_hkdf_salt sealed)) sealed
            ''wrong passphrase'')) (\<lambda>wrapping_key.
       rbind (fill_bytes 32) (\<lambda>new_argon2_salt.
       rbind (rlift (derive_key C new_passphrase new_argon2_salt Argon2idParams_default)) (\<lambda>new_kdf.
       rbind (fill_bytes 32) (\<lambda>new_hkdf_salt.
       rbind (encrypt_blob C (derive_vault_key_v11 C new_kdf new_hkdf_salt) wrapping_key) (\<lambda>new_blob.
         rret \<lparr>sv_version = VERSION, sv_params = Argon2idParams_default, sv_argon2_salt = new_argon2_salt,
               sv_hkdf_salt = new_hkdf_salt, sv_nonce = sv_nonce sealed, sv_ciphertext = sv_ciphertext sealed,
               sv_yubikey_records = sv_yubikey_records sealed, sv_alias = sv_alias sealed,
               sv_passphrase_blob = new_blob\<rparr>))))))"

section \<open>What is relied on\<close>

definition aead_correct :: "crypto \<Rightarrow> bool" where
  "aead_correct C = (\<forall>k n a m c. gcm_encrypt C k n a m = Inr c \<longrightarrow> gcm_decrypt C k n a c = Some m)"

definition aead_lengths :: "crypto \<Rightarrow> bool" where
  "aead_lengths C = (\<forall>k n a m c. gcm_encrypt C k n a m = Inr c \<longrightarrow> length c = length m + 16)"

definition aead_authentic :: "crypto \<Rightarrow> bool" where
  "aead_authentic C = (\<forall>k n a m c k' n' a' m'. gcm_encrypt C k n a m = Inr c
     \<longrightarrow> gcm_decrypt C k' n' a' c = Some m' \<longrightarrow> k' = k \<and> n' = n \<and> a' = a \<and> m' = m)"

text \<open>The two halves of opening with a key: the passphrase gives the wrapping key, and with it a record
  and the key's secret give the master key.\<close>

definition passphrase_gives :: "crypto \<Rightarrow> bytes \<Rightarrow> SealedVault \<Rightarrow> bytes \<Rightarrow> bool" where
  "passphrase_gives C pw s wk = (\<exists>kdf. derive_key C pw (sv_argon2_salt s) (sv_params s) = Inr kdf
     \<and> length (sv_passphrase_blob s) = 60 \<and> length wk = 32
     \<and> decrypt C (derive_vault_key_v11 C kdf (sv_hkdf_salt s))
          (drop 12 (sv_passphrase_blob s)) (take 12 (sv_passphrase_blob s)) = Inr wk)"

definition record_gives :: "crypto \<Rightarrow> bytes \<Rightarrow> bytes \<Rightarrow> YubiKeyRecord \<Rightarrow> bytes \<Rightarrow> bool" where
  "record_gives C wk hmac r master = (length (yr_key_blob r) = 60 \<and> length master = 32
     \<and> decrypt C (combine_yubikey C wk hmac (yr_salt r)) (drop 12 (yr_key_blob r)) (take 12 (yr_key_blob r))
         = Inr master)"

definition record_for :: "SealedVault \<Rightarrow> bytes \<Rightarrow> YubiKeyRecord option" where
  "record_for s cred = find (\<lambda>r. yr_credential_id r = cred) (sv_yubikey_records s)"

text \<open>A concrete instance of the primitives for the witnesses: the ciphertext is a self-delimiting
  encoding of key, nonce and associated data, then the message; and one with a 16-byte tag.\<close>

definition delimited :: "bytes \<Rightarrow> bytes" where
  "delimited x = replicate (length x) 1 @ 0 # x"

definition strip_bytes :: "bytes \<Rightarrow> bytes \<Rightarrow> bytes option" where
  "strip_bytes p c = (if take (length p) c = p then Some (drop (length p) c) else None)"

definition toy_crypto :: crypto where
  "toy_crypto = \<lparr>argon2_params = (\<lambda>_. None), argon2_hash = (\<lambda>p s _. Inr (p @ s)),
     hkdf_sha256 = (\<lambda>s k i. take 32 (k @ replicate 32 0)),
     gcm_encrypt = (\<lambda>k n a m. Inr (delimited k @ delimited n @ delimited a @ m)),
     gcm_decrypt = (\<lambda>k n a c. strip_bytes (delimited k @ delimited n @ delimited a) c)\<rparr>"

definition tag_crypto :: crypto where
  "tag_crypto = toy_crypto\<lparr>gcm_encrypt := (\<lambda>k n a m. Inr (m @ replicate 16 0)),
     gcm_decrypt := (\<lambda>k n a c. if 16 \<le> length c then Some (take (length c - 16) c) else None)\<rparr>"

section \<open>Running the random computations\<close>

lemma fill_bytes_length: "fill_bytes n r = (Inr bs, r') \<Longrightarrow> length bs = n"
  by (auto simp: fill_bytes_def)

section \<open>Encrypted parts\<close>

lemma header_aad_body [simp]: "header_aad (s\<lparr>sv_ciphertext := c, sv_nonce := n\<rparr>) = header_aad s"
  by (simp add: header_aad_def)

lemma encrypt_with_aad_Inr:
  assumes "encrypt_with_aad C key pt aad r = (Inr (ct, n), r')"
  shows "length n = 12 \<and> gcm_encrypt C key n aad pt = Inr ct"
proof -
  from assms obtain nonce r1 where f: "fill_bytes 12 r = (Inr nonce, r1)"
    and g: "(case gcm_encrypt C key nonce aad pt of
         Inl e \<Rightarrow> rlift (Inl (Err (''AES-256-GCM encryption failed: '' @ e)))
       | Inr ct \<Rightarrow> rret (ct, nonce)) r1 = (Inr (ct, n), r')"
    by (auto simp: encrypt_with_aad_def rnd_simps)
  from fill_bytes_length [OF f] g show ?thesis
    by (cases "gcm_encrypt C key nonce aad pt") (auto simp: rnd_simps)
qed

lemma encrypt_body_Inr:
  assumes "encrypt_body C key pt s r = (Inr s', r')"
  obtains ct n where "s' = s\<lparr>sv_ciphertext := ct, sv_nonce := n\<rparr>" and "length n = 12"
    and "gcm_encrypt C key n (header_aad s) pt = Inr ct"
  using assms by (auto simp: encrypt_body_def rnd_simps dest: encrypt_with_aad_Inr)

lemma encrypt_body_opens:
  assumes "encrypt_body C key pt s r = (Inr s', r')" and "aead_correct C"
  shows "decrypt_with_aad C key (sv_ciphertext s') (sv_nonce s') (header_aad s') = Inr pt"
  using assms by (auto elim!: encrypt_body_Inr simp: aead_correct_def decrypt_with_aad_def)

lemma encrypt_body_gcm:
  assumes "encrypt_body C key pt s r = (Inr s', r')"
  shows "gcm_encrypt C key (sv_nonce s') (header_aad s') pt = Inr (sv_ciphertext s')"
  using assms by (auto elim!: encrypt_body_Inr)

lemma encrypt_body_keeps:
  assumes "encrypt_body C key pt s r = (Inr s', r')"
  shows "sv_argon2_salt s' = sv_argon2_salt s" "sv_hkdf_salt s' = sv_hkdf_salt s" "sv_params s' = sv_params s"
    "sv_yubikey_records s' = sv_yubikey_records s" "sv_passphrase_blob s' = sv_passphrase_blob s"
    "sv_alias s' = sv_alias s" "sv_version s' = sv_version s" "length (sv_nonce s') = 12"
    "header_aad s' = header_aad s"
  using assms by (auto elim!: encrypt_body_Inr)

lemma encrypt_blob_Inr:
  assumes "encrypt_blob C key m r = (Inr b, r')" and "aead_correct C" and "aead_lengths C"
  shows "length b = length m + 28" and "decrypt C key (drop 12 b) (take 12 b) = Inr m"
proof -
  from assms(1) obtain n ct where b: "b = n @ ct" "length n = 12" and e: "gcm_encrypt C key n [] m = Inr ct"
    by (auto simp: encrypt_blob_def encrypt_def rnd_simps dest: encrypt_with_aad_Inr)
  then show "length b = length m + 28" "decrypt C key (drop 12 b) (take 12 b) = Inr m"
    using assms(2,3) by (auto simp: aead_correct_def aead_lengths_def decrypt_def)
qed

lemma make_record_Inr:
  assumes "make_record C wk master k r = (Inr x, r')" and "aead_correct C" and "aead_lengths C"
    and "length master = 32"
  shows "yr_credential_id x = reg_credential_id k" and "yr_salt x = reg_salt k"
    and "record_gives C wk (reg_hmac_secret k) x master"
proof -
  from assms(1) obtain b where e: "encrypt_blob C (combine_yubikey C wk (reg_hmac_secret k) (reg_salt k)) master r = (Inr b, r')"
    and x: "x = \<lparr>yr_credential_id = reg_credential_id k, yr_salt = reg_salt k, yr_key_blob = b\<rparr>"
    by (auto simp: make_record_def rnd_simps)
  from encrypt_blob_Inr [OF e assms(2,3)] assms(4) show "yr_credential_id x = reg_credential_id k"
    "yr_salt x = reg_salt k" "record_gives C wk (reg_hmac_secret k) x master"
    by (simp_all add: x record_gives_def)
qed

lemma open_with_key_iff:
  "open_vault_with_key_record C pw hmac cred s = Inr (pt, master, w) \<longleftrightarrow>
     (\<exists>wk x. w = Some wk \<and> passphrase_gives C pw s wk \<and> record_for s cred = Some x
        \<and> record_gives C wk hmac x master
        \<and> decrypt_with_aad C master (sv_ciphertext s) (sv_nonce s) (header_aad s) = Inr pt)"
  (is "?L \<longleftrightarrow> ?R")
proof
  assume ?L
  then show ?R
    by (auto simp: open_vault_with_key_record_def and_then_Inr Let_def passphrase_gives_def record_gives_def
        unwrap_wrapping_key_def record_for_def split: option.splits if_splits sum.splits)
next
  assume ?R
  then show ?L
    by (auto simp: open_vault_with_key_record_def and_then_Inr Let_def passphrase_gives_def record_gives_def
        unwrap_wrapping_key_def record_for_def)
qed

lemma seal_vault_opens:
  assumes "seal_vault_with_params C pw pt al params r = (Inr s, r')" and "aead_correct C"
  shows "open_vault C pw s = Inr pt"
proof -
  from assms(1) obtain kdf sa hs r1 where k: "derive_key C pw sa params = Inr kdf"
    and e: "encrypt_body C (derive_vault_key_v11 C kdf hs) pt
         \<lparr>sv_version = VERSION, sv_params = params, sv_argon2_salt = sa, sv_hkdf_salt = hs,
          sv_nonce = replicate 12 0, sv_ciphertext = [], sv_yubikey_records = [], sv_alias = al,
          sv_passphrase_blob = []\<rparr> r1 = (Inr s, r')"
    by (auto simp: seal_vault_with_params_def rnd_simps)
  show ?thesis
    using encrypt_body_opens [OF e assms(2)] encrypt_body_keeps [OF e] k by (simp add: open_vault_def)
qed

lemma seal_vault_wf:
  assumes "seal_vault_with_params C pw pt al params r = (Inr s, r')"
  shows "length (sv_argon2_salt s) = 32" "length (sv_hkdf_salt s) = 32" "length (sv_nonce s) = 12"
    "sv_version s = VERSION" "sv_yubikey_records s = []" "sv_passphrase_blob s = []" "sv_alias s = al"
  using assms
  by (auto simp: seal_vault_with_params_def rnd_simps elim!: encrypt_body_Inr dest: fill_bytes_length)

lemma seal_keys_structure:
  assumes "seal_vault_with_keys C pw keys pt al r = (Inr s, r')" and "aead_correct C" and "aead_lengths C"
  obtains wk master where "2 \<le> length keys" and "passphrase_gives C pw s wk" and "length master = 32"
    and "list_all2 (\<lambda>k x. yr_credential_id x = reg_credential_id k \<and> yr_salt x = reg_salt k
       \<and> record_gives C wk (reg_hmac_secret k) x master) keys (sv_yubikey_records s)"
    and "decrypt_with_aad C master (sv_ciphertext s) (sv_nonce s) (header_aad s) = Inr pt"
proof -
  have n: "2 \<le> length keys"
    using assms(1) by (auto simp: seal_vault_with_keys_def rnd_simps not_less split: if_splits)
  with assms(1) obtain sa r1 kdf hs r2 wk r3 pb r4 master r5 recs r6 where
    "fill_bytes 32 r = (Inr sa, r1)"
    and k: "derive_key C pw sa Argon2idParams_default = Inr kdf"
    and "fill_bytes 32 r1 = (Inr hs, r2)" and w: "fill_bytes 32 r2 = (Inr wk, r3)"
    and b: "encrypt_blob C (derive_vault_key_v11 C kdf hs) wk r3 = (Inr pb, r4)"
    and ms: "fill_bytes 32 r4 = (Inr master, r5)"
    and m: "rmap (make_record C wk master) keys r5 = (Inr recs, r6)"
    and e: "encrypt_body C master pt
            \<lparr>sv_version = VERSION, sv_params = Argon2idParams_default, sv_argon2_salt = sa,
             sv_hkdf_salt = hs, sv_nonce = replicate 12 0, sv_ciphertext = [],
             sv_yubikey_records = recs, sv_alias = al, sv_passphrase_blob = pb\<rparr> r6 = (Inr s, r')"
    unfolding seal_vault_with_keys_def by (simp add: rnd_simps not_less) blast
  have l: "length wk = 32" "length master = 32" using w ms by (auto dest: fill_bytes_length)
  note keep = encrypt_body_keeps [OF e] and blob = encrypt_blob_Inr [OF b assms(2,3)]
  have "passphrase_gives C pw s wk" using keep k l blob by (auto simp: passphrase_gives_def)
  moreover have "list_all2 (\<lambda>k x. yr_credential_id x = reg_credential_id k \<and> yr_salt x = reg_salt k
       \<and> record_gives C wk (reg_hmac_secret k) x master) keys (sv_yubikey_records s)"
    using rmap_Inr [OF m] make_record_Inr [OF _ assms(2,3) l(2)] keep(4)
    by (auto elim!: list_all2_mono)
  ultimately show ?thesis using that n l encrypt_body_opens [OF e assms(2)] by blast
qed

lemma seal_keys_fields:
  assumes "seal_vault_with_keys C pw keys pt al r = (Inr s, r')"
  shows "length (sv_argon2_salt s) = 32" "length (sv_hkdf_salt s) = 32" "length (sv_nonce s) = 12"
    "sv_version s = VERSION" "sv_alias s = al"
  using assms
  by (auto simp: seal_vault_with_keys_def rnd_simps elim!: encrypt_body_Inr dest: fill_bytes_length split: if_splits)

lemma record_for_distinct:
  assumes "list_all2 (\<lambda>k x. yr_credential_id x = reg_credential_id k \<and> P k x) keys (sv_yubikey_records s)"
    and "distinct (map reg_credential_id keys)" and "k \<in> set keys"
  shows "\<exists>x. record_for s (reg_credential_id k) = Some x \<and> P k x"
proof -
  let ?rs = "sv_yubikey_records s"
  obtain n where n: "n < length keys" "keys ! n = k" using assms(3) by (auto simp: in_set_conv_nth)
  have len: "length keys = length ?rs" using assms(1) by (rule list_all2_lengthD)
  have at: "yr_credential_id (?rs ! j) = reg_credential_id (keys ! j) \<and> P (keys ! j) (?rs ! j)" if "j < length keys" for j
    using assms(1) that by (simp add: list_all2_conv_all_nth)
  have "reg_credential_id (keys ! j) \<noteq> reg_credential_id k" if "j < n" for j
    using nth_eq_iff_index_eq [OF assms(2), of j n] that n by simp
  then have "record_for s (reg_credential_id k) = Some (?rs ! n)"
    unfolding record_for_def find_Some_iff using n at len by (intro exI [of _ n]) auto
  with at n show ?thesis by auto
qed

section \<open>Resealed vaults\<close>

text \<open>Resealing the body under the master key: whatever opened the keys before opens the new body.\<close>

lemma reseal_opens:
  assumes "reseal_vault_body C s master pt r = (Inr s', r')" and "aead_correct C"
    and "passphrase_gives C pw s wk" and "record_for s cred = Some x" and "record_gives C wk hmac x master"
  shows "open_vault_with_key_record C pw hmac cred s' = Inr (pt, master, Some wk)"
proof -
  note e = assms(1) [unfolded reseal_vault_body_def]
  from encrypt_body_keeps [OF e] assms(3) have "passphrase_gives C pw s' wk"
    by (simp add: passphrase_gives_def)
  moreover from encrypt_body_keeps(4) [OF e] assms(4) have "record_for s' cred = Some x"
    by (simp add: record_for_def)
  ultimately show ?thesis
    using encrypt_body_opens [OF e assms(2)] assms(5) by (auto simp: open_with_key_iff)
qed

lemma change_passphrase_Inr:
  assumes "change_vault_passphrase_with_keys C s old new r = (Inr s', r')"
    and "aead_correct C" and "aead_lengths C" and "passphrase_gives C old s wk"
  shows "passphrase_gives C new s' wk" and "sv_yubikey_records s' = sv_yubikey_records s"
    and "sv_alias s' = sv_alias s"
proof -
  from assms(4) obtain kdf where kdf: "derive_key C old (sv_argon2_salt s) (sv_params s) = Inr kdf"
    and l: "length (sv_passphrase_blob s) = 60" "length wk = 32"
    and d: "decrypt C (derive_vault_key_v11 C kdf (sv_hkdf_salt s))
          (drop 12 (sv_passphrase_blob s)) (take 12 (sv_passphrase_blob s)) = Inr wk"
    by (auto simp: passphrase_gives_def)
  then have u: "unwrap_wrapping_key C (derive_vault_key_v11 C kdf (sv_hkdf_salt s)) s msg = Inr wk" for msg
    by (simp add: unwrap_wrapping_key_def)
  from assms(1) obtain sa r1 kdf' hs r2 pb where
    k': "derive_key C new sa Argon2idParams_default = Inr kdf'"
    and b: "encrypt_blob C (derive_vault_key_v11 C kdf' hs) wk r2 = (Inr pb, r')"
    and s': "s' = \<lparr>sv_version = VERSION, sv_params = Argon2idParams_default, sv_argon2_salt = sa,
               sv_hkdf_salt = hs, sv_nonce = sv_nonce s, sv_ciphertext = sv_ciphertext s,
               sv_yubikey_records = sv_yubikey_records s, sv_alias = sv_alias s, sv_passphrase_blob = pb\<rparr>"
    unfolding change_vault_passphrase_with_keys_def by (auto simp: rnd_simps kdf l u)
  from encrypt_blob_Inr [OF b assms(2,3)] k' l(2) show "passphrase_gives C new s' wk"
    by (auto simp: passphrase_gives_def s')
  show "sv_yubikey_records s' = sv_yubikey_records s" "sv_alias s' = sv_alias s" by (simp_all add: s')
qed

lemma add_key_Inr:
  assumes "add_key_to_sealed C s cred hmac salt wk master r = (Inr s', r')"
    and "aead_correct C" and "aead_lengths C" and "length master = 32"
  shows "length (sv_yubikey_records s') = Suc (length (sv_yubikey_records s))"
    and "length (sv_yubikey_records s') \<le> 4"
    and "\<exists>x. record_for s' cred = Some x \<and> record_gives C wk hmac x master"
    and "record_for s c = Some y \<Longrightarrow> record_for s' c = Some y"
    and "passphrase_gives C pw s' w = passphrase_gives C pw s w"
proof -
  let ?k = "\<lparr>reg_credential_id = cred, reg_hmac_secret = hmac, reg_salt = salt\<rparr>"
  from assms(1) obtain x where n: "length (sv_yubikey_records s) < 4"
    and new: "\<forall>y \<in> set (sv_yubikey_records s). yr_credential_id y \<noteq> cred"
    and m: "make_record C wk master ?k r = (Inr x, r')"
    and s': "s' = s\<lparr>sv_yubikey_records := sv_yubikey_records s @ [x]\<rparr>"
    by (auto simp: add_key_to_sealed_def rnd_simps split: if_splits)
  note mr = make_record_Inr [OF m assms(2,3,4)]
  show "length (sv_yubikey_records s') = Suc (length (sv_yubikey_records s))"
    "length (sv_yubikey_records s') \<le> 4" using n by (simp_all add: s')
  have "find (\<lambda>y. yr_credential_id y = cred) (sv_yubikey_records s) = None"
    using new by (simp add: find_None_iff)
  with mr show "\<exists>x. record_for s' cred = Some x \<and> record_gives C wk hmac x master"
    by (simp add: record_for_def s' find_append)
  show "record_for s c = Some y \<Longrightarrow> record_for s' c = Some y"
    by (simp add: record_for_def s' find_append)
  show "passphrase_gives C pw s' w = passphrase_gives C pw s w" by (simp add: passphrase_gives_def s')
qed

lemma find_removed:
  assumes "position P xs = Some p" and "\<And>x. Q x \<Longrightarrow> \<not> P x"
  shows "find Q (take p xs @ drop (Suc p) xs) = find Q xs"
  using assms(1)
proof (induction xs arbitrary: p)
  case (Cons x xs)
  show ?case
  proof (cases "P x")
    case True
    with Cons.prems assms(2) show ?thesis by auto
  next
    case False
    with Cons.prems obtain q where "p = Suc q" "position P xs = Some q" by auto
    with Cons.IH show ?thesis by simp
  qed
qed simp

lemma remove_key_Inr:
  assumes "remove_key_from_sealed s cred = Inr s'"
  shows "1 \<le> length (sv_yubikey_records s')" and "length (sv_yubikey_records s) = Suc (length (sv_yubikey_records s'))"
    and "c \<noteq> cred \<Longrightarrow> record_for s' c = record_for s c"
    and "distinct (map yr_credential_id (sv_yubikey_records s)) \<Longrightarrow> record_for s' cred = None"
    and "passphrase_gives C pw s' w = passphrase_gives C pw s w"
proof -
  let ?rs = "sv_yubikey_records s"
  from assms obtain p where p: "position (\<lambda>r. yr_credential_id r = cred) ?rs = Some p" and n: "1 < length ?rs"
    and s': "s' = s\<lparr>sv_yubikey_records := take p ?rs @ drop (Suc p) ?rs\<rparr>"
    by (auto simp: remove_key_from_sealed_def split: option.splits if_splits)
  from p have lt: "p < length ?rs" and c: "yr_credential_id (?rs ! p) = cred" by (auto simp: position_Some)
  show "length ?rs = Suc (length (sv_yubikey_records s'))" "1 \<le> length (sv_yubikey_records s')"
    using lt n by (simp_all add: s')
  show "record_for s' c = record_for s c" if "c \<noteq> cred"
    unfolding record_for_def s' using find_removed [OF p] that by simp
  show "record_for s' cred = None" if d: "distinct (map yr_credential_id ?rs)"
  proof -
    have "?rs = take p ?rs @ ?rs ! p # drop (Suc p) ?rs" using lt by (rule id_take_nth_drop)
    with d have "distinct (map yr_credential_id (take p ?rs @ ?rs ! p # drop (Suc p) ?rs))" by simp
    then have "cred \<notin> yr_credential_id ` set (take p ?rs @ drop (Suc p) ?rs)" using c by auto
    then show ?thesis by (auto simp: record_for_def s' find_None_iff)
  qed
  show "passphrase_gives C pw s' w = passphrase_gives C pw s w" by (simp add: passphrase_gives_def s')
qed

section \<open>Concrete primitives\<close>

lemma delimited_inject: "delimited x @ r = delimited y @ t \<Longrightarrow> x = y \<and> r = t"
proof -
  assume a: "delimited x @ r = delimited y @ t"
  have pre: "takeWhile (\<lambda>b. b = 1) (delimited z @ q) = replicate (length z) (1 :: byte)" for z q
    by (simp add: delimited_def takeWhile_append)
  have "replicate (length x) (1 :: byte) = replicate (length y) 1" using pre a by metis
  then have "length x = length y" by (metis length_replicate)
  with a show ?thesis by (simp add: delimited_def)
qed

lemma strip_bytes_Some: "strip_bytes p c = Some m \<longleftrightarrow> c = p @ m"
  by (auto simp: strip_bytes_def) (metis append_take_drop_id)

lemma toy_crypto_ok: "aead_correct toy_crypto" "aead_authentic toy_crypto"
  by (auto simp: aead_correct_def aead_authentic_def toy_crypto_def strip_bytes_Some dest!: delimited_inject)

lemma tag_crypto_ok: "aead_correct tag_crypto" "aead_lengths tag_crypto"
  by (auto simp: aead_correct_def aead_lengths_def tag_crypto_def)

lemma toy_runs:
  "argon2_params toy_crypto p = None" "argon2_hash toy_crypto a c p = Inr (a @ c)"
  "argon2_params tag_crypto p = None" "argon2_hash tag_crypto a c p = Inr (a @ c)"
  "gcm_encrypt tag_crypto k n x m = Inr (m @ replicate 16 0)"
  "gcm_encrypt toy_crypto k n x m = Inr (delimited k @ delimited n @ delimited x @ m)"
  by (simp_all add: toy_crypto_def tag_crypto_def)

text \<open>With the concrete primitives every step of a random computation succeeds.\<close>

definition total_rnd :: "'a rnd \<Rightarrow> bool" where
  "total_rnd m = (\<forall>r. \<exists>x r'. m r = (Inr x, r'))"

lemma total_rnd_steps:
  "total_rnd (rret x)" "total_rnd (fill_bytes n)" "total_rnd m \<Longrightarrow> (\<And>x. total_rnd (f x)) \<Longrightarrow> total_rnd (rbind m f)"
  by (auto simp: total_rnd_def rret_def fill_bytes_def rbind_def split: prod.splits sum.splits) (metis old.sum.distinct(2) prod.inject)

lemma total_rlift: "x = Inr y \<Longrightarrow> total_rnd (rlift x)"
  by (auto simp: total_rnd_def rlift_def)

lemma total_rmap: "(\<And>x. total_rnd (f x)) \<Longrightarrow> total_rnd (rmap f xs)"
  by (induction xs) (auto intro!: total_rnd_steps)

lemma total_encrypt: "total_rnd (encrypt_with_aad toy_crypto k p a)" "total_rnd (encrypt_with_aad tag_crypto k p a)"
  unfolding encrypt_with_aad_def by (auto simp: toy_runs intro!: total_rnd_steps)

lemma total_body: "total_rnd (encrypt_body toy_crypto k p s)" "total_rnd (encrypt_body tag_crypto k p s)"
  unfolding encrypt_body_def case_prod_beta by (auto intro!: total_rnd_steps total_encrypt)

lemma total_blob: "total_rnd (encrypt_blob tag_crypto k p)"
  unfolding encrypt_blob_def encrypt_def case_prod_beta by (auto intro!: total_rnd_steps total_encrypt)

lemma total_record: "total_rnd (make_record tag_crypto w m k)"
  unfolding make_record_def by (auto intro!: total_rnd_steps total_blob)

lemma total_seal: "total_rnd (seal_vault toy_crypto pw pt al)" "total_rnd (seal_vault tag_crypto pw pt al)"
  unfolding seal_vault_def seal_vault_with_params_def
  by (auto simp: derive_key_def toy_runs intro!: total_rnd_steps total_rlift total_body)

lemma total_seal_keys:
  "2 \<le> length keys \<Longrightarrow> total_rnd (seal_vault_with_keys tag_crypto pw keys pt al)"
  unfolding seal_vault_with_keys_def
  by (auto simp: derive_key_def toy_runs intro!: total_rnd_steps total_rlift total_body total_blob total_rmap total_record)

lemma total_reseal: "total_rnd (reseal_vault_body tag_crypto s m pt)"
  unfolding reseal_vault_body_def by (rule total_body)

definition sample_keys :: "YubiKeyRegistration list" where
  "sample_keys = [\<lparr>reg_credential_id = [1], reg_hmac_secret = replicate 32 7, reg_salt = replicate 32 8\<rparr>,
     \<lparr>reg_credential_id = [2], reg_hmac_secret = replicate 32 9, reg_salt = replicate 32 10\<rparr>]"

section \<open>Properties of sealing\<close>

text \<open>What is sealed under a passphrase and written to a file is read back and opens to the same
  plaintext with that passphrase.\<close>

theorem sealed_file_opens:
  assumes "seal_vault C pw pt al r = (Inr s, r')" and "aead_correct C"
    and "alias_wf al" and "length (to_bytes s) < 2 ^ 64"
  shows "\<exists>t. from_bytes (to_bytes s) = Inr t \<and> open_vault C pw t = Inr pt"
proof -
  note seal = assms(1) [unfolded seal_vault_def]
  have "sealed_wf s"
    using seal_vault_wf [OF seal] assms(3,4)
    by (auto simp: sealed_wf_def header_wf_def VERSION_def VERSION_MIN_READABLE_def)
  from from_bytes_to_bytes [OF this, of "[]"] seal_vault_opens [OF seal assms(2)] show ?thesis by simp
qed

theorem sealed_file_opens_witness:
  "\<exists>s r t. seal_vault tag_crypto [1] [2] None (\<lambda>_. 0) = (Inr s, r)
     \<and> from_bytes (to_bytes s) = Inr t \<and> open_vault tag_crypto [1] t = Inr [2]"
proof -
  obtain s r where s: "seal_vault tag_crypto [1] [2] None (\<lambda>_. 0) = (Inr s, r)"
    using total_seal(2) by (metis total_rnd_def)
  have "length (sv_ciphertext s) = 17"
    using s unfolding seal_vault_def seal_vault_with_params_def
    by (auto simp: rnd_simps toy_runs elim!: encrypt_body_Inr)
  then have "length (to_bytes s) < 2 ^ 64"
    using seal_vault_wf [OF s [unfolded seal_vault_def]]
    by (simp add: to_bytes_def records_bytes_def u16_prefixed_def alias_bytes_def)
  from sealed_file_opens [OF s tag_crypto_ok(1) _ this] s show ?thesis by (auto simp: alias_wf_def)
qed

text \<open>Every security key registered at creation opens the vault with the passphrase, and all of them
  give the same wrapping and master keys.\<close>

theorem every_registered_key_opens:
  assumes "seal_vault_with_keys C pw keys pt al r = (Inr s, r')"
    and "aead_correct C" and "aead_lengths C" and "distinct (map reg_credential_id keys)"
  shows "\<exists>master wk. \<forall>k \<in> set keys.
    open_vault_with_key_record C pw (reg_hmac_secret k) (reg_credential_id k) s = Inr (pt, master, Some wk)"
proof -
  obtain wk master where w: "passphrase_gives C pw s wk"
    and l: "list_all2 (\<lambda>k x. yr_credential_id x = reg_credential_id k \<and> (yr_salt x = reg_salt k
       \<and> record_gives C wk (reg_hmac_secret k) x master)) keys (sv_yubikey_records s)"
    and b: "decrypt_with_aad C master (sv_ciphertext s) (sv_nonce s) (header_aad s) = Inr pt"
    by (rule seal_keys_structure [OF assms(1-3)])
  have "open_vault_with_key_record C pw (reg_hmac_secret k) (reg_credential_id k) s = Inr (pt, master, Some wk)"
    if "k \<in> set keys" for k
    using record_for_distinct [OF l assms(4) that] w b by (auto simp: open_with_key_iff)
  then show ?thesis by blast
qed

lemma total_rndE:
  assumes "total_rnd m"
  obtains x r' where "m r = (Inr x, r')"
  using assms unfolding total_rnd_def by blast

lemma sample_sealed:
  obtains s r where "seal_vault_with_keys tag_crypto [1] sample_keys [2] None (\<lambda>_. 0) = (Inr s, r)"
proof -
  have "2 \<le> length sample_keys" by (simp add: sample_keys_def)
  then have "total_rnd (seal_vault_with_keys tag_crypto [1] sample_keys [2] None)" by (rule total_seal_keys)
  then show ?thesis using that by (rule total_rndE)
qed

theorem every_registered_key_opens_witness:
  "\<exists>s r master wk. seal_vault_with_keys tag_crypto [1] sample_keys [2] None (\<lambda>_. 0) = (Inr s, r)
     \<and> open_vault_with_key_record tag_crypto [1] (replicate 32 9) [2] s = Inr ([2], master, Some wk)"
proof -
  obtain s r where s: "seal_vault_with_keys tag_crypto [1] sample_keys [2] None (\<lambda>_. 0) = (Inr s, r)"
    by (rule sample_sealed)
  have "distinct (map reg_credential_id sample_keys)" by (simp add: sample_keys_def)
  from every_registered_key_opens [OF s tag_crypto_ok this] s show ?thesis by (force simp: sample_keys_def)
qed

text \<open>C13. Changing the passphrase touches no registered key: after the change and the reseal that
  follows it, every key that opened the vault with the old passphrase opens it with the new one, and
  gives the same keys.\<close>

theorem passphrase_change_keeps_keys:
  assumes "open_vault_with_key_record C old hmac cred s = Inr (pt0, master, Some wk)"
    and "change_vault_passphrase_with_keys C s old new r = (Inr s1, r1)"
    and "reseal_vault_body C s1 master pt r1 = (Inr s2, r2)"
    and "aead_correct C" and "aead_lengths C"
  shows "open_vault_with_key_record C new hmac cred s2 = Inr (pt, master, Some wk)"
proof -
  from assms(1) obtain x where w: "passphrase_gives C old s wk" and x: "record_for s cred = Some x"
    and g: "record_gives C wk hmac x master" by (auto simp: open_with_key_iff)
  note ch = change_passphrase_Inr [OF assms(2,4,5) w]
  have "record_for s1 cred = Some x" using x ch(2) by (simp add: record_for_def)
  from reseal_opens [OF assms(3,4) ch(1) this g] show ?thesis .
qed

text \<open>The first key opens the vault sealed with the sample keys.\<close>

lemma sample_opens:
  assumes "seal_vault_with_keys tag_crypto [1] sample_keys [2] None (\<lambda>_. 0) = (Inr s, r)"
  obtains master wk where
    "open_vault_with_key_record tag_crypto [1] (replicate 32 7) [1] s = Inr ([2], master, Some wk)"
    "open_vault_with_key_record tag_crypto [1] (replicate 32 9) [2] s = Inr ([2], master, Some wk)"
    "length (sv_yubikey_records s) = 2" "map yr_credential_id (sv_yubikey_records s) = [[1], [2]]"
    "length master = 32" "passphrase_gives tag_crypto [1] s wk"
proof -
  obtain wk master where w: "passphrase_gives tag_crypto [1] s wk" and m: "length master = 32"
    and l: "list_all2 (\<lambda>k x. yr_credential_id x = reg_credential_id k \<and> (yr_salt x = reg_salt k
       \<and> record_gives tag_crypto wk (reg_hmac_secret k) x master)) sample_keys (sv_yubikey_records s)"
    and b: "decrypt_with_aad tag_crypto master (sv_ciphertext s) (sv_nonce s) (header_aad s) = Inr [2]"
    by (rule seal_keys_structure [OF assms tag_crypto_ok])
  have d: "distinct (map reg_credential_id sample_keys)" by (simp add: sample_keys_def)
  have o: "open_vault_with_key_record tag_crypto [1] (reg_hmac_secret k) (reg_credential_id k) s
      = Inr ([2], master, Some wk)" if "k \<in> set sample_keys" for k
    using record_for_distinct [OF l d that] w b by (auto simp: open_with_key_iff)
  obtain x y where "sv_yubikey_records s = [x, y]" "yr_credential_id x = [1]" "yr_credential_id y = [2]"
    using l by (auto simp: sample_keys_def list_all2_Cons1)
  with o [of "sample_keys ! 0"] o [of "sample_keys ! 1"] m w show ?thesis
    by (intro that) (simp_all add: sample_keys_def)
qed

lemma total_change:
  assumes "passphrase_gives tag_crypto old s wk"
  shows "total_rnd (change_vault_passphrase_with_keys tag_crypto s old new)"
proof -
  from assms obtain kdf where kdf: "derive_key tag_crypto old (sv_argon2_salt s) (sv_params s) = Inr kdf"
    and l: "length (sv_passphrase_blob s) = 60" "length wk = 32"
    and d: "decrypt tag_crypto (derive_vault_key_v11 tag_crypto kdf (sv_hkdf_salt s))
          (drop 12 (sv_passphrase_blob s)) (take 12 (sv_passphrase_blob s)) = Inr wk"
    by (auto simp: passphrase_gives_def)
  have n: "derive_key tag_crypto new sa p = Inr (new @ sa)" for sa p by (simp add: derive_key_def toy_runs)
  show ?thesis
    unfolding change_vault_passphrase_with_keys_def kdf rbind_rlift_Inr
    by (simp add: l d unwrap_wrapping_key_def rbind_rlift_Inr n)
      (intro total_rnd_steps total_blob)
qed

theorem passphrase_change_keeps_keys_witness:
  "\<exists>s2 master wk. open_vault_with_key_record tag_crypto [5] (replicate 32 7) [1] s2 = Inr ([6], master, Some wk)"
proof -
  obtain s r where s: "seal_vault_with_keys tag_crypto [1] sample_keys [2] None (\<lambda>_. 0) = (Inr s, r)"
    by (rule sample_sealed)
  obtain master wk where o: "open_vault_with_key_record tag_crypto [1] (replicate 32 7) [1] s = Inr ([2], master, Some wk)"
    and w: "passphrase_gives tag_crypto [1] s wk" using sample_opens [OF s] by blast
  obtain s1 r1 where c: "change_vault_passphrase_with_keys tag_crypto s [1] [5] r = (Inr s1, r1)"
    using total_change [OF w] by (rule total_rndE)
  obtain s2 r2 where e: "reseal_vault_body tag_crypto s1 master [6] r1 = (Inr s2, r2)"
    using total_reseal by (rule total_rndE)
  from passphrase_change_keeps_keys [OF o c e tag_crypto_ok] show ?thesis by blast
qed

text \<open>Adding a key: afterwards, and after the reseal that follows, the new key opens the vault, every key
  that opened it before still does, all give the same keys, and there are at most four.\<close>

theorem added_key_opens:
  assumes "open_vault_with_key_record C pw hmac0 cred0 s = Inr (pt0, master, Some wk)"
    and "add_key_to_sealed C s cred hmac salt wk master r = (Inr s1, r1)"
    and "reseal_vault_body C s1 master pt r1 = (Inr s2, r2)"
    and "aead_correct C" and "aead_lengths C"
  shows "open_vault_with_key_record C pw hmac cred s2 = Inr (pt, master, Some wk)
    \<and> open_vault_with_key_record C pw hmac0 cred0 s2 = Inr (pt, master, Some wk)
    \<and> length (sv_yubikey_records s2) = Suc (length (sv_yubikey_records s))
    \<and> length (sv_yubikey_records s2) \<le> 4"
proof -
  from assms(1) obtain x where w: "passphrase_gives C pw s wk" and x: "record_for s cred0 = Some x"
    and g: "record_gives C wk hmac0 x master" by (auto simp: open_with_key_iff)
  from g have m: "length master = 32" by (simp add: record_gives_def)
  note ad = add_key_Inr [OF assms(2,4,5) m]
  from ad(3) obtain y where y: "record_for s1 cred = Some y" "record_gives C wk hmac y master" by blast
  have w1: "passphrase_gives C pw s1 wk" using w by (simp add: ad(5))
  have keep: "sv_yubikey_records s2 = sv_yubikey_records s1"
    using encrypt_body_keeps(4) [OF assms(3) [unfolded reseal_vault_body_def]] by simp
  show ?thesis
    using reseal_opens [OF assms(3,4) w1 y] reseal_opens [OF assms(3,4) w1 ad(4) [OF x] g] ad(1,2)
    by (simp add: keep)
qed

theorem added_key_opens_witness:
  "\<exists>s s1 s2 r r1 r2 master wk. open_vault_with_key_record tag_crypto [1] (replicate 32 7) [1] s = Inr ([2], master, Some wk)
     \<and> add_key_to_sealed tag_crypto s [3] (replicate 32 5) (replicate 32 6) wk master r = (Inr s1, r1)
     \<and> reseal_vault_body tag_crypto s1 master [4] r1 = (Inr s2, r2)
     \<and> open_vault_with_key_record tag_crypto [1] (replicate 32 5) [3] s2 = Inr ([4], master, Some wk)"
proof -
  obtain s r where s: "seal_vault_with_keys tag_crypto [1] sample_keys [2] None (\<lambda>_. 0) = (Inr s, r)"
    by (rule sample_sealed)
  obtain master wk where o: "open_vault_with_key_record tag_crypto [1] (replicate 32 7) [1] s = Inr ([2], master, Some wk)"
    and n: "length (sv_yubikey_records s) = 2" and c: "map yr_credential_id (sv_yubikey_records s) = [[1], [2]]"
    using s by (rule sample_opens)
  have "yr_credential_id ` set (sv_yubikey_records s) = {[1], [2]}"
    using arg_cong [OF c, of set] by simp
  then have "[3] \<notin> yr_credential_id ` set (sv_yubikey_records s)" by simp
  then have "\<not> (\<exists>r \<in> set (sv_yubikey_records s). yr_credential_id r = [3])" by (metis imageI)
  with n have "total_rnd (add_key_to_sealed tag_crypto s [3] (replicate 32 5) (replicate 32 6) wk master)"
    unfolding add_key_to_sealed_def by (auto intro!: total_rnd_steps total_record)
  then obtain s1 r1 where a: "add_key_to_sealed tag_crypto s [3] (replicate 32 5) (replicate 32 6) wk master r = (Inr s1, r1)"
    by (rule total_rndE)
  obtain s2 r2 where e: "reseal_vault_body tag_crypto s1 master [4] r1 = (Inr s2, r2)"
    using total_reseal by (rule total_rndE)
  from added_key_opens [OF o a e tag_crypto_ok]
  have "open_vault_with_key_record tag_crypto [1] (replicate 32 5) [3] s2 = Inr ([4], master, Some wk)" by (rule conjunct1)
  with o a e show ?thesis by metis
qed

text \<open>C36. Removing a key from a vault whose credential ids are distinct: the removed credential is refused, whatever secret is presented; every other key that
  opened the vault opens it after the reseal; at least one key is left.\<close>

theorem removed_key_is_refused:
  assumes "remove_key_from_sealed s cred = Inr s1"
    and "distinct (map yr_credential_id (sv_yubikey_records s))"
    and "open_vault_with_key_record C pw hmac other s = Inr (pt0, master, Some wk)" and "other \<noteq> cred"
    and "reseal_vault_body C s1 master pt r = (Inr s2, r2)" and "aead_correct C"
  shows "open_vault_with_key_record C pw hmac other s2 = Inr (pt, master, Some wk)
    \<and> (\<forall>h. open_vault_with_key_record C pw h cred s2 = Inl (Err ''no YubiKey record found for this credential''))
    \<and> 1 \<le> length (sv_yubikey_records s2)"
proof -
  note rm = remove_key_Inr [OF assms(1)]
  note keep = encrypt_body_keeps [OF assms(5) [unfolded reseal_vault_body_def]]
  from assms(3) obtain x where w: "passphrase_gives C pw s wk" and x: "record_for s other = Some x"
    and g: "record_gives C wk hmac x master" by (auto simp: open_with_key_iff)
  have w1: "passphrase_gives C pw s1 wk" using w by (simp add: rm(5))
  have x1: "record_for s1 other = Some x" using x by (simp add: rm(3) assms(4))
  have "record_for s2 cred = None" using rm(4) [OF assms(2)] keep(4) by (simp add: record_for_def)
  moreover obtain kdf where "derive_key C pw (sv_argon2_salt s2) (sv_params s2) = Inr kdf"
    using w1 keep(1-3) by (auto simp: passphrase_gives_def)
  ultimately have "open_vault_with_key_record C pw h cred s2
      = Inl (Err ''no YubiKey record found for this credential'')" for h
    by (simp add: open_vault_with_key_record_def record_for_def)
  with reseal_opens [OF assms(5,6) w1 x1 g] rm(1) keep(4) show ?thesis by simp
qed

theorem removed_key_is_refused_witness:
  "\<exists>s2 master wk. open_vault_with_key_record tag_crypto [1] (replicate 32 9) [2] s2 = Inr ([4], master, Some wk)
     \<and> open_vault_with_key_record tag_crypto [1] (replicate 32 7) [1] s2
         = Inl (Err ''no YubiKey record found for this credential'')"
proof -
  obtain s r where s: "seal_vault_with_keys tag_crypto [1] sample_keys [2] None (\<lambda>_. 0) = (Inr s, r)"
    by (rule sample_sealed)
  obtain master wk where o: "open_vault_with_key_record tag_crypto [1] (replicate 32 9) [2] s = Inr ([2], master, Some wk)"
    and n: "length (sv_yubikey_records s) = 2" and c: "map yr_credential_id (sv_yubikey_records s) = [[1], [2]]"
    by (rule sample_opens [OF s])
  from c have d: "distinct (map yr_credential_id (sv_yubikey_records s))" by simp
  from c obtain x y where "sv_yubikey_records s = [x, y]" "yr_credential_id x = [1]" by auto
  then obtain s1 where a: "remove_key_from_sealed s [1] = Inr s1" by (auto simp: remove_key_from_sealed_def)
  obtain s2 r2 where e: "reseal_vault_body tag_crypto s1 master [4] r = (Inr s2, r2)"
    using total_reseal by (rule total_rndE)
  from removed_key_is_refused [OF a d o _ e tag_crypto_ok(1)] show ?thesis by auto
qed

text \<open>C11. A sealed file whose header was changed in any field, or whose nonce was, does not open: if a file with the same
  ciphertext opens at all, under any passphrase, its header is the sealed one and the plaintext too.\<close>

theorem changed_header_is_refused:
  assumes "seal_vault C pw pt al r = (Inr s, r')" and "aead_authentic C" and "alias_wf al"
    and "header_wf t" and "sv_ciphertext t = sv_ciphertext s" and "open_vault C pw' t = Inr pt'"
  shows "t = s \<and> pt' = pt"
proof -
  note seal = assms(1) [unfolded seal_vault_def]
  from seal obtain key where e: "gcm_encrypt C key (sv_nonce s) (header_aad s) pt = Inr (sv_ciphertext s)"
    unfolding seal_vault_with_params_def by (auto simp: rnd_simps dest!: encrypt_body_gcm)
  from assms(6) obtain k' where "gcm_decrypt C k' (sv_nonce t) (header_aad t) (sv_ciphertext t) = Some pt'"
    by (auto simp: open_vault_def and_then_Inr decrypt_with_aad_def split: option.splits)
  with e assms(2,5) have eq: "sv_nonce t = sv_nonce s" "header_aad t = header_aad s" "pt' = pt"
    unfolding aead_authentic_def by metis+
  have "header_wf s" using seal_vault_wf [OF seal] assms(3) by (simp add: header_wf_def)
  from header_aad_inject [OF assms(4) this eq(2)] eq(1,3) assms(5) show ?thesis by simp
qed

theorem changed_header_is_refused_witness:
  "\<exists>s r. seal_vault toy_crypto [1] [2] None (\<lambda>_. 0) = (Inr s, r) \<and> open_vault toy_crypto [1] s = Inr [2]
     \<and> \<not> is_ok (open_vault toy_crypto [1] (s\<lparr>sv_alias := Some ''a''\<rparr>))"
proof -
  obtain s r where s: "seal_vault toy_crypto [1] [2] None (\<lambda>_. 0) = (Inr s, r)"
    using total_seal(1) by (rule total_rndE)
  note wf = seal_vault_wf [OF s [unfolded seal_vault_def]]
  have h: "header_wf (s\<lparr>sv_alias := Some ''a''\<rparr>)"
    using wf by (simp add: header_wf_def alias_wf_def alias_bytes_def str_bytes_def utf8_valid.simps utf8_width_def)
  have "s\<lparr>sv_alias := Some ''a''\<rparr> \<noteq> s"
  proof
    assume "s\<lparr>sv_alias := Some ''a''\<rparr> = s"
    from arg_cong [OF this, of sv_alias] wf(7) show False by simp
  qed
  with changed_header_is_refused [OF s toy_crypto_ok(2) _ h] have "\<not> is_ok (open_vault toy_crypto [1] (s\<lparr>sv_alias := Some ''a''\<rparr>))"
    by (auto simp: is_ok_iff alias_wf_def)
  with s seal_vault_opens [OF s [unfolded seal_vault_def] toy_crypto_ok(1)] show ?thesis by blast
qed

end
