(* ===== verification/Vault_IO.thy ===== *)
theory Vault_IO
  imports File_Format Effects
begin

text \<open>
  Vault files on disk: \<open>rust/src/vault/io.rs\<close> (the Unix variant of the atomic write).

  The disk is a map from paths to files, links and directories, a list of faults, one per
  system call to come, and the trace of every file system passed through. A faulty call reports its error after
  having taken effect in part or not at all. A regular file records whether its content was synced. Other
  processes are taken not to touch the vault's directory meanwhile, and links are resolved in one flat
  name space.

  Code is specified by crash triples (\<open>crash_triple\<close>): an invariant of every file system on the way, and a
  postcondition on success. The locale \<open>atomic_store\<close> states what a replacing write promises and derives the rule
  for copying one file over another, which rotation, refresh and preservation share; it is interpreted on
  \<open>atomic_write_0600\<close>.

  Shown: a save is all-or-nothing under any faults and a power loss, success means the new vault and its
  safety copy are installed, a restore keeps an undo copy first, adoption does not overwrite.
\<close>

section \<open>The disk\<close>

type_synonym path = string

datatype node = Regular (content: bytes) (mode: nat) (synced: bool) | Symlink path | Directory

type_synonym fs = "path \<Rightarrow> node option"

datatype io_error = NotFound | IoError string

fun show_io :: "io_error \<Rightarrow> string" where
  "show_io NotFound = ''No such file or directory (os error 2)''"
| "show_io (IoError m) = m"

definition eloop :: io_error where
  "eloop = IoError ''Too many levels of symbolic links (os error 40)''"

definition eisdir :: io_error where
  "eisdir = IoError ''Is a directory (os error 21)''"

datatype fault = NoFault | Fault io_error nat

record disk =
  d_fs :: fs
  d_faults :: "fault list"
  d_trace :: "fs list"

type_synonym 'a io = "(disk, 'a) run"

definition next_fault :: "fault list \<Rightarrow> fault" where
  "next_fault fl = (case fl of [] \<Rightarrow> NoFault | f # _ \<Rightarrow> f)"

text \<open>A system call is given by its result and the file systems it passes through. When a fault is due,
  it reports the fault after passing through some of them only.\<close>

definition syscall :: "(fs \<Rightarrow> (io_error + 'a) \<times> fs list) \<Rightarrow> disk \<Rightarrow> (io_error + 'a) \<times> disk" where
  "syscall f d =
     (case f (d_fs d) of (x, states) \<Rightarrow>
        (case next_fault (d_faults d) of
           NoFault \<Rightarrow> (x, d\<lparr>d_fs := last (d_fs d # states), d_faults := tl (d_faults d),
                        d_trace := d_trace d @ states\<rparr>)
         | Fault e n \<Rightarrow> (Inl e, d\<lparr>d_fs := last (d_fs d # take n states), d_faults := tl (d_faults d),
                        d_trace := d_trace d @ take n states\<rparr>)))"

text \<open>Turning the error of the operating system into a message, as \<open>map_err(|e| format!(...))\<close> does.\<close>

definition sys_err :: "string \<Rightarrow> (disk \<Rightarrow> (io_error + 'a) \<times> disk) \<Rightarrow> 'a io" where
  "sys_err msg c d = (case c d of (Inl e, d') \<Rightarrow> (Inl (Err (msg @ show_io e)), d') | (Inr x, d') \<Rightarrow> (Inr x, d'))"

definition symlink_metadata :: "path \<Rightarrow> disk \<Rightarrow> (io_error + node) \<times> disk" where
  "symlink_metadata p = syscall (\<lambda>fs. (case fs p of None \<Rightarrow> Inl NotFound | Some nd \<Rightarrow> Inr nd, []))"

fun resolve :: "nat \<Rightarrow> fs \<Rightarrow> path \<Rightarrow> io_error + node" where
  "resolve 0 fs p = Inl eloop"
| "resolve (Suc n) fs p =
     (case fs p of None \<Rightarrow> Inl NotFound | Some (Symlink q) \<Rightarrow> resolve n fs q | Some nd \<Rightarrow> Inr nd)"

definition fs_read :: "path \<Rightarrow> disk \<Rightarrow> (io_error + bytes) \<times> disk" where
  "fs_read p = syscall (\<lambda>fs.
     (case resolve 41 fs p of Inl e \<Rightarrow> Inl e | Inr (Regular b _ _) \<Rightarrow> Inr b | Inr _ \<Rightarrow> Inl eisdir, []))"

text \<open>\<open>open\<close> with write, create, truncate, mode 0600 and \<open>O_NOFOLLOW\<close>: an existing file keeps its
  mode.\<close>

definition open_nofollow :: "path \<Rightarrow> disk \<Rightarrow> (io_error + unit) \<times> disk" where
  "open_nofollow p = syscall (\<lambda>fs.
     (case fs p of
        None \<Rightarrow> (Inr (), [fs(p \<mapsto> Regular [] 0x180 False)])
      | Some (Regular b m s) \<Rightarrow> (Inr (), [fs(p \<mapsto> Regular [] m False)])
      | Some (Symlink q) \<Rightarrow> (Inl eloop, [])
      | Some Directory \<Rightarrow> (Inl eisdir, [])))"

definition set_content :: "path \<Rightarrow> bytes \<Rightarrow> bool \<Rightarrow> fs \<Rightarrow> fs" where
  "set_content p b s fs = (case fs p of Some (Regular _ m _) \<Rightarrow> fs(p \<mapsto> Regular b m s) | _ \<Rightarrow> fs)"

text \<open>Writing goes through every prefix of the data.\<close>

definition write_all :: "path \<Rightarrow> bytes \<Rightarrow> disk \<Rightarrow> (io_error + unit) \<times> disk" where
  "write_all p b = syscall (\<lambda>fs. (Inr (), map (\<lambda>k. set_content p (take k b) False fs) [0..<Suc (length b)]))"

definition sync_all :: "path \<Rightarrow> disk \<Rightarrow> (io_error + unit) \<times> disk" where
  "sync_all p = syscall (\<lambda>fs.
     (Inr (), [case fs p of Some (Regular b m _) \<Rightarrow> fs(p \<mapsto> Regular b m True) | _ \<Rightarrow> fs]))"

definition rename :: "path \<Rightarrow> path \<Rightarrow> disk \<Rightarrow> (io_error + unit) \<times> disk" where
  "rename from to = syscall (\<lambda>fs.
     (case (fs from, fs to) of
        (None, _) \<Rightarrow> (Inl NotFound, [])
      | (Some nd, Some Directory) \<Rightarrow> (Inl eisdir, [])
      | (Some nd, _) \<Rightarrow> (Inr (), [fs(from := None, to := Some nd)])))"

definition remove_file :: "path \<Rightarrow> disk \<Rightarrow> (io_error + unit) \<times> disk" where
  "remove_file p = syscall (\<lambda>fs.
     (case fs p of
        None \<Rightarrow> (Inl NotFound, [])
      | Some Directory \<Rightarrow> (Inl eisdir, [])
      | Some _ \<Rightarrow> (Inr (), [fs(p := None)])))"

section \<open>Writing and restoring vaults\<close>

definition run_sys :: "(disk \<Rightarrow> (io_error + 'a) \<times> disk) \<Rightarrow> (disk, io_error + 'a) run" where
  "run_sys c d = (case c d of (x, d') \<Rightarrow> (Inr x, d'))"

definition refuse_if_path_taken :: "path \<Rightarrow> unit io" where
  "refuse_if_path_taken p =
     rbind (run_sys (symlink_metadata p)) (\<lambda>m.
       case m of
         Inr _ \<Rightarrow> rlift (Inl (Err (''A file already exists at '' @ p @ '' '' @ em_dash
           @ '' creating a vault there would replace it. Choose a different name, or open the existing vault instead.'')))
       | Inl _ \<Rightarrow> rret ())"

definition check_not_symlink :: "path \<Rightarrow> unit io" where
  "check_not_symlink p =
     rbind (run_sys (symlink_metadata p)) (\<lambda>m.
       case m of
         Inr (Symlink _) \<Rightarrow> rlift (Inl (Err (''Vault path is a symlink '' @ em_dash
           @ '' refusing for security: '' @ p)))
       | _ \<Rightarrow> rret ())"

definition tmp_path :: "path \<Rightarrow> path" where
  "tmp_path p = p @ ''.tmp''"

definition atomic_write_0600 :: "path \<Rightarrow> bytes \<Rightarrow> unit io" where
  "atomic_write_0600 p data =
     rthen (sys_err ''Failed to create temp file: '' (open_nofollow (tmp_path p)))
    (rthen (sys_err ''Failed to write data: '' (write_all (tmp_path p) data))
    (rthen (sys_err ''Failed to sync file: '' (sync_all (tmp_path p)))
           (sys_err ''Failed to rename temp file: '' (rename (tmp_path p) p))))"

definition bak_path :: "path \<Rightarrow> path" where
  "bak_path p = p @ ''.bak''"

definition rotate_backup :: "path \<Rightarrow> unit io" where
  "rotate_backup p =
     rbind (run_sys (symlink_metadata p)) (\<lambda>m.
       case m of
         Inl _ \<Rightarrow> rret ()
       | Inr _ \<Rightarrow>
           rthen (map_err ''Vault backup rotation failed: '' (check_not_symlink (bak_path p)))
          (rbind (sys_err (''Vault backup rotation failed '' @ em_dash @ '' could not read the vault: '') (fs_read p))
            (\<lambda>previous. map_err ''Vault backup rotation failed: '' (atomic_write_0600 (bak_path p) previous))))"

definition sync_backup_to_current :: "path \<Rightarrow> unit io" where
  "sync_backup_to_current p =
     rthen (map_err ''Vault backup refresh failed: '' (check_not_symlink (bak_path p)))
    (rbind (sys_err (''Vault backup refresh failed '' @ em_dash @ '' could not read the vault: '') (fs_read p))
      (\<lambda>current. map_err ''Vault backup refresh failed: '' (atomic_write_0600 (bak_path p) current)))"

definition remove_sibling :: "string \<Rightarrow> path \<Rightarrow> unit io" where
  "remove_sibling msg p =
     rbind (run_sys (remove_file p)) (\<lambda>m.
       case m of
         Inr _ \<Rightarrow> rret ()
       | Inl NotFound \<Rightarrow> rret ()
       | Inl e \<Rightarrow> rlift (Inl (Err (msg @ show_io e))))"

definition remove_backup :: "path \<Rightarrow> unit io" where
  "remove_backup p = remove_sibling ''Failed to delete the vault backup: '' (bak_path p)"

definition pre_restore_path :: "path \<Rightarrow> path" where
  "pre_restore_path p = p @ ''.pre-restore''"

definition remove_pre_restore :: "path \<Rightarrow> unit io" where
  "remove_pre_restore p = remove_sibling ''Failed to delete the pre-restore copy: '' (pre_restore_path p)"

definition refresh_backup_after_credential_change :: "path \<Rightarrow> unit io" where
  "refresh_backup_after_credential_change p =
     rbind (rtry (sync_backup_to_current p)) (\<lambda>r.
       case r of
         Inr _ \<Rightarrow> rret ()
       | Inl e \<Rightarrow> rthen (rtry (remove_backup p))
           (rlift (Inl (prefix_err
             ''The change succeeded, but the vault safety copy could not be refreshed and was removed instead: '' e))))"

definition verify_and_sync_backup :: "path \<Rightarrow> unit io" where
  "verify_and_sync_backup p =
     rbind (sys_err (''Vault save verification failed '' @ em_dash @ '' could not re-read the vault: '') (fs_read p))
      (\<lambda>written. rthen (rlift (res_map_err
          ''The vault was written but did not read back as a valid vault; the safety copy was kept at the last good save: ''
          (from_bytes written)))
        (sync_backup_to_current p))"

definition write_vault :: "SealedVault \<Rightarrow> path \<Rightarrow> unit io" where
  "write_vault sealed p =
     rthen (check_not_symlink p)
    (rthen (rotate_backup p)
    (rthen (atomic_write_0600 p (to_bytes sealed))
           (verify_and_sync_backup p)))"

definition backup_exists :: "path \<Rightarrow> bool io" where
  "backup_exists p =
     rbind (run_sys (symlink_metadata (bak_path p))) (\<lambda>m.
       rret (case m of Inr (Regular _ _ _) \<Rightarrow> True | _ \<Rightarrow> False))"

definition backup_usable :: "path \<Rightarrow> bool io" where
  "backup_usable p =
     rbind (rtry (check_not_symlink (bak_path p))) (\<lambda>c.
       if \<not> is_ok c then rret False
       else rbind (run_sys (fs_read (bak_path p))) (\<lambda>m.
         rret (case m of Inr b \<Rightarrow> is_ok (from_bytes b) | Inl _ \<Rightarrow> False)))"

definition restore_vault_backup :: "path \<Rightarrow> unit io" where
  "restore_vault_backup p =
     rthen (check_not_symlink p)
    (rthen (check_not_symlink (bak_path p))
    (rbind (sys_err ''No vault backup to restore: '' (fs_read (bak_path p))) (\<lambda>b.
       rthen (rlift (res_map_err (''The vault backup is not usable '' @ em_dash @ '' restore refused: '') (from_bytes b)))
             (atomic_write_0600 p b))))"

definition preserve_pre_restore :: "path \<Rightarrow> unit io" where
  "preserve_pre_restore p =
     rthen (map_err ''Pre-restore preservation failed: '' (check_not_symlink (pre_restore_path p)))
    (rbind (backup_usable p) (\<lambda>usable.
       if usable
       then rbind (sys_err ''Pre-restore preservation failed: '' (fs_read (bak_path p)))
              (\<lambda>b. map_err ''Pre-restore preservation failed: '' (atomic_write_0600 (pre_restore_path p) b))
       else rbind (run_sys (symlink_metadata p)) (\<lambda>m.
         case m of
           Inl _ \<Rightarrow> rret ()
         | Inr _ \<Rightarrow> rbind (sys_err ''Pre-restore preservation failed: '' (fs_read p))
              (\<lambda>b. map_err ''Pre-restore preservation failed: '' (atomic_write_0600 (pre_restore_path p) b)))))"

definition restore_vault_from_file :: "path \<Rightarrow> path \<Rightarrow> unit io" where
  "restore_vault_from_file p source =
     rthen (check_not_symlink p)
    (rthen (check_not_symlink source)
    (rbind (sys_err ''Could not read the backup file: '' (fs_read source)) (\<lambda>b.
       rthen (rlift (res_map_err (''That file is not a usable Gabbro vault '' @ em_dash @ '' restore refused: '') (from_bytes b)))
      (rthen (preserve_pre_restore p)
      (rthen (atomic_write_0600 p b)
             (sync_backup_to_current p))))))"

definition adopt_vault_file :: "path \<Rightarrow> path \<Rightarrow> unit io" where
  "adopt_vault_file source dest =
     rthen (check_not_symlink source)
    (rbind (run_sys (symlink_metadata dest)) (\<lambda>m.
       case m of
         Inr _ \<Rightarrow> rlift (Inl (Err (''A vault already exists at the destination '' @ em_dash @ '' adopt refused'')))
       | Inl _ \<Rightarrow>
          rbind (sys_err ''Could not read the picked file: '' (fs_read source)) (\<lambda>b.
             rthen (rlift (res_map_err (''That file is not a usable Gabbro vault '' @ em_dash @ '' adopt refused: '') (from_bytes b)))
            (rthen (atomic_write_0600 dest b)
                   (sync_backup_to_current dest)))))"

definition read_vault :: "path \<Rightarrow> SealedVault io" where
  "read_vault p =
     rthen (check_not_symlink p)
    (rbind (sys_err ''Failed to read vault: '' (fs_read p)) (\<lambda>b. rlift (from_bytes b)))"

definition vault_format_too_old :: "path \<Rightarrow> bool io" where
  "vault_format_too_old p =
     rthen (check_not_symlink p)
    (rbind (sys_err ''Failed to read vault: '' (fs_read p)) (\<lambda>b. rlift (is_format_too_old b)))"

definition vault_format_too_new :: "path \<Rightarrow> bool io" where
  "vault_format_too_new p =
     rthen (check_not_symlink p)
    (rbind (sys_err ''Failed to read vault: '' (fs_read p)) (\<lambda>b. rlift (is_format_too_new b)))"

record VaultHeader =
  vh_alias :: "string option"
  vh_yubikey_records :: "YubiKeyRecord list"

definition read_vault_header :: "path \<Rightarrow> VaultHeader io" where
  "read_vault_header p =
     rbind (read_vault p) (\<lambda>s. rret \<lparr>vh_alias = sv_alias s, vh_yubikey_records = sv_yubikey_records s\<rparr>)"

section \<open>Notions the lemmas are stated with\<close>

definition read_bytes :: "fs \<Rightarrow> path \<Rightarrow> io_error + bytes" where
  "read_bytes fs p = (case resolve 41 fs p of Inl e \<Rightarrow> Inl e | Inr (Regular b _ _) \<Rightarrow> Inr b | Inr _ \<Rightarrow> Inl eisdir)"

definition holds :: "fs \<Rightarrow> path \<Rightarrow> bytes \<Rightarrow> bool" where
  "holds fs p b = (case fs p of Some (Regular c _ s) \<Rightarrow> c = b \<and> s | _ \<Rightarrow> False)"

definition is_link :: "fs \<Rightarrow> path \<Rightarrow> bool" where
  "is_link fs p = (case fs p of Some (Symlink _) \<Rightarrow> True | _ \<Rightarrow> False)"

definition tmp_mode :: "fs \<Rightarrow> path \<Rightarrow> nat" where
  "tmp_mode fs p = (case fs (tmp_path p) of Some (Regular _ m _) \<Rightarrow> m | _ \<Rightarrow> 0x180)"

text \<open>The file system after the file at \<open>p\<close> was replaced.\<close>

definition replaced :: "fs \<Rightarrow> path \<Rightarrow> bytes \<Rightarrow> fs" where
  "replaced fs p b = fs(tmp_path p := None, p \<mapsto> Regular b (tmp_mode fs p) True)"

text \<open>
  Crash triples: started where \<open>P\<close> holds, every file system the code passes through satisfies \<open>I\<close>, whatever
  calls fail, and when it succeeds \<open>Q\<close> holds of the result and the last one. With \<open>quiet\<close> only runs
  without faults are meant.
\<close>

definition run_outcome :: "bool \<Rightarrow> (fs \<Rightarrow> bool) \<Rightarrow> ('a \<Rightarrow> fs \<Rightarrow> bool) \<Rightarrow> disk \<Rightarrow> 'a res \<Rightarrow> disk \<Rightarrow> bool" where
  "run_outcome quiet I Q d r d' =
     ((\<exists>xs. d_trace d' = d_trace d @ xs \<and> list_all I xs) \<and> I (d_fs d') \<and> (quiet \<longrightarrow> d_faults d' = [])
      \<and> (case r of Inr x \<Rightarrow> Q x (d_fs d') | Inl _ \<Rightarrow> True))"

definition crash_triple ::
  "bool \<Rightarrow> (fs \<Rightarrow> bool) \<Rightarrow> (fs \<Rightarrow> bool) \<Rightarrow> 'a io \<Rightarrow> ('a \<Rightarrow> fs \<Rightarrow> bool) \<Rightarrow> bool" where
  "crash_triple quiet I P m Q =
     (\<forall>d r d'. P (d_fs d) \<longrightarrow> (quiet \<longrightarrow> d_faults d = []) \<longrightarrow> m d = (r, d') \<longrightarrow> run_outcome quiet I Q d r d')"

text \<open>What a save of \<open>new\<close> over the file system \<open>f0\<close> may leave at any instant.\<close>

definition save_ok :: "fs \<Rightarrow> path \<Rightarrow> bytes \<Rightarrow> fs \<Rightarrow> bool" where
  "save_ok f0 p new fs =
     ((\<forall>q. q \<notin> {p, tmp_path p, bak_path p, tmp_path (bak_path p)} \<longrightarrow> fs q = f0 q)
      \<and> (fs p = f0 p \<or> holds fs p new)
      \<and> (fs (bak_path p) = f0 (bak_path p) \<or> holds fs (bak_path p) new
         \<or> (\<exists>old. read_bytes f0 p = Inr old \<and> holds fs (bak_path p) old)))"

definition rotated :: "fs \<Rightarrow> path \<Rightarrow> fs \<Rightarrow> bool" where
  "rotated f0 p fs = (fs = f0 \<or> (\<exists>old. read_bytes f0 p = Inr old \<and> fs = replaced f0 (bak_path p) old))"

text \<open>A power loss keeps the names and the synced files; a file that was not synced may hold anything.\<close>

definition power_loss :: "fs \<Rightarrow> fs \<Rightarrow> bool" where
  "power_loss fs fs' = (\<forall>p. case fs p of
       Some (Regular b m False) \<Rightarrow> (\<exists>c. fs' p = Some (Regular c m True))
     | x \<Rightarrow> fs' p = x)"

definition durable :: "fs \<Rightarrow> path \<Rightarrow> bool" where
  "durable fs p = (case fs p of Some (Regular b m s) \<Rightarrow> s | _ \<Rightarrow> True)"

definition passed :: "disk \<Rightarrow> disk \<Rightarrow> fs list" where
  "passed d d' = drop (length (d_trace d)) (d_trace d')"

definition plain :: "fs \<Rightarrow> path \<Rightarrow> bool" where
  "plain fs p = (case fs p of None \<Rightarrow> True | Some (Regular _ _ _) \<Rightarrow> True | _ \<Rightarrow> False)"

text \<open>What a restore keeps as the undo copy: the bytes of the safety copy when it can be read as a vault, else those of the vault.\<close>

definition undo_copy :: "fs \<Rightarrow> path \<Rightarrow> bytes \<Rightarrow> bool" where
  "undo_copy f p c =
     (if \<not> is_link f (bak_path p) \<and> (case read_bytes f (bak_path p) of Inr b \<Rightarrow> is_ok (from_bytes b) | Inl _ \<Rightarrow> False)
      then read_bytes f (bak_path p) = Inr c else read_bytes f p = Inr c)"

definition restore_ok :: "bool \<Rightarrow> fs \<Rightarrow> path \<Rightarrow> bytes \<Rightarrow> fs \<Rightarrow> bool" where
  "restore_ok quiet f0 p new fs =
     ((\<forall>q. q \<notin> {p, tmp_path p, bak_path p, tmp_path (bak_path p), pre_restore_path p, tmp_path (pre_restore_path p)}
          \<longrightarrow> fs q = f0 q)
      \<and> (fs p = f0 p \<and> fs (bak_path p) = f0 (bak_path p)
         \<or> is_ok (from_bytes new) \<and> holds fs p new \<and> (fs (bak_path p) = f0 (bak_path p) \<or> holds fs (bak_path p) new)
           \<and> (quiet \<and> f0 p \<noteq> None \<longrightarrow> (\<exists>c. undo_copy f0 p c \<and> holds fs (pre_restore_path p) c))))"

definition preserved :: "bool \<Rightarrow> fs \<Rightarrow> path \<Rightarrow> fs \<Rightarrow> bool" where
  "preserved quiet f0 p fs =
     (fs = f0 \<and> (quiet \<longrightarrow> f0 p = None)
      \<or> (\<exists>c. (quiet \<longrightarrow> undo_copy f0 p c) \<and> fs = replaced f0 (pre_restore_path p) c))"

definition sample_disk :: disk where
  "sample_disk = \<lparr>d_fs = (\<lambda>_. None), d_faults = [], d_trace = []\<rparr>"

definition restore_disk :: disk where
  "restore_disk = \<lparr>d_fs = [''v'' \<mapsto> Regular [1] 0x180 True, ''s'' \<mapsto> Regular (to_bytes sample_vault) 0x1A4 True],
     d_faults = [], d_trace = []\<rparr>"

section \<open>Vocabulary of the specifications\<close>

section \<open>Rules\<close>

lemma tripleI:
  assumes "\<And>d r d'. P (d_fs d) \<Longrightarrow> (quiet \<Longrightarrow> d_faults d = []) \<Longrightarrow> m d = (r, d') \<Longrightarrow> run_outcome quiet I Q d r d'"
  shows "crash_triple quiet I P m Q"
  using assms by (simp add: crash_triple_def)

lemma tripleD:
  assumes "crash_triple quiet I P m Q" and "P (d_fs d)" and "quiet \<Longrightarrow> d_faults d = []" and "m d = (r, d')"
  shows "run_outcome quiet I Q d r d'"
  using assms by (simp add: crash_triple_def)

lemma triple_ret: "(\<And>fs. P fs \<Longrightarrow> I fs \<and> Q x fs) \<Longrightarrow> crash_triple q I P (rret x) Q"
  by (rule tripleI) (auto simp: run_outcome_def rret_def)

lemma triple_fail: "(\<And>fs. P fs \<Longrightarrow> I fs) \<Longrightarrow> crash_triple q I P (rlift (Inl e)) Q"
  by (rule tripleI) (auto simp: run_outcome_def rlift_def)

lemma triple_lift: "(\<And>fs. P fs \<Longrightarrow> I fs) \<Longrightarrow> (\<And>fs y. P fs \<Longrightarrow> x = Inr y \<Longrightarrow> Q y fs) \<Longrightarrow> crash_triple q I P (rlift x) Q"
  by (rule tripleI) (auto simp: run_outcome_def rlift_def split: sum.splits)

lemma outcome_trans:
  assumes "run_outcome q I R d (Inr x) d1" and "run_outcome q I Q d1 r d2"
  shows "run_outcome q I Q d r d2"
  using assms by (auto simp: run_outcome_def)

lemma triple_bind:
  assumes "crash_triple q I P m R" and "\<And>x. crash_triple q I (R x) (f x) Q"
  shows "crash_triple q I P (rbind m f) Q"
proof (rule tripleI)
  fix d r d'
  assume P: "P (d_fs d)" and nf: "q \<Longrightarrow> d_faults d = []" and run: "rbind m f d = (r, d')"
  obtain r1 d1 where m: "m d = (r1, d1)" by force
  note 1 = tripleD [OF assms(1) P nf m]
  show "run_outcome q I Q d r d'"
  proof (cases r1)
    case (Inl e)
    with 1 m run show ?thesis by (auto simp: rbind_def run_outcome_def)
  next
    case (Inr x)
    with run m have f: "f x d1 = (r, d')" by (simp add: rbind_def)
    from 1 Inr have "R x (d_fs d1)" "q \<Longrightarrow> d_faults d1 = []" by (auto simp: run_outcome_def)
    from outcome_trans [OF 1 [unfolded Inr] tripleD [OF assms(2) this f]] show ?thesis .
  qed
qed

lemma triple_then:
  "crash_triple q I P m (\<lambda>_. R) \<Longrightarrow> crash_triple q I R n Q \<Longrightarrow> crash_triple q I P (rthen m n) Q"
  unfolding rthen_def by (rule triple_bind)

lemma triple_map_err:
  assumes "crash_triple q I P m Q"
  shows "crash_triple q I P (map_err msg m) Q"
proof (rule tripleI)
  fix d r d'
  assume P: "P (d_fs d)" and nf: "q \<Longrightarrow> d_faults d = []" and run: "map_err msg m d = (r, d')"
  obtain r1 d1 where m: "m d = (r1, d1)" by force
  from tripleD [OF assms P nf m] run m show "run_outcome q I Q d r d'"
    by (cases r1) (auto simp: map_err_def run_outcome_def)
qed

lemma triple_try:
  assumes "crash_triple q I P m Q"
  shows "crash_triple q I P (rtry m) (\<lambda>r fs. I fs \<and> (\<forall>x. r = Inr x \<longrightarrow> Q x fs))"
proof (rule tripleI)
  fix d r d'
  assume P: "P (d_fs d)" and nf: "q \<Longrightarrow> d_faults d = []" and run: "rtry m d = (r, d')"
  obtain r1 d1 where m: "m d = (r1, d1)" by force
  from tripleD [OF assms P nf m] run m
  show "run_outcome q I (\<lambda>r fs. I fs \<and> (\<forall>x. r = Inr x \<longrightarrow> Q x fs)) d r d'"
    by (auto simp: rtry_def run_outcome_def)
qed

lemma triple_weaken:
  assumes "crash_triple q I P m Q" and "\<And>fs. P' fs \<Longrightarrow> P fs" and "\<And>x fs. Q x fs \<Longrightarrow> Q' x fs"
  shows "crash_triple q I P' m Q'"
proof (rule tripleI)
  fix d r d'
  assume "P' (d_fs d)" and "q \<Longrightarrow> d_faults d = []" and "m d = (r, d')"
  from tripleD [OF assms(1) assms(2) [OF this(1)] this(2,3)] show "run_outcome q I Q' d r d'"
    using assms(3) by (auto simp: run_outcome_def split: sum.splits)
qed

lemma last_states: "list_all I (x # xs) \<Longrightarrow> I (last (x # take n xs)) \<and> list_all I (take n xs)"
proof -
  assume a: "list_all I (x # xs)"
  then have "list_all I (take n xs)" by (auto simp: list_all_iff dest: in_set_takeD)
  with a show ?thesis by (auto simp: list_all_iff)
qed

text \<open>A system call: with \<open>run_sys\<close> the outcome is a value, with \<open>sys_err\<close> an error ends the code.\<close>

lemma triple_run:
  assumes "\<And>fs r st. P fs \<Longrightarrow> f fs = (r, st) \<Longrightarrow> list_all I (fs # st)"
    and "\<And>fs r st. P fs \<Longrightarrow> f fs = (r, st) \<Longrightarrow> Q r (last (fs # st))"
    and "\<And>fs r st e n. P fs \<Longrightarrow> f fs = (r, st) \<Longrightarrow> \<not> q \<Longrightarrow> Q (Inl e) (last (fs # take n st))"
  shows "crash_triple q I P (run_sys (syscall f)) Q"
proof (rule tripleI)
  fix d r' d'
  assume P: "P (d_fs d)" and nf: "q \<Longrightarrow> d_faults d = []" and run: "run_sys (syscall f) d = (r', d')"
  obtain r st where f: "f (d_fs d) = (r, st)" by force
  note I = assms(1) [OF P f]
  note J = last_states [OF I]
  have L: "I (last (d_fs d # st))" using J [of "length st"] by simp
  show "run_outcome q I Q d r' d'"
  proof (cases "next_fault (d_faults d)")
    case NoFault
    with run f have "r' = Inr r" "d' = d\<lparr>d_fs := last (d_fs d # st), d_faults := tl (d_faults d), d_trace := d_trace d @ st\<rparr>"
      by (simp_all add: run_sys_def syscall_def)
    with I L nf assms(2) [OF P f] show ?thesis by (simp add: run_outcome_def)
  next
    case (Fault e n)
    then have q: "\<not> q" using nf by (auto simp: next_fault_def)
    from Fault run f have "r' = Inr (Inl e)"
      "d' = d\<lparr>d_fs := last (d_fs d # take n st), d_faults := tl (d_faults d), d_trace := d_trace d @ take n st\<rparr>"
      by (simp_all add: run_sys_def syscall_def)
    with q J [of n] assms(3) [OF P f q] show ?thesis by (simp add: run_outcome_def)
  qed
qed

lemma sys_err_run:
  "sys_err msg c = rbind (run_sys c) (\<lambda>r. case r of Inl e \<Rightarrow> rlift (Inl (Err (msg @ show_io e))) | Inr x \<Rightarrow> rret x)"
  by (auto simp: fun_eq_iff sys_err_def run_sys_def rbind_def rlift_def rret_def split: prod.splits sum.splits)

lemma triple_sys:
  assumes "\<And>fs r st. P fs \<Longrightarrow> f fs = (r, st) \<Longrightarrow> list_all I (fs # st)"
    and "\<And>fs y st. P fs \<Longrightarrow> f fs = (Inr y, st) \<Longrightarrow> Q y (last (fs # st))"
  shows "crash_triple q I P (sys_err msg (syscall f)) Q"
proof -
  let ?R = "\<lambda>r fs. I fs \<and> (\<forall>y. r = Inr y \<longrightarrow> Q y fs)"
  have run: "crash_triple q I P (run_sys (syscall f)) ?R"
  proof (rule triple_run)
    fix fs r st e n
    assume P: "P fs" and f: "f fs = (r, st)"
    note I = assms(1) [OF P f]
    show "list_all I (fs # st)" by (rule I)
    show "?R r (last (fs # st))"
      using assms(2) [OF P, of _ st] f last_states [OF I, of "length st"] by simp
    show "?R (Inl e) (last (fs # take n st))" using last_states [OF I] by simp
  qed
  show ?thesis unfolding sys_err_run
  proof (rule triple_bind [OF run])
    fix r
    show "crash_triple q I (?R r) (case r of Inl e \<Rightarrow> rlift (Inl (Err (msg @ show_io e))) | Inr x \<Rightarrow> rret x) Q"
      by (cases r) (auto intro!: triple_fail triple_ret)
  qed
qed

lemma triple_read:
  "(\<And>fs. P fs \<Longrightarrow> I fs) \<Longrightarrow>
   crash_triple q I P (sys_err msg (fs_read p)) (\<lambda>b fs. P fs \<and> read_bytes fs p = Inr b)"
  unfolding fs_read_def by (rule triple_sys) (auto simp: read_bytes_def)

lemma triple_try_read:
  "(\<And>fs. P fs \<Longrightarrow> I fs) \<Longrightarrow>
   crash_triple q I P (run_sys (fs_read p)) (\<lambda>r fs. P fs \<and> (q \<longrightarrow> r = read_bytes fs p) \<and> (\<forall>b. r = Inr b \<longrightarrow> read_bytes fs p = Inr b))"
  unfolding fs_read_def by (rule triple_run) (auto simp: read_bytes_def)

lemma triple_stat:
  "(\<And>fs. P fs \<Longrightarrow> I fs) \<Longrightarrow>
   crash_triple q I P (run_sys (symlink_metadata p))
     (\<lambda>m fs. P fs \<and> (case m of Inr nd \<Rightarrow> fs p = Some nd | Inl _ \<Rightarrow> q \<longrightarrow> fs p = None))"
  unfolding symlink_metadata_def by (rule triple_run) (auto split: option.splits)

lemma triple_check:
  assumes "\<And>fs. P fs \<Longrightarrow> I fs"
  shows "crash_triple q I P (check_not_symlink p) (\<lambda>_ fs. P fs \<and> (q \<longrightarrow> \<not> is_link fs p))"
  unfolding check_not_symlink_def
proof (rule triple_bind [OF triple_stat [OF assms]])
  fix m
  show "crash_triple q I (\<lambda>fs. P fs \<and> (case m of Inr nd \<Rightarrow> fs p = Some nd | Inl _ \<Rightarrow> q \<longrightarrow> fs p = None))
     (case m of Inr (Symlink _) \<Rightarrow> rlift (Inl (Err (''Vault path is a symlink '' @ em_dash
           @ '' refusing for security: '' @ p))) | _ \<Rightarrow> rret ())
     (\<lambda>_ fs. P fs \<and> (q \<longrightarrow> \<not> is_link fs p))"
    using assms by (auto simp: is_link_def split: sum.split node.split intro!: triple_ret triple_fail)
qed

section \<open>Atomic replacement\<close>

text \<open>What the code relies on when it replaces a file: besides the temporary file nothing changes until the
  file is replaced, all at once, by the synced new content.\<close>

locale atomic_store =
  fixes replace :: "path \<Rightarrow> bytes \<Rightarrow> unit io"
  assumes replace_law: "\<lbrakk>\<And>fs. P fs \<Longrightarrow> I fs; \<And>fs x. P fs \<Longrightarrow> I (fs(tmp_path p := x)); \<And>fs. P fs \<Longrightarrow> I (replaced fs p b)\<rbrakk>
    \<Longrightarrow> crash_triple q I P (replace p b) (\<lambda>_ fs. \<exists>f. P f \<and> fs = replaced f p b)"
begin

text \<open>Copying one file over another.\<close>

lemma copy_law:
  assumes "\<And>fs. P fs \<Longrightarrow> I fs" and "\<And>fs x b. P fs \<Longrightarrow> read_bytes fs s = Inr b \<Longrightarrow> I (fs(tmp_path t := x))"
    and "\<And>fs b. P fs \<Longrightarrow> read_bytes fs s = Inr b \<Longrightarrow> I (replaced fs t b)"
  shows "crash_triple q I P (rbind (sys_err m1 (fs_read s)) (\<lambda>b. map_err m2 (replace t b)))
    (\<lambda>_ fs. \<exists>f b. P f \<and> read_bytes f s = Inr b \<and> fs = replaced f t b)"
proof (rule triple_bind [OF triple_read])
  fix b
  show "crash_triple q I (\<lambda>fs. P fs \<and> read_bytes fs s = Inr b) (map_err m2 (replace t b))
    (\<lambda>_ fs. \<exists>f b. P f \<and> read_bytes f s = Inr b \<and> fs = replaced f t b)"
  proof (rule triple_map_err, rule triple_weaken [OF replace_law [where P = "\<lambda>fs. P fs \<and> read_bytes fs s = Inr b"]])
  qed (use assms in blast)+
qed (rule assms(1))

end

lemma paths_differ [simp]:
  "tmp_path p \<noteq> p" "p \<noteq> tmp_path p" "bak_path p \<noteq> p" "p \<noteq> bak_path p" "tmp_path p \<noteq> bak_path p"
  "bak_path p \<noteq> tmp_path p" "tmp_path (bak_path p) \<noteq> p" "p \<noteq> tmp_path (bak_path p)"
  "tmp_path (bak_path p) \<noteq> tmp_path p" "tmp_path p \<noteq> tmp_path (bak_path p)"
  "pre_restore_path p \<noteq> p" "p \<noteq> pre_restore_path p" "tmp_path (pre_restore_path p) \<noteq> p" "p \<noteq> tmp_path (pre_restore_path p)"
  "pre_restore_path p \<noteq> bak_path p" "bak_path p \<noteq> pre_restore_path p"
  "pre_restore_path p \<noteq> tmp_path p" "tmp_path p \<noteq> pre_restore_path p"
  "tmp_path (pre_restore_path p) \<noteq> bak_path p" "bak_path p \<noteq> tmp_path (pre_restore_path p)"
  "tmp_path (pre_restore_path p) \<noteq> tmp_path p" "tmp_path p \<noteq> tmp_path (pre_restore_path p)"
  "tmp_path (pre_restore_path p) \<noteq> tmp_path (bak_path p)" "tmp_path (bak_path p) \<noteq> tmp_path (pre_restore_path p)"
  "tmp_path (pre_restore_path p) \<noteq> pre_restore_path p" "pre_restore_path p \<noteq> tmp_path (pre_restore_path p)"
  "pre_restore_path p \<noteq> tmp_path (bak_path p)" "tmp_path (bak_path p) \<noteq> pre_restore_path p"
  by (auto simp: tmp_path_def bak_path_def pre_restore_path_def)

interpretation aw: atomic_store atomic_write_0600
proof
  fix P I :: "fs \<Rightarrow> bool" and p :: path and b :: bytes and q :: bool
  assume a: "\<And>fs. P fs \<Longrightarrow> I fs" and t: "\<And>fs x. P fs \<Longrightarrow> I (fs(tmp_path p := x))"
    and r: "\<And>fs. P fs \<Longrightarrow> I (replaced fs p b)"
  let ?at = "\<lambda>c s fs. \<exists>f. P f \<and> fs = f(tmp_path p \<mapsto> Regular c (tmp_mode f p) s)"
  have o: "crash_triple q I P (sys_err ''Failed to create temp file: '' (open_nofollow (tmp_path p))) (\<lambda>_. ?at [] False)"
    unfolding open_nofollow_def
    by (rule triple_sys) (force simp: a t tmp_mode_def split: option.splits node.splits)+
  have w: "crash_triple q I (?at [] False) (sys_err ''Failed to write data: '' (write_all (tmp_path p) b)) (\<lambda>_. ?at b False)"
    unfolding write_all_def
  proof (rule triple_sys)
    fix fs r st
    assume "?at [] False fs"
    then obtain f where f: "P f" "fs = f(tmp_path p \<mapsto> Regular [] (tmp_mode f p) False)" by blast
    have st: "map (\<lambda>k. set_content (tmp_path p) (take k b) False fs) [0..<Suc (length b)]
        = map (\<lambda>k. f(tmp_path p \<mapsto> Regular (take k b) (tmp_mode f p) False)) [0..<Suc (length b)]"
      by (simp add: f(2) set_content_def del: upt_Suc)
    assume "(Inr (), map (\<lambda>k. set_content (tmp_path p) (take k b) False fs) [0..<Suc (length b)]) = (r, st)"
    then have s: "st = map (\<lambda>k. f(tmp_path p \<mapsto> Regular (take k b) (tmp_mode f p) False)) [0..<Suc (length b)]"
      by (simp add: st del: upt_Suc)
    show "list_all I (fs # st)" unfolding s f(2) using f(1) t by (auto simp: list_all_iff simp del: upt_Suc)
    show "?at b False (last (fs # st))" unfolding s using f(1) by auto
  qed
  have s: "crash_triple q I (?at b False) (sys_err ''Failed to sync file: '' (sync_all (tmp_path p))) (\<lambda>_. ?at b True)"
    unfolding sync_all_def by (rule triple_sys) (auto simp: t)
  have n: "crash_triple q I (?at b True) (sys_err ''Failed to rename temp file: '' (rename (tmp_path p) p))
      (\<lambda>_ fs. \<exists>f. P f \<and> fs = replaced f p b)"
    unfolding rename_def
    by (rule triple_sys) (use t r in \<open>auto simp: replaced_def fun_upd_twist split: option.splits node.splits\<close>)
  show "crash_triple q I P (atomic_write_0600 p b) (\<lambda>_ fs. \<exists>f. P f \<and> fs = replaced f p b)"
    unfolding atomic_write_0600_def by (rule triple_then [OF o triple_then [OF w triple_then [OF s n]]])
qed

section \<open>Saving\<close>

lemma read_regular: "f p = Some (Regular b m z) \<Longrightarrow> read_bytes f p = Inr b"
  by (simp add: read_bytes_def numeral_nat)

lemma read_nothing: "f p = None \<Longrightarrow> read_bytes f p = Inl NotFound"
  by (simp add: read_bytes_def numeral_nat)

lemma read_replaced [simp]: "read_bytes (replaced f p b) p = Inr b"
  by (simp add: read_regular replaced_def)

lemma holds_replaced: "holds (replaced f p b) p b"
  by (simp add: holds_def replaced_def)

lemma replaced_other: "q \<noteq> p \<Longrightarrow> q \<noteq> tmp_path p \<Longrightarrow> replaced f p b q = f q"
  by (simp add: replaced_def)

lemma holds_cong: "f p = g p \<Longrightarrow> holds f p b = holds g p b"
  by (simp add: holds_def)

lemma copy_to_bak:
  assumes "\<And>fs. P fs \<Longrightarrow> I fs" and "\<And>fs x b. P fs \<Longrightarrow> read_bytes fs p = Inr b \<Longrightarrow> I (fs(tmp_path (bak_path p) := x))"
    and "\<And>fs b. P fs \<Longrightarrow> read_bytes fs p = Inr b \<Longrightarrow> I (replaced fs (bak_path p) b)"
  shows "crash_triple q I P (rthen (map_err m0 (check_not_symlink (bak_path p)))
      (rbind (sys_err m1 (fs_read p)) (\<lambda>b. map_err m2 (atomic_write_0600 (bak_path p) b))))
    (\<lambda>_ fs. \<exists>f b. P f \<and> read_bytes f p = Inr b \<and> fs = replaced f (bak_path p) b)"
  using assms
  by (intro triple_then [OF triple_map_err [OF triple_weaken [OF triple_check [of P I]]] aw.copy_law]) auto

lemma rotate_triple:
  assumes "\<And>x. I (f0(tmp_path (bak_path p) := x))" and "I f0"
    and "\<And>b. read_bytes f0 p = Inr b \<Longrightarrow> I (replaced f0 (bak_path p) b)"
  shows "crash_triple q I (\<lambda>fs. fs = f0) (rotate_backup p) (\<lambda>_. rotated f0 p)"
  unfolding rotate_backup_def
proof (rule triple_bind [OF triple_stat])
  fix m
  show "crash_triple q I (\<lambda>fs. fs = f0 \<and> (case m of Inr nd \<Rightarrow> fs p = Some nd | Inl _ \<Rightarrow> q \<longrightarrow> fs p = None))
     (case m of Inl _ \<Rightarrow> rret () | Inr _ \<Rightarrow> rthen (map_err ''Vault backup rotation failed: '' (check_not_symlink (bak_path p)))
          (rbind (sys_err (''Vault backup rotation failed '' @ em_dash @ '' could not read the vault: '') (fs_read p))
            (\<lambda>previous. map_err ''Vault backup rotation failed: '' (atomic_write_0600 (bak_path p) previous))))
     (\<lambda>_. rotated f0 p)"
  proof (cases m)
    case (Inl e)
    then show ?thesis using assms(2) by (auto simp: rotated_def intro!: triple_ret)
  next
    case (Inr nd)
    have "crash_triple q I (\<lambda>fs. fs = f0) (rthen (map_err ''Vault backup rotation failed: '' (check_not_symlink (bak_path p)))
          (rbind (sys_err (''Vault backup rotation failed '' @ em_dash @ '' could not read the vault: '') (fs_read p))
            (\<lambda>previous. map_err ''Vault backup rotation failed: '' (atomic_write_0600 (bak_path p) previous))))
      (\<lambda>_ fs. \<exists>f b. f = f0 \<and> read_bytes f p = Inr b \<and> fs = replaced f (bak_path p) b)"
      using assms by (intro copy_to_bak) auto
    then show ?thesis unfolding Inr sum.case by (rule triple_weaken) (auto simp: rotated_def)
  qed
qed (use assms in simp)

lemma sync_triple:
  assumes "\<And>fs. P fs \<Longrightarrow> I fs \<and> read_bytes fs p = Inr b" and "\<And>fs x. P fs \<Longrightarrow> I (fs(tmp_path (bak_path p) := x))"
    and "\<And>fs. P fs \<Longrightarrow> I (replaced fs (bak_path p) b)"
  shows "crash_triple q I P (sync_backup_to_current p) (\<lambda>_ fs. \<exists>f. P f \<and> fs = replaced f (bak_path p) b)"
proof -
  have "crash_triple q I P (sync_backup_to_current p)
      (\<lambda>_ fs. \<exists>f c. P f \<and> read_bytes f p = Inr c \<and> fs = replaced f (bak_path p) c)"
    unfolding sync_backup_to_current_def using assms by (intro copy_to_bak) fastforce+
  then show ?thesis by (rule triple_weaken) (use assms(1) in fastforce)+
qed

lemma save_ok_steps:
  assumes "rotated f0 p f"
  shows "save_ok f0 p new f" "save_ok f0 p new (f(tmp_path (bak_path p) := x))" "save_ok f0 p new (f(tmp_path p := x))"
    "save_ok f0 p new (replaced f p new)" "save_ok f0 p new ((replaced f p new)(tmp_path (bak_path p) := x))"
    "save_ok f0 p new (replaced (replaced f p new) (bak_path p) new)"
  using assms
  by (auto simp: save_ok_def rotated_def replaced_def holds_def)

lemma write_vault_triple:
  "crash_triple q (save_ok f0 p (to_bytes s)) (\<lambda>fs. fs = f0) (write_vault s p)
     (\<lambda>_ fs. is_ok (from_bytes (to_bytes s))
        \<and> (\<exists>f. rotated f0 p f \<and> fs = replaced (replaced f p (to_bytes s)) (bak_path p) (to_bytes s)))"
  (is "crash_triple q ?I _ _ ?Q")
proof -
  let ?b = "to_bytes s"
  let ?W = "\<lambda>fs. \<exists>f. rotated f0 p f \<and> fs = replaced f p ?b"
  have r0: "rotated f0 p f0" "read_bytes f0 p = Inr c \<Longrightarrow> rotated f0 p (replaced f0 (bak_path p) c)" for c
    by (auto simp: rotated_def)
  have 1: "crash_triple q ?I (\<lambda>fs. fs = f0) (check_not_symlink p) (\<lambda>_ fs. fs = f0)"
    by (rule triple_weaken [OF triple_check [where P = "\<lambda>fs. fs = f0"]]) (auto intro: save_ok_steps r0)
  have 2: "crash_triple q ?I (\<lambda>fs. fs = f0) (rotate_backup p) (\<lambda>_. rotated f0 p)"
    by (rule rotate_triple) (auto intro: save_ok_steps r0)
  have 3: "crash_triple q ?I (rotated f0 p) (atomic_write_0600 p ?b) (\<lambda>_. ?W)"
    by (rule aw.replace_law) (auto intro: save_ok_steps)
  have 4: "crash_triple q ?I ?W (verify_and_sync_backup p) ?Q"
    unfolding verify_and_sync_backup_def
  proof (rule triple_bind [OF triple_read])
    fix w
    let ?P = "\<lambda>fs. is_ok (from_bytes ?b) \<and> ?W fs"
    have "crash_triple q ?I ?P (sync_backup_to_current p) ?Q"
      by (rule triple_weaken [OF sync_triple [where b = ?b and P = ?P]]) (auto intro: save_ok_steps)
    then show "crash_triple q ?I (\<lambda>fs. ?W fs \<and> read_bytes fs p = Inr w)
      (rthen (rlift (res_map_err ''The vault was written but did not read back as a valid vault; the safety copy was kept at the last good save: ''
          (from_bytes w))) (sync_backup_to_current p)) ?Q"
      by (rule triple_then [OF triple_lift, rotated 2]) (auto simp: rnd_simps is_ok_def intro: save_ok_steps)
  qed (auto intro: save_ok_steps)
  show ?thesis unfolding write_vault_def by (rule triple_then [OF 1 triple_then [OF 2 triple_then [OF 3 4]]])
qed

lemma triple_passed:
  assumes "crash_triple q I P m Q" and "P (d_fs d)" and "q \<Longrightarrow> d_faults d = []" and "m d = (r, d')"
  shows "fs \<in> set (passed d d') \<Longrightarrow> I fs" and "I (d_fs d')" and "r = Inr x \<Longrightarrow> Q x (d_fs d')"
  using tripleD [OF assms] by (auto simp: run_outcome_def passed_def list_all_iff)

lemma power_loss_durable: "power_loss fs fs' \<Longrightarrow> durable fs p \<Longrightarrow> fs' p = fs p"
  by (auto simp: power_loss_def durable_def dest!: spec [of _ p] split: option.splits node.splits bool.splits)

lemma power_loss_holds: "power_loss fs fs' \<Longrightarrow> holds fs p b \<Longrightarrow> holds fs' p b"
  using power_loss_durable [of fs fs' p] by (auto simp: holds_def durable_def split: option.splits node.splits)

lemma power_loss_same: "power_loss fs fs' \<Longrightarrow> fs p = g p \<Longrightarrow> durable g p \<Longrightarrow> fs' p = g p"
  using power_loss_durable [of fs fs' p] by (simp add: durable_def)

section \<open>Runs without faults\<close>

lemma disk_same [simp]: "d_faults d = [] \<Longrightarrow> d\<lparr>d_faults := []\<rparr> = d"
  by simp

lemma check_quiet: "d_faults d = [] \<Longrightarrow> \<not> is_link (d_fs d) p \<Longrightarrow> check_not_symlink p d = (Inr (), d)"
  by (auto simp: check_not_symlink_def rbind_def run_sys_def symlink_metadata_def syscall_def next_fault_def
      is_link_def rret_def split: option.splits node.splits)

lemma check_link: "d_faults d = [] \<Longrightarrow> is_link (d_fs d) p \<Longrightarrow> \<exists>e. check_not_symlink p d = (Inl e, d)"
  by (auto simp: check_not_symlink_def rbind_def run_sys_def symlink_metadata_def syscall_def next_fault_def
      is_link_def rlift_def split: option.splits node.splits)

lemma stat_quiet:
  "d_faults d = [] \<Longrightarrow>
   run_sys (symlink_metadata p) d = (Inr (case d_fs d p of None \<Rightarrow> Inl NotFound | Some nd \<Rightarrow> Inr nd), d)"
  by (simp add: run_sys_def symlink_metadata_def syscall_def next_fault_def)

lemma read_quiet: "d_faults d = [] \<Longrightarrow> read_bytes (d_fs d) p = Inr b \<Longrightarrow> sys_err msg (fs_read p) d = (Inr b, d)"
  by (simp add: sys_err_def fs_read_def syscall_def next_fault_def read_bytes_def)

lemma replace_quiet:
  assumes "d_faults d = []" and "plain (d_fs d) (tmp_path p)" and "d_fs d p \<noteq> Some Directory"
  shows "\<exists>d'. atomic_write_0600 p b d = (Inr (), d') \<and> d_fs d' = replaced (d_fs d) p b \<and> d_faults d' = []"
proof -
  have m: "(open_nofollow (tmp_path p) d) = (Inr (), d\<lparr>d_fs := (d_fs d)(tmp_path p \<mapsto> Regular [] (tmp_mode (d_fs d) p) False),
      d_trace := d_trace d @ [(d_fs d)(tmp_path p \<mapsto> Regular [] (tmp_mode (d_fs d) p) False)]\<rparr>)"
    using assms(1,2) by (auto simp: open_nofollow_def syscall_def next_fault_def plain_def tmp_mode_def split: option.splits node.splits)
  show ?thesis
    using assms(1,3)
    by (auto simp: atomic_write_0600_def rthen_def rbind_def sys_err_def m write_all_def sync_all_def rename_def syscall_def
        next_fault_def set_content_def replaced_def fun_upd_twist split: option.splits node.splits)
qed

lemma restore_ok_steps:
  assumes "preserved q f0 p f" and "is_ok (from_bytes new)"
  shows "restore_ok q f0 p new f" "restore_ok q f0 p new (f(tmp_path p := x))"
    "restore_ok q f0 p new (replaced f p new)" "restore_ok q f0 p new ((replaced f p new)(tmp_path (bak_path p) := x))"
    "restore_ok q f0 p new (replaced (replaced f p new) (bak_path p) new)"
  using assms by (auto simp: restore_ok_def preserved_def replaced_def holds_def)

lemma restore_ok_start:
  "restore_ok q f0 p new f0" "restore_ok q f0 p new (f0(tmp_path (pre_restore_path p) := x))"
  "restore_ok q f0 p new (replaced f0 (pre_restore_path p) c)"
  by (auto simp: restore_ok_def replaced_def)

lemma triple_check':
  assumes "\<And>fs. P fs \<Longrightarrow> I fs"
  shows "crash_triple q I P (rtry (check_not_symlink p)) (\<lambda>c fs. P fs \<and> (q \<longrightarrow> is_ok c = (\<not> is_link fs p)))"
proof (rule tripleI)
  fix d r d'
  assume P: "P (d_fs d)" and nf: "q \<Longrightarrow> d_faults d = []" and run: "rtry (check_not_symlink p) d = (r, d')"
  obtain c where c: "check_not_symlink p d = (c, d')" "r = Inr c" using run by (auto simp: rtry_def split: prod.splits)
  have "d_fs d' = d_fs d" "d_trace d' = d_trace d" "d_faults d' = tl (d_faults d)"
    using c(1) by (auto simp: check_not_symlink_def rbind_def run_sys_def symlink_metadata_def syscall_def
        rret_def rlift_def split: option.splits node.splits fault.splits)
  moreover have "is_ok c = (\<not> is_link (d_fs d) p)" if q
    using check_quiet [OF nf [OF that], of p] check_link [OF nf [OF that], of p] c(1)
    by (auto simp: is_ok_def)
  ultimately show "run_outcome q I (\<lambda>c fs. P fs \<and> (q \<longrightarrow> is_ok c = (\<not> is_link fs p))) d r d'"
    using P assms nf c(2) by (auto simp: run_outcome_def)
qed

lemma usable_triple:
  assumes "I f0"
  shows "crash_triple q I (\<lambda>fs. fs = f0) (backup_usable p)
    (\<lambda>u fs. fs = f0 \<and> (q \<longrightarrow> u = (\<not> is_link f0 (bak_path p)
        \<and> (case read_bytes f0 (bak_path p) of Inr b \<Rightarrow> is_ok (from_bytes b) | Inl _ \<Rightarrow> False))))"
  unfolding backup_usable_def
proof (rule triple_bind [OF triple_check' [where P = "\<lambda>fs. fs = f0"]])
  fix c :: "unit res"
  show "crash_triple q I (\<lambda>fs. fs = f0 \<and> (q \<longrightarrow> is_ok c = (\<not> is_link fs (bak_path p))))
     (if \<not> is_ok c then rret False
       else rbind (run_sys (fs_read (bak_path p))) (\<lambda>m.
         rret (case m of Inr b \<Rightarrow> is_ok (from_bytes b) | Inl _ \<Rightarrow> False)))
    (\<lambda>u fs. fs = f0 \<and> (q \<longrightarrow> u = (\<not> is_link f0 (bak_path p)
        \<and> (case read_bytes f0 (bak_path p) of Inr b \<Rightarrow> is_ok (from_bytes b) | Inl _ \<Rightarrow> False))))"
  proof (cases "is_ok c")
    case True
    show ?thesis
      by (simp add: True, rule triple_bind [OF triple_try_read [where P = "\<lambda>fs. fs = f0 \<and> (q \<longrightarrow> \<not> is_link fs (bak_path p))"]])
        (auto intro!: triple_ret assms)
  next
    case False
    then show ?thesis by (auto intro!: triple_ret assms)
  qed
qed (use assms in auto)

lemma triple_if_present:
  assumes "crash_triple q I (\<lambda>fs. fs = f0) M Q" and "I f0" and "(q \<longrightarrow> f0 p = None) \<Longrightarrow> Q () f0"
  shows "crash_triple q I (\<lambda>fs. fs = f0)
    (rbind (run_sys (symlink_metadata p)) (\<lambda>m. case m of Inl _ \<Rightarrow> rret () | Inr _ \<Rightarrow> M)) Q"
proof (rule triple_bind [OF triple_stat [where P = "\<lambda>fs. fs = f0"]])
  fix m
  show "crash_triple q I (\<lambda>fs. fs = f0 \<and> (case m of Inr nd \<Rightarrow> fs p = Some nd | Inl _ \<Rightarrow> q \<longrightarrow> fs p = None))
     (case m of Inl _ \<Rightarrow> rret () | Inr _ \<Rightarrow> M) Q"
  proof (cases m)
    case (Inl e)
    then show ?thesis using assms(2,3) by (auto intro!: triple_ret)
  next
    case (Inr nd)
    then show ?thesis by (simp) (rule triple_weaken [OF assms(1)], use assms(2) in auto)
  qed
qed (use assms(2) in auto)

lemma preserve_triple:
  "crash_triple q (restore_ok q f0 p new) (\<lambda>fs. fs = f0) (preserve_pre_restore p) (\<lambda>_. preserved q f0 p)"
  (is "crash_triple q ?I ?P _ ?Q")
proof -
  let ?u = "\<not> is_link f0 (bak_path p) \<and> (case read_bytes f0 (bak_path p) of Inr b \<Rightarrow> is_ok (from_bytes b) | Inl _ \<Rightarrow> False)"
  let ?copy = "\<lambda>s. rbind (sys_err ''Pre-restore preservation failed: '' (fs_read s))
              (\<lambda>b. map_err ''Pre-restore preservation failed: '' (atomic_write_0600 (pre_restore_path p) b))"
  have copy: "crash_triple q ?I ?P (?copy s) (\<lambda>_ fs. \<exists>f b. f = f0 \<and> read_bytes f s = Inr b \<and> fs = replaced f (pre_restore_path p) b)" for s
    by (rule aw.copy_law) (auto intro: restore_ok_start)
  have bak: "crash_triple q ?I ?P (?copy (bak_path p)) ?Q" if "q \<longrightarrow> ?u"
    by (rule triple_weaken [OF copy]) (use that in \<open>auto simp: preserved_def undo_copy_def\<close>)
  have main: "crash_triple q ?I ?P (?copy p) ?Q" if "q \<longrightarrow> \<not> ?u"
    by (rule triple_weaken [OF copy]) (use that in \<open>auto simp: preserved_def undo_copy_def\<close>)
  have rest: "crash_triple q ?I (\<lambda>fs. fs = f0 \<and> (q \<longrightarrow> u = ?u))
      (if u then ?copy (bak_path p) else rbind (run_sys (symlink_metadata p)) (\<lambda>m.
         case m of Inl _ \<Rightarrow> rret () | Inr _ \<Rightarrow> ?copy p)) ?Q" for u
  proof (cases "q \<longrightarrow> u = ?u")
    case True
    show ?thesis
    proof (cases u)
      case True
      then show ?thesis using \<open>q \<longrightarrow> u = ?u\<close> by (auto intro!: triple_weaken [OF bak])
    next
      case False
      with True have main': "crash_triple q ?I ?P (?copy p) ?Q" by (intro main) auto
      have "crash_triple q ?I ?P (rbind (run_sys (symlink_metadata p)) (\<lambda>m.
         case m of Inl _ \<Rightarrow> rret () | Inr _ \<Rightarrow> ?copy p)) ?Q"
        by (rule triple_if_present [OF main']) (auto simp: preserved_def intro: restore_ok_start)
      with False show ?thesis by (auto intro: triple_weaken)
    qed
  qed (auto simp: crash_triple_def)
  have "crash_triple q ?I ?P (backup_usable p) (\<lambda>u fs. fs = f0 \<and> (q \<longrightarrow> u = ?u))"
    by (rule usable_triple) (rule restore_ok_start)
  from triple_bind [OF this rest]
  have "crash_triple q ?I ?P (rbind (backup_usable p) (\<lambda>u. if u then ?copy (bak_path p)
     else rbind (run_sys (symlink_metadata p)) (\<lambda>m. case m of Inl _ \<Rightarrow> rret () | Inr _ \<Rightarrow> ?copy p))) ?Q" .
  then show ?thesis unfolding preserve_pre_restore_def
    by (rule triple_then [OF triple_map_err [OF triple_weaken [OF triple_check [where P = ?P]]], rotated 3])
      (auto intro: restore_ok_start)
qed

lemma restore_triple:
  "crash_triple q (\<lambda>fs. case read_bytes f0 src of Inr b \<Rightarrow> restore_ok q f0 p b fs | Inl _ \<Rightarrow> fs = f0)
     (\<lambda>fs. fs = f0) (restore_vault_from_file p src)
     (\<lambda>_ fs. \<exists>b f. read_bytes f0 src = Inr b \<and> is_ok (from_bytes b) \<and> preserved q f0 p f
        \<and> fs = replaced (replaced f p b) (bak_path p) b)"
  (is "crash_triple q ?I ?P _ ?Q")
proof -
  have I0: "?I f0" by (auto simp: restore_ok_start split: sum.split)
  have c: "crash_triple q ?I ?P (check_not_symlink x) (\<lambda>_. ?P)" for x
    by (rule triple_weaken [OF triple_check [where P = ?P]]) (use I0 in auto)
  let ?tail = "\<lambda>b. rthen (rlift (res_map_err (''That file is not a usable Gabbro vault '' @ em_dash @ '' restore refused: '') (from_bytes b)))
      (rthen (preserve_pre_restore p) (rthen (atomic_write_0600 p b) (sync_backup_to_current p)))"
  have tail: "crash_triple q ?I (\<lambda>fs. fs = f0 \<and> read_bytes fs src = Inr b) (?tail b) ?Q" for b
  proof (cases "read_bytes f0 src = Inr b")
    case True
    let ?J = "restore_ok q f0 p b"
    let ?W = "\<lambda>fs. \<exists>f. preserved q f0 p f \<and> fs = replaced f p b"
    have "crash_triple q ?J (\<lambda>fs. is_ok (from_bytes b) \<and> fs = f0)
        (rthen (preserve_pre_restore p) (rthen (atomic_write_0600 p b) (sync_backup_to_current p))) ?Q"
    proof (cases "is_ok (from_bytes b)")
      case ok: True
      note steps = restore_ok_steps [OF _ ok]
      have 1: "crash_triple q ?J (preserved q f0 p) (atomic_write_0600 p b) (\<lambda>_. ?W)"
        by (rule aw.replace_law) (auto intro: steps)
      have 2: "crash_triple q ?J ?W (sync_backup_to_current p) (\<lambda>_ fs. \<exists>f. ?W f \<and> fs = replaced f (bak_path p) b)"
        by (rule sync_triple) (auto intro: steps)
      show ?thesis by (rule triple_weaken [OF triple_then [OF preserve_triple triple_then [OF 1 2]]]) (use True ok in auto)
    qed (simp add: crash_triple_def)
    then have "crash_triple q ?J ?P (?tail b) ?Q"
      by (rule triple_then [OF triple_lift, rotated 2]) (auto simp: rnd_simps is_ok_def intro: restore_ok_start)
    then show ?thesis using True by (auto intro: triple_weaken)
  qed (auto intro: tripleI)
  from triple_bind [OF triple_read tail]
  have "crash_triple q ?I ?P (rbind (sys_err ''Could not read the backup file: '' (fs_read src)) ?tail) ?Q"
    using I0 by auto
  then show ?thesis unfolding restore_vault_from_file_def by (intro triple_then [OF c triple_then [OF c]])
qed

lemma rotate_quiet:
  assumes "d_faults d = []" and "\<forall>q \<in> {p, bak_path p, tmp_path (bak_path p)}. plain (d_fs d) q"
  shows "\<exists>d'. rotate_backup p d = (Inr (), d') \<and> d_faults d' = [] \<and> rotated (d_fs d) p (d_fs d')"
proof (cases "d_fs d p")
  case None
  with assms(1) show ?thesis by (simp add: rotate_backup_def rbind_def stat_quiet rret_def rotated_def)
next
  case (Some nd)
  then obtain c m z where nd: "nd = Regular c m z" using assms(2) by (cases nd) (auto simp: plain_def)
  have r: "read_bytes (d_fs d) p = Inr c" using Some nd by (simp add: read_regular)
  have l: "\<not> is_link (d_fs d) (bak_path p)" "d_fs d (bak_path p) \<noteq> Some Directory"
    using assms(2) by (auto simp: plain_def is_link_def split: option.splits node.splits)
  obtain d' where "atomic_write_0600 (bak_path p) c d = (Inr (), d')" "d_fs d' = replaced (d_fs d) (bak_path p) c" "d_faults d' = []"
    using replace_quiet [OF assms(1) _ l(2)] assms(2) by blast
  then show ?thesis
    using Some r assms(1) check_quiet [OF assms(1) l(1)] read_quiet [OF assms(1) r]
    by (simp add: rotate_backup_def rbind_def rthen_def stat_quiet map_err_def rotated_def)
qed

lemma sync_quiet:
  assumes "d_faults d = []" and "read_bytes (d_fs d) p = Inr b" and "\<forall>q \<in> {bak_path p, tmp_path (bak_path p)}. plain (d_fs d) q"
  shows "\<exists>d'. sync_backup_to_current p d = (Inr (), d') \<and> d_faults d' = [] \<and> d_fs d' = replaced (d_fs d) (bak_path p) b"
proof -
  have l: "\<not> is_link (d_fs d) (bak_path p)" "d_fs d (bak_path p) \<noteq> Some Directory"
    using assms(3) by (auto simp: plain_def is_link_def split: option.splits node.splits)
  obtain d' where "atomic_write_0600 (bak_path p) b d = (Inr (), d')" "d_fs d' = replaced (d_fs d) (bak_path p) b" "d_faults d' = []"
    using replace_quiet [OF assms(1) _ l(2)] assms(3) by blast
  then show ?thesis
    using check_quiet [OF assms(1) l(1)] read_quiet [OF assms(1,2)]
    by (simp add: sync_backup_to_current_def rbind_def rthen_def map_err_def)
qed

lemma plain_replaced: "plain f q \<Longrightarrow> plain (replaced f p b) q"
  by (simp add: plain_def replaced_def)

lemma write_quiet:
  assumes "d_faults d = []" and "is_ok (from_bytes (to_bytes s))"
    and pl: "\<forall>q \<in> {p, tmp_path p, bak_path p, tmp_path (bak_path p)}. plain (d_fs d) q"
  shows "\<exists>d'. write_vault s p d = (Inr (), d') \<and> d_faults d' = []"
proof -
  let ?b = "to_bytes s"
  obtain d1 where 1: "rotate_backup p d = (Inr (), d1)" "d_faults d1 = []" "rotated (d_fs d) p (d_fs d1)"
    using rotate_quiet [OF assms(1)] pl by blast
  have pl1: "plain (d_fs d1) q" if "plain (d_fs d) q" for q
    using 1(3) that by (auto simp: rotated_def plain_replaced)
  have nd: "d_fs d1 p \<noteq> Some Directory" using pl1 [of p] pl by (auto simp: plain_def)
  obtain d2 where 2: "atomic_write_0600 p ?b d1 = (Inr (), d2)" "d_fs d2 = replaced (d_fs d1) p ?b" "d_faults d2 = []"
    using replace_quiet [OF 1(2) pl1 nd] pl by blast
  obtain d3 where 3: "sync_backup_to_current p d2 = (Inr (), d3)" "d_faults d3 = []"
    using sync_quiet [OF 2(3), of p ?b] pl pl1 by (auto simp: 2(2) plain_replaced)
  obtain x where x: "from_bytes ?b = Inr x" using assms(2) by (auto simp: is_ok_iff)
  have "read_bytes (d_fs d2) p = Inr ?b" by (simp add: 2(2))
  then have v: "verify_and_sync_backup p d2 = (Inr (), d3)"
    unfolding verify_and_sync_backup_def
    by (simp add: rthen_def rbind_def read_quiet [OF 2(3)] x res_map_err_def rlift_def 3(1))
  have "\<not> is_link (d_fs d) p" using pl by (auto simp: plain_def is_link_def split: option.splits node.splits)
  then have "write_vault s p d = (Inr (), d3)"
    unfolding write_vault_def by (simp add: rthen_def rbind_def check_quiet [OF assms(1)] 1(1) 2(1) v)
  with 3(2) show ?thesis by blast
qed

lemma read_vault_quiet:
  assumes "d_faults d = []" and "holds (d_fs d) p b" and "from_bytes b = Inr s"
  shows "read_vault p d = (Inr s, d)"
proof -
  have "\<not> is_link (d_fs d) p" "read_bytes (d_fs d) p = Inr b"
    using assms(2) by (auto simp: holds_def is_link_def read_regular split: option.splits node.splits)
  with assms(1,3) show ?thesis by (simp add: read_vault_def rthen_def rbind_def check_quiet read_quiet rlift_def)
qed

lemma write_vault_Inr:
  assumes "write_vault s p d = (Inr (), d')"
  shows "\<exists>f. rotated (d_fs d) p f \<and> d_fs d' = replaced (replaced f p (to_bytes s)) (bak_path p) (to_bytes s)"
  using triple_passed(3) [OF write_vault_triple _ _ assms, of "d_fs d" False] by auto

section \<open>Properties of the files\<close>

text \<open>C2. Whatever system calls fail during a save, and wherever the power goes, the vault file is the old one or the
  complete new one, the safety copy is the old copy, the previous vault or the new one, and no other file but the
  temporary ones changes.\<close>

theorem save_is_crash_safe:
  assumes "write_vault s p d = (r, d')" and "fs \<in> set (d_fs d' # passed d d')" and "power_loss fs fs'"
    and "durable (d_fs d) p" and "durable (d_fs d) (bak_path p)"
  shows "(fs' p = d_fs d p \<or> holds fs' p (to_bytes s))
    \<and> (fs' (bak_path p) = d_fs d (bak_path p) \<or> holds fs' (bak_path p) (to_bytes s)
       \<or> (\<exists>old. read_bytes (d_fs d) p = Inr old \<and> holds fs' (bak_path p) old))
    \<and> (\<forall>q. q \<notin> {p, tmp_path p, bak_path p, tmp_path (bak_path p)} \<and> durable (d_fs d) q \<longrightarrow> fs' q = d_fs d q)"
proof -
  have "save_ok (d_fs d) p (to_bytes s) fs"
    using triple_passed(1,2) [OF write_vault_triple _ _ assms(1), of "d_fs d" False] assms(2) by auto
  then show ?thesis unfolding save_ok_def
    using power_loss_same [OF assms(3)] power_loss_holds [OF assms(3)] assms(4,5) by meson
qed

lemma sample_write:
  obtains d' where "write_vault sample_vault ''v'' sample_disk = (Inr (), d')" and "d_faults d' = []"
    and "d_fs d' = (\<lambda>_. None)(''v'' \<mapsto> Regular (to_bytes sample_vault) 0x180 True,
      ''v.bak'' \<mapsto> Regular (to_bytes sample_vault) 0x180 True)"
proof -
  have ok: "is_ok (from_bytes (to_bytes sample_vault))"
    using from_bytes_to_bytes [OF sample_vault_wf, of "[]"] by (simp add: is_ok_def)
  have "\<forall>q \<in> {''v'', tmp_path ''v'', bak_path ''v'', tmp_path (bak_path ''v'')}. plain (d_fs sample_disk) q"
    by (simp add: plain_def sample_disk_def)
  from write_quiet [OF _ ok this] obtain d' where d': "write_vault sample_vault ''v'' sample_disk = (Inr (), d')" "d_faults d' = []"
    by (auto simp: sample_disk_def)
  have n: "\<not> rotated (\<lambda>_. None) ''v'' f \<or> f = (\<lambda>_. None)" for f
    by (auto simp: rotated_def read_nothing)
  from write_vault_Inr [OF d'(1)] n have "d_fs d' = (\<lambda>_. None)(''v'' \<mapsto> Regular (to_bytes sample_vault) 0x180 True,
      ''v.bak'' \<mapsto> Regular (to_bytes sample_vault) 0x180 True)"
    by (fastforce simp: replaced_def tmp_mode_def sample_disk_def tmp_path_def bak_path_def fun_eq_iff)
  with d' show ?thesis using that by blast
qed

theorem save_is_crash_safe_witness:
  "\<exists>d'. write_vault sample_vault ''v'' sample_disk = (Inr (), d')
     \<and> (d_fs d' ''v'' = None \<or> holds (d_fs d') ''v'' (to_bytes sample_vault))"
proof -
  obtain d' where w: "write_vault sample_vault ''v'' sample_disk = (Inr (), d')"
    and f: "d_fs d' = (\<lambda>_. None)(''v'' \<mapsto> Regular (to_bytes sample_vault) 0x180 True,
      ''v.bak'' \<mapsto> Regular (to_bytes sample_vault) 0x180 True)" by (rule sample_write)
  have "power_loss (d_fs d') (d_fs d')" by (simp add: power_loss_def f)
  with save_is_crash_safe [OF w _ this] w show ?thesis by (auto simp: durable_def sample_disk_def)
qed

text \<open>A save that reports success has installed the new vault and an equal safety copy, left no temporary file and
  changed nothing else.\<close>

theorem save_success_installs:
  assumes "write_vault s p d = (Inr (), d')"
  shows "holds (d_fs d') p (to_bytes s) \<and> holds (d_fs d') (bak_path p) (to_bytes s)
    \<and> d_fs d' (tmp_path p) = None \<and> d_fs d' (tmp_path (bak_path p)) = None
    \<and> (\<forall>q. q \<notin> {p, tmp_path p, bak_path p, tmp_path (bak_path p)} \<longrightarrow> d_fs d' q = d_fs d q)"
  using write_vault_Inr [OF assms] by (auto simp: replaced_def holds_def rotated_def)

theorem save_success_installs_witness:
  "\<exists>d'. write_vault sample_vault ''v'' sample_disk = (Inr (), d') \<and> holds (d_fs d') (bak_path ''v'') (to_bytes sample_vault)"
proof -
  obtain d' where w: "write_vault sample_vault ''v'' sample_disk = (Inr (), d')" by (rule sample_write)
  from save_success_installs [OF w] w show ?thesis by blast
qed

text \<open>When no system call fails and no link or directory is in the way, a save succeeds, and reading the vault
  afterwards returns what was saved.\<close>

theorem saved_vault_reads_back:
  assumes "d_faults d = []" and "sealed_wf s"
    and "\<forall>q \<in> {p, tmp_path p, bak_path p, tmp_path (bak_path p)}. plain (d_fs d) q"
  shows "\<exists>d'. write_vault s p d = (Inr (), d') \<and> read_vault p d' = (Inr s, d')"
proof -
  have rt: "from_bytes (to_bytes s) = Inr s" using from_bytes_to_bytes [OF assms(2), of "[]"] by simp
  then have "is_ok (from_bytes (to_bytes s))" by (simp add: is_ok_def)
  from write_quiet [OF assms(1) this assms(3)] obtain d' where d': "write_vault s p d = (Inr (), d')" "d_faults d' = []" by blast
  have "holds (d_fs d') p (to_bytes s)"
    using write_vault_Inr [OF d'(1)] by (auto simp: replaced_def holds_def)
  from read_vault_quiet [OF d'(2) this rt] d'(1) show ?thesis by blast
qed

theorem saved_vault_reads_back_witness:
  "\<exists>d'. write_vault sample_vault ''v'' sample_disk = (Inr (), d') \<and> read_vault ''v'' d' = (Inr sample_vault, d')"
  using saved_vault_reads_back [of sample_disk sample_vault "''v''"] sample_vault_wf
  by (simp add: sample_disk_def plain_def)

text \<open>C12. Restoring from a file: at every instant, whatever calls fail, the vault is the old one or the complete
  picked file, which parses as a vault. When no call fails and there was a vault, the best copy of it is in place as the undo copy before
  the vault is replaced: the bytes of its safety copy if that can be read as a vault, else those of the vault file. That
  is the replaced vault itself when the safety copy is unusable or in step with it, and the last good save when it is not in step.\<close>

theorem restore_is_safe:
  assumes "restore_vault_from_file p src d = (r, d')" and "fs \<in> set (d_fs d' # passed d d')"
  shows "(fs p = d_fs d p \<or> (\<exists>b. read_bytes (d_fs d) src = Inr b \<and> is_ok (from_bytes b) \<and> holds fs p b))
    \<and> (d_faults d = [] \<and> d_fs d p \<noteq> None \<and> fs p \<noteq> d_fs d p \<longrightarrow>
        (\<exists>c. holds fs (pre_restore_path p) c
          \<and> (if \<not> is_link (d_fs d) (bak_path p) \<and> (\<exists>b. read_bytes (d_fs d) (bak_path p) = Inr b \<and> is_ok (from_bytes b))
             then read_bytes (d_fs d) (bak_path p) = Inr c else read_bytes (d_fs d) p = Inr c)
          \<and> (read_bytes (d_fs d) (bak_path p) = read_bytes (d_fs d) p \<longrightarrow> read_bytes (d_fs d) p = Inr c)))"
proof -
  let ?q = "d_faults d = []"
  have "case read_bytes (d_fs d) src of Inr b \<Rightarrow> restore_ok ?q (d_fs d) p b fs | Inl _ \<Rightarrow> fs = d_fs d"
    using triple_passed(1,2) [OF restore_triple _ _ assms(1), of "d_fs d" ?q] assms(2) by auto
  then have r: "(fs p = d_fs d p \<or> (\<exists>b. read_bytes (d_fs d) src = Inr b \<and> is_ok (from_bytes b) \<and> holds fs p b))
    \<and> (?q \<and> d_fs d p \<noteq> None \<and> fs p \<noteq> d_fs d p \<longrightarrow> (\<exists>c. undo_copy (d_fs d) p c \<and> holds fs (pre_restore_path p) c))"
    by (auto simp: restore_ok_def split: sum.splits)
  have "undo_copy f p c \<longleftrightarrow>
      (if \<not> is_link f (bak_path p) \<and> (\<exists>b. read_bytes f (bak_path p) = Inr b \<and> is_ok (from_bytes b))
       then read_bytes f (bak_path p) = Inr c else read_bytes f p = Inr c)
      \<and> (read_bytes f (bak_path p) = read_bytes f p \<longrightarrow> read_bytes f p = Inr c)" for f c
    by (auto simp: undo_copy_def split: sum.splits)
  with r show ?thesis by blast
qed

lemma preserve_quiet_main:
  assumes "d_faults d = []" and "d_fs d (bak_path p) = None" and "d_fs d p = Some (Regular c m z)"
    and "\<forall>q \<in> {pre_restore_path p, tmp_path (pre_restore_path p)}. plain (d_fs d) q"
  shows "\<exists>d'. preserve_pre_restore p d = (Inr (), d') \<and> d_faults d' = [] \<and> d_fs d' = replaced (d_fs d) (pre_restore_path p) c"
proof -
  have l: "\<not> is_link (d_fs d) (pre_restore_path p)" "d_fs d (pre_restore_path p) \<noteq> Some Directory" "\<not> is_link (d_fs d) (bak_path p)"
    using assms(2,4) by (auto simp: plain_def is_link_def split: option.splits node.splits)
  have rd: "read_bytes (d_fs d) p = Inr c" using assms(3) by (rule read_regular)
  have "run_sys (fs_read (bak_path p)) d = (Inr (Inl NotFound), d)"
    using assms(1,2) by (simp add: run_sys_def fs_read_def syscall_def next_fault_def numeral_nat)
  then have u: "backup_usable p d = (Inr False, d)"
    by (simp add: backup_usable_def rbind_def rtry_def check_quiet [OF assms(1) l(3)] is_ok_def rret_def)
  obtain d' where "atomic_write_0600 (pre_restore_path p) c d = (Inr (), d')"
    "d_fs d' = replaced (d_fs d) (pre_restore_path p) c" "d_faults d' = []"
    using replace_quiet [OF assms(1) _ l(2)] assms(4) by blast
  then show ?thesis
    using u assms(3) read_quiet [OF assms(1) rd]
    by (simp add: preserve_pre_restore_def rthen_def rbind_def map_err_def check_quiet [OF assms(1) l(1)] stat_quiet [OF assms(1)])
qed

lemma plain_none: "f q = None \<Longrightarrow> plain f q"
  by (simp add: plain_def)

theorem restore_is_safe_witness:
  "\<exists>d'. restore_vault_from_file ''v'' ''s'' restore_disk = (Inr (), d')
     \<and> holds (d_fs d') (pre_restore_path ''v'') [1]"
proof -
  let ?b = "to_bytes sample_vault" and ?d = restore_disk
  have q: "d_faults ?d = []" and v: "d_fs ?d ''v'' = Some (Regular [1] 0x180 True)"
    and s: "d_fs ?d ''s'' = Some (Regular ?b 0x1A4 True)"
    and n: "d_fs ?d (bak_path ''v'') = None" "d_fs ?d (tmp_path ''v'') = None" "d_fs ?d (tmp_path (bak_path ''v'')) = None"
      "d_fs ?d (pre_restore_path ''v'') = None" "d_fs ?d (tmp_path (pre_restore_path ''v'')) = None"
    by (simp_all add: restore_disk_def bak_path_def tmp_path_def pre_restore_path_def)
  have rs: "read_bytes (d_fs ?d) ''s'' = Inr ?b" using s by (rule read_regular)
  have fb: "from_bytes ?b = Inr sample_vault" using from_bytes_to_bytes [OF sample_vault_wf, of "[]"] by simp
  obtain d1 where 1: "preserve_pre_restore ''v'' ?d = (Inr (), d1)" "d_faults d1 = []" "d_fs d1 = replaced (d_fs ?d) (pre_restore_path ''v'') [1]"
    using preserve_quiet_main [OF q n(1) v] n by (auto simp: plain_def)
  obtain d2 where 2: "atomic_write_0600 ''v'' ?b d1 = (Inr (), d2)" "d_fs d2 = replaced (d_fs d1) ''v'' ?b" "d_faults d2 = []"
    using replace_quiet [OF 1(2), of "''v''" ?b] n v by (auto simp: plain_def 1(3) replaced_def)
  obtain d3 where 3: "sync_backup_to_current ''v'' d2 = (Inr (), d3)" "d_fs d3 = replaced (d_fs d2) (bak_path ''v'') ?b"
    using sync_quiet [OF 2(3), of "''v''" ?b] plain_none [of "d_fs ?d", OF n(1)] plain_none [of "d_fs ?d", OF n(3)]
    by (auto simp: 2(2) 1(3) plain_replaced)
  have l: "\<not> is_link (d_fs ?d) ''v''" "\<not> is_link (d_fs ?d) ''s''" by (simp_all add: is_link_def v s)
  have run: "restore_vault_from_file ''v'' ''s'' ?d = (Inr (), d3)"
    unfolding restore_vault_from_file_def
    by (simp add: rthen_def rbind_def check_quiet [OF q l(1)] check_quiet [OF q l(2)]
        read_quiet [OF q rs] fb res_map_err_def rlift_def 1(1) 2(1) 3(1))
  have "d_fs d3 ''v'' = Some (Regular ?b (tmp_mode (d_fs d1) ''v'') True)"
    unfolding 3(2) 2(2) by (simp add: replaced_def)
  moreover have "?b \<noteq> [1]" using fb by (auto simp: from_bytes_def read_version_def)
  ultimately have "d_fs d3 ''v'' \<noteq> d_fs ?d ''v''" by (simp add: v)
  moreover have "read_bytes (d_fs ?d) ''v'' = Inr [1]" using v by (rule read_regular)
  moreover have "\<nexists>b. read_bytes (d_fs ?d) (bak_path ''v'') = Inr b" using n(1) by (simp add: read_bytes_def numeral_nat)
  ultimately show ?thesis using restore_is_safe [OF run, of "d_fs d3"] run q v by auto
qed

text \<open>Adopting a file never overwrites: when something is at the destination the adoption is refused and nothing
  changes.\<close>

theorem adopt_refuses_taken_path:
  assumes "d_faults d = []" and "d_fs d dest \<noteq> None"
  shows "\<exists>e. adopt_vault_file src dest d = (Inl e, d)"
proof (cases "is_link (d_fs d) src")
  case True
  then obtain e where "check_not_symlink src d = (Inl e, d)" using check_link [OF assms(1)] by blast
  then show ?thesis by (simp add: adopt_vault_file_def rthen_def rbind_def)
next
  case False
  with assms check_quiet [OF assms(1)] show ?thesis
    by (auto simp: adopt_vault_file_def rthen_def rbind_def stat_quiet rlift_def)
qed

theorem adopt_refuses_taken_path_witness:
  "\<exists>e. adopt_vault_file ''s'' ''v'' restore_disk = (Inl e, restore_disk)"
  using adopt_refuses_taken_path [of restore_disk "''v''" "''s''"] by (simp add: restore_disk_def)

text \<open>Refreshing the safety copy after a credential change: on success the copy holds what the vault holds.\<close>

lemma refresh_triple:
  "crash_triple q (\<lambda>_. True) (\<lambda>fs. fs = f0) (sync_backup_to_current p)
    (\<lambda>_ fs. \<exists>b. read_bytes f0 p = Inr b \<and> fs = replaced f0 (bak_path p) b)"
  unfolding sync_backup_to_current_def
  by (rule triple_weaken [OF copy_to_bak [where P = "\<lambda>fs. fs = f0"]]) auto

theorem refresh_success_copies:
  assumes "refresh_backup_after_credential_change p d = (Inr (), d')"
  shows "\<exists>b. read_bytes (d_fs d) p = Inr b \<and> d_fs d' p = d_fs d p \<and> holds (d_fs d') (bak_path p) b"
proof -
  obtain r d1 where s: "sync_backup_to_current p d = (r, d1)" by force
  from assms s have r: "r = Inr ()" "d1 = d'"
    by (auto simp: refresh_backup_after_credential_change_def rbind_def rtry_def rthen_def rret_def rlift_def
        split: sum.splits prod.splits)
  from triple_passed(3) [OF refresh_triple _ _ s, of "d_fs d" False] r show ?thesis
    by (auto simp: replaced_def holds_def)
qed

theorem refresh_success_copies_witness:
  "\<exists>d'. refresh_backup_after_credential_change ''v'' restore_disk = (Inr (), d') \<and> holds (d_fs d') ''v.bak'' [1]"
proof -
  have v: "read_bytes (d_fs restore_disk) ''v'' = Inr [1]" by (rule read_regular) (simp add: restore_disk_def)
  obtain d' where "sync_backup_to_current ''v'' restore_disk = (Inr (), d')"
    using sync_quiet [OF _ v]
    by (auto simp: restore_disk_def plain_def tmp_path_def bak_path_def)
  then have r: "refresh_backup_after_credential_change ''v'' restore_disk = (Inr (), d')"
    by (simp add: refresh_backup_after_credential_change_def rbind_def rtry_def rret_def)
  from refresh_success_copies [OF r] r show ?thesis by (auto simp: v bak_path_def)
qed

text \<open>A failed refresh reports that the stale copy was removed even when removing it failed: there are runs after
  which the old copy is still there.\<close>

theorem failed_refresh_may_leave_stale_copy:
  "\<exists>d d' e. refresh_backup_after_credential_change ''v'' d
       = (Inl (Err (''The change succeeded, but the vault safety copy could not be refreshed and was removed instead: '' @ e)), d')
     \<and> d_fs d' (bak_path ''v'') = d_fs d (bak_path ''v'') \<and> d_fs d (bak_path ''v'') \<noteq> None"
proof -
  let ?d = "\<lparr>d_fs = [''v'' \<mapsto> Regular [1] 0x180 True, ''v.bak'' \<mapsto> Regular [2] 0x180 True],
     d_faults = [NoFault, Fault (IoError ''EIO'') 0, Fault (IoError ''EIO'') 0], d_trace = []\<rparr>"
  show ?thesis
    by (rule exI [of _ ?d])
      (simp add: refresh_backup_after_credential_change_def sync_backup_to_current_def remove_backup_def remove_sibling_def
        rbind_def rthen_def rtry_def rret_def rlift_def map_err_def sys_err_def run_sys_def check_not_symlink_def
        symlink_metadata_def fs_read_def remove_file_def syscall_def next_fault_def bak_path_def)
qed

end
