(* ===== verification/Vault_Store.thy ===== *)
theory Vault_Store
  imports Serialization Vault_Crypto Vault_IO
begin

text \<open>
  Whole vaults on disk: the storage functions of \<open>rust/src/api/vault.rs\<close> (loading and saving with a
  passphrase or with security keys, changing credentials, exporting, deleting), composed of the body
  format, the sealing and the files.

  The crates they rest on are the record \<open>env\<close>; the state is the disk and the random source. The locale
  \<open>vault_backend\<close> is what a session relies on, that the body saved last is the one that loads; it is
  interpreted twice, on the passphrase path and on the resealing path of a session opened with a security key.

  Shown: after any run of successful saves the last body loads; a deletion leaves no copy; an export is exact.
\<close>

section \<open>The state of the storage layer\<close>

text \<open>The crates the layers above the file format call, as one parameter.\<close>

record env =
  e_crypto :: crypto
  e_serde :: serde
  e_sha256 :: "bytes \<Rightarrow> bytes"
  e_b64enc :: "bytes \<Rightarrow> string"
  e_b64dec :: "string \<Rightarrow> bytes option"
  e_hash_order :: "DeletedEntry list \<Rightarrow> DeletedEntry list"
  e_uuid :: "bytes \<Rightarrow> string"
  e_lower :: "string \<Rightarrow> string"
  e_json_export :: "string \<Rightarrow> string list \<Rightarrow> VaultEntry list \<Rightarrow> string + string"
  e_json_login :: "string \<Rightarrow> string \<Rightarrow> string \<Rightarrow> string + string"
  e_json_print :: "json \<Rightarrow> string"

record store =
  st_disk :: disk
  st_rng :: rng

definition on_disk :: "'a io \<Rightarrow> ('s store_scheme, 'a) run" where
  "on_disk = zoom st_disk (\<lambda>d w. w\<lparr>st_disk := d\<rparr>)"

definition on_rng :: "'a rnd \<Rightarrow> ('s store_scheme, 'a) run" where
  "on_rng = zoom st_rng (\<lambda>r w. w\<lparr>st_rng := r\<rparr>)"

section \<open>Loading and saving\<close>

definition existing_alias :: "path \<Rightarrow> ('s store_scheme, string option) run" where
  "existing_alias p = rbind (rtry (on_disk (read_vault p))) (\<lambda>r.
     rret (case r of Inr v \<Rightarrow> sv_alias v | Inl _ \<Rightarrow> None))"

definition save_vault :: "env \<Rightarrow> VaultBody \<Rightarrow> bytes \<Rightarrow> path \<Rightarrow> ('s store_scheme, unit) run" where
  "save_vault E body passphrase p =
     rbind (existing_alias p) (\<lambda>al.
     rbind (rlift (serialize_vault_body (e_serde E) body)) (\<lambda>plaintext.
     rbind (on_rng (seal_vault (e_crypto E) passphrase plaintext al)) (\<lambda>sealed.
       on_disk (write_vault sealed p))))"

definition load_vault :: "env \<Rightarrow> bytes \<Rightarrow> path \<Rightarrow> ('s store_scheme, VaultBody) run" where
  "load_vault E passphrase p =
     rbind (on_disk (read_vault p)) (\<lambda>sealed.
     rbind (rlift (open_vault (e_crypto E) passphrase sealed)) (\<lambda>plaintext.
       rlift (deserialize_vault_body (e_serde E) plaintext)))"

definition save_vault_with_keys ::
  "env \<Rightarrow> VaultBody \<Rightarrow> bytes \<Rightarrow> YubiKeyRegistration list \<Rightarrow> path \<Rightarrow> ('s store_scheme, unit) run" where
  "save_vault_with_keys E body passphrase keys p =
     rbind (existing_alias p) (\<lambda>al.
     rbind (rlift (serialize_vault_body (e_serde E) body)) (\<lambda>plaintext.
     rbind (on_rng (seal_vault_with_keys (e_crypto E) passphrase keys plaintext al)) (\<lambda>sealed.
       on_disk (write_vault sealed p))))"

definition load_vault_with_key_record ::
  "env \<Rightarrow> bytes \<Rightarrow> bytes \<Rightarrow> bytes \<Rightarrow> path \<Rightarrow> ('s store_scheme, VaultBody \<times> bytes \<times> bytes option) run" where
  "load_vault_with_key_record E passphrase hmac_secret credential_id p =
     rbind (on_disk (read_vault p)) (\<lambda>sealed.
     rbind (rlift (open_vault_with_key_record (e_crypto E) passphrase hmac_secret credential_id sealed))
       (\<lambda>(plaintext, master, wrapping_key).
     rbind (rlift (deserialize_vault_body (e_serde E) plaintext)) (\<lambda>body.
       rret (body, master, wrapping_key))))"

definition reseal_on_disk :: "env \<Rightarrow> VaultBody \<Rightarrow> bytes \<Rightarrow> path \<Rightarrow> ('s store_scheme, unit) run" where
  "reseal_on_disk E body vault_key_master p =
     rbind (on_disk (read_vault p)) (\<lambda>sealed.
     rbind (rlift (serialize_vault_body (e_serde E) body)) (\<lambda>plaintext.
     rbind (on_rng (reseal_vault_body (e_crypto E) sealed vault_key_master plaintext)) (\<lambda>new_sealed.
       on_disk (write_vault new_sealed p))))"

section \<open>Changing credentials\<close>

definition change_passphrase :: "env \<Rightarrow> path \<Rightarrow> bytes \<Rightarrow> bytes \<Rightarrow> ('s store_scheme, unit) run" where
  "change_passphrase E p old_passphrase new_passphrase =
     rbind (load_vault E old_passphrase p) (\<lambda>entries. save_vault E entries new_passphrase p)"

definition change_passphrase_with_keys ::
  "env \<Rightarrow> bytes \<Rightarrow> bytes \<Rightarrow> bytes \<Rightarrow> bytes \<Rightarrow> path \<Rightarrow> ('s store_scheme, unit) run" where
  "change_passphrase_with_keys E old_passphrase new_passphrase vault_key_master body_plaintext p =
     rbind (on_disk (read_vault p)) (\<lambda>sealed.
     rbind (on_rng (change_vault_passphrase_with_keys (e_crypto E) sealed old_passphrase new_passphrase)) (\<lambda>s1.
     rbind (on_rng (reseal_vault_body (e_crypto E) s1 vault_key_master body_plaintext)) (\<lambda>s2.
       on_disk (write_vault s2 p))))"

definition add_yubikey_to_vault ::
  "env \<Rightarrow> bytes \<Rightarrow> bytes \<Rightarrow> bytes \<Rightarrow> bytes \<Rightarrow> bytes \<Rightarrow> bytes \<Rightarrow> path \<Rightarrow> ('s store_scheme, unit) run" where
  "add_yubikey_to_vault E body_plaintext wrapping_key vault_key_master new_cred_id new_hmac new_salt p =
     rbind (on_disk (read_vault p)) (\<lambda>sealed.
     rbind (on_rng (add_key_to_sealed (e_crypto E) sealed new_cred_id new_hmac new_salt wrapping_key vault_key_master)) (\<lambda>s1.
     rbind (on_rng (reseal_vault_body (e_crypto E) s1 vault_key_master body_plaintext)) (\<lambda>s2.
       on_disk (write_vault s2 p))))"

definition remove_yubikey_from_vault ::
  "env \<Rightarrow> bytes \<Rightarrow> bytes \<Rightarrow> bytes \<Rightarrow> path \<Rightarrow> ('s store_scheme, unit) run" where
  "remove_yubikey_from_vault E body_plaintext vault_key_master cred_id p =
     rbind (on_disk (read_vault p)) (\<lambda>sealed.
     rbind (rlift (remove_key_from_sealed sealed cred_id)) (\<lambda>s1.
     rbind (on_rng (reseal_vault_body (e_crypto E) s1 vault_key_master body_plaintext)) (\<lambda>s2.
       on_disk (write_vault s2 p))))"

section \<open>Exporting and deleting\<close>

definition build_passphrase_only_bytes :: "env \<Rightarrow> VaultBody \<Rightarrow> bytes \<Rightarrow> ('s store_scheme, bytes) run" where
  "build_passphrase_only_bytes E body passphrase =
     rbind (rlift (serialize_vault_body (e_serde E) body)) (\<lambda>plaintext.
     rbind (on_rng (seal_vault (e_crypto E) passphrase plaintext None)) (\<lambda>sealed.
       rret (to_bytes sealed)))"

definition hex_digit :: "nat \<Rightarrow> char" where
  "hex_digit n = (if n < 10 then char_of (48 + n) else char_of (87 + n))"

definition hex_byte :: "byte \<Rightarrow> string" where
  "hex_byte b = [hex_digit (unat b div 16), hex_digit (unat b mod 16)]"

definition sha256_line :: "env \<Rightarrow> bytes \<Rightarrow> string \<Rightarrow> string" where
  "sha256_line E vault_bytes filename =
     concat (map hex_byte (e_sha256 E vault_bytes)) @ ''  '' @ filename @ [CHR 0x0A]"

text \<open>\<open>Path::file_name\<close> and \<open>Path::with_extension\<close>, on the reversed path: trailing separators and current-directory
  components are not part of the name.\<close>

fun trim_tail_rev :: "string \<Rightarrow> string" where
  "trim_tail_rev [] = []"
| "trim_tail_rev (c # cs) =
     (if c = CHR ''/'' \<or> c = CHR ''.'' \<and> take 1 cs = ''/'' then trim_tail_rev cs else c # cs)"

definition file_name :: "path \<Rightarrow> string option" where
  "file_name p =
     (let n = rev (takeWhile (\<lambda>c. c \<noteq> CHR ''/'') (trim_tail_rev (rev p)))
      in if n \<in> {[], ''.'', ''..''} then None else Some n)"

definition file_stem :: "string \<Rightarrow> string" where
  "file_stem n =
     (let before = rev (drop 1 (dropWhile (\<lambda>c. c \<noteq> CHR ''.'') (rev n)))
      in if CHR ''.'' \<notin> set n \<or> before = [] then n else before)"

definition with_extension :: "path \<Rightarrow> string \<Rightarrow> path" where
  "with_extension p ext =
     (case file_name p of
        None \<Rightarrow> p
      | Some n \<Rightarrow> rev (drop (length n) (trim_tail_rev (rev p))) @ file_stem n @ ''.'' @ ext)"

definition write_sha256_companion :: "env \<Rightarrow> path \<Rightarrow> bytes \<Rightarrow> unit io" where
  "write_sha256_companion E export_path vault_bytes =
     atomic_write_0600 (with_extension export_path ''gabbro.sha256'')
       (str_bytes (sha256_line E vault_bytes (unwrap_or (file_name export_path) ''vault.gabbro'')))"

definition export_vault :: "env \<Rightarrow> VaultBody \<Rightarrow> bytes \<Rightarrow> path \<Rightarrow> ('s store_scheme, unit) run" where
  "export_vault E body passphrase export_path =
     rbind (build_passphrase_only_bytes E body passphrase) (\<lambda>vault_bytes.
     rthen (on_disk (atomic_write_0600 export_path vault_bytes))
           (on_disk (write_sha256_companion E export_path vault_bytes)))"

definition export_vault_preserving :: "env \<Rightarrow> path \<Rightarrow> path \<Rightarrow> unit io" where
  "export_vault_preserving E source_path export_path =
     rbind (sys_err ''Failed to read vault for export: '' (fs_read source_path)) (\<lambda>vault_bytes.
     rthen (atomic_write_0600 export_path vault_bytes)
           (write_sha256_companion E export_path vault_bytes))"

definition delete_whole_vault :: "path \<Rightarrow> unit io" where
  "delete_whole_vault p =
     rthen (sys_err ''Failed to delete vault: '' (remove_file p))
    (rthen (remove_backup p) (remove_pre_restore p))"

section \<open>Notions the lemmas are stated with\<close>

text \<open>The state after a save, when the next call will not fail and the file fits the 64-bit length field.\<close>

definition settled :: "'s store_scheme \<Rightarrow> path \<Rightarrow> bool" where
  "settled w p = (d_faults (st_disk w) = [] \<and> (\<forall>b. holds (d_fs (st_disk w)) p b \<longrightarrow> length b < 2 ^ 64))"

text \<open>The vault on disk can be opened with a passphrase and a security key, which give a master key.\<close>

definition key_opens :: "crypto \<Rightarrow> bytes \<times> bytes \<times> bytes \<times> bytes \<Rightarrow> path \<Rightarrow> fs \<Rightarrow> bool" where
  "key_opens C k p fs = (case k of (pw, hmac, cred, master) \<Rightarrow>
     \<exists>b s wk x. read_bytes fs p = Inr b \<and> from_bytes b = Inr s \<and> passphrase_gives C pw s wk
       \<and> record_for s cred = Some x \<and> record_gives C wk hmac x master)"

text \<open>A run of saves.\<close>

fun save_run :: "('b \<Rightarrow> 'w \<Rightarrow> 'w \<Rightarrow> bool) \<Rightarrow> 'b list \<Rightarrow> 'w \<Rightarrow> 'w \<Rightarrow> bool" where
  "save_run step [] w w' = (w' = w)"
| "save_run step (b # bs) w w' = (\<exists>w1. step b w w1 \<and> save_run step bs w1 w')"

definition sample_env :: env where
  "sample_env = \<lparr>e_crypto = tag_crypto, e_serde = sample_serde, e_sha256 = (\<lambda>b. take 32 (b @ replicate 32 0)),
     e_b64enc = bytes_str, e_b64dec = (\<lambda>s. Some (str_bytes s)), e_hash_order = id, e_uuid = bytes_str, e_lower = id,
     e_json_export = (\<lambda>_ _ _. Inr []), e_json_login = (\<lambda>_ _ _. Inr []), e_json_print = (\<lambda>_. [])\<rparr>"

definition sample_store :: store where
  "sample_store = \<lparr>st_disk = sample_disk, st_rng = (\<lambda>_. 0)\<rparr>"

section \<open>Running on a part of the state\<close>

lemma on_disk_Inr [rnd_simps]:
  "on_disk m w = (Inr x, w') \<longleftrightarrow> (\<exists>d. m (st_disk w) = (Inr x, d) \<and> w' = w\<lparr>st_disk := d\<rparr>)"
  by (auto simp: on_disk_def zoom_def split: prod.splits)

lemma on_rng_Inr [rnd_simps]:
  "on_rng m w = (Inr x, w') \<longleftrightarrow> (\<exists>r. m (st_rng w) = (Inr x, r) \<and> w' = w\<lparr>st_rng := r\<rparr>)"
  by (auto simp: on_rng_def zoom_def split: prod.splits)

lemma read_vault_triple:
  "crash_triple q (\<lambda>fs. fs = f0) (\<lambda>fs. fs = f0) (read_vault p)
     (\<lambda>s fs. fs = f0 \<and> (\<exists>b. read_bytes f0 p = Inr b \<and> from_bytes b = Inr s))"
  unfolding read_vault_def
proof -
  have "crash_triple q (\<lambda>fs. fs = f0) (\<lambda>fs. fs = f0)
     (rbind (sys_err ''Failed to read vault: '' (fs_read p)) (\<lambda>b. rlift (from_bytes b)))
     (\<lambda>s fs. fs = f0 \<and> (\<exists>b. read_bytes f0 p = Inr b \<and> from_bytes b = Inr s))"
    by (rule triple_bind [OF triple_read [where P = "\<lambda>fs. fs = f0"]]) (auto intro!: triple_lift)
  then show "crash_triple q (\<lambda>fs. fs = f0) (\<lambda>fs. fs = f0) (rthen (check_not_symlink p)
     (rbind (sys_err ''Failed to read vault: '' (fs_read p)) (\<lambda>b. rlift (from_bytes b))))
     (\<lambda>s fs. fs = f0 \<and> (\<exists>b. read_bytes f0 p = Inr b \<and> from_bytes b = Inr s))"
    by (rule triple_then [OF triple_weaken [OF triple_check [where P = "\<lambda>fs. fs = f0"]], rotated 3]) auto
qed

lemma read_vault_same: "read_vault p d = (r, d') \<Longrightarrow> d_fs d' = d_fs d"
  using triple_passed(2) [OF read_vault_triple [of False "d_fs d" p], of d r d'] by simp

lemma read_vault_Inr:
  "read_vault p d = (Inr s, d') \<Longrightarrow> \<exists>b. read_bytes (d_fs d) p = Inr b \<and> from_bytes b = Inr s"
  using triple_passed(3) [OF read_vault_triple [of False "d_fs d" p], of d "Inr s" d' s] by simp

lemma existing_alias_Inr:
  assumes "existing_alias p w = (Inr al, w')"
  shows "alias_wf al" and "\<exists>d. w' = w\<lparr>st_disk := d\<rparr> \<and> d_fs d = d_fs (st_disk w)"
proof -
  obtain r d where r: "read_vault p (st_disk w) = (r, d)" by (rule prod.exhaust)
  from assms r have al: "al = (case r of Inr v \<Rightarrow> sv_alias v | Inl _ \<Rightarrow> None)" and w': "w' = w\<lparr>st_disk := d\<rparr>"
    by (auto simp: existing_alias_def rbind_def rtry_def on_disk_def zoom_def rret_def)
  show "\<exists>d. w' = w\<lparr>st_disk := d\<rparr> \<and> d_fs d = d_fs (st_disk w)" using w' read_vault_same [OF r] by blast
  show "alias_wf al"
  proof (cases r)
    case (Inl e)
    then show ?thesis by (simp add: al alias_wf_def)
  next
    case (Inr v)
    with r read_vault_Inr obtain b where "from_bytes b = Inr v" by blast
    from from_bytes_Inr [OF this] show ?thesis by (simp add: al Inr sealed_wf_def header_wf_def)
  qed
qed

lemma written_reads_back:
  assumes "write_vault s p (st_disk w) = (Inr (), d)" and "w' = w\<lparr>st_disk := d\<rparr>" and "settled w' p"
    and "header_wf s" and "length (sv_nonce s) = 12" and "sv_version s = VERSION"
  shows "on_disk (read_vault p) w' = (Inr s, w')" and "holds (d_fs d) p (to_bytes s)" and "from_bytes (to_bytes s) = Inr s"
proof -
  show h: "holds (d_fs d) p (to_bytes s)" using write_vault_Inr [OF assms(1)] by (auto simp: replaced_def holds_def)
  then have "length (to_bytes s) < 2 ^ 64" using assms(2,3) by (simp add: settled_def)
  with assms(4-6) have "sealed_wf s" by (simp add: sealed_wf_def VERSION_def VERSION_MIN_READABLE_def)
  then show fb: "from_bytes (to_bytes s) = Inr s" using from_bytes_to_bytes [of s "[]"] by simp
  from read_vault_quiet [OF _ h fb] assms(2,3) show "on_disk (read_vault p) w' = (Inr s, w')"
    by (simp add: on_disk_def zoom_def settled_def)
qed

section \<open>A storage back end\<close>

text \<open>What a session relies on: what was saved last is what loads. A key of type \<open>'k\<close> stands for the
  credentials, \<open>ready\<close> for what must be on disk before.\<close>

locale vault_backend =
  fixes save :: "'k \<Rightarrow> VaultBody \<Rightarrow> path \<Rightarrow> ('s store_scheme, unit) run"
    and load :: "'k \<Rightarrow> path \<Rightarrow> ('s store_scheme, VaultBody) run"
    and ready :: "'k \<Rightarrow> path \<Rightarrow> 's store_scheme \<Rightarrow> bool"
  assumes load_saved: "\<lbrakk>ready k p w; save k b p w = (Inr (), w'); settled w' p\<rbrakk> \<Longrightarrow> load k p w' = (Inr b, w')"
    and save_ready: "\<lbrakk>ready k p w; save k b p w = (Inr (), w'); settled w' p\<rbrakk> \<Longrightarrow> ready k p w'"
begin

lemma last_save_loads:
  assumes "ready k p w" and "save_run (\<lambda>b w w1. save k b p w = (Inr (), w1) \<and> settled w1 p) bs w w'" and "bs \<noteq> []"
  shows "load k p w' = (Inr (last bs), w')"
  using assms
proof (induction bs arbitrary: w)
  case (Cons b bs)
  then obtain w1 where s: "save k b p w = (Inr (), w1)" "settled w1 p"
    "save_run (\<lambda>b w w1. save k b p w = (Inr (), w1) \<and> settled w1 p) bs w1 w'" by auto
  show ?case
  proof (cases "bs = []")
    case True
    with s load_saved [OF Cons.prems(1)] show ?thesis by auto
  next
    case False
    with Cons.IH [OF save_ready [OF Cons.prems(1) s(1,2)] s(3)] show ?thesis by simp
  qed
qed simp

end

lemma save_vault_loads:
  assumes "save_vault E b pw p w = (Inr (), w')" and "aead_correct (e_crypto E)" and "serde_roundtrip (e_serde E)"
    and "settled w' p"
  shows "load_vault E pw p w' = (Inr b, w')"
proof -
  from assms(1) obtain al w1 pt s r d where al: "existing_alias p w = (Inr al, w1)"
    and pt: "serialize_vault_body (e_serde E) b = Inr pt"
    and s: "seal_vault (e_crypto E) pw pt al (st_rng w1) = (Inr s, r)"
    and wr: "write_vault s p (st_disk (w1\<lparr>st_rng := r\<rparr>)) = (Inr (), d)" and w': "w' = w1\<lparr>st_rng := r\<rparr>\<lparr>st_disk := d\<rparr>"
    unfolding save_vault_def by (auto simp: rnd_simps)
  note seal = s [unfolded seal_vault_def]
  have "header_wf s" using seal_vault_wf [OF seal] existing_alias_Inr(1) [OF al] by (simp add: header_wf_def)
  note rd = written_reads_back(1) [OF wr w' assms(4) this seal_vault_wf(3,4) [OF seal]]
  show ?thesis
    using rd seal_vault_opens [OF seal assms(2)] body_roundtrip_lemma [OF pt assms(3)]
    by (simp add: load_vault_def rbind_def rlift_def)
qed

lemma reseal_loads:
  assumes "reseal_on_disk E b master p w = (Inr (), w')" and "key_opens (e_crypto E) (pw, hmac, cred, master) p (d_fs (st_disk w))"
    and "aead_correct (e_crypto E)" and "serde_roundtrip (e_serde E)" and "settled w' p"
  shows "\<exists>wk. load_vault_with_key_record E pw hmac cred p w' = (Inr (b, master, Some wk), w')"
    and "key_opens (e_crypto E) (pw, hmac, cred, master) p (d_fs (st_disk w'))"
proof -
  let ?C = "e_crypto E"
  from assms(1) obtain s d1 pt s2 r d where rd: "read_vault p (st_disk w) = (Inr s, d1)"
    and pt: "serialize_vault_body (e_serde E) b = Inr pt"
    and s: "reseal_vault_body ?C s master pt (st_rng w) = (Inr s2, r)"
    and wr: "write_vault s2 p (st_disk (w\<lparr>st_disk := d1\<rparr>\<lparr>st_rng := r\<rparr>)) = (Inr (), d)"
    and w': "w' = w\<lparr>st_disk := d1\<rparr>\<lparr>st_rng := r\<rparr>\<lparr>st_disk := d\<rparr>"
    unfolding reseal_on_disk_def by (auto simp: rnd_simps)
  from read_vault_Inr [OF rd] assms(2) obtain b0 wk x where fb: "from_bytes b0 = Inr s"
    and g: "passphrase_gives ?C pw s wk" "record_for s cred = Some x" "record_gives ?C wk hmac x master"
    by (auto simp: key_opens_def)
  note keep = encrypt_body_keeps [OF s [unfolded reseal_vault_body_def]]
  have "header_wf s2" using from_bytes_Inr [OF fb] keep by (simp add: sealed_wf_def header_wf_def)
  note bck = written_reads_back [OF wr w' assms(5) this keep(8)]
  have v: "sv_version s2 = VERSION" using keep(7) by simp
  have opn: "open_vault_with_key_record ?C pw hmac cred s2 = Inr (pt, master, Some wk)"
    by (rule reseal_opens [OF s assms(3) g])
  then show "\<exists>wk. load_vault_with_key_record E pw hmac cred p w' = (Inr (b, master, Some wk), w')"
    using bck(1) [OF v] body_roundtrip_lemma [OF pt assms(4)]
    by (simp add: load_vault_with_key_record_def rbind_def rlift_def rret_def)
  have "read_bytes (d_fs d) p = Inr (to_bytes s2)"
    using bck(2) [OF v] by (auto simp: holds_def intro: read_regular split: option.splits node.splits)
  with bck(3) [OF v] opn show "key_opens ?C (pw, hmac, cred, master) p (d_fs (st_disk w'))"
    by (auto simp: key_opens_def open_with_key_iff w')
qed

interpretation pwb: vault_backend "\<lambda>(E, pw) b p. save_vault E b pw p" "\<lambda>(E, pw) p. load_vault E pw p"
  "\<lambda>(E, pw) p w. aead_correct (e_crypto E) \<and> serde_roundtrip (e_serde E)"
  by unfold_locales (auto intro: save_vault_loads)

interpretation keyb: vault_backend "\<lambda>(E, pw, hmac, cred, master) b p. reseal_on_disk E b master p"
  "\<lambda>(E, pw, hmac, cred, master) p. rbind (load_vault_with_key_record E pw hmac cred p) (\<lambda>(b, _). rret b)"
  "\<lambda>(E, k) p w. aead_correct (e_crypto E) \<and> serde_roundtrip (e_serde E) \<and> key_opens (e_crypto E) k p (d_fs (st_disk w))"
proof (unfold_locales, goal_cases)
  case (1 k p w b w')
  then show ?case using reseal_loads(1) by (cases k) (fastforce simp: rbind_def rret_def)
next
  case (2 k p w b w')
  then show ?case using reseal_loads(2) by (cases k) (auto simp: case_prod_beta)
qed

section \<open>Changed credentials on disk\<close>

text \<open>The end of every credential change: the changed vault is resealed and written.\<close>

lemma resealed_written_loads:
  assumes "reseal_vault_body C s1 master pt r = (Inr s2, r')" and "header_wf s1"
    and "passphrase_gives C pw s1 wk" and "record_for s1 cred = Some x" and "record_gives C wk hmac x master"
    and "write_vault s2 p (st_disk w) = (Inr (), d)" and "w' = w\<lparr>st_disk := d\<rparr>" and "settled w' p"
    and "aead_correct C" and "serde_roundtrip (e_serde E)" and "e_crypto E = C" and "serialize_vault_body (e_serde E) b = Inr pt"
  shows "load_vault_with_key_record E pw hmac cred p w' = (Inr (b, master, Some wk), w')"
proof -
  note keep = encrypt_body_keeps [OF assms(1) [unfolded reseal_vault_body_def]]
  have "header_wf s2" using assms(2) keep by (simp add: header_wf_def)
  moreover have "sv_version s2 = VERSION" using keep(7) by simp
  ultimately have "on_disk (read_vault p) w' = (Inr s2, w')"
    using written_reads_back(1) [OF assms(6-8) _ keep(8)] by blast
  with reseal_opens [OF assms(1,9,3-5)] body_roundtrip_lemma [OF assms(12,10)] show ?thesis
    by (simp add: load_vault_with_key_record_def rbind_def rlift_def rret_def assms(11))
qed

lemma key_opensE:
  assumes "key_opens C (pw, hmac, cred, master) p fs" and "read_bytes fs p = Inr b" and "from_bytes b = Inr s"
  obtains wk x where "passphrase_gives C pw s wk" "record_for s cred = Some x" "record_gives C wk hmac x master" "header_wf s"
  using assms from_bytes_Inr [OF assms(3)] by (auto simp: key_opens_def sealed_wf_def)

lemma change_passphrase_header_wf:
  assumes "change_vault_passphrase_with_keys C s old new r = (Inr s', r')"
    and "aead_correct C" and "aead_lengths C" and "passphrase_gives C old s wk" and "header_wf s"
  shows "header_wf s'"
proof -
  note ch = change_passphrase_Inr [OF assms(1-4)]
  have "length (sv_argon2_salt s') = 32" "length (sv_hkdf_salt s') = 32"
    using assms(1) unfolding change_vault_passphrase_with_keys_def
    by (auto simp: rnd_simps dest!: fill_bytes_length split: if_splits)
  moreover have "length (sv_passphrase_blob s') = 60" using ch(1) by (auto simp: passphrase_gives_def)
  ultimately show ?thesis using assms(5) ch(2,3) by (simp add: header_wf_def)
qed

lemma passphrase_change_loads:
  assumes "change_passphrase_with_keys E old new master pt p w = (Inr (), w')"
    and "key_opens (e_crypto E) (old, hmac, cred, master) p (d_fs (st_disk w))"
    and "aead_correct (e_crypto E)" and "aead_lengths (e_crypto E)" and "serde_roundtrip (e_serde E)"
    and "serialize_vault_body (e_serde E) b = Inr pt" and "settled w' p"
  shows "\<exists>wk. load_vault_with_key_record E new hmac cred p w' = (Inr (b, master, Some wk), w')"
proof -
  let ?C = "e_crypto E"
  from assms(1) obtain s d1 s1 r1 s2 r2 d where rd: "read_vault p (st_disk w) = (Inr s, d1)"
    and ch: "change_vault_passphrase_with_keys ?C s old new (st_rng w) = (Inr s1, r1)"
    and rs: "reseal_vault_body ?C s1 master pt r1 = (Inr s2, r2)"
    and wr: "write_vault s2 p (st_disk (w\<lparr>st_disk := d1, st_rng := r2\<rparr>)) = (Inr (), d)"
    and w': "w' = w\<lparr>st_disk := d1, st_rng := r2\<rparr>\<lparr>st_disk := d\<rparr>"
    unfolding change_passphrase_with_keys_def by (auto simp: rnd_simps)
  from read_vault_Inr [OF rd] obtain b0 where b0: "read_bytes (d_fs (st_disk w)) p = Inr b0" "from_bytes b0 = Inr s" by blast
  obtain wk x where g: "passphrase_gives ?C old s wk" "record_for s cred = Some x" "record_gives ?C wk hmac x master" "header_wf s"
    by (rule key_opensE [OF assms(2) b0])
  note c = change_passphrase_Inr [OF ch assms(3,4) g(1)]
  have x: "record_for s1 cred = Some x" using g(2) c(2) by (simp add: record_for_def)
  note hw = change_passphrase_header_wf [OF ch assms(3,4) g(1,4)]
  from resealed_written_loads [OF rs hw c(1) x g(3) wr w' assms(7,3,5) refl assms(6)] show ?thesis by blast
qed

text \<open>Creating a vault with security keys: each of them opens it.\<close>

lemma records_wf:
  assumes "list_all2 (\<lambda>k x. yr_credential_id x = reg_credential_id k \<and> yr_salt x = reg_salt k
      \<and> record_gives C wk (reg_hmac_secret k) x master) keys rs"
    and "\<forall>k \<in> set keys. length (reg_credential_id k) < 65536 \<and> length (reg_salt k) = 32"
  shows "list_all record_wf rs"
proof -
  have "record_wf (rs ! i)" if "i < length rs" for i
    using assms that by (auto simp: list_all2_conv_all_nth record_wf_def record_gives_def dest!: spec [of _ i])
  then show ?thesis by (simp add: list_all_length)
qed

lemma created_key_opens:
  assumes "save_vault_with_keys E b pw keys p w = (Inr (), w')"
    and "aead_correct (e_crypto E)" and "aead_lengths (e_crypto E)" and "settled w' p"
    and "distinct (map reg_credential_id keys)" and "length keys < 256"
    and "\<forall>k \<in> set keys. length (reg_credential_id k) < 65536 \<and> length (reg_salt k) = 32"
  shows "\<exists>master. \<forall>k \<in> set keys. key_opens (e_crypto E) (pw, reg_hmac_secret k, reg_credential_id k, master) p (d_fs (st_disk w'))"
proof -
  let ?C = "e_crypto E"
  from assms(1) obtain al w1 pt s r d where al: "existing_alias p w = (Inr al, w1)"
    and s: "seal_vault_with_keys ?C pw keys pt al (st_rng w1) = (Inr s, r)"
    and wr: "write_vault s p (st_disk (w1\<lparr>st_rng := r\<rparr>)) = (Inr (), d)" and w': "w' = w1\<lparr>st_rng := r\<rparr>\<lparr>st_disk := d\<rparr>"
    unfolding save_vault_with_keys_def by (auto simp: rnd_simps)
  obtain wk master where pg: "passphrase_gives ?C pw s wk"
    and l: "list_all2 (\<lambda>k x. yr_credential_id x = reg_credential_id k \<and> (yr_salt x = reg_salt k
       \<and> record_gives ?C wk (reg_hmac_secret k) x master)) keys (sv_yubikey_records s)"
    by (rule seal_keys_structure [OF s assms(2,3)])
  have "header_wf s"
    using seal_keys_fields [OF s] existing_alias_Inr(1) [OF al] records_wf [OF l assms(7)] list_all2_lengthD [OF l] assms(6) pg
    by (auto simp: header_wf_def passphrase_gives_def)
  note bck = written_reads_back(2,3) [OF wr w' assms(4) this seal_keys_fields(3,4) [OF s]]
  have rb: "read_bytes (d_fs d) p = Inr (to_bytes s)"
    using bck(1) by (auto simp: holds_def intro: read_regular split: option.splits node.splits)
  have "key_opens ?C (pw, reg_hmac_secret k, reg_credential_id k, master) p (d_fs (st_disk w'))" if k: "k \<in> set keys" for k
  proof -
    obtain x where "record_for s (reg_credential_id k) = Some x" "record_gives ?C wk (reg_hmac_secret k) x master"
      using record_for_distinct [OF l assms(5) k] by auto
    with rb bck(2) pg show ?thesis by (auto simp: key_opens_def w')
  qed
  then show ?thesis by blast
qed

section \<open>Concrete runs\<close>

lemma sample_serde_ok: "serde_roundtrip sample_serde" "serialize_vault_body sample_serde VaultBody_empty = Inr [0x7B, 0x7D]"
  by (auto simp: serde_roundtrip_def sample_serde_def is_ascii_whitespace_def ix_get_def serialize_vault_body_def ser_err_def
      split: if_splits)

lemma sample_alias: "existing_alias ''v'' sample_store = (Inr None, sample_store)"
proof -
  have c: "check_not_symlink ''v'' sample_disk = (Inr (), sample_disk)"
    by (rule check_quiet) (simp_all add: sample_disk_def is_link_def)
  have "sys_err m (fs_read ''v'') sample_disk = (Inl (Err (m @ show_io NotFound)), sample_disk)" for m
    by (simp add: sys_err_def fs_read_def syscall_def next_fault_def sample_disk_def numeral_nat)
  with c show ?thesis
    by (simp add: existing_alias_def rbind_def rtry_def on_disk_def zoom_def read_vault_def rthen_def rret_def sample_store_def)
qed

lemma sample_written:
  assumes "from_bytes (to_bytes s) = Inr s" and "length (to_bytes s) < 2 ^ 64" and "st_disk w = sample_disk"
  obtains d where "write_vault s ''v'' (st_disk w) = (Inr (), d)" and "settled (w\<lparr>st_disk := d\<rparr>) ''v''"
    and "on_disk (write_vault s ''v'') w = (Inr (), w\<lparr>st_disk := d\<rparr>)"
    and "\<forall>q \<in> {''v'', tmp_path ''v'', bak_path ''v'', tmp_path (bak_path ''v'')}. plain (d_fs d) q"
proof -
  have "\<forall>q \<in> {''v'', tmp_path ''v'', bak_path ''v'', tmp_path (bak_path ''v'')}. plain (d_fs sample_disk) q"
    by (simp add: sample_disk_def plain_def)
  from write_quiet [OF _ _ this, of s] assms(1) obtain d where d: "write_vault s ''v'' sample_disk = (Inr (), d)" "d_faults d = []"
    by (auto simp: sample_disk_def is_ok_def)
  note i = write_vault_Inr [OF d(1)]
  have "holds (d_fs d) ''v'' (to_bytes s)" using i by (auto simp: replaced_def holds_def)
  then have "settled (w\<lparr>st_disk := d\<rparr>) ''v''"
    using assms(2) d(2) by (auto simp: settled_def holds_def split: option.splits node.splits)
  moreover have "\<forall>q \<in> {''v'', tmp_path ''v'', bak_path ''v'', tmp_path (bak_path ''v'')}. plain (d_fs d) q"
    using i by (auto simp: replaced_def plain_def)
  ultimately show ?thesis using that d(1) assms(3) by (simp add: on_disk_def zoom_def)
qed

lemma sample_saved:
  obtains w' where "save_vault sample_env VaultBody_empty pw ''v'' sample_store = (Inr (), w')" and "settled w' ''v''"
proof -
  obtain s r where s: "seal_vault tag_crypto pw [0x7B, 0x7D] None (\<lambda>_. 0) = (Inr s, r)"
    using total_seal(2) by (rule total_rndE)
  note wf = seal_vault_wf [OF s [unfolded seal_vault_def]]
  have "length (sv_ciphertext s) = 18"
    using s unfolding seal_vault_def seal_vault_with_params_def
    by (auto simp: rnd_simps toy_runs elim!: encrypt_body_Inr)
  then have l: "length (to_bytes s) < 2 ^ 64"
    using wf by (simp add: to_bytes_def records_bytes_def u16_prefixed_def alias_bytes_def)
  then have "sealed_wf s" using wf by (simp add: sealed_wf_def header_wf_def alias_wf_def VERSION_def VERSION_MIN_READABLE_def)
  then have fb: "from_bytes (to_bytes s) = Inr s" using from_bytes_to_bytes [of s "[]"] by simp
  let ?w = "sample_store\<lparr>st_rng := r\<rparr>"
  obtain d where w: "settled (?w\<lparr>st_disk := d\<rparr>) ''v''" "on_disk (write_vault s ''v'') ?w = (Inr (), ?w\<lparr>st_disk := d\<rparr>)"
    by (rule sample_written [OF fb l, of ?w]) (simp add: sample_store_def)
  have "on_rng (seal_vault tag_crypto pw [0x7B, 0x7D] None) sample_store = (Inr s, ?w)"
    using s by (simp add: on_rng_def zoom_def sample_store_def)
  then have "save_vault sample_env VaultBody_empty pw ''v'' sample_store = (Inr (), ?w\<lparr>st_disk := d\<rparr>)"
    using w(2) by (simp add: save_vault_def rbind_def sample_alias rlift_def sample_env_def sample_serde_ok(2))
  with w(1) show ?thesis using that by blast
qed

section \<open>Properties of the storage layer\<close>

text \<open>After any number of successful saves, the vault loads with the passphrase and gives the body saved last.\<close>

theorem last_save_loads_back:
  assumes "save_run (\<lambda>b w w1. save_vault E b pw p w = (Inr (), w1) \<and> settled w1 p) bs w w'" and "bs \<noteq> []"
    and "aead_correct (e_crypto E)" and "serde_roundtrip (e_serde E)"
  shows "load_vault E pw p w' = (Inr (last bs), w')"
  using pwb.last_save_loads [of "(E, pw)" p w bs w'] assms by simp

theorem last_save_loads_back_witness:
  "\<exists>w'. save_vault sample_env VaultBody_empty [1] ''v'' sample_store = (Inr (), w')
     \<and> load_vault sample_env [1] ''v'' w' = (Inr VaultBody_empty, w')"
proof -
  obtain w' where w: "save_vault sample_env VaultBody_empty [1] ''v'' sample_store = (Inr (), w')" "settled w' ''v''"
    by (rule sample_saved)
  have "load_vault sample_env [1] ''v'' w' = (Inr (last [VaultBody_empty]), w')"
    by (rule last_save_loads_back [where w = sample_store])
      (use w in \<open>simp_all add: sample_env_def sample_serde_ok tag_crypto_ok\<close>)
  with w(1) show ?thesis by auto
qed

text \<open>The same for a session opened with a security key, whose saves reseal the body under the master key: the
  passphrase and the key load the body saved last.\<close>

theorem key_session_saves_load_back:
  assumes "save_run (\<lambda>b w w1. reseal_on_disk E b master p w = (Inr (), w1) \<and> settled w1 p) bs w w'" and "bs \<noteq> []"
    and "key_opens (e_crypto E) (pw, hmac, cred, master) p (d_fs (st_disk w))"
    and "aead_correct (e_crypto E)" and "serde_roundtrip (e_serde E)"
  shows "rbind (load_vault_with_key_record E pw hmac cred p) (\<lambda>(b, _). rret b) w' = (Inr (last bs), w')"
  using keyb.last_save_loads [of "(E, pw, hmac, cred, master)" p w bs w'] assms by simp

lemma to_bytes_bound:
  assumes "header_wf s" and "length (sv_nonce s) = 12"
  shows "length (to_bytes s) < 2 ^ 40 + length (sv_ciphertext s)"
proof -
  have r: "length (record_bytes x) \<le> 200000" if "record_wf x" for x
    using that by (simp add: record_bytes_def record_wf_def u16_prefixed_def)
  have "length (concat (map record_bytes rs)) \<le> length rs * 200000" if "list_all record_wf rs" for rs
    using that by (induction rs) (auto dest!: r)
  then have "length (concat (map record_bytes (sv_yubikey_records s))) \<le> length (sv_yubikey_records s) * 200000"
    using assms(1) by (simp add: header_wf_def)
  moreover have "length (sv_yubikey_records s) * 200000 \<le> 255 * 200000"
    using assms(1) by (simp add: header_wf_def)
  ultimately have a: "length (concat (map record_bytes (sv_yubikey_records s))) \<le> 51000000" by simp
  have b: "length (alias_bytes (sv_alias s)) < 65536"
    using assms(1) by (auto simp: header_wf_def alias_wf_def alias_bytes_def str_bytes_def split: option.splits)
  show ?thesis using a b assms by (simp add: to_bytes_def records_bytes_def header_wf_def u16_prefixed_def)
qed

lemma seal_keys_ciphertext:
  assumes "seal_vault_with_keys tag_crypto pw keys pt al r = (Inr s, r')"
  shows "length (sv_ciphertext s) = length pt + 16"
  using assms unfolding seal_vault_with_keys_def
  by (auto simp: rnd_simps toy_runs elim!: encrypt_body_Inr split: if_splits)

lemma reseal_quiet:
  assumes "on_disk (read_vault p) w = (Inr s, w)" and "header_wf s"
    and "serialize_vault_body sample_serde b = Inr pt" and "length pt \<le> 2" and "d_faults (st_disk w) = []"
    and "\<forall>q \<in> {p, tmp_path p, bak_path p, tmp_path (bak_path p)}. plain (d_fs (st_disk w)) q"
  obtains w' where "reseal_on_disk sample_env b master p w = (Inr (), w')" and "settled w' p"
proof -
  obtain s2 r where s: "reseal_vault_body tag_crypto s master pt (st_rng w) = (Inr s2, r)"
    using total_reseal by (rule total_rndE)
  note keep = encrypt_body_keeps [OF s [unfolded reseal_vault_body_def]]
  have h: "header_wf s2" using assms(2) keep by (simp add: header_wf_def)
  have "length (sv_ciphertext s2) = length pt + 16"
    using s unfolding reseal_vault_body_def by (auto simp: toy_runs elim!: encrypt_body_Inr)
  then have l: "length (to_bytes s2) < 2 ^ 64" using to_bytes_bound [OF h keep(8)] assms(4) by simp
  with h keep have "sealed_wf s2" by (simp add: sealed_wf_def VERSION_def VERSION_MIN_READABLE_def)
  then have "from_bytes (to_bytes s2) = Inr s2" using from_bytes_to_bytes [of s2 "[]"] by simp
  then have "is_ok (from_bytes (to_bytes s2))" by (simp add: is_ok_def)
  from write_quiet [OF assms(5) this assms(6)] obtain d where d: "write_vault s2 p (st_disk w) = (Inr (), d)" "d_faults d = []" by blast
  have "holds (d_fs d) p (to_bytes s2)" using write_vault_Inr [OF d(1)] by (auto simp: replaced_def holds_def)
  then have "settled (w\<lparr>st_rng := r, st_disk := d\<rparr>) p"
    using l d(2) by (auto simp: settled_def holds_def split: option.splits node.splits)
  moreover have "reseal_on_disk sample_env b master p w = (Inr (), w\<lparr>st_rng := r, st_disk := d\<rparr>)"
    using assms(1,3) s d(1) by (simp add: reseal_on_disk_def rbind_def rlift_def sample_env_def on_rng_def on_disk_def zoom_def)
  ultimately show ?thesis using that by blast
qed

lemma sample_key_vault:
  obtains w master s where "save_vault_with_keys sample_env VaultBody_empty [1] sample_keys ''v'' sample_store = (Inr (), w)"
    and "key_opens tag_crypto ([1], replicate 32 7, [1], master) ''v'' (d_fs (st_disk w))"
    and "on_disk (read_vault ''v'') w = (Inr s, w)" and "header_wf s" and "d_faults (st_disk w) = []"
    and "\<forall>q \<in> {''v'', tmp_path ''v'', bak_path ''v'', tmp_path (bak_path ''v'')}. plain (d_fs (st_disk w)) q"
proof -
  have two: "2 \<le> length sample_keys" by (simp add: sample_keys_def)
  obtain s r where s: "seal_vault_with_keys tag_crypto [1] sample_keys [0x7B, 0x7D] None (\<lambda>_. 0) = (Inr s, r)"
    by (rule total_rndE [OF total_seal_keys [OF two]])
  note f = seal_keys_fields [OF s]
  obtain wk master where pg: "passphrase_gives tag_crypto [1] s wk"
    and l: "list_all2 (\<lambda>k x. yr_credential_id x = reg_credential_id k \<and> (yr_salt x = reg_salt k
       \<and> record_gives tag_crypto wk (reg_hmac_secret k) x master)) sample_keys (sv_yubikey_records s)"
    by (rule seal_keys_structure [OF s tag_crypto_ok])
  have kw: "\<forall>k \<in> set sample_keys. length (reg_credential_id k) < 65536 \<and> length (reg_salt k) = 32"
    by (simp add: sample_keys_def)
  have hw: "header_wf s"
    using f records_wf [OF l kw] list_all2_lengthD [OF l] pg
    by (auto simp: header_wf_def passphrase_gives_def alias_wf_def sample_keys_def)
  have len: "length (to_bytes s) < 2 ^ 64"
    using to_bytes_bound [OF hw f(3)] seal_keys_ciphertext [OF s] by simp
  with hw f have "sealed_wf s" by (simp add: sealed_wf_def VERSION_def VERSION_MIN_READABLE_def)
  then have fb: "from_bytes (to_bytes s) = Inr s" using from_bytes_to_bytes [of s "[]"] by simp
  let ?w = "sample_store\<lparr>st_rng := r\<rparr>"
  obtain d where w: "write_vault s ''v'' (st_disk ?w) = (Inr (), d)" "settled (?w\<lparr>st_disk := d\<rparr>) ''v''"
    "on_disk (write_vault s ''v'') ?w = (Inr (), ?w\<lparr>st_disk := d\<rparr>)"
    "\<forall>q \<in> {''v'', tmp_path ''v'', bak_path ''v'', tmp_path (bak_path ''v'')}. plain (d_fs d) q"
    by (rule sample_written [OF fb len, of ?w]) (simp add: sample_store_def)
  let ?w' = "?w\<lparr>st_disk := d\<rparr>"
  have "on_rng (seal_vault_with_keys tag_crypto [1] sample_keys [0x7B, 0x7D] None) sample_store = (Inr s, ?w)"
    using s by (simp add: on_rng_def zoom_def sample_store_def)
  then have save: "save_vault_with_keys sample_env VaultBody_empty [1] sample_keys ''v'' sample_store = (Inr (), ?w')"
    using w(3) by (simp add: save_vault_with_keys_def rbind_def sample_alias rlift_def sample_env_def sample_serde_ok(2))
  obtain m where "\<forall>k \<in> set sample_keys. key_opens tag_crypto ([1], reg_hmac_secret k, reg_credential_id k, m) ''v'' (d_fs (st_disk ?w'))"
    using created_key_opens [OF save _ _ w(2) _ _ kw] by (auto simp: sample_env_def tag_crypto_ok sample_keys_def)
  then have "key_opens tag_crypto ([1], replicate 32 7, [1], m) ''v'' (d_fs (st_disk ?w'))" by (simp add: sample_keys_def)
  with that [OF save] w(4) hw written_reads_back(1) [OF w(1) refl w(2) hw f(3,4)] w(2) show ?thesis
    by (simp add: settled_def)
qed

theorem key_session_saves_load_back_witness:
  "\<exists>w w' master. save_vault_with_keys sample_env VaultBody_empty [1] sample_keys ''v'' sample_store = (Inr (), w)
     \<and> reseal_on_disk sample_env VaultBody_empty master ''v'' w = (Inr (), w')
     \<and> rbind (load_vault_with_key_record sample_env [1] (replicate 32 7) [1] ''v'') (\<lambda>(b, _). rret b) w' = (Inr VaultBody_empty, w')"
proof -
  obtain w master s where w: "save_vault_with_keys sample_env VaultBody_empty [1] sample_keys ''v'' sample_store = (Inr (), w)"
    "key_opens tag_crypto ([1], replicate 32 7, [1], master) ''v'' (d_fs (st_disk w))"
    "on_disk (read_vault ''v'') w = (Inr s, w)" "header_wf s" "d_faults (st_disk w) = []"
    "\<forall>q \<in> {''v'', tmp_path ''v'', bak_path ''v'', tmp_path (bak_path ''v'')}. plain (d_fs (st_disk w)) q"
    by (rule sample_key_vault)
  obtain w' where w': "reseal_on_disk sample_env VaultBody_empty master ''v'' w = (Inr (), w')" "settled w' ''v''"
    by (rule reseal_quiet [OF w(3,4) sample_serde_ok(2) _ w(5,6)]) simp
  have "rbind (load_vault_with_key_record sample_env [1] (replicate 32 7) [1] ''v'') (\<lambda>(b, _). rret b) w'
      = (Inr (last [VaultBody_empty]), w')"
    by (rule key_session_saves_load_back [where w = w and master = master])
      (use w(2) w' in \<open>simp_all add: sample_env_def sample_serde_ok tag_crypto_ok\<close>)
  with w(1) w'(1) show ?thesis by auto
qed

lemma remove_file_Inr:
  assumes "sys_err msg (remove_file p) d = (Inr (), d')"
  shows "d_fs d' = (d_fs d)(p := None) \<and> d_faults d' = tl (d_faults d)"
  using assms by (auto simp: sys_err_def remove_file_def syscall_def split: prod.splits option.splits node.splits fault.splits)

lemma remove_sibling_Inr:
  assumes "remove_sibling msg p d = (Inr (), d')" and "\<forall>n. Fault NotFound n \<notin> set (d_faults d)"
  shows "d_fs d' = (d_fs d)(p := None) \<and> d_faults d' = tl (d_faults d)"
proof -
  have "next_fault (d_faults d) \<noteq> Fault NotFound n" for n
    using assms(2) by (auto simp: next_fault_def split: list.splits)
  with assms(1) show ?thesis
    by (auto simp: remove_sibling_def rbind_def run_sys_def remove_file_def syscall_def rret_def rlift_def eisdir_def
        split: option.splits node.splits fault.splits io_error.splits)
qed

text \<open>Deleting the vault: on success the vault, its safety copy and its undo copy are gone, and nothing else
  changed, provided the system reports a missing file only when there is none.\<close>

theorem delete_removes_every_copy:
  assumes "delete_whole_vault p d = (Inr (), d')" and "\<forall>n. Fault NotFound n \<notin> set (d_faults d)"
  shows "d_fs d' = (d_fs d)(p := None, bak_path p := None, pre_restore_path p := None)"
proof -
  from assms(1) obtain d1 d2 where 1: "sys_err ''Failed to delete vault: '' (remove_file p) d = (Inr (), d1)"
    and 2: "remove_backup p d1 = (Inr (), d2)" and 3: "remove_pre_restore p d2 = (Inr (), d')"
    by (auto simp: delete_whole_vault_def rthen_def rnd_simps)
  have tl: "\<forall>n. Fault NotFound n \<notin> set xs \<Longrightarrow> \<forall>n. Fault NotFound n \<notin> set (tl xs)" for xs
    by (cases xs) auto
  note r1 = remove_file_Inr [OF 1]
  have n1: "\<forall>n. Fault NotFound n \<notin> set (d_faults d1)" using r1 tl [OF assms(2)] by simp
  note r2 = remove_sibling_Inr [OF 2 [unfolded remove_backup_def] n1]
  have n2: "\<forall>n. Fault NotFound n \<notin> set (d_faults d2)" using r2 tl [OF n1] by simp
  from r1 r2 remove_sibling_Inr [OF 3 [unfolded remove_pre_restore_def] n2] show ?thesis by simp
qed

theorem delete_removes_every_copy_witness:
  "\<exists>d'. delete_whole_vault ''v'' restore_disk = (Inr (), d') \<and> d_fs d' ''v'' = None \<and> d_fs d' ''s'' \<noteq> None"
proof -
  obtain d' where d: "delete_whole_vault ''v'' restore_disk = (Inr (), d')"
    by (simp add: delete_whole_vault_def rthen_def rbind_def sys_err_def remove_file_def syscall_def next_fault_def
        restore_disk_def remove_backup_def remove_pre_restore_def remove_sibling_def run_sys_def rret_def bak_path_def
        pre_restore_path_def)
  from delete_removes_every_copy [OF d] have "d_fs d' = (d_fs restore_disk)(''v'' := None, bak_path ''v'' := None, pre_restore_path ''v'' := None)"
    by (simp add: restore_disk_def)
  with d show ?thesis by (simp add: restore_disk_def bak_path_def pre_restore_path_def)
qed

text \<open>The default export is exact: the exported file holds the bytes of the vault, and the companion the digest line of
  those bytes.\<close>

theorem export_copies_bytes:
  assumes "export_vault_preserving E src dst d = (Inr (), d')"
    and "with_extension dst ''gabbro.sha256'' = c" and "c \<noteq> dst" and "tmp_path c \<noteq> dst"
  shows "\<exists>b. read_bytes (d_fs d) src = Inr b \<and> holds (d_fs d') dst b
    \<and> holds (d_fs d') c (str_bytes (sha256_line E b (unwrap_or (file_name dst) ''vault.gabbro'')))"
proof -
  let ?line = "\<lambda>b. str_bytes (sha256_line E b (unwrap_or (file_name dst) ''vault.gabbro''))"
  have t: "crash_triple False (\<lambda>_. True) (\<lambda>fs. fs = d_fs d) (export_vault_preserving E src dst)
    (\<lambda>_ fs. \<exists>b f g. f = d_fs d \<and> read_bytes f src = Inr b \<and> g = replaced f dst b \<and> fs = replaced g c (?line b))"
    unfolding export_vault_preserving_def write_sha256_companion_def assms(2)
  proof (rule triple_bind [OF triple_read])
    fix b
    show "crash_triple False (\<lambda>_. True) (\<lambda>fs. fs = d_fs d \<and> read_bytes fs src = Inr b)
      (rthen (atomic_write_0600 dst b) (atomic_write_0600 c (?line b)))
      (\<lambda>_ fs. \<exists>b f g. f = d_fs d \<and> read_bytes f src = Inr b \<and> g = replaced f dst b \<and> fs = replaced g c (?line b))"
      by (rule triple_weaken [OF triple_then [OF aw.replace_law
            [where P = "\<lambda>fs. fs = d_fs d \<and> read_bytes fs src = Inr b"] aw.replace_law]]) auto
  qed simp
  from triple_passed(3) [OF t _ _ assms(1)] assms(3,4) show ?thesis
    by (auto simp: holds_def replaced_def)
qed

theorem export_copies_bytes_witness:
  "\<exists>d'. export_vault_preserving sample_env ''v'' ''out.gabbro'' restore_disk = (Inr (), d')
     \<and> holds (d_fs d') ''out.gabbro'' [1]"
proof -
  have c: "with_extension ''out.gabbro'' ''gabbro.sha256'' = ''out.gabbro.sha256''"
    by (simp add: with_extension_def file_name_def file_stem_def)
  have v: "read_bytes (d_fs restore_disk) ''v'' = Inr [1]" by (rule read_regular) (simp add: restore_disk_def)
  obtain d1 where 1: "atomic_write_0600 ''out.gabbro'' [1] restore_disk = (Inr (), d1)"
    "d_fs d1 = replaced (d_fs restore_disk) ''out.gabbro'' [1]" "d_faults d1 = []"
    using replace_quiet [of restore_disk "''out.gabbro''" "[1]"] by (auto simp: restore_disk_def plain_def tmp_path_def)
  have p: "plain (d_fs d1) (tmp_path ''out.gabbro.sha256'')" "d_fs d1 ''out.gabbro.sha256'' \<noteq> Some Directory"
    by (simp_all add: 1(2) replaced_def restore_disk_def plain_def tmp_path_def)
  obtain d2 where 2: "write_sha256_companion sample_env ''out.gabbro'' [1] d1 = (Inr (), d2)"
    unfolding write_sha256_companion_def c using replace_quiet [OF 1(3) p] by blast
  have "sys_err m (fs_read ''v'') restore_disk = (Inr [1], restore_disk)" for m
    by (rule read_quiet [OF _ v]) (simp add: restore_disk_def)
  then have r: "export_vault_preserving sample_env ''v'' ''out.gabbro'' restore_disk = (Inr (), d2)"
    using 1(1) 2 by (simp add: export_vault_preserving_def rbind_def rthen_def)
  from export_copies_bytes [OF r c] r v show ?thesis by (auto simp: tmp_path_def)
qed

end
