(* ===== verification/Session.thy ===== *)
theory Session
  imports Vault_Store
begin

text \<open>
  The open vault: \<open>rust/src/vault/session.rs\<close> from unlocking to the merge commands. The state \<open>world\<close> extends
  the storage state with the clock, the session behind the lock and the poison flag of the lock (a panic while
  the lock is held sets it, and every later call fails). \<open>locked m\<close> is a call that holds the lock; \<open>saving E m\<close> is
  the shape most operations have: change the session under the lock, copy out what is to be saved, release the
  lock, save.

  The locale \<open>session_order\<close> is what an order on sessions must satisfy to be respected by every operation; it is
  interpreted on the order "no entry disappears unmarked, neither from the session nor from the state a cancelled sync goes back to"
  (\<open>acc\<close>) and on "folder names stay distinct" (\<open>fld\<close>).
  A run of the application is the step relation \<open>work\<close>: a request is served, with whatever result, or the world
  outside changes.

  Shown: a locked vault refuses everything; no entry is lost over any run, except that cancelling a sync drops what came after its merge; what an operation saved is what the
  next unlock gives; a cancelled sync is undone; attachments and history records come back as they were.
\<close>

section \<open>The application state\<close>

record world = store +
  w_clock :: "nat \<Rightarrow> nat"
  w_session :: "VaultSession option"
  w_poisoned :: bool

type_synonym 'a app = "(world, 'a) run"

text \<open>Clock reads, in milliseconds since 1970.\<close>

definition read_clock :: "nat app" where
  "read_clock w = (Inr (w_clock w 0), w\<lparr>w_clock := (\<lambda>i. w_clock w (Suc i))\<rparr>)"

definition now_secs :: "nat app" where
  "now_secs = rbind read_clock (\<lambda>t. rret (t div 1000))"

definition now_ms :: "u64 app" where
  "now_ms = rbind read_clock (\<lambda>t. rret (of_nat t))"

text \<open>The lock on the session: a panic while it is held poisons it.\<close>

definition check_lock :: "unit app" where
  "check_lock w = (if w_poisoned w then (Inl (Err ''poisoned lock: another task failed inside''), w) else (Inr (), w))"

definition read_session :: "VaultSession app" where
  "read_session w = (case w_session w of None \<Rightarrow> (Inl (Err ''Vault is locked''), w) | Some s \<Rightarrow> (Inr s, w))"

definition get_session :: "VaultSession app" where
  "get_session = rthen check_lock read_session"

definition put_session :: "VaultSession \<Rightarrow> unit app" where
  "put_session s w = (Inr (), w\<lparr>w_session := Some s\<rparr>)"

definition locked :: "'a app \<Rightarrow> 'a app" where
  "locked m w = (case m w of (Inl Panic, w') \<Rightarrow> (Inl Panic, w'\<lparr>w_poisoned := True\<rparr>) | x \<Rightarrow> x)"

section \<open>Unlocking and locking\<close>

definition open_session ::
  "path \<Rightarrow> bytes \<Rightarrow> VaultBody \<Rightarrow> VaultEntry list \<Rightarrow> YubikeyMaterial option \<Rightarrow> VaultSession" where
  "open_session p passphrase body entries yk =
     \<lparr>vs_folders = vb_folders body, vs_entries = entries, vs_path = p, vs_passphrase = passphrase, vs_yubikey = yk,
      vs_yubikey_aliases = vb_yubikey_aliases body, vs_deleted_ids = vb_deleted_ids body, vs_pre_sync_backup = None\<rparr>"

definition unlock_vault :: "env \<Rightarrow> bytes \<Rightarrow> path \<Rightarrow> unit app" where
  "unlock_vault E passphrase p =
     rbind (load_vault E passphrase p) (\<lambda>body.
     rbind now_secs (\<lambda>t.
     rbind (rlift (purge_expired_history t (vb_entries body))) (\<lambda>entries.
     rthen check_lock (put_session (open_session p passphrase body entries None)))))"

definition unlock_vault_with_key_record :: "env \<Rightarrow> bytes \<Rightarrow> bytes \<Rightarrow> bytes \<Rightarrow> path \<Rightarrow> unit app" where
  "unlock_vault_with_key_record E passphrase hmac_secret credential_id p =
     rbind (load_vault_with_key_record E passphrase hmac_secret credential_id p) (\<lambda>(body, master, wrapping_key).
     rbind now_secs (\<lambda>t.
     rbind (rlift (purge_expired_history t (vb_entries body))) (\<lambda>entries.
     rthen check_lock (put_session (open_session p passphrase body entries
       (Some \<lparr>ym_vault_key_master = master, ym_wrapping_key = wrapping_key\<rparr>))))))"

definition is_vault_unlocked :: "world \<Rightarrow> bool" where
  "is_vault_unlocked w = (\<not> w_poisoned w \<and> w_session w \<noteq> None)"

definition lock_vault :: "unit app" where
  "lock_vault = rthen check_lock (\<lambda>w. (Inr (), w\<lparr>w_session := None\<rparr>))"

section \<open>Saving\<close>

definition build_body :: "nat \<Rightarrow> VaultSession \<Rightarrow> VaultBody" where
  "build_body t s =
     \<lparr>vb_folders = vs_folders s, vb_entries = vs_entries s, vb_yubikey_aliases = vs_yubikey_aliases s,
      vb_vault_updated_at = chrono_now t, vb_deleted_ids = vs_deleted_ids s\<rparr>"

definition extract_yubikey :: "VaultSession \<Rightarrow> bytes option" where
  "extract_yubikey s = map_option ym_vault_key_master (vs_yubikey s)"

definition do_save :: "env \<Rightarrow> VaultBody \<Rightarrow> bytes \<Rightarrow> path \<Rightarrow> bytes option \<Rightarrow> ('s store_scheme, unit) run" where
  "do_save E body passphrase p yubikey =
     (case yubikey of
        Some vault_key_master \<Rightarrow> reseal_on_disk E body vault_key_master p
      | None \<Rightarrow> save_vault E body passphrase p)"

text \<open>What is copied out of the session under the lock, to be saved after the lock is released.\<close>

type_synonym save_job = "VaultBody \<times> bytes \<times> path \<times> bytes option"

definition prepare_save :: "save_job app" where
  "prepare_save = rbind read_session (\<lambda>s. rbind now_secs (\<lambda>t.
     rret (build_body t s, vs_passphrase s, vs_path s, extract_yubikey s)))"

definition run_save :: "env \<Rightarrow> save_job \<Rightarrow> unit app" where
  "run_save E j = (case j of (body, passphrase, p, yubikey) \<Rightarrow> do_save E body passphrase p yubikey)"

definition saving :: "env \<Rightarrow> 'a app \<Rightarrow> 'a app" where
  "saving E m =
     rbind (locked (rbind m (\<lambda>r. rbind prepare_save (\<lambda>j. rret (r, j)))))
       (\<lambda>(r, j). rthen (run_save E j) (rret r))"

section \<open>Entry summaries\<close>

record EntrySummaryData =
  es_id :: string
  es_entry_type :: string
  es_title :: string
  es_folder :: string
  es_search_blob :: string

definition make_blob :: "env \<Rightarrow> string list \<Rightarrow> string" where
  "make_blob E parts = join_str '' '' (map (e_lower E) (filter (\<lambda>s. s \<noteq> []) parts))"

definition push_custom_fields :: "string list \<Rightarrow> CustomField list \<Rightarrow> string list" where
  "push_custom_fields parts fs = parts @ map cf_value (filter (\<lambda>f. \<not> cf_hidden f) fs)"

definition opt_str :: "string option \<Rightarrow> string" where
  "opt_str s = unwrap_or s []"

fun entry_to_summary :: "env \<Rightarrow> VaultEntry \<Rightarrow> EntrySummaryData" where
  "entry_to_summary E (Login e) =
     \<lparr>es_id = em_id (le_meta e), es_entry_type = ''Login'',
      es_title = (if le_title e \<noteq> [] then le_title e else if le_url e \<noteq> [] then le_url e else em_id (le_meta e)),
      es_folder = em_folder (le_meta e),
      es_search_blob = make_blob E (push_custom_fields
        [le_title e, le_username e, le_url e, opt_str (le_notes e)] (le_custom_fields e))\<rparr>"
| "entry_to_summary E (Note e) =
     \<lparr>es_id = em_id (ne_meta e), es_entry_type = ''Note'', es_title = ne_title e, es_folder = em_folder (ne_meta e),
      es_search_blob = make_blob E [ne_title e, ne_content e]\<rparr>"
| "entry_to_summary E (Identity e) =
     \<lparr>es_id = em_id (ie_meta e), es_entry_type = ''Identity'', es_title = ie_first_name e @ '' '' @ ie_last_name e,
      es_folder = em_folder (ie_meta e),
      es_search_blob = make_blob E (push_custom_fields
        [ie_first_name e, ie_last_name e, ie_email e, opt_str (ie_phone e), opt_str (ie_address e)] (ie_custom_fields e))\<rparr>"
| "entry_to_summary E (Card e) =
     \<lparr>es_id = em_id (ce_meta e), es_entry_type = ''Card'',
      es_title = (case ce_card_name e of Some s \<Rightarrow> if s \<noteq> [] then s else ce_cardholder_name e | None \<Rightarrow> ce_cardholder_name e),
      es_folder = em_folder (ce_meta e),
      es_search_blob = make_blob E (push_custom_fields
        [opt_str (ce_card_name e), ce_cardholder_name e, opt_str (ce_bank_name e), opt_str (ce_payment_network e),
         opt_str (ce_notes e)] (ce_custom_fields e))\<rparr>"
| "entry_to_summary E (File e) =
     \<lparr>es_id = em_id (fe_meta e), es_entry_type = ''File'', es_title = fe_filename e, es_folder = em_folder (fe_meta e),
      es_search_blob = make_blob E [fe_filename e, opt_str (fe_notes e)]\<rparr>"
| "entry_to_summary E (Custom e) =
     \<lparr>es_id = em_id (xe_meta e), es_entry_type = ''Custom'', es_title = xe_title e, es_folder = em_folder (xe_meta e),
      es_search_blob = make_blob E (push_custom_fields [xe_title e] (map snd (xe_fields e)))\<rparr>"
| "entry_to_summary E (Passkey e) =
     \<lparr>es_id = em_id (pe_meta e), es_entry_type = ''Passkey'',
      es_title = (if pe_rp_id e \<noteq> [] then pe_rp_id e else if pe_user_name e \<noteq> [] then pe_user_name e else em_id (pe_meta e)),
      es_folder = em_folder (pe_meta e),
      es_search_blob = make_blob E (push_custom_fields
        [pe_rp_id e, pe_user_name e, pe_user_display_name e, opt_str (pe_notes e)] (pe_custom_fields e))\<rparr>"

section \<open>Reading the session\<close>

definition list_entry_summaries :: "env \<Rightarrow> EntrySummaryData list app" where
  "list_entry_summaries E = rbind get_session (\<lambda>s. rret (map (entry_to_summary E) (vs_entries s)))"

definition find_entry :: "string \<Rightarrow> VaultSession \<Rightarrow> VaultEntry app" where
  "find_entry i s =
     (case find (\<lambda>e. entry_id e = i) (vs_entries s) of
        None \<Rightarrow> rlift (Inl (no_entry i))
      | Some e \<Rightarrow> rret e)"

definition get_entry :: "string \<Rightarrow> VaultEntry app" where
  "get_entry i = rbind get_session (find_entry i)"

definition session_entry_ids :: "string set app" where
  "session_entry_ids = rbind get_session (\<lambda>s. rret (set (map entry_id (vs_entries s))))"

fun passkey_for :: "string \<Rightarrow> VaultEntry \<Rightarrow> PasskeyEntry option" where
  "passkey_for rp (Passkey p) = (if pe_rp_id p = rp then Some p else None)"
| "passkey_for rp _ = None"

definition session_passkeys_for_rp :: "string \<Rightarrow> PasskeyEntry list app" where
  "session_passkeys_for_rp rp = rbind get_session (\<lambda>s. rret (List.map_filter (passkey_for rp) (vs_entries s)))"

definition session_extract_attachment :: "string \<Rightarrow> string \<Rightarrow> bytes app" where
  "session_extract_attachment i uuid =
     rbind get_session (\<lambda>s.
     rbind (find_entry i s) (\<lambda>e.
       case find (\<lambda>a. at_uuid a = uuid) (entry_attachments e) of
         None \<Rightarrow> rlift (Inl (Err (''No attachment found with uuid: '' @ uuid)))
       | Some a \<Rightarrow> rret (at_data a)))"

record HistoryRecordData =
  hd_field :: string
  hd_value :: string
  hd_saved_at :: string
  hd_expires_at :: "string option"

definition session_get_entry_history :: "string \<Rightarrow> HistoryRecordData list app" where
  "session_get_entry_history i =
     rbind get_session (\<lambda>s.
     rbind (find_entry i s) (\<lambda>e.
       rret (map (\<lambda>h. \<lparr>hd_field = hr_field h, hd_value = hr_value h, hd_saved_at = hr_saved_at h,
                      hd_expires_at = hr_expires_at h\<rparr>) (em_history (meta_of e)))))"

definition session_list_folders :: "string list app" where
  "session_list_folders = rbind get_session (\<lambda>s. rret (vs_folders s))"

definition session_list_yubikey_aliases :: "(string \<rightharpoonup> string) app" where
  "session_list_yubikey_aliases = rbind get_session (\<lambda>s. rret (vs_yubikey_aliases s))"

record LoginAutofillSummary =
  la_id :: string
  la_username :: string
  la_url :: string
  la_app_id :: "string option"
  la_email :: "string option"

definition login_summaries_json :: "env \<Rightarrow> LoginAutofillSummary list \<Rightarrow> string" where
  "login_summaries_json E summaries = e_json_print E (JArr (map (\<lambda>s.
     JObj [(''id'', JStr (la_id s)), (''username'', JStr (la_username s)), (''url'', JStr (la_url s)),
           (''app_id'', JStr (opt_str (la_app_id s))), (''email'', JStr (opt_str (la_email s)))]) summaries))"

fun login_summary :: "VaultEntry \<Rightarrow> LoginAutofillSummary option" where
  "login_summary (Login e) = Some \<lparr>la_id = em_id (le_meta e), la_username = le_username e, la_url = le_url e,
     la_app_id = le_app_id e, la_email = le_email e\<rparr>"
| "login_summary _ = None"

definition login_summaries_for_autofill :: "LoginAutofillSummary list app" where
  "login_summaries_for_autofill = rbind get_session (\<lambda>s. rret (List.map_filter login_summary (vs_entries s)))"

definition get_entry_for_autofill :: "env \<Rightarrow> string \<Rightarrow> string app" where
  "get_entry_for_autofill E i =
     rbind get_session (\<lambda>s.
     rbind (find_entry i s) (\<lambda>e.
       case e of
         Login l \<Rightarrow> rlift (ser_err [] (e_json_login E (em_id (le_meta l)) (le_username l) (le_password l)))
       | _ \<Rightarrow> rlift (Inl (Err (''Entry '' @ i @ '' is not a Login entry'')))))"

section \<open>Changing entries\<close>

definition add_deletions :: "string \<Rightarrow> string list \<Rightarrow> VaultSession \<Rightarrow> DeletedEntry list" where
  "add_deletions now ids s = vs_deleted_ids s @
     map (\<lambda>i. \<lparr>de_id = i, de_deleted_at = now\<rparr>) (filter (\<lambda>i. \<exists>e \<in> set (vs_entries s). entry_id e = i) ids)"

definition session_delete_entries_no_save :: "string list \<Rightarrow> unit app" where
  "session_delete_entries_no_save ids =
     locked (rbind get_session (\<lambda>s.
     rbind now_secs (\<lambda>t.
       put_session (s\<lparr>vs_deleted_ids := add_deletions (chrono_now t) ids s,
         vs_entries := filter (\<lambda>e. entry_id e \<notin> set ids) (vs_entries s)\<rparr>))))"

definition session_add_entry_no_save :: "VaultEntry \<Rightarrow> unit app" where
  "session_add_entry_no_save entry =
     locked (rbind get_session (\<lambda>s. put_session (s\<lparr>vs_entries := vs_entries s @ [entry]\<rparr>)))"

definition session_save :: "env \<Rightarrow> unit app" where
  "session_save E = saving E (rthen get_session (rret ()))"

definition session_create_entry :: "env \<Rightarrow> VaultEntry \<Rightarrow> EntrySummaryData app" where
  "session_create_entry E entry = saving E (
     rbind get_session (\<lambda>s.
     rthen (put_session (s\<lparr>vs_entries := vs_entries s @ [entry]\<rparr>))
           (rret (entry_to_summary E entry))))"

definition session_update_entry :: "env \<Rightarrow> VaultEntry \<Rightarrow> u32 option \<Rightarrow> unit app" where
  "session_update_entry E updated expiry_days = saving E (
     rbind get_session (\<lambda>s.
     rbind now_secs (\<lambda>t. rbind now_ms (\<lambda>ms.
     rbind (rlift (update_entry (vs_entries s) updated (map_option unat expiry_days) t ms)) (\<lambda>es.
       put_session (s\<lparr>vs_entries := es\<rparr>))))))"

definition session_delete_entry :: "env \<Rightarrow> string \<Rightarrow> unit app" where
  "session_delete_entry E i = saving E (
     rbind get_session (\<lambda>s.
     rbind (rlift (delete_entry (vs_entries s) i)) (\<lambda>es.
     rbind now_secs (\<lambda>t.
       put_session (s\<lparr>vs_entries := es,
         vs_deleted_ids := vs_deleted_ids s @ [\<lparr>de_id = i, de_deleted_at = chrono_now t\<rparr>]\<rparr>)))))"

section \<open>Attachments and history\<close>

definition ENPASS_ATTACHMENT_MAX_BYTES :: nat where
  "ENPASS_ATTACHMENT_MAX_BYTES = 25 * 1024 * 1024"

definition ENTRY_ATTACHMENT_MAX_COUNT :: nat where
  "ENTRY_ATTACHMENT_MAX_COUNT = 3"

definition new_entry_id :: "env \<Rightarrow> ('s store_scheme, string) run" where
  "new_entry_id E = rbind (on_rng (fill_bytes 16)) (\<lambda>b. rret (e_uuid E b))"

text \<open>Replace the entry that was looked up (the first with its id).\<close>

definition put_entry :: "string \<Rightarrow> VaultEntry \<Rightarrow> VaultSession \<Rightarrow> unit app" where
  "put_entry i e s = put_session (s\<lparr>vs_entries := modify_entry i (\<lambda>_. e) (vs_entries s)\<rparr>)"

definition add_attachment :: "EntryAttachment \<Rightarrow> u64 \<Rightarrow> string \<Rightarrow> VaultEntry \<Rightarrow> VaultEntry" where
  "add_attachment a ms now e =
     (let key = ''attachments:'' @ at_uuid a in
      map_meta (\<lambda>m. touch now (unstamp (''del:'' @ key) (stamp key ms m)))
        (set_attachments (entry_attachments e @ [a]) e))"

definition session_add_attachment :: "env \<Rightarrow> string \<Rightarrow> string \<Rightarrow> string \<Rightarrow> bytes \<Rightarrow> string app" where
  "session_add_attachment E i name kind data =
     (if ENPASS_ATTACHMENT_MAX_BYTES < length data
      then rlift (Inl (Err (''Attachment exceeds the ''
             @ show_nat (ENPASS_ATTACHMENT_MAX_BYTES div (1024 * 1024)) @ '' MB limit'')))
      else rbind (new_entry_id E) (\<lambda>uuid. saving E (
        rbind get_session (\<lambda>s.
        rbind (find_entry i s) (\<lambda>e.
          if \<not> has_attachments e then rlift (Inl (Err ''A File entry takes no attachments''))
          else if ENTRY_ATTACHMENT_MAX_COUNT \<le> length (entry_attachments e)
          then rlift (Inl (Err (''Entry already has '' @ show_nat ENTRY_ATTACHMENT_MAX_COUNT @ '' attachments'')))
          else rbind now_ms (\<lambda>ms. rbind now_secs (\<lambda>t.
            rthen (put_entry i (add_attachment
                \<lparr>at_uuid = uuid, at_name = name, at_kind = kind, at_data = data\<rparr> ms (chrono_now t) e) s)
              (rret uuid))))))))"

definition remove_attachment :: "string \<Rightarrow> u64 \<Rightarrow> string \<Rightarrow> VaultEntry \<Rightarrow> VaultEntry" where
  "remove_attachment uuid ms now e =
     (let key = ''attachments:'' @ uuid in
      map_meta (\<lambda>m. touch now (stamp (''del:'' @ key) ms (unstamp key m)))
        (set_attachments (filter (\<lambda>a. at_uuid a \<noteq> uuid) (entry_attachments e)) e))"

definition session_remove_attachment :: "env \<Rightarrow> string \<Rightarrow> string \<Rightarrow> unit app" where
  "session_remove_attachment E i uuid = saving E (
     rbind get_session (\<lambda>s.
     rbind (find_entry i s) (\<lambda>e.
       if \<not> has_attachments e then rlift (Inl (Err ''A File entry takes no attachments''))
       else if length (filter (\<lambda>a. at_uuid a \<noteq> uuid) (entry_attachments e)) = length (entry_attachments e)
       then rlift (Inl (Err (''No attachment found with uuid: '' @ uuid)))
       else rbind now_ms (\<lambda>ms. rbind now_secs (\<lambda>t.
         put_entry i (remove_attachment uuid ms (chrono_now t) e) s)))))"

definition remove_nth :: "nat \<Rightarrow> 'a list \<Rightarrow> 'a list" where
  "remove_nth n xs = take n xs @ drop (Suc n) xs"

definition no_record :: "u32 \<Rightarrow> err" where
  "no_record index = Err (''No history record at index '' @ show_nat (unat index))"

definition restore_record :: "env \<Rightarrow> nat \<Rightarrow> HistoryRecord \<Rightarrow> u64 \<Rightarrow> string \<Rightarrow> VaultEntry \<Rightarrow> VaultEntry" where
  "restore_record E idx h ms now e =
     map_meta (\<lambda>m. touch now (stamp (hr_field h) ms (m\<lparr>em_history := remove_nth idx (em_history m)\<rparr>)))
       (set_entry_field_by_key (e_b64dec E) (hr_field h) (hr_value h) e)"

definition session_restore_history :: "env \<Rightarrow> string \<Rightarrow> u32 \<Rightarrow> unit app" where
  "session_restore_history E i index = saving E (
     rbind get_session (\<lambda>s.
     rbind (find_entry i s) (\<lambda>e.
       let hist = em_history (meta_of e); idx = unat index in
       if length hist \<le> idx then rlift (Inl (no_record index))
       else rbind now_ms (\<lambda>ms. rbind now_secs (\<lambda>t.
         put_entry i (restore_record E idx (hist ! idx) ms (chrono_now t) e) s)))))"

definition session_delete_history :: "env \<Rightarrow> string \<Rightarrow> u32 \<Rightarrow> unit app" where
  "session_delete_history E i index = saving E (
     rbind get_session (\<lambda>s.
     rbind (find_entry i s) (\<lambda>e.
       let idx = unat index in
       if length (em_history (meta_of e)) \<le> idx then rlift (Inl (no_record index))
       else rbind now_secs (\<lambda>t.
         put_entry i (map_meta (\<lambda>m. touch (chrono_now t) (m\<lparr>em_history := remove_nth idx (em_history m)\<rparr>)) e) s))))"

section \<open>Folders\<close>

definition unknown_folder :: "string \<Rightarrow> err" where
  "unknown_folder f = Err (''Folder not found: '' @ f)"

fun replace_first :: "'a \<Rightarrow> 'a \<Rightarrow> 'a list \<Rightarrow> 'a list" where
  "replace_first a b [] = []"
| "replace_first a b (x # xs) = (if x = a then b # xs else x # replace_first a b xs)"

definition move_folder :: "string \<Rightarrow> string \<Rightarrow> VaultEntry \<Rightarrow> VaultEntry" where
  "move_folder from to = map_meta (\<lambda>m. if em_folder m = from then m\<lparr>em_folder := to\<rparr> else m)"

definition session_rename_folder :: "env \<Rightarrow> string \<Rightarrow> string \<Rightarrow> unit app" where
  "session_rename_folder E old_name new_name =
     (if new_name = [] then rlift (Inl (Err ''Folder name must not be empty''))
      else saving E (rbind get_session (\<lambda>s.
        if old_name \<notin> set (vs_folders s) then rlift (Inl (unknown_folder old_name))
        else if new_name \<in> set (vs_folders s) then rlift (Inl (Err (''Folder already exists: '' @ new_name)))
        else put_session (s\<lparr>vs_folders := replace_first old_name new_name (vs_folders s),
               vs_entries := map (move_folder old_name new_name) (vs_entries s)\<rparr>))))"

definition session_delete_folder :: "env \<Rightarrow> string \<Rightarrow> string option \<Rightarrow> unit app" where
  "session_delete_folder E name reassign_to = saving E (
     rbind get_session (\<lambda>s.
       if name \<notin> set (vs_folders s) then rlift (Inl (unknown_folder name))
       else case reassign_to of
           Some target \<Rightarrow>
             if target \<notin> set (vs_folders s) then rlift (Inl (unknown_folder target))
             else put_session (s\<lparr>vs_folders := filter (\<lambda>f. f \<noteq> name) (vs_folders s),
                    vs_entries := map (move_folder name target) (vs_entries s)\<rparr>)
         | None \<Rightarrow> put_session (s\<lparr>vs_folders := filter (\<lambda>f. f \<noteq> name) (vs_folders s),
                    vs_entries := map (move_folder name []) (vs_entries s)\<rparr>)))"

definition session_assign_folder_to_entries :: "env \<Rightarrow> string list \<Rightarrow> string \<Rightarrow> unit app" where
  "session_assign_folder_to_entries E ids fld = saving E (
     rbind get_session (\<lambda>s.
       if fld \<noteq> [] \<and> fld \<notin> set (vs_folders s) then rlift (Inl (unknown_folder fld))
       else put_session (s\<lparr>vs_entries := map (map_meta (\<lambda>m.
              if em_id m \<in> set ids then m\<lparr>em_folder := fld\<rparr> else m)) (vs_entries s)\<rparr>)))"

definition session_create_folder :: "env \<Rightarrow> string \<Rightarrow> unit app" where
  "session_create_folder E name =
     (if name = [] then rlift (Inl (Err ''Folder name must not be empty''))
      else saving E (rbind get_session (\<lambda>s.
        if name \<in> set (vs_folders s) then rlift (Inl (Err (''Folder already exists: '' @ name)))
        else put_session (s\<lparr>vs_folders := vs_folders s @ [name]\<rparr>))))"

section \<open>Credentials and the whole vault\<close>

definition session_delete_whole_vault :: "unit app" where
  "session_delete_whole_vault =
     locked (rbind get_session (\<lambda>s.
     rthen (on_disk (delete_whole_vault (vs_path s)))
           (\<lambda>w. (Inr (), w\<lparr>w_session := None\<rparr>))))"

definition session_change_passphrase :: "env \<Rightarrow> bytes \<Rightarrow> bytes \<Rightarrow> unit app" where
  "session_change_passphrase E old_passphrase new_passphrase =
     locked (rbind get_session (\<lambda>s.
     rthen (case vs_yubikey s of
         Some yk \<Rightarrow>
           rbind now_secs (\<lambda>t.
           rbind (rlift (serialize_vault_body (e_serde E) (build_body t s))) (\<lambda>plaintext.
             change_passphrase_with_keys E old_passphrase new_passphrase (ym_vault_key_master yk) plaintext (vs_path s)))
       | None \<Rightarrow>
           rthen (load_vault E old_passphrase (vs_path s))
          (rbind now_secs (\<lambda>t. save_vault E (build_body t s) new_passphrase (vs_path s))))
    (rthen (put_session (s\<lparr>vs_passphrase := new_passphrase\<rparr>))
           (on_disk (refresh_backup_after_credential_change (vs_path s))))))"

definition session_add_yubikey :: "env \<Rightarrow> bytes \<Rightarrow> bytes \<Rightarrow> bytes \<Rightarrow> unit app" where
  "session_add_yubikey E new_cred_id new_hmac_secret new_salt =
     rbind (locked (rbind get_session (\<lambda>s.
       case vs_yubikey s of
         None \<Rightarrow> rlift (Inl (Err ''Not a YubiKey vault''))
       | Some yk \<Rightarrow>
           (case ym_wrapping_key yk of
              None \<Rightarrow> rlift (Inl (Err ''Adding a YubiKey requires a VERSION 4 vault''))
            | Some wk \<Rightarrow> rbind now_secs (\<lambda>t. rret (build_body t s, vs_path s, wk, ym_vault_key_master yk))))))
     (\<lambda>(body, p, wk, master).
        if length new_hmac_secret \<noteq> 32 then rlift (Inl (Err ''new_hmac_secret must be 32 bytes''))
        else if length new_salt \<noteq> 32 then rlift (Inl (Err ''new_salt must be 32 bytes''))
        else rbind (rlift (serialize_vault_body (e_serde E) body)) (\<lambda>plaintext.
          rthen (add_yubikey_to_vault E plaintext wk master new_cred_id new_hmac_secret new_salt p)
                (on_disk (refresh_backup_after_credential_change p))))"

definition session_remove_yubikey :: "env \<Rightarrow> bytes \<Rightarrow> unit app" where
  "session_remove_yubikey E cred_id =
     rbind (locked (rbind get_session (\<lambda>s.
       case vs_yubikey s of
         None \<Rightarrow> rlift (Inl (Err ''Not a YubiKey vault''))
       | Some yk \<Rightarrow> rbind now_secs (\<lambda>t. rret (build_body t s, vs_path s, ym_vault_key_master yk)))))
     (\<lambda>(body, p, master).
        rbind (rlift (serialize_vault_body (e_serde E) body)) (\<lambda>plaintext.
          rthen (remove_yubikey_from_vault E plaintext master cred_id p)
                (on_disk (refresh_backup_after_credential_change p))))"

definition session_set_vault_alias :: "env \<Rightarrow> string \<Rightarrow> unit app" where
  "session_set_vault_alias E alias =
     rbind (locked (rthen get_session prepare_save)) (\<lambda>(body, passphrase, p, yubikey).
       let new_alias = (if alias = [] then None else Some alias) in
       rbind (rlift (serialize_vault_body (e_serde E) body)) (\<lambda>plaintext.
         case yubikey of
           Some master \<Rightarrow>
             rbind (on_disk (read_vault p)) (\<lambda>sealed.
             rbind (on_rng (reseal_vault_body (e_crypto E) (sealed\<lparr>sv_alias := new_alias\<rparr>) master plaintext)) (\<lambda>s2.
               on_disk (write_vault s2 p)))
         | None \<Rightarrow>
             rbind (on_rng (seal_vault (e_crypto E) passphrase plaintext new_alias)) (\<lambda>sealed.
               on_disk (write_vault sealed p))))"

definition session_set_yubikey_alias :: "env \<Rightarrow> string \<Rightarrow> string \<Rightarrow> unit app" where
  "session_set_yubikey_alias E credential_id_hex alias = saving E (
     rbind get_session (\<lambda>s.
       put_session (s\<lparr>vs_yubikey_aliases := (vs_yubikey_aliases s)(credential_id_hex \<mapsto> alias)\<rparr>)))"

section \<open>Exports\<close>

definition session_export_vault :: "env \<Rightarrow> path \<Rightarrow> unit app" where
  "session_export_vault E export_path =
     locked (rbind get_session (\<lambda>s. on_disk (export_vault_preserving E (vs_path s) export_path)))"

definition session_export_vault_passphrase_only :: "env \<Rightarrow> path \<Rightarrow> unit app" where
  "session_export_vault_passphrase_only E export_path =
     locked (rbind get_session (\<lambda>s. rbind now_secs (\<lambda>t.
       export_vault E (build_body t s) (vs_passphrase s) export_path)))"

definition session_export_vault_json :: "env \<Rightarrow> path \<Rightarrow> unit app" where
  "session_export_vault_json E export_path =
     locked (rbind get_session (\<lambda>s. rbind now_secs (\<lambda>t.
     rbind (rlift (ser_err [] (e_json_export E (chrono_now t) (vs_folders s) (vs_entries s)))) (\<lambda>json.
       on_disk (atomic_write_0600 export_path (str_bytes json))))))"

definition session_export_vault_bytes :: "env \<Rightarrow> string \<Rightarrow> (bytes \<times> string) app" where
  "session_export_vault_bytes E vault_filename =
     locked (rbind get_session (\<lambda>s.
     rbind (on_disk (sys_err ''Failed to read vault for export: '' (fs_read (vs_path s)))) (\<lambda>b.
       rret (b, sha256_line E b vault_filename))))"

definition session_export_vault_passphrase_only_bytes :: "env \<Rightarrow> string \<Rightarrow> (bytes \<times> string) app" where
  "session_export_vault_passphrase_only_bytes E vault_filename =
     locked (rbind get_session (\<lambda>s. rbind now_secs (\<lambda>t.
     rbind (build_passphrase_only_bytes E (build_body t s) (vs_passphrase s)) (\<lambda>b.
       rret (b, sha256_line E b vault_filename)))))"

section \<open>Synchronising\<close>

definition open_with_held_passphrase :: "env \<Rightarrow> path \<Rightarrow> VaultBody option app" where
  "open_with_held_passphrase E p =
     rbind get_session (\<lambda>s.
     rbind (on_disk (read_vault p)) (\<lambda>sealed.
       case open_vault (e_crypto E) (vs_passphrase s) sealed of
         Inl _ \<Rightarrow> rret None
       | Inr plaintext \<Rightarrow> rbind (rlift (deserialize_vault_body (e_serde E) plaintext)) (\<lambda>b. rret (Some b))))"

definition open_with_held_passphrase_and_key :: "env \<Rightarrow> path \<Rightarrow> bytes \<Rightarrow> bytes \<Rightarrow> VaultBody option app" where
  "open_with_held_passphrase_and_key E p hmac_secret credential_id =
     rbind get_session (\<lambda>s.
     rbind (on_disk (read_vault p)) (\<lambda>sealed.
       case open_vault_with_key_record (e_crypto E) (vs_passphrase s) hmac_secret credential_id sealed of
         Inl _ \<Rightarrow> rret None
       | Inr (plaintext, _) \<Rightarrow> rbind (rlift (deserialize_vault_body (e_serde E) plaintext)) (\<lambda>b. rret (Some b))))"

definition take_backup :: "VaultSession \<Rightarrow> VaultSession" where
  "take_backup s = s\<lparr>vs_pre_sync_backup :=
     Some \<lparr>sb_folders = vs_folders s, sb_entries = vs_entries s, sb_deleted_ids = vs_deleted_ids s\<rparr>\<rparr>"

definition session_merge_vault_from_body :: "env \<Rightarrow> VaultBody \<Rightarrow> MergeSummary app" where
  "session_merge_vault_from_body E incoming = saving E (
     rbind get_session (\<lambda>s.
       case do_merge (e_b64enc E) (e_hash_order E) (take_backup s) incoming of (s', summary) \<Rightarrow>
         rthen (put_session s') (rret summary)))"

definition session_fast_merge_from_body :: "env \<Rightarrow> VaultBody \<Rightarrow> MergeSummary app" where
  "session_fast_merge_from_body E incoming = saving E (
     rbind get_session (\<lambda>s. rbind now_secs (\<lambda>t. rbind now_ms (\<lambda>ms.
       case do_fast_merge (e_b64enc E) (e_b64dec E) (e_hash_order E) t ms s incoming of (s', summary) \<Rightarrow>
         rthen (put_session s') (rret summary)))))"

definition merge_if_open :: "('b \<Rightarrow> 'a app) \<Rightarrow> 'b option \<Rightarrow> 'a option app" where
  "merge_if_open merge opened = (case opened of Some incoming \<Rightarrow> rbind (merge incoming) (\<lambda>s. rret (Some s)) | None \<Rightarrow> rret None)"

definition session_merge_vault_from_file_held :: "env \<Rightarrow> path \<Rightarrow> MergeSummary option app" where
  "session_merge_vault_from_file_held E p =
     rbind (open_with_held_passphrase E p) (merge_if_open (session_merge_vault_from_body E))"

definition session_fast_merge_from_file_held :: "env \<Rightarrow> path \<Rightarrow> MergeSummary option app" where
  "session_fast_merge_from_file_held E p =
     rbind (open_with_held_passphrase E p) (merge_if_open (session_fast_merge_from_body E))"

definition session_merge_vault_from_file_with_key_held :: "env \<Rightarrow> path \<Rightarrow> bytes \<Rightarrow> bytes \<Rightarrow> MergeSummary option app" where
  "session_merge_vault_from_file_with_key_held E p hmac_secret credential_id =
     rbind (open_with_held_passphrase_and_key E p hmac_secret credential_id) (merge_if_open (session_merge_vault_from_body E))"

definition session_fast_merge_from_file_with_key_held :: "env \<Rightarrow> path \<Rightarrow> bytes \<Rightarrow> bytes \<Rightarrow> MergeSummary option app" where
  "session_fast_merge_from_file_with_key_held E p hmac_secret credential_id =
     rbind (open_with_held_passphrase_and_key E p hmac_secret credential_id) (merge_if_open (session_fast_merge_from_body E))"

definition session_apply_sync_decisions ::
  "env \<Rightarrow> SyncFieldResolutionInput list \<Rightarrow> SyncHistoryReplacementInput list \<Rightarrow> SyncItemDeleteInput list
    \<Rightarrow> SyncFolderInput list \<Rightarrow> string list \<Rightarrow> unit app" where
  "session_apply_sync_decisions E resolutions replacements item_deletes folders entry_deletes = saving E (
     rbind get_session (\<lambda>s. rbind now_secs (\<lambda>t. rbind now_ms (\<lambda>ms.
       case do_apply_sync_decisions (e_b64dec E) t ms s resolutions replacements item_deletes folders entry_deletes of
         (s', Inl e) \<Rightarrow> rthen (put_session s') (rlift (Inl e))
       | (s', Inr _) \<Rightarrow> put_session (s'\<lparr>vs_pre_sync_backup := None\<rparr>)))))"

definition restore_backup :: "SyncBackup \<Rightarrow> VaultSession \<Rightarrow> VaultSession" where
  "restore_backup b s = s\<lparr>vs_pre_sync_backup := None, vs_folders := sb_folders b, vs_entries := sb_entries b,
     vs_deleted_ids := sb_deleted_ids b\<rparr>"

definition session_cancel_sync :: "env \<Rightarrow> unit app" where
  "session_cancel_sync E =
     rbind (locked (rbind get_session (\<lambda>s.
       case vs_pre_sync_backup s of
         None \<Rightarrow> rret None
       | Some b \<Rightarrow> rthen (put_session (restore_backup b s)) (rbind prepare_save (\<lambda>j. rret (Some j))))))
     (\<lambda>saved. case saved of None \<Rightarrow> rret () | Some j \<Rightarrow> run_save E j)"

section \<open>Notions the lemmas are stated with\<close>

text \<open>Code that leaves the session part of the state alone, and code that takes a session to a related one.\<close>

definition keeps_session :: "'a app \<Rightarrow> bool" where
  "keeps_session m = (\<forall>w. w_session (snd (m w)) = w_session w)"

definition session_from :: "(VaultSession \<Rightarrow> VaultSession \<Rightarrow> bool) \<Rightarrow> VaultSession \<Rightarrow> 'a app \<Rightarrow> bool" where
  "session_from R s m = (\<forall>w. w_session w = Some s \<longrightarrow> (\<exists>s'. w_session (snd (m w)) = Some s' \<and> R s s'))"

definition session_rel :: "(VaultSession \<Rightarrow> VaultSession \<Rightarrow> bool) \<Rightarrow> 'a app \<Rightarrow> bool" where
  "session_rel R m = (\<forall>s. session_from R s m)"

text \<open>What the user interface can ask of an unlocked vault.\<close>

datatype request =
    CreateEntry VaultEntry
  | AddEntryNoSave VaultEntry
  | UpdateEntry VaultEntry "u32 option"
  | DeleteEntry string
  | DeleteEntriesNoSave "string list"
  | Save
  | AddAttachment string string string bytes
  | RemoveAttachment string string
  | RestoreHistory string u32
  | DeleteHistory string u32
  | CreateFolder string
  | RenameFolder string string
  | DeleteFolder string "string option"
  | AssignFolder "string list" string
  | ChangePassphrase bytes bytes
  | AddYubikey bytes bytes bytes
  | RemoveYubikey bytes
  | SetVaultAlias string
  | SetYubikeyAlias string string
  | MergeFromBody VaultBody
  | FastMergeFromBody VaultBody
  | MergeFromFile path
  | FastMergeFromFile path
  | MergeFromFileWithKey path bytes bytes
  | FastMergeFromFileWithKey path bytes bytes
  | ApplySyncDecisions "SyncFieldResolutionInput list" "SyncHistoryReplacementInput list" "SyncItemDeleteInput list"
      "SyncFolderInput list" "string list"
  | CancelSync
  | Export path
  | ExportPassphraseOnly path
  | ExportJson path

definition ignoring :: "'a app \<Rightarrow> unit app" where
  "ignoring m = rthen m (rret ())"

fun exec :: "env \<Rightarrow> request \<Rightarrow> unit app" where
  "exec E (CreateEntry e) = ignoring (session_create_entry E e)"
| "exec E (AddEntryNoSave e) = session_add_entry_no_save e"
| "exec E (UpdateEntry e days) = session_update_entry E e days"
| "exec E (DeleteEntry i) = session_delete_entry E i"
| "exec E (DeleteEntriesNoSave ids) = session_delete_entries_no_save ids"
| "exec E Save = session_save E"
| "exec E (AddAttachment i name kind data) = ignoring (session_add_attachment E i name kind data)"
| "exec E (RemoveAttachment i uuid) = session_remove_attachment E i uuid"
| "exec E (RestoreHistory i n) = session_restore_history E i n"
| "exec E (DeleteHistory i n) = session_delete_history E i n"
| "exec E (CreateFolder name) = session_create_folder E name"
| "exec E (RenameFolder old new) = session_rename_folder E old new"
| "exec E (DeleteFolder name target) = session_delete_folder E name target"
| "exec E (AssignFolder ids name) = session_assign_folder_to_entries E ids name"
| "exec E (ChangePassphrase old new) = session_change_passphrase E old new"
| "exec E (AddYubikey cred hmac salt) = session_add_yubikey E cred hmac salt"
| "exec E (RemoveYubikey cred) = session_remove_yubikey E cred"
| "exec E (SetVaultAlias a) = session_set_vault_alias E a"
| "exec E (SetYubikeyAlias cred a) = session_set_yubikey_alias E cred a"
| "exec E (MergeFromBody b) = ignoring (session_merge_vault_from_body E b)"
| "exec E (FastMergeFromBody b) = ignoring (session_fast_merge_from_body E b)"
| "exec E (MergeFromFile p) = ignoring (session_merge_vault_from_file_held E p)"
| "exec E (FastMergeFromFile p) = ignoring (session_fast_merge_from_file_held E p)"
| "exec E (MergeFromFileWithKey p hmac cred) = ignoring (session_merge_vault_from_file_with_key_held E p hmac cred)"
| "exec E (FastMergeFromFileWithKey p hmac cred) = ignoring (session_fast_merge_from_file_with_key_held E p hmac cred)"
| "exec E (ApplySyncDecisions rs hs ds fs dels) = session_apply_sync_decisions E rs hs ds fs dels"
| "exec E CancelSync = session_cancel_sync E"
| "exec E (Export p) = session_export_vault E p"
| "exec E (ExportPassphraseOnly p) = session_export_vault_passphrase_only E p"
| "exec E (ExportJson p) = session_export_vault_json E p"

text \<open>One step of the life of an open session: a request is served, whatever comes of it, or the world outside
  changes (the clock, the disk, the faults to come) and leaves the session alone.\<close>

inductive work :: "env \<Rightarrow> world \<Rightarrow> world \<Rightarrow> bool" for E where
  served: "work E w (snd (exec E q w))"
| outside: "w_session w' = w_session w \<Longrightarrow> work E w w'"

definition live_ids :: "VaultSession \<Rightarrow> string set" where
  "live_ids s = entry_id ` set (vs_entries s)"

definition marked_ids :: "VaultSession \<Rightarrow> string set" where
  "marked_ids s = de_id ` set (vs_deleted_ids s)"

text \<open>Every entry of the earlier session is still there or has a deletion mark, and no mark is lost.\<close>

definition accounted :: "VaultSession \<Rightarrow> VaultSession \<Rightarrow> bool" where
  "accounted s s' = (live_ids s \<subseteq> live_ids s' \<union> marked_ids s' \<and> marked_ids s \<subseteq> marked_ids s')"

text \<open>What a cancelled sync goes back to: the snapshot of the merge whose review is open, or the session itself when none is. An id
  is settled when neither the session nor that snapshot is without an entry or a mark for it.\<close>

definition sync_base :: "VaultSession \<Rightarrow> VaultSession" where
  "sync_base s = (case vs_pre_sync_backup s of None \<Rightarrow> s | Some b \<Rightarrow> restore_backup b s)"

definition known_ids :: "VaultSession \<Rightarrow> string set" where
  "known_ids s = live_ids s \<union> marked_ids s"

definition kept :: "VaultSession \<Rightarrow> VaultSession \<Rightarrow> bool" where
  "kept s s' = (known_ids s \<inter> known_ids (sync_base s) \<subseteq> known_ids s' \<inter> known_ids (sync_base s')
     \<and> marked_ids s \<inter> marked_ids (sync_base s) \<subseteq> marked_ids s' \<inter> marked_ids (sync_base s'))"

definition folders_distinct :: "VaultSession \<Rightarrow> bool" where
  "folders_distinct s = (distinct (vs_folders s) \<and> distinct (vs_folders (sync_base s)))"

text \<open>The way a session was opened: with the passphrase, or with the passphrase and a security key.\<close>

definition unlock_again :: "env \<Rightarrow> bytes \<Rightarrow> bytes \<Rightarrow> VaultSession \<Rightarrow> unit app" where
  "unlock_again E hmac cred s = (case vs_yubikey s of
     None \<Rightarrow> unlock_vault E (vs_passphrase s) (vs_path s)
   | Some _ \<Rightarrow> unlock_vault_with_key_record E (vs_passphrase s) hmac cred (vs_path s))"

definition serde_for :: "VaultBody \<Rightarrow> serde" where
  "serde_for b = \<lparr>sd_to_vec = (\<lambda>x. if x = b then Inr [0x7B, 0x7D] else Inl ''other''),
     sd_from_slice = (\<lambda>bs. if bs = [0x7B, 0x7D] then Inr (JObj []) else Inl ''EOF''),
     sd_body = (\<lambda>v. Inr b), sd_entries = (\<lambda>v. Inr [])\<rparr>"

definition env_for :: "VaultBody \<Rightarrow> env" where
  "env_for b = sample_env\<lparr>e_serde := serde_for b\<rparr>"

definition open_vault_session :: VaultSession where
  "open_vault_session = sample_session\<lparr>vs_path := ''v''\<rparr>"

definition sample_world :: world where
  "sample_world = \<lparr>st_disk = sample_disk, st_rng = (\<lambda>_. 0), w_clock = (\<lambda>_. 0), w_session = Some open_vault_session,
     w_poisoned = False\<rparr>"

definition keeps_lock :: "'a app \<Rightarrow> bool" where
  "keeps_lock m = (\<forall>w. w_poisoned (snd (m w)) = w_poisoned w)"

definition refuses :: "'a app \<Rightarrow> world \<Rightarrow> bool" where
  "refuses m w = (\<exists>e. m w = (Inl (Err e), w))"

section \<open>What leaves the session alone\<close>

named_theorems keeps_intros \<open>code that does not touch the session\<close>

lemma keeps_bind [keeps_intros]:
  "keeps_session m \<Longrightarrow> (\<And>x. keeps_session (f x)) \<Longrightarrow> keeps_session (rbind m f)"
  unfolding keeps_session_def rbind_snd by (auto split: prod.split sum.split) (metis snd_conv)+

lemma keeps_then [keeps_intros]: "keeps_session m \<Longrightarrow> keeps_session n \<Longrightarrow> keeps_session (rthen m n)"
  unfolding rthen_def by (rule keeps_bind)

lemma keeps_simple [keeps_intros]:
  "keeps_session (rret x)" "keeps_session (rlift y)" "keeps_session (on_disk m)" "keeps_session (on_rng r)"
  "keeps_session check_lock" "keeps_session read_session" "keeps_session read_clock"
  by (auto simp: keeps_session_def rret_def rlift_def on_disk_def on_rng_def zoom_def check_lock_def read_session_def
      read_clock_def split: prod.split option.split)

lemma keeps_try [keeps_intros]: "keeps_session m \<Longrightarrow> keeps_session (rtry m)"
  by (auto simp: keeps_session_def rtry_def split: prod.split) (metis snd_conv)

lemma keeps_locked [keeps_intros]: "keeps_session m \<Longrightarrow> keeps_session (locked m)"
  by (auto simp: keeps_session_def locked_def split: prod.split sum.split err.split) (metis snd_conv)+

lemma keeps_clock [keeps_intros]: "keeps_session now_secs" "keeps_session now_ms" "keeps_session get_session"
  unfolding now_secs_def now_ms_def get_session_def by (intro keeps_intros)+

lemma keeps_save [keeps_intros]:
  "keeps_session (save_vault E b pw p)" "keeps_session (reseal_on_disk E b m p)" "keeps_session (load_vault E pw p)"
  unfolding save_vault_def reseal_on_disk_def existing_alias_def load_vault_def by (intro keeps_intros)+

lemma keeps_run_save [keeps_intros]: "keeps_session (run_save E j)"
  unfolding run_save_def do_save_def by (auto intro: keeps_intros split: prod.split option.split)

lemma keeps_prepare [keeps_intros]: "keeps_session prepare_save"
  unfolding prepare_save_def by (intro keeps_intros)

section \<open>What relates sessions\<close>

named_theorems from_intros \<open>code that takes a session to a related one\<close>

lemma from_keeps: "(\<And>s. R s s) \<Longrightarrow> keeps_session m \<Longrightarrow> session_from R s m"
  by (auto simp: session_from_def keeps_session_def)

lemma from_put [from_intros]: "R s s' \<Longrightarrow> session_from R s (put_session s')"
  by (simp add: session_from_def put_session_def)

lemma from_bind:
  assumes "keeps_session m" and "\<And>x. session_from R s (f x)" and "R s s"
  shows "session_from R s (rbind m f)"
  unfolding session_from_def
proof (intro allI impI)
  fix w :: world
  assume w: "w_session w = Some s"
  obtain r w1 where m: "m w = (r, w1)" by (rule prod.exhaust)
  have w1: "w_session w1 = Some s" using assms(1) w m by (metis keeps_session_def snd_conv)
  show "\<exists>s'. w_session (snd (rbind m f w)) = Some s' \<and> R s s'"
    using assms(2) [unfolded session_from_def, rule_format, OF w1] assms(3) w1
    by (cases r) (simp_all add: rbind_def m)
qed

lemma from_bind_keeps:
  "session_from R s m \<Longrightarrow> (\<And>x. keeps_session (f x)) \<Longrightarrow> session_from R s (rbind m f)"
  unfolding session_from_def rbind_snd keeps_session_def
  by (auto split: prod.split sum.split)

lemma from_then_keeps: "session_from R s m \<Longrightarrow> keeps_session n \<Longrightarrow> session_from R s (rthen m n)"
  unfolding rthen_def by (rule from_bind_keeps)

lemma from_get:
  assumes "\<And>s. R s s" and "session_from R s (f s)"
  shows "session_from R s (rbind get_session f)"
  unfolding session_from_def
proof (intro allI impI)
  fix w :: world
  assume w: "w_session w = Some s"
  show "\<exists>s'. w_session (snd (rbind get_session f w)) = Some s' \<and> R s s'"
  proof (cases "w_poisoned w")
    case True
    with w assms(1) show ?thesis by (simp add: get_session_def rthen_def rbind_def check_lock_def)
  next
    case False
    with w assms(2) show ?thesis
      by (auto simp: get_session_def rthen_def rbind_def check_lock_def read_session_def session_from_def)
  qed
qed

lemma from_rlift:
  assumes "\<And>s. R s s" and "\<And>y. x = Inr y \<Longrightarrow> session_from R s (f y)"
  shows "session_from R s (rbind (rlift x) f)"
  using assms by (cases x) (auto simp: session_from_def rbind_def rlift_def)

lemma from_locked: "session_from R s m \<Longrightarrow> session_from R s (locked m)"
  by (auto simp: session_from_def locked_def split: prod.split sum.split err.split)

lemma from_saving: "session_from R s m \<Longrightarrow> session_from R s (saving E m)"
  unfolding saving_def case_prod_beta
  by (intro from_bind_keeps [OF from_locked] from_bind_keeps keeps_intros)

lemma from_find:
  assumes "\<And>s. R s s" and "\<And>e. find (\<lambda>e. entry_id e = i) (vs_entries s) = Some e \<Longrightarrow> session_from R s (f e)"
  shows "session_from R s (rbind (find_entry i s) f)"
proof (cases "find (\<lambda>e. entry_id e = i) (vs_entries s)")
  case None
  then show ?thesis using assms(1) by (simp add: find_entry_def rbind_def rlift_def session_from_def)
next
  case (Some e)
  then show ?thesis using assms(2) by (simp add: find_entry_def rbind_rret)
qed

section \<open>Orders on sessions\<close>

lemma same_id [simp]:
  "entry_id (add_attachment a ms now e) = entry_id e" "entry_id (remove_attachment uuid ms now e) = entry_id e"
  "entry_id (restore_record E idx h ms now e) = entry_id e" "em_id (touch now m) = em_id m"
  by (simp_all add: add_attachment_def remove_attachment_def restore_record_def touch_def stamp_def unstamp_def Let_def entry_id_def
      meta_of_set_entry_field)

lemmas same_meta_id [simp] = same_id [unfolded entry_id_def]

text \<open>
  A preorder on sessions that every change of the in-memory vault respects: what each operation does to the session,
  stated as laws. The operations of the running application, whatever calls fail, then move along the order.
\<close>

locale session_order =
  fixes R :: "VaultSession \<Rightarrow> VaultSession \<Rightarrow> bool"
  assumes R_refl: "R s s"
    and R_trans: "R s s1 \<Longrightarrow> R s1 s2 \<Longrightarrow> R s s2"
    and R_append: "R s (s\<lparr>vs_entries := vs_entries s @ [e]\<rparr>)"
    and R_update: "update_entry (vs_entries s) u d t ms = Inr es \<Longrightarrow> R s (s\<lparr>vs_entries := es\<rparr>)"
    and R_delete: "delete_entry (vs_entries s) i = Inr es \<Longrightarrow>
      R s (s\<lparr>vs_entries := es, vs_deleted_ids := vs_deleted_ids s @ [\<lparr>de_id = i, de_deleted_at = now\<rparr>]\<rparr>)"
    and R_delete_many: "R s (s\<lparr>vs_deleted_ids := add_deletions now ids s,
      vs_entries := filter (\<lambda>e. entry_id e \<notin> set ids) (vs_entries s)\<rparr>)"
    and R_replace: "find (\<lambda>e. entry_id e = i) (vs_entries s) = Some e \<Longrightarrow> entry_id e' = entry_id e \<Longrightarrow>
      R s (s\<lparr>vs_entries := modify_entry i (\<lambda>_. e') (vs_entries s)\<rparr>)"
    and R_rename: "new \<notin> set (vs_folders s) \<Longrightarrow>
      R s (s\<lparr>vs_folders := replace_first old new (vs_folders s), vs_entries := map (move_folder old new) (vs_entries s)\<rparr>)"
    and R_drop_folder: "R s (s\<lparr>vs_folders := filter (\<lambda>f. f \<noteq> name) (vs_folders s),
      vs_entries := map (move_folder name target) (vs_entries s)\<rparr>)"
    and R_assign: "R s (s\<lparr>vs_entries := map (map_meta (\<lambda>m. if em_id m \<in> set ids then m\<lparr>em_folder := fld\<rparr> else m)) (vs_entries s)\<rparr>)"
    and R_new_folder: "name \<notin> set (vs_folders s) \<Longrightarrow> R s (s\<lparr>vs_folders := vs_folders s @ [name]\<rparr>)"
    and R_alias: "R s (s\<lparr>vs_yubikey_aliases := al\<rparr>)"
    and R_passphrase: "R s (s\<lparr>vs_passphrase := pw\<rparr>)"
    and R_merge: "permutes_lists h \<Longrightarrow> R s (fst (do_merge enc h (take_backup s) inc))"
    and R_fast_merge: "permutes_lists h \<Longrightarrow> R s (fst (do_fast_merge enc dec h t ms s inc))"
    and R_apply: "R s (fst (do_apply_sync_decisions dec t ms s rs hs ds fs dels))"
    and R_drop_backup: "R s (s\<lparr>vs_pre_sync_backup := None\<rparr>)"
    and R_cancel: "vs_pre_sync_backup s = Some b \<Longrightarrow> R s (restore_backup b s)"
begin

lemma keeps: "keeps_session m \<Longrightarrow> session_from R s m"
  using R_refl by (rule from_keeps)

lemma bind: "keeps_session m \<Longrightarrow> (\<And>x. session_from R s (f x)) \<Longrightarrow> session_from R s (rbind m f)"
  by (rule from_bind [OF _ _ R_refl])

lemma fail: "session_from R s (rlift (Inl e))"
  by (intro keeps keeps_intros)

lemmas steps = from_saving from_locked bind from_put from_get [of R, OF R_refl] from_find [of R, OF R_refl]
  from_rlift [of R, OF R_refl] from_then_keeps keeps_intros

lemma create_entry: "session_from R s (session_create_entry E e)"
  unfolding session_create_entry_def by (intro steps R_append)

lemma add_entry: "session_from R s (session_add_entry_no_save e)"
  unfolding session_add_entry_no_save_def by (intro steps R_append)

lemma update: "session_from R s (session_update_entry E u d)"
  unfolding session_update_entry_def by (intro steps R_update)

lemma delete: "session_from R s (session_delete_entry E i)"
  unfolding session_delete_entry_def by (intro steps R_delete)

lemma delete_many: "session_from R s (session_delete_entries_no_save ids)"
  unfolding session_delete_entries_no_save_def by (intro steps R_delete_many)

lemma save: "session_from R s (session_save E)"
  unfolding session_save_def by (intro from_saving keeps keeps_intros)

lemma folder_ops:
  "session_from R s (session_create_folder E name)" "session_from R s (session_rename_folder E old new)"
  "session_from R s (session_delete_folder E name target)" "session_from R s (session_assign_folder_to_entries E ids fld)"
  unfolding session_create_folder_def session_rename_folder_def session_delete_folder_def session_assign_folder_to_entries_def
  by (auto intro!: steps fail intro: R_new_folder R_rename R_drop_folder R_assign split: option.split)

lemma put: "find (\<lambda>e. entry_id e = i) (vs_entries s) = Some e \<Longrightarrow> entry_id e' = entry_id e \<Longrightarrow> session_from R s (put_entry i e' s)"
  unfolding put_entry_def by (intro from_put R_replace)

lemma attachment_ops:
  "session_from R s (session_add_attachment E i name kind data)" "session_from R s (session_remove_attachment E i uuid)"
  unfolding session_add_attachment_def session_remove_attachment_def new_entry_id_def
  by (auto intro!: steps fail split: if_split) (erule put, simp add: entry_id_def)+

lemma history_ops:
  "session_from R s (session_restore_history E i index)" "session_from R s (session_delete_history E i index)"
  unfolding session_restore_history_def session_delete_history_def Let_def
  by (auto intro!: steps fail split: if_split) (erule put, simp add: entry_id_def)+

lemma sync_ops:
  assumes "permutes_lists (e_hash_order E)"
  shows "session_from R s (session_merge_vault_from_body E inc)" "session_from R s (session_fast_merge_from_body E inc)"
    "session_from R s (session_apply_sync_decisions E rs hs ds fs dels)"
proof -
  show "session_from R s (session_merge_vault_from_body E inc)"
    unfolding session_merge_vault_from_body_def case_prod_beta by (intro steps R_merge assms)
  show "session_from R s (session_fast_merge_from_body E inc)"
    unfolding session_fast_merge_from_body_def case_prod_beta by (intro steps R_fast_merge assms)
  have "session_from R s (case do_apply_sync_decisions (e_b64dec E) t ms s rs hs ds fs dels of
         (s', Inl e) \<Rightarrow> rthen (put_session s') (rlift (Inl e))
       | (s', Inr _) \<Rightarrow> put_session (s'\<lparr>vs_pre_sync_backup := None\<rparr>))" for t ms
    using R_apply [of s "e_b64dec E" t ms rs hs ds fs dels] R_trans [OF R_apply R_drop_backup, of s "e_b64dec E" t ms rs hs ds fs dels]
    by (auto intro!: steps split: prod.split sum.split)
  then show "session_from R s (session_apply_sync_decisions E rs hs ds fs dels)"
    unfolding session_apply_sync_decisions_def by (intro steps)
qed

lemma cancel_op: "session_from R s (session_cancel_sync E)"
proof -
  have keep: "keeps_session (case saved of None \<Rightarrow> rret () | Some j \<Rightarrow> run_save E j)" for saved
    by (auto intro: keeps_intros split: option.split)
  have "session_from R s (case vs_pre_sync_backup s of None \<Rightarrow> rret None
       | Some b \<Rightarrow> rthen (put_session (restore_backup b s)) (rbind prepare_save (\<lambda>j. rret (Some j))))"
  proof (cases "vs_pre_sync_backup s")
    case None
    then show ?thesis by (auto intro: keeps keeps_intros)
  next
    case (Some b)
    then show ?thesis by (simp, intro from_then_keeps from_put R_cancel keeps_intros)
  qed
  then show ?thesis unfolding session_cancel_sync_def
    by (intro from_bind_keeps [OF from_locked] from_get [of R, OF R_refl] keep)
qed

lemma passphrase_op: "session_from R s (session_change_passphrase E old new)"
proof -
  have keep: "keeps_session (case vs_yubikey s of
         Some yk \<Rightarrow> rbind now_secs (\<lambda>t. rbind (rlift (serialize_vault_body (e_serde E) (build_body t s))) (\<lambda>plaintext.
             change_passphrase_with_keys E old new (ym_vault_key_master yk) plaintext (vs_path s)))
       | None \<Rightarrow> rthen (load_vault E old (vs_path s)) (rbind now_secs (\<lambda>t. save_vault E (build_body t s) new (vs_path s))))"
    unfolding change_passphrase_with_keys_def by (auto intro!: keeps_intros split: option.split)
  show ?thesis
    unfolding session_change_passphrase_def
    by (intro from_locked from_get [of R, OF R_refl]) (unfold rthen_def [of "case_option _ _ _"],
      intro bind keep from_then_keeps from_put R_passphrase keeps_intros)
qed

lemma alias_op: "session_from R s (session_set_yubikey_alias E c a)"
  unfolding session_set_yubikey_alias_def by (intro steps R_alias)

end

inductive_cases workE: "work E w w'"

section \<open>Requests and sessions\<close>

lemma keeps_add_yubikey [keeps_intros]: "keeps_session (session_add_yubikey E c h s)"
  unfolding session_add_yubikey_def add_yubikey_to_vault_def case_prod_beta
  by (auto intro!: keeps_intros split: option.split)

lemma keeps_remove_yubikey [keeps_intros]: "keeps_session (session_remove_yubikey E c)"
  unfolding session_remove_yubikey_def remove_yubikey_from_vault_def case_prod_beta
  by (auto intro!: keeps_intros split: option.split)

lemma keeps_set_alias [keeps_intros]: "keeps_session (session_set_vault_alias E a)"
  unfolding session_set_vault_alias_def case_prod_beta Let_def
  by (auto intro!: keeps_intros split: option.split)

lemma keeps_exports [keeps_intros]:
  "keeps_session (session_export_vault E p)" "keeps_session (session_export_vault_passphrase_only E p)"
  "keeps_session (session_export_vault_json E p)"
  unfolding session_export_vault_def session_export_vault_passphrase_only_def session_export_vault_json_def
    export_vault_def build_passphrase_only_bytes_def
  by (intro keeps_intros)+

lemma keeps_opens [keeps_intros]:
  "keeps_session (open_with_held_passphrase E p)" "keeps_session (open_with_held_passphrase_and_key E p h c)"
  unfolding open_with_held_passphrase_def open_with_held_passphrase_and_key_def
  by (auto intro!: keeps_intros split: sum.split prod.split)

lemmas held_defs = session_merge_vault_from_file_held_def session_fast_merge_from_file_held_def
  session_merge_vault_from_file_with_key_held_def session_fast_merge_from_file_with_key_held_def

context session_order
begin

lemma if_open: "(\<And>b. session_from R s (f b)) \<Longrightarrow> session_from R s (merge_if_open f x)"
  by (cases x) (simp_all add: merge_if_open_def from_bind_keeps keeps keeps_intros)

lemma held_ops:
  assumes "permutes_lists (e_hash_order E)"
  shows "session_from R s (session_merge_vault_from_file_held E p)" "session_from R s (session_fast_merge_from_file_held E p)"
    "session_from R s (session_merge_vault_from_file_with_key_held E p h c)"
    "session_from R s (session_fast_merge_from_file_with_key_held E p h c)"
  unfolding held_defs by (intro bind if_open sync_ops assms keeps_intros)+

lemma ignored: "session_from R s m \<Longrightarrow> session_from R s (ignoring m)"
  unfolding ignoring_def by (intro from_then_keeps keeps_intros)

lemma request:
  assumes "permutes_lists (e_hash_order E)"
  shows "session_from R s (exec E q)"
proof (cases q)
qed (simp_all add: ignored create_entry add_entry update delete delete_many save folder_ops attachment_ops history_ops
  sync_ops cancel_op held_ops assms passphrase_op alias_op keeps keeps_intros)

lemma working:
  assumes "permutes_lists (e_hash_order E)" and "(work E)\<^sup>*\<^sup>* w w'" and "w_session w = Some s"
  shows "\<exists>s'. w_session w' = Some s' \<and> R s s'"
  using assms(2)
proof induction
  case base
  then show ?case using assms(3) R_refl by blast
next
  case (step w1 w2)
  then obtain s1 where s1: "w_session w1 = Some s1" "R s s1" by blast
  from step(2) show ?case
  proof cases
    case (served q)
    with request [OF assms(1), of s1 q] s1 obtain s2 where "w_session w2 = Some s2" "R s1 s2"
      by (auto simp: session_from_def)
    with s1(2) R_trans show ?thesis by blast
  next
    case outside
    with s1 show ?thesis by simp
  qed
qed

end

section \<open>Ids and marks under the operations\<close>

lemma accounted_trans: "accounted s s1 \<Longrightarrow> accounted s1 s2 \<Longrightarrow> accounted s s2"
  unfolding accounted_def by blast

lemma accounted_ids:
  "live_ids s \<subseteq> live_ids s' \<Longrightarrow> vs_deleted_ids s' = vs_deleted_ids s \<Longrightarrow> accounted s s'"
  by (auto simp: accounted_def marked_ids_def)

lemma live_same: "map entry_id es = map entry_id (vs_entries s) \<Longrightarrow> live_ids (s\<lparr>vs_entries := es\<rparr>) = live_ids s"
  by (simp add: live_ids_def) (metis list.set_map)

lemma entry_id_map_meta_folder [simp]:
  "entry_id (move_folder a b e) = entry_id e"
  "entry_id (map_meta (\<lambda>m. if P m then m\<lparr>em_folder := f\<rparr> else m) e) = entry_id e"
  by (simp_all add: entry_id_def move_folder_def)

lemma em_id_if [simp]: "em_id (if c then m\<lparr>em_folder := f\<rparr> else m) = em_id m"
  by simp

lemma delete_entry_accounted:
  assumes "delete_entry (vs_entries s) i = Inr es"
  shows "accounted s (s\<lparr>vs_entries := es, vs_deleted_ids := vs_deleted_ids s @ [\<lparr>de_id = i, de_deleted_at = now\<rparr>]\<rparr>)"
proof -
  from assms obtain p where p: "position (\<lambda>e. entry_id e = i) (vs_entries s) = Some p"
    and es: "es = take p (vs_entries s) @ drop (Suc p) (vs_entries s)"
    by (auto simp: delete_entry_def split: option.splits)
  then have lt: "p < length (vs_entries s)" and pi: "entry_id (vs_entries s ! p) = i" by (auto simp: position_Some)
  have "set (vs_entries s) = set es \<union> {vs_entries s ! p}"
    by (subst id_take_nth_drop [OF lt]) (auto simp: es)
  then show ?thesis using pi by (auto simp: accounted_def live_ids_def marked_ids_def)
qed

lemma merged_marks:
  assumes "permutes_lists h"
  shows "marked_ids (fst (do_merge enc h s inc)) = marked_ids s \<union> de_id ` set (vb_deleted_ids inc)"
proof -
  let ?t = "merge_tombstones (vs_deleted_ids s) (vb_deleted_ids inc)"
  have "i \<in> fst ` set ?t \<longleftrightarrow> i \<in> marked_ids s \<union> de_id ` set (vb_deleted_ids inc)" for i
  proof -
    have "i \<in> fst ` set ?t \<longleftrightarrow> ix_get ?t i \<noteq> None" by (simp add: ix_get_None)
    also have "\<dots> \<longleftrightarrow> i \<in> de_id ` set (vb_deleted_ids inc) \<or> last_by de_id (vs_deleted_ids s) i \<noteq> None"
      unfolding merge_tombstones_get latest_def Let_def fold_ix_insert_get
      by (auto simp: filter_empty_conv ix_get_None split: option.splits if_splits) (auto simp: ix_get_def)
    also have "last_by de_id (vs_deleted_ids s) i \<noteq> None \<longleftrightarrow> i \<in> marked_ids s"
      by (simp add: last_by_None marked_ids_def)
    finally show ?thesis by blast
  qed
  then have "fst ` set ?t = marked_ids s \<union> de_id ` set (vb_deleted_ids inc)" by blast
  moreover have "set (h (map (\<lambda>(i, a). \<lparr>de_id = i, de_deleted_at = a\<rparr>) ?t)) = set (map (\<lambda>(i, a). \<lparr>de_id = i, de_deleted_at = a\<rparr>) ?t)"
    using assms by (metis permutes_lists_def mset_eq_setD)
  ultimately show ?thesis
    by (simp add: marked_ids_def do_merge_def Let_def image_image case_prod_beta)
qed

lemma merged_live: "live_ids s \<subseteq> live_ids (fst (do_merge enc h s inc))"
proof -
  have "live_ids (fst (do_merge enc h s inc)) = set (map entry_id (vs_entries (fst (do_merge enc h s inc))))"
    by (simp add: live_ids_def)
  then show ?thesis unfolding merge_ids by (auto simp: live_ids_def)
qed

lemma merge_accounted: "permutes_lists h \<Longrightarrow> accounted s (fst (do_merge enc h (take_backup s) inc))"
  using merged_marks [of h enc "take_backup s" inc] merged_live [of "take_backup s" enc h inc]
  by (auto simp: accounted_def take_backup_def live_ids_def marked_ids_def)

lemma fast_merge_marks: "vs_deleted_ids (fst (do_fast_merge enc dec h t ms s inc)) = vs_deleted_ids (fst (do_merge enc h s inc))"
  by (simp add: do_fast_merge_def Let_def case_prod_beta)

lemma fast_merge_accounted:
  assumes "permutes_lists h"
  shows "accounted s (fst (do_fast_merge enc dec h t ms s inc))"
proof -
  let ?s = "fst (do_fast_merge enc dec h t ms s inc)" and ?m = "fst (do_merge enc h s inc)"
  have "live_ids ?s = set (map entry_id (vs_entries ?s))" by (simp add: live_ids_def)
  then have live: "live_ids ?s = live_ids ?m - pdi_id ` set (ms_pending_deletes (snd (do_merge enc h s inc)))"
    unfolding fast_merge_ids by (auto simp: live_ids_def)
  have "pdi_id ` set (ms_pending_deletes (snd (do_merge enc h s inc))) \<subseteq> de_id ` set (vb_deleted_ids inc)"
    by (auto simp: do_merge_def Let_def merge_local_pending split: if_splits)
  with live merged_live [of s enc h inc] merged_marks [OF assms, of enc s inc] fast_merge_marks [of enc dec h t ms s inc]
  show ?thesis by (auto simp: accounted_def marked_ids_def)
qed

lemma apply_deletes_accounted: "accounted s (fst (apply_entry_deletes now is s))"
proof (induction "is" arbitrary: s)
  case Nil
  then show ?case by (simp add: accounted_def)
next
  case (Cons i "is")
  show ?case
  proof (cases "\<exists>e \<in> set (vs_entries s). entry_id e = i")
    case False
    then show ?thesis using Cons by simp
  next
    case True
    show ?thesis
    proof (cases "delete_entry (vs_entries s) i")
      case (Inl e)
      then show ?thesis using True by (simp add: accounted_def)
    next
      case (Inr es)
      with True accounted_trans [OF delete_entry_accounted [OF Inr] Cons] show ?thesis by simp
    qed
  qed
qed

lemma review_ids:
  "\<exists>es. map entry_id es = map entry_id (vs_entries s) \<and>
     fst (do_apply_sync_decisions d t ms s rs hs is fs ds) \<in>
       {s\<lparr>vs_entries := es\<rparr>, fst (apply_entry_deletes (chrono_now t) ds (s\<lparr>vs_entries := es\<rparr>))}"
proof -
  define e3 where "e3 = fold (\<lambda>d. modify_entry (sid_id d) (apply_item_delete (chrono_now t) ms d)) is
    (fold (\<lambda>h. modify_entry (shr_id h) (replace_keeping_history d (chrono_now t) ms (shr_field h) (shr_new_value h)
       (shr_replaced_value h))) hs
     (fold (\<lambda>f. modify_entry (sfr_id f) (apply_resolution d (chrono_now t) ms f)) rs (vs_entries s)))"
  obtain e4 u where f: "apply_folders (chrono_now t) (vs_folders s) fs e3 = (e4, u)" by (rule prod.exhaust)
  have "map entry_id e3 = map entry_id (vs_entries s)" by (simp add: e3_def fold_modify_ids)
  with apply_folders_ids [of "chrono_now t" "vs_folders s" fs e3] f have "map entry_id e4 = map entry_id (vs_entries s)" by simp
  moreover have "do_apply_sync_decisions d t ms s rs hs is fs ds = (case u of Inl e \<Rightarrow> (s\<lparr>vs_entries := e4\<rparr>, Inl e)
      | Inr _ \<Rightarrow> apply_entry_deletes (chrono_now t) ds (s\<lparr>vs_entries := e4\<rparr>))"
    using f by (simp add: do_apply_sync_decisions_def Let_def e3_def)
  ultimately show ?thesis by (intro exI [of _ e4]) (simp split: sum.split)
qed

lemma review_accounted: "accounted s (fst (do_apply_sync_decisions d t ms s rs hs is fs ds))"
proof -
  obtain es where es: "map entry_id es = map entry_id (vs_entries s)"
    and r: "fst (do_apply_sync_decisions d t ms s rs hs is fs ds) \<in>
      {s\<lparr>vs_entries := es\<rparr>, fst (apply_entry_deletes (chrono_now t) ds (s\<lparr>vs_entries := es\<rparr>))}"
    using review_ids by blast
  have "accounted s (s\<lparr>vs_entries := es\<rparr>)" by (rule accounted_ids) (simp_all add: live_same [OF es])
  with r accounted_trans [OF this apply_deletes_accounted] show ?thesis by auto
qed

lemma update_ids: "update_entry es u d t ms = Inr es' \<Longrightarrow> map entry_id es' = map entry_id es"
proof (erule update_entry_Inr)
  fix pos m r
  assume "position (\<lambda>e. entry_id e = entry_id u) es = Some pos" "r = map_meta (\<lambda>_. m) (restore_stored (es ! pos) u)"
    and es': "es' = es[pos := r]" and "em_id m = entry_id u"
  then have "pos < length es" "entry_id r = entry_id (es ! pos)" by (auto simp: position_Some entry_id_def)
  then show "map entry_id es' = map entry_id es" unfolding es' by (metis list_update_id map_update nth_map)
qed

lemma replaced_ids:
  assumes "find (\<lambda>e. entry_id e = i) es = Some e" and "entry_id e' = entry_id e"
  shows "map entry_id (modify_entry i (\<lambda>_. e') es) = map entry_id es"
proof (cases "position (\<lambda>e. entry_id e = i) es")
  case None
  then show ?thesis by (simp add: modify_entry_def)
next
  case (Some p)
  then have p: "p < length es" "entry_id (es ! p) = i" by (auto simp: position_Some)
  have "entry_id e = i" using assms(1) by (auto simp: find_Some_iff)
  with assms(2) p have "entry_id e' = map entry_id es ! p" by simp
  with Some p show ?thesis by (metis list_update_id map_update modify_entry_def option.simps(5))
qed

text \<open>The open snapshot of an operation that accounts for every entry: it stays, is dropped, or is the session before.\<close>

lemma sync_base_ids:
  "known_ids (sync_base s) = (case vs_pre_sync_backup s of None \<Rightarrow> known_ids s | Some b \<Rightarrow> entry_id ` set (sb_entries b) \<union> de_id ` set (sb_deleted_ids b))"
  "marked_ids (sync_base s) = (case vs_pre_sync_backup s of None \<Rightarrow> marked_ids s | Some b \<Rightarrow> de_id ` set (sb_deleted_ids b))"
  "vs_folders (sync_base s) = (case vs_pre_sync_backup s of None \<Rightarrow> vs_folders s | Some b \<Rightarrow> sb_folders b)"
  by (auto simp: sync_base_def known_ids_def live_ids_def marked_ids_def restore_backup_def split: option.split)

lemma kept_trans: "kept s s1 \<Longrightarrow> kept s1 s2 \<Longrightarrow> kept s s2"
  unfolding kept_def by blast

lemma accounted_kept:
  assumes "accounted s s'" and "vs_pre_sync_backup s' = vs_pre_sync_backup s \<or> vs_pre_sync_backup s' = None"
  shows "kept s s'"
proof -
  have "known_ids s \<subseteq> known_ids s'" "marked_ids s \<subseteq> marked_ids s'" using assms(1) by (auto simp: accounted_def known_ids_def)
  with assms(2) show ?thesis unfolding kept_def sync_base_ids by (cases "vs_pre_sync_backup s") auto
qed

lemma merge_kept: "permutes_lists h \<Longrightarrow> kept s (fst (do_merge enc h (take_backup s) inc))"
proof -
  assume "permutes_lists h"
  then have a: "accounted s (fst (do_merge enc h (take_backup s) inc))" by (rule merge_accounted)
  have "vs_pre_sync_backup (fst (do_merge enc h (take_backup s) inc)) =
      Some \<lparr>sb_folders = vs_folders s, sb_entries = vs_entries s, sb_deleted_ids = vs_deleted_ids s\<rparr>"
    by (simp add: do_merge_def Let_def take_backup_def)
  then have "known_ids (sync_base (fst (do_merge enc h (take_backup s) inc))) = known_ids s"
    "marked_ids (sync_base (fst (do_merge enc h (take_backup s) inc))) = marked_ids s"
    by (simp_all add: sync_base_def restore_backup_def known_ids_def live_ids_def marked_ids_def)
  with a show ?thesis unfolding kept_def accounted_def known_ids_def by blast
qed

lemma cancel_kept: "vs_pre_sync_backup s = Some b \<Longrightarrow> kept s (restore_backup b s)"
  by (auto simp: kept_def sync_base_def known_ids_def live_ids_def marked_ids_def restore_backup_def)

lemma review_backup: "vs_pre_sync_backup (fst (do_apply_sync_decisions d t ms s rs hs is fs ds)) = vs_pre_sync_backup s"
proof -
  have "vs_pre_sync_backup (fst (apply_entry_deletes now is s)) = vs_pre_sync_backup s" for now "is" s
    by (induction "is" arbitrary: s) (auto split: sum.split)
  then show ?thesis using review_ids [of s d t ms rs hs "is" fs ds] by auto
qed

lemma fast_merge_backup: "vs_pre_sync_backup (fst (do_fast_merge enc dec h t ms s inc)) = vs_pre_sync_backup s"
  by (simp add: do_fast_merge_def do_merge_def Let_def case_prod_beta)

interpretation acc: session_order kept
proof (unfold_locales, goal_cases)
  case (4 s u d t ms es)
  from update_ids [OF this] show ?case by (intro accounted_kept accounted_ids) (simp_all add: live_same)
next
  case (6 s now ids)
  show ?case by (rule accounted_kept) (auto simp: accounted_def live_ids_def marked_ids_def add_deletions_def image_image image_Un)
next
  case (7 i s e e')
  from replaced_ids [OF this] show ?case by (intro accounted_kept accounted_ids) (simp_all add: live_same)
next
  case (2 s s1 s2)
  then show ?case by (rule kept_trans)
qed (simp_all add: merge_kept cancel_kept accounted_kept delete_entry_accounted fast_merge_accounted review_accounted review_backup
    fast_merge_backup,
  (rule accounted_kept, rule accounted_ids; auto simp: live_ids_def image_image entry_id_def move_folder_def)+)

section \<open>Folder names stay distinct\<close>

lemma replace_first_set: "set (replace_first a b xs) \<subseteq> insert b (set xs)"
  by (induction xs) auto

lemma replace_first_distinct: "distinct xs \<Longrightarrow> b \<notin> set xs \<Longrightarrow> distinct (replace_first a b xs)"
  using replace_first_set by (induction xs) fastforce+

lemma merge_folders_distinct: "distinct loc \<Longrightarrow> distinct (merge_folders loc inc)"
  unfolding merge_folders_def by (induction inc arbitrary: loc) auto

lemma review_folders: "vs_folders (fst (do_apply_sync_decisions d t ms s rs hs is fs ds)) = vs_folders s"
proof -
  have "vs_folders (fst (apply_entry_deletes now is s)) = vs_folders s" for now "is" s
    by (induction "is" arbitrary: s) (auto split: sum.split)
  then show ?thesis using review_ids [of s d t ms rs hs "is" fs ds] by auto
qed

interpretation fld: session_order "\<lambda>s s'. folders_distinct s \<longrightarrow> folders_distinct s'"
  by unfold_locales
    (auto simp: folders_distinct_def sync_base_ids replace_first_distinct do_merge_def do_fast_merge_def take_backup_def Let_def
      case_prod_beta merge_folders_distinct review_folders review_backup restore_backup_def split: option.splits)

section \<open>Saving does not touch the lock\<close>

lemma lock_bind: "keeps_lock m \<Longrightarrow> (\<And>x. keeps_lock (f x)) \<Longrightarrow> keeps_lock (rbind m f)"
  unfolding keeps_lock_def rbind_snd by (auto split: prod.split sum.split) (metis snd_conv)+

lemma lock_simple:
  "keeps_lock (rret x)" "keeps_lock (rlift y)" "keeps_lock (on_disk m)" "keeps_lock (on_rng r)" "keeps_lock (existing_alias p)"
  by (auto simp: keeps_lock_def rret_def rlift_def on_disk_def on_rng_def zoom_def existing_alias_def rbind_def rtry_def split: prod.split)

lemma lock_run_save: "keeps_lock (run_save E j)"
  unfolding run_save_def do_save_def save_vault_def reseal_on_disk_def
  by (auto intro!: lock_bind lock_simple split: prod.split option.split)

section \<open>Saving and reopening\<close>

text \<open>What a successful operation that saves leaves behind.\<close>

lemma prepare_save_Inr:
  "prepare_save w = (Inr j, w') \<longleftrightarrow> (\<exists>s. w_session w = Some s \<and> w' = w\<lparr>w_clock := (\<lambda>i. w_clock w (Suc i))\<rparr>
     \<and> j = (build_body (w_clock w 0 div 1000) s, vs_passphrase s, vs_path s, extract_yubikey s))"
  by (auto simp: prepare_save_def rbind_def read_session_def now_secs_def read_clock_def rret_def split: option.splits)

lemma prepare_save_run:
  "w_session w = Some s \<Longrightarrow> prepare_save w = (Inr (build_body (w_clock w 0 div 1000) s, vs_passphrase s, vs_path s, extract_yubikey s),
     w\<lparr>w_clock := (\<lambda>i. w_clock w (Suc i))\<rparr>)"
  by (simp add: prepare_save_Inr)

lemma locked_Inr [rnd_simps]: "locked m w = (Inr x, w') \<longleftrightarrow> m w = (Inr x, w')"
  by (auto simp: locked_def split: prod.splits sum.splits err.splits)

lemma saving_InrE:
  assumes "saving E m w = (Inr r, w')"
  obtains w1 s t where "m w = (Inr r, w1)" "w_session w1 = Some s" "w_session w' = Some s"
    and "do_save E (build_body t s) (vs_passphrase s) (vs_path s) (extract_yubikey s)
      (w1\<lparr>w_clock := (\<lambda>i. w_clock w1 (Suc i))\<rparr>) = (Inr (), w')"
proof -
  from assms obtain w1 w2 j where m: "m w = (Inr r, w1)" and j: "prepare_save w1 = (Inr j, w2)"
    and run: "run_save E j w2 = (Inr (), w')"
    by (auto simp: saving_def rthen_def rnd_simps)
  from j obtain s where s: "w_session w1 = Some s" and w2: "w2 = w1\<lparr>w_clock := (\<lambda>i. w_clock w1 (Suc i))\<rparr>"
    and "j = (build_body (w_clock w1 0 div 1000) s, vs_passphrase s, vs_path s, extract_yubikey s)"
    unfolding prepare_save_Inr by blast
  with run have sv: "run_save E (build_body (w_clock w1 0 div 1000) s, vs_passphrase s, vs_path s, extract_yubikey s)
      (w1\<lparr>w_clock := (\<lambda>i. w_clock w1 (Suc i))\<rparr>) = (Inr (), w')" by simp
  have "w_session w' = w_session (w1\<lparr>w_clock := (\<lambda>i. w_clock w1 (Suc i))\<rparr>)"
    using keeps_run_save [unfolded keeps_session_def, rule_format, of E _ "w1\<lparr>w_clock := (\<lambda>i. w_clock w1 (Suc i))\<rparr>"] sv
    by (metis snd_conv)
  then show ?thesis using that m s sv by (simp add: run_save_def)
qed

lemma saved_session_loads:
  assumes "saving E m w = (Inr r, w')" and "w_session w' = Some s" and "vs_yubikey s = None" and "settled w' (vs_path s)"
    and "aead_correct (e_crypto E)" and "serde_roundtrip (e_serde E)"
  obtains t where "load_vault E (vs_passphrase s) (vs_path s) w' = (Inr (build_body t s), w')"
proof -
  obtain w1 t where "do_save E (build_body t s) (vs_passphrase s) (vs_path s) (extract_yubikey s)
      (w1\<lparr>w_clock := (\<lambda>i. w_clock w1 (Suc i))\<rparr>) = (Inr (), w')"
    by (rule saving_InrE [OF assms(1)]) (use assms(2) in auto)
  with assms(3) have "save_vault E (build_body t s) (vs_passphrase s) (vs_path s)
      (w1\<lparr>w_clock := (\<lambda>i. w_clock w1 (Suc i))\<rparr>) = (Inr (), w')"
    by (simp add: do_save_def extract_yubikey_def)
  from save_vault_loads [OF this assms(5,6,4)] that show ?thesis by blast
qed

lemma saved_key_session_loads:
  assumes "saving E m w = (Inr r, w')" and "w_session w' = Some s" and "vs_yubikey s = Some yk" and "settled w' (vs_path s)"
    and "aead_correct (e_crypto E)" and "serde_roundtrip (e_serde E)"
    and "key_opens (e_crypto E) (vs_passphrase s, hmac, cred, ym_vault_key_master yk) (vs_path s) (d_fs (st_disk (snd (m w))))"
  obtains t wk where "load_vault_with_key_record E (vs_passphrase s) hmac cred (vs_path s) w' = (Inr (build_body t s, ym_vault_key_master yk, Some wk), w')"
proof -
  obtain w1 t where m: "m w = (Inr r, w1)" and "do_save E (build_body t s) (vs_passphrase s) (vs_path s) (extract_yubikey s)
      (w1\<lparr>w_clock := (\<lambda>i. w_clock w1 (Suc i))\<rparr>) = (Inr (), w')"
    by (rule saving_InrE [OF assms(1)]) (use assms(2) in auto)
  with assms(3) have "reseal_on_disk E (build_body t s) (ym_vault_key_master yk) (vs_path s)
      (w1\<lparr>w_clock := (\<lambda>i. w_clock w1 (Suc i))\<rparr>) = (Inr (), w')"
    by (simp add: do_save_def extract_yubikey_def)
  from reseal_loads(1) [OF this _ assms(5,6,4), of "vs_passphrase s" hmac cred] assms(7) m that show ?thesis by auto
qed

text \<open>The end of both ways to unlock, once the vault is loaded.\<close>

lemma unlock_loaded:
  assumes "load_vault E pw p w = (Inr b, w)" and "\<not> w_poisoned w"
  shows "unlock_vault E pw p w =
    (case purge_expired_history (w_clock w 0 div 1000) (vb_entries b) of
       Inl e \<Rightarrow> (Inl e, w\<lparr>w_clock := (\<lambda>i. w_clock w (Suc i))\<rparr>)
     | Inr es \<Rightarrow> (Inr (), w\<lparr>w_clock := (\<lambda>i. w_clock w (Suc i)), w_session := Some (open_session p pw b es None)\<rparr>))"
  using assms
  by (simp add: unlock_vault_def rbind_def rthen_def now_secs_def read_clock_def rret_def rlift_def check_lock_def put_session_def
      split: sum.split)

lemma unlock_key_loaded:
  assumes "load_vault_with_key_record E pw hmac cred p w = (Inr (b, master, wk), w)" and "\<not> w_poisoned w"
  shows "unlock_vault_with_key_record E pw hmac cred p w =
    (case purge_expired_history (w_clock w 0 div 1000) (vb_entries b) of
       Inl e \<Rightarrow> (Inl e, w\<lparr>w_clock := (\<lambda>i. w_clock w (Suc i))\<rparr>)
     | Inr es \<Rightarrow> (Inr (), w\<lparr>w_clock := (\<lambda>i. w_clock w (Suc i)),
         w_session := Some (open_session p pw b es (Some \<lparr>ym_vault_key_master = master, ym_wrapping_key = wk\<rparr>))\<rparr>))"
  using assms
  by (simp add: unlock_vault_with_key_record_def rbind_def rthen_def now_secs_def read_clock_def rret_def rlift_def check_lock_def
      put_session_def split: sum.split)

lemma load_without_session:
  "load_vault E pw p w = (Inr b, w) \<Longrightarrow> load_vault E pw p (w\<lparr>w_session := x\<rparr>) = (Inr b, w\<lparr>w_session := x\<rparr>)"
  "load_vault_with_key_record E pw hmac cred p w = (Inr y, w) \<Longrightarrow>
     load_vault_with_key_record E pw hmac cred p (w\<lparr>w_session := x\<rparr>) = (Inr y, w\<lparr>w_session := x\<rparr>)"
  by (auto simp: load_vault_def load_vault_with_key_record_def rbind_def on_disk_def zoom_def rlift_def rret_def
      split: prod.splits sum.splits dest: arg_cong [of _ _ st_disk])

section \<open>Concrete runs of the application\<close>

lemma serde_for_ok: "serde_roundtrip (serde_for b)" "serialize_vault_body (serde_for b) b = Inr [0x7B, 0x7D]"
  by (auto simp: serde_roundtrip_def serde_for_def is_ascii_whitespace_def ix_get_def serialize_vault_body_def ser_err_def
      split: if_splits)

lemma quiet_alias:
  assumes "st_disk w = sample_disk"
  shows "existing_alias ''v'' w = (Inr None, w)"
proof -
  have c: "check_not_symlink ''v'' sample_disk = (Inr (), sample_disk)"
    by (rule check_quiet) (simp_all add: sample_disk_def is_link_def)
  have "sys_err m (fs_read ''v'') sample_disk = (Inl (Err (m @ show_io NotFound)), sample_disk)" for m
    by (simp add: sys_err_def fs_read_def syscall_def next_fault_def sample_disk_def numeral_nat)
  moreover have "w\<lparr>st_disk := sample_disk\<rparr> = w" using assms by (metis store.surjective store.update_convs(1))
  ultimately show ?thesis using c assms
    by (simp add: existing_alias_def rbind_def rtry_def on_disk_def zoom_def read_vault_def rthen_def rret_def)
qed

lemma quiet_save:
  assumes "st_disk w = sample_disk" and "st_rng w = (\<lambda>_. 0)"
  obtains r d where "save_vault (env_for b) b pw ''v'' w = (Inr (), w\<lparr>st_rng := r, st_disk := d\<rparr>)"
    and "settled (w\<lparr>st_rng := r, st_disk := d\<rparr>) ''v''"
proof -
  obtain s r where s: "seal_vault tag_crypto pw [0x7B, 0x7D] None (\<lambda>_. 0) = (Inr s, r)"
    using total_seal(2) by (rule total_rndE)
  note wf = seal_vault_wf [OF s [unfolded seal_vault_def]]
  have "length (sv_ciphertext s) = 18"
    using s unfolding seal_vault_def seal_vault_with_params_def
    by (auto simp: rnd_simps toy_runs elim!: encrypt_body_Inr)
  then have l: "length (to_bytes s) < 2 ^ 64"
    using wf by (simp add: to_bytes_def records_bytes_def u16_prefixed_def alias_bytes_def)
  then have "sealed_wf s" using wf by (simp add: sealed_wf_def header_wf_def alias_wf_def VERSION_def VERSION_MIN_READABLE_def)
  then have fb: "from_bytes (to_bytes s) = Inr s" using from_bytes_to_bytes [of s "[]"] by simp
  obtain d where d: "settled (w\<lparr>st_rng := r\<rparr>\<lparr>st_disk := d\<rparr>) ''v''"
    "on_disk (write_vault s ''v'') (w\<lparr>st_rng := r\<rparr>) = (Inr (), w\<lparr>st_rng := r\<rparr>\<lparr>st_disk := d\<rparr>)"
    by (rule sample_written [OF fb l, of "w\<lparr>st_rng := r\<rparr>"]) (simp add: assms(1))
  have "on_rng (seal_vault tag_crypto pw [0x7B, 0x7D] None) w = (Inr s, w\<lparr>st_rng := r\<rparr>)"
    using s by (simp add: on_rng_def zoom_def assms(2))
  then have "save_vault (env_for b) b pw ''v'' w = (Inr (), w\<lparr>st_rng := r\<rparr>\<lparr>st_disk := d\<rparr>)"
    using d(2) by (simp add: save_vault_def rbind_def quiet_alias [OF assms(1)] rlift_def env_for_def sample_env_def serde_for_ok(2))
  with d(1) that show ?thesis by simp
qed

lemma quiet_saving:
  assumes "m w = (Inr x, w1)" and "w_session w1 = Some s" and "vs_path s = ''v''" and "vs_yubikey s = None"
    and "st_disk w1 = sample_disk" and "st_rng w1 = (\<lambda>_. 0)" and "\<not> w_poisoned w1"
  obtains w' where "saving (env_for (build_body (w_clock w1 0 div 1000) s)) m w = (Inr x, w')"
    and "w_session w' = Some s" and "settled w' ''v''" and "\<not> w_poisoned w'" and "w_clock w' = (\<lambda>i. w_clock w1 (Suc i))"
proof -
  let ?w = "w1\<lparr>w_clock := (\<lambda>i. w_clock w1 (Suc i))\<rparr>" and ?b = "build_body (w_clock w1 0 div 1000) s"
  obtain r d where sv: "save_vault (env_for ?b) ?b (vs_passphrase s) ''v'' ?w = (Inr (), ?w\<lparr>st_rng := r, st_disk := d\<rparr>)"
    and st: "settled (?w\<lparr>st_rng := r, st_disk := d\<rparr>) ''v''"
    by (rule quiet_save [of ?w ?b]) (use assms in simp_all)
  have "prepare_save w1 = (Inr (?b, vs_passphrase s, vs_path s, extract_yubikey s), ?w)"
    using assms(2) by (simp add: prepare_save_Inr)
  with sv assms(1,3,4) have "saving (env_for ?b) m w = (Inr x, ?w\<lparr>st_rng := r, st_disk := d\<rparr>)"
    by (simp add: saving_def locked_def rbind_def rthen_def rret_def run_save_def do_save_def extract_yubikey_def)
  with that [OF this] st assms(2,7) show ?thesis by simp
qed

section \<open>Locked vaults\<close>

lemma refuses_get: "\<not> is_vault_unlocked w \<Longrightarrow> refuses get_session w"
  by (auto simp: refuses_def is_vault_unlocked_def get_session_def rthen_def rbind_def check_lock_def read_session_def)

lemma refuses_bind: "refuses m w \<Longrightarrow> refuses (rbind m f) w"
  by (auto simp: refuses_def rbind_def)

lemma refuses_locked: "refuses m w \<Longrightarrow> refuses (locked m) w"
  by (auto simp: refuses_def locked_def)

lemma refuses_saving: "refuses m w \<Longrightarrow> refuses (saving E m) w"
  unfolding saving_def by (intro refuses_bind refuses_locked)

lemma refuses_ignoring: "refuses m w \<Longrightarrow> refuses (ignoring m) w"
  unfolding ignoring_def rthen_def by (rule refuses_bind)

lemma refuses_err: "refuses (rlift (Inl (Err e))) w"
  by (simp add: refuses_def rlift_def)

lemma refuses_then: "refuses m w \<Longrightarrow> refuses (rthen m n) w"
  unfolding rthen_def by (rule refuses_bind)

lemmas refuses_intros = refuses_get refuses_then refuses_saving refuses_locked refuses_ignoring refuses_err refuses_bind

text \<open>Random bytes for the new attachment's id are drawn before the session is looked at, so this request is
  refused in a state whose random source has moved on.\<close>

lemma request_refused:
  assumes "\<not> is_vault_unlocked w" and "\<forall>i n k d. q \<noteq> AddAttachment i n k d"
  shows "refuses (exec E q) w"
proof (cases q)
  case (AddAttachment i n k d)
  with assms(2) show ?thesis by blast
next
  case (CreateFolder n)
  with assms(1) show ?thesis by (auto simp: session_create_folder_def intro!: refuses_intros)
next
  case (RenameFolder a b)
  with assms(1) show ?thesis by (auto simp: session_rename_folder_def intro!: refuses_intros)
qed (simp_all only: exec.simps session_create_entry_def session_add_entry_no_save_def session_update_entry_def
  session_delete_entry_def session_delete_entries_no_save_def session_save_def session_remove_attachment_def
  session_restore_history_def session_delete_history_def session_delete_folder_def session_assign_folder_to_entries_def
  session_change_passphrase_def session_add_yubikey_def session_remove_yubikey_def session_set_vault_alias_def
  session_set_yubikey_alias_def session_merge_vault_from_body_def session_fast_merge_from_body_def session_cancel_sync_def held_defs
  open_with_held_passphrase_def open_with_held_passphrase_and_key_def session_apply_sync_decisions_def session_export_vault_def
  session_export_vault_passphrase_only_def session_export_vault_json_def,
  (intro refuses_intros assms(1))+)

lemma fill_bytes_runs: "\<exists>b r'. fill_bytes n r = (Inr b, r')"
  by (simp add: fill_bytes_def)

lemma attachment_refused:
  assumes "\<not> is_vault_unlocked w"
  shows "\<exists>e r. session_add_attachment E i name kind data w = (Inl (Err e), w\<lparr>st_rng := r\<rparr>)"
proof (cases "ENPASS_ATTACHMENT_MAX_BYTES < length data")
  case True
  then show ?thesis by (auto simp: session_add_attachment_def rlift_def intro: exI [of _ "st_rng w"])
next
  case False
  obtain b r where "fill_bytes 16 (st_rng w) = (Inr b, r)" using fill_bytes_runs by blast
  then have id: "new_entry_id E w = (Inr (e_uuid E b), w\<lparr>st_rng := r\<rparr>)"
    by (simp add: new_entry_id_def rbind_def on_rng_def zoom_def rret_def)
  have "\<not> is_vault_unlocked (w\<lparr>st_rng := r\<rparr>)" using assms by (simp add: is_vault_unlocked_def)
  then have "refuses (saving E (rbind get_session f)) (w\<lparr>st_rng := r\<rparr>)" for f :: "VaultSession \<Rightarrow> string app"
    by (intro refuses_intros)
  then have "\<exists>e ra. saving E (rbind get_session f) (w\<lparr>st_rng := r\<rparr>) = (Inl (Err e), w\<lparr>st_rng := ra\<rparr>)" for f :: "VaultSession \<Rightarrow> string app"
    unfolding refuses_def by metis
  with id False show ?thesis by (simp add: session_add_attachment_def rbind_def [of "new_entry_id E"])
qed

text \<open>C14. While the vault is locked, or after another operation failed inside the lock, every request is refused with an
  error, and neither the session nor the disk nor the clock is touched: at most random bytes were drawn.\<close>

theorem locked_vault_refuses_requests:
  assumes "\<not> is_vault_unlocked w"
  shows "\<exists>e r. exec E q w = (Inl (Err e), w\<lparr>st_rng := r\<rparr>)"
proof (cases "\<exists>i n k d. q = AddAttachment i n k d")
  case True
  then obtain i n k d where q: "q = AddAttachment i n k d" by blast
  from attachment_refused [OF assms, of E i n k d] show ?thesis
    by (auto simp: q ignoring_def rthen_def rbind_def)
next
  case False
  then have "\<forall>i n k d. q \<noteq> AddAttachment i n k d" by blast
  from request_refused [OF assms this, of E] obtain e where "exec E q w = (Inl (Err e), w)" unfolding refuses_def by blast
  then show ?thesis by (intro exI [of _ e] exI [of _ "st_rng w"]) simp
qed

theorem locked_vault_refuses_requests_witness:
  "\<exists>e r. exec sample_env Save (sample_world\<lparr>w_session := None\<rparr>) = (Inl (Err e), sample_world\<lparr>w_session := None, st_rng := r\<rparr>)"
  using locked_vault_refuses_requests [of "sample_world\<lparr>w_session := None\<rparr>" sample_env Save]
  by (simp add: is_vault_unlocked_def)

section \<open>Properties of the session\<close>

text \<open>Over any run of requests, failing or not, and whatever happens to the disk and the clock in between, no entry
  disappears without a trace: each one is still there or has a deletion mark, and marks are never lost - except that cancelling a
  sync drops what came after its merge.\<close>

theorem session_loses_no_entry:
  assumes "(work E)\<^sup>*\<^sup>* w w'" and "w_session w = Some s" and "permutes_lists (e_hash_order E)"
  shows "\<exists>s'. w_session w' = Some s' \<and> live_ids s \<inter> known_ids (sync_base s) \<subseteq> live_ids s' \<union> marked_ids s'
    \<and> marked_ids s \<inter> marked_ids (sync_base s) \<subseteq> marked_ids s'"
  using acc.working [OF assms(3,1,2)] by (auto simp: kept_def known_ids_def)

theorem session_loses_no_entry_witness:
  "\<exists>s'. w_session (snd (exec sample_env (DeleteEntry ''1'') sample_world)) = Some s' \<and> live_ids open_vault_session \<subseteq> live_ids s' \<union> marked_ids s'"
proof -
  have "(work sample_env)\<^sup>*\<^sup>* sample_world (snd (exec sample_env (DeleteEntry ''1'') sample_world))"
    by (rule r_into_rtranclp) (rule work.served)
  from session_loses_no_entry [OF this, of open_vault_session] show ?thesis
    by (auto simp: sample_world_def sample_env_def permutes_lists_def sync_base_def known_ids_def open_vault_session_def sample_session_def)
qed

text \<open>C37. The folder names of a session stay distinct over any run of requests, cancelled syncs included, if they are at its start and in
  the snapshot of a sync whose review is open then.\<close>

theorem folder_names_stay_distinct:
  assumes "(work E)\<^sup>*\<^sup>* w w'" and "w_session w = Some s" and "distinct (vs_folders s)" and "permutes_lists (e_hash_order E)"
    and "\<forall>b. vs_pre_sync_backup s = Some b \<longrightarrow> distinct (sb_folders b)"
  shows "\<exists>s'. w_session w' = Some s' \<and> distinct (vs_folders s')"
proof -
  have "folders_distinct s" using assms(3,5) by (auto simp: folders_distinct_def sync_base_ids split: option.split)
  with fld.working [OF assms(4,1,2)] show ?thesis by (auto simp: folders_distinct_def)
qed

theorem folder_names_stay_distinct_witness:
  "\<exists>s'. w_session (snd (exec sample_env (CreateFolder ''Work'') sample_world)) = Some s' \<and> distinct (vs_folders s')"
proof -
  have "(work sample_env)\<^sup>*\<^sup>* sample_world (snd (exec sample_env (CreateFolder ''Work'') sample_world))"
    by (rule r_into_rtranclp) (rule work.served)
  from folder_names_stay_distinct [OF this, of open_vault_session] show ?thesis
    by (auto simp: sample_world_def sample_env_def permutes_lists_def open_vault_session_def sample_session_def)
qed

text \<open>The entry list shown to the user does not depend on what masking hides: a summary of the masked entry is the
  summary of the entry.\<close>

theorem summary_reveals_no_masked_secret:
  "entry_to_summary E (mask_entry e) = entry_to_summary E e"
proof -
  have "push_custom_fields ps (map mask_custom fs) = push_custom_fields ps fs" for ps fs
    by (induction fs) (auto simp: push_custom_fields_def mask_custom_def)
  then show ?thesis by (cases e) (simp_all split: option.split)
qed

text \<open>C5. What a successful operation saved is what the next unlock gives back: in a session opened with the passphrase alone or
  with a security key, a restart and an unlock the same way succeed and give a session with the same folders, aliases, deletion marks,
  master key and entries, less the history records that have expired by then. Assumed are that reading the file back does not
  fail, that it fits the 64-bit length field, that the expiry times of the history can be read, and, with a security key, that
  this key opened the file the save replaced.\<close>

theorem committed_change_survives_restart:
  assumes "saving E m w = (Inr r, w')" and "w_session w' = Some s" and "settled w' (vs_path s)"
    and "aead_correct (e_crypto E)" and "serde_roundtrip (e_serde E)" and "\<not> w_poisoned w'"
    and "purge_expired_history (w_clock w' 0 div 1000) (vs_entries s) = Inr es"
    and "\<forall>yk. vs_yubikey s = Some yk \<longrightarrow>
      key_opens (e_crypto E) (vs_passphrase s, hmac, cred, ym_vault_key_master yk) (vs_path s) (d_fs (st_disk (snd (m w))))"
  shows "\<exists>yk. unlock_again E hmac cred s (w'\<lparr>w_session := None\<rparr>) =
      (Inr (), w'\<lparr>w_clock := (\<lambda>i. w_clock w' (Suc i)),
         w_session := Some (s\<lparr>vs_entries := es, vs_pre_sync_backup := None, vs_yubikey := yk\<rparr>)\<rparr>)
    \<and> map_option ym_vault_key_master yk = map_option ym_vault_key_master (vs_yubikey s)"
proof (cases "vs_yubikey s")
  case None
  obtain t where ld: "load_vault E (vs_passphrase s) (vs_path s) w' = (Inr (build_body t s), w')"
    by (rule saved_session_loads [OF assms(1,2) None assms(3-5)])
  have "open_session (vs_path s) (vs_passphrase s) (build_body t s) es None = s\<lparr>vs_entries := es, vs_pre_sync_backup := None, vs_yubikey := None\<rparr>"
    by (simp add: open_session_def build_body_def)
  with unlock_loaded [OF load_without_session(1) [OF ld, of None]] assms(6,7) None show ?thesis
    by (simp add: build_body_def unlock_again_def)
next
  case (Some yk)
  obtain t wk where ld: "load_vault_with_key_record E (vs_passphrase s) hmac cred (vs_path s) w' =
      (Inr (build_body t s, ym_vault_key_master yk, Some wk), w')"
    by (rule saved_key_session_loads [OF assms(1,2) Some assms(3-5)]) (use assms(8) Some in blast)
  let ?yk = "Some \<lparr>ym_vault_key_master = ym_vault_key_master yk, ym_wrapping_key = Some wk\<rparr>"
  have "open_session (vs_path s) (vs_passphrase s) (build_body t s) es ?yk = s\<lparr>vs_entries := es, vs_pre_sync_backup := None, vs_yubikey := ?yk\<rparr>"
    by (simp add: open_session_def build_body_def)
  with unlock_key_loaded [OF load_without_session(2) [OF ld, of None]] assms(6,7) Some show ?thesis
    by (intro exI [of _ ?yk]) (simp add: build_body_def unlock_again_def)
qed

text \<open>An operation that changes the session under the lock: what the session is afterwards, saved or not.\<close>

lemma saving_session:
  assumes "m w = (Inr r, w1)" and "w_session w1 = Some s"
  shows "w_session (snd (saving E m w)) = Some s"
proof -
  obtain x w2 where l: "locked (rbind m (\<lambda>r. rbind prepare_save (\<lambda>j. rret (r, j)))) w = (x, w2)" by (rule prod.exhaust)
  have "w_session w2 = Some s"
    using l assms by (auto simp: locked_def rbind_def prepare_save_def read_session_def now_secs_def read_clock_def rret_def)
  then show ?thesis
    using keeps_run_save [of E] unfolding saving_def rbind_def l keeps_session_def
    by (auto simp: rthen_def rbind_snd rret_def split: prod.split sum.split) (metis snd_conv)+
qed

lemma saving_lock:
  assumes "m w = (Inr r, w1)" and "\<not> w_poisoned w1"
  shows "\<not> w_poisoned (snd (saving E m w))"
proof -
  obtain x w2 where l: "locked (rbind m (\<lambda>r. rbind prepare_save (\<lambda>j. rret (r, j)))) w = (x, w2)" by (rule prod.exhaust)
  have "\<not> w_poisoned w2"
    using l assms by (auto simp: locked_def rbind_def prepare_save_def read_session_def now_secs_def read_clock_def rret_def
        split: option.splits)
  then show ?thesis
    using lock_run_save [of E] unfolding saving_def rbind_def l keeps_lock_def
    by (auto simp: rthen_def rbind_snd rret_def split: prod.split sum.split) (metis snd_conv)+
qed

lemma get_session_run: "is_vault_unlocked w \<Longrightarrow> \<exists>s. w_session w = Some s \<and> get_session w = (Inr s, w)"
  by (auto simp: is_vault_unlocked_def get_session_def rthen_def rbind_def check_lock_def read_session_def)

lemma get_session_open: "w_session w = Some s \<Longrightarrow> \<not> w_poisoned w \<Longrightarrow> get_session w = (Inr s, w)"
  by (simp add: get_session_def rthen_def rbind_def check_lock_def read_session_def)

theorem committed_change_survives_restart_witness:
  "\<exists>E r w' s. session_create_entry E sample_incoming sample_world = (Inr r, w') \<and> w_session w' = Some s
     \<and> vs_entries s = [sample_local, sample_incoming]
     \<and> fst (unlock_vault E (vs_passphrase s) ''v'' (w'\<lparr>w_session := None\<rparr>)) = Inr ()"
proof -
  let ?m = "\<lambda>E. rbind get_session (\<lambda>s. rthen (put_session (s\<lparr>vs_entries := vs_entries s @ [sample_incoming]\<rparr>))
           (rret (entry_to_summary E sample_incoming)))"
  let ?s = "open_vault_session\<lparr>vs_entries := [sample_local, sample_incoming]\<rparr>"
  let ?w = "sample_world\<lparr>w_session := Some ?s\<rparr>"
  define E where "E = env_for (build_body (w_clock ?w 0 div 1000) ?s)"
  have m: "?m E sample_world = (Inr (entry_to_summary E sample_incoming), ?w)"
    by (simp add: rbind_def rthen_def rret_def put_session_def get_session_open [where s = open_vault_session] sample_world_def
        open_vault_session_def sample_session_def)
  obtain w' where w': "saving E (?m E) sample_world = (Inr (entry_to_summary E sample_incoming), w')"
    "w_session w' = Some ?s" "settled w' ''v''" "\<not> w_poisoned w'" "w_clock w' = (\<lambda>i. w_clock ?w (Suc i))"
    using m by (rule quiet_saving [of "?m E" sample_world "entry_to_summary E sample_incoming" ?w ?s, folded E_def])
      (simp_all add: sample_world_def open_vault_session_def sample_session_def)
  have h: "em_history (meta_of sample_local) = []" "em_history (meta_of sample_incoming) = []"
    by (simp_all add: sample_local_def sample_incoming_def sample_meta_def)
  have "purge_expired_history (w_clock w' 0 div 1000) (vs_entries ?s) = Inr [sample_local, sample_incoming]"
    using h by (simp add: purge_expired_history_def and_then_def sample_local_def sample_incoming_def sample_login_def sample_meta_def)
  from committed_change_survives_restart [OF w'(1,2) _ _ _ w'(4) this, of "[]" "[]"] w'(3)
  obtain yk where "unlock_again E [] [] ?s (w'\<lparr>w_session := None\<rparr>) = (Inr (), w'\<lparr>w_clock := (\<lambda>i. w_clock w' (Suc i)),
         w_session := Some (?s\<lparr>vs_entries := [sample_local, sample_incoming], vs_pre_sync_backup := None, vs_yubikey := yk\<rparr>)\<rparr>)"
    by (auto simp: open_vault_session_def sample_session_def E_def env_for_def sample_env_def tag_crypto_ok serde_for_ok)
  then have "fst (unlock_vault E (vs_passphrase ?s) ''v'' (w'\<lparr>w_session := None\<rparr>)) = Inr ()"
    by (simp add: unlock_again_def open_vault_session_def sample_session_def)
  moreover have "session_create_entry E sample_incoming sample_world = (Inr (entry_to_summary E sample_incoming), w')"
    using w'(1) by (simp add: session_create_entry_def)
  ultimately show ?thesis using w'(2) by (intro exI [of _ E] exI [of _ w'] exI [of _ ?s]) auto
qed

text \<open>An entry that could not be saved is still in the session: the operation reports the error, but the next
  successful save writes the entry too.\<close>

theorem unsaved_entry_stays_in_session:
  assumes "is_vault_unlocked w" and "w_session w = Some s"
  shows "w_session (snd (session_create_entry E e w)) = Some (s\<lparr>vs_entries := vs_entries s @ [e]\<rparr>)"
proof -
  have "get_session w = (Inr s, w)" using get_session_run [OF assms(1)] assms(2) by auto
  then show ?thesis unfolding session_create_entry_def
    by (intro saving_session [of _ w "entry_to_summary E e" "w\<lparr>w_session := Some (s\<lparr>vs_entries := vs_entries s @ [e]\<rparr>)\<rparr>"])
      (simp_all add: rbind_def rthen_def put_session_def rret_def)
qed

theorem unsaved_entry_stays_in_session_witness:
  "w_session (snd (session_create_entry sample_env sample_incoming sample_world)) =
     Some (open_vault_session\<lparr>vs_entries := [sample_local, sample_incoming]\<rparr>)"
  using unsaved_entry_stays_in_session [of sample_world open_vault_session sample_env sample_incoming]
  by (simp add: is_vault_unlocked_def sample_world_def open_vault_session_def sample_session_def)

text \<open>C17. Cancelling a sync puts the session back to where it was before the merge, whatever became of the saves.\<close>

theorem cancel_undoes_merge:
  assumes "is_vault_unlocked w" and "w_session w = Some s" and "w1 = snd (session_merge_vault_from_body E inc w)"
  shows "w_session (snd (session_cancel_sync E w1)) = Some (s\<lparr>vs_pre_sync_backup := None\<rparr>)"
proof -
  define s1 where "s1 = fst (do_merge (e_b64enc E) (e_hash_order E) (take_backup s) inc)"
  have g: "get_session w = (Inr s, w)" using get_session_run [OF assms(1)] assms(2) by auto
  let ?m = "rbind get_session (\<lambda>s. case do_merge (e_b64enc E) (e_hash_order E) (take_backup s) inc of (s', summary) \<Rightarrow>
         rthen (put_session s') (rret summary))"
  have m: "?m w = (Inr (snd (do_merge (e_b64enc E) (e_hash_order E) (take_backup s) inc)), w\<lparr>w_session := Some s1\<rparr>)"
    by (simp add: rbind_def g rthen_def put_session_def rret_def s1_def case_prod_beta)
  have w1: "w_session w1 = Some s1" unfolding assms(3) session_merge_vault_from_body_def
    using m by (rule saving_session) simp
  have p: "\<not> w_poisoned w1" unfolding assms(3) session_merge_vault_from_body_def
    using m by (rule saving_lock) (use assms(1) in \<open>simp add: is_vault_unlocked_def\<close>)
  let ?b = "\<lparr>sb_folders = vs_folders s, sb_entries = vs_entries s, sb_deleted_ids = vs_deleted_ids s\<rparr>"
  have b: "vs_pre_sync_backup s1 = Some ?b" by (simp add: s1_def do_merge_def Let_def take_backup_def)
  have r: "restore_backup ?b s1 = s\<lparr>vs_pre_sync_backup := None\<rparr>"
    by (simp add: restore_backup_def s1_def do_merge_def Let_def take_backup_def)
  have "get_session w1 = (Inr s1, w1)" using w1 p by (rule get_session_open)
  then show ?thesis
    using keeps_run_save [of E, unfolded keeps_session_def]
    by (simp add: session_cancel_sync_def rbind_def [of "locked _"] locked_def rbind_def [of get_session] b rthen_def
        rbind_def [of "put_session _"] put_session_def rbind_def [of prepare_save] r prepare_save_run rret_def)
qed

theorem cancel_undoes_merge_witness:
  "w_session (snd (session_cancel_sync sample_env (snd (session_merge_vault_from_body sample_env sample_body sample_world))))
     = Some open_vault_session"
proof -
  have u: "is_vault_unlocked sample_world" "w_session sample_world = Some open_vault_session"
    by (simp_all add: is_vault_unlocked_def sample_world_def)
  show ?thesis
    using cancel_undoes_merge [OF u refl] by (simp add: open_vault_session_def sample_session_def)
qed

section \<open>Attachments and history\<close>

lemma find_modify:
  assumes "find (\<lambda>e. entry_id e = i) es = Some e" and "entry_id e' = i"
  shows "find (\<lambda>e. entry_id e = i) (modify_entry i (\<lambda>_. e') es) = Some e'"
proof -
  from assms(1) obtain n where n: "n < length es" "entry_id (es ! n) = i" "e = es ! n" "\<forall>j<n. entry_id (es ! j) \<noteq> i"
    by (auto simp: find_Some_iff)
  then have "position (\<lambda>e. entry_id e = i) es = Some n" by (simp add: position_Some)
  then have "modify_entry i (\<lambda>_. e') es = es[n := e']" by (simp add: modify_entry_def)
  with n assms(2) show ?thesis by (auto simp: find_Some_iff intro!: exI [of _ n])
qed

lemma put_entry_saved:
  assumes "saving E m w = (Inr r, w')" and "m w = (Inr r, w1)" and "w_session w1 = Some s1" and "\<not> w_poisoned w1"
  shows "w_session w' = Some s1" and "\<not> w_poisoned w'"
  using saving_session [of m w r w1 s1 E] saving_lock [of m w r w1 E] assms by auto

text \<open>C35. An attachment that was added can be taken out again, byte for byte, and the limits hold: at most three
  attachments an entry and 25 MB each. The new id must not be one the entry has already.\<close>

theorem attachment_roundtrip:
  assumes "session_add_attachment E i name kind data w = (Inr uuid, w')"
    and "w_session w = Some s" and "find (\<lambda>e. entry_id e = i) (vs_entries s) = Some e"
    and "uuid \<notin> at_uuid ` set (entry_attachments e)"
  shows "session_extract_attachment i uuid w' = (Inr data, w')
    \<and> (\<exists>s' e'. w_session w' = Some s' \<and> find (\<lambda>e. entry_id e = i) (vs_entries s') = Some e'
        \<and> entry_attachments e' = entry_attachments e @ [\<lparr>at_uuid = uuid, at_name = name, at_kind = kind, at_data = data\<rparr>]
        \<and> length (entry_attachments e') \<le> 3 \<and> length data \<le> 25 * 1024 * 1024)"
proof -
  let ?a = "\<lparr>at_uuid = uuid, at_name = name, at_kind = kind, at_data = data\<rparr>"
  let ?m = "\<lambda>u. rbind get_session (\<lambda>s. rbind (find_entry i s) (\<lambda>e.
          if \<not> has_attachments e then rlift (Inl (Err ''A File entry takes no attachments''))
          else if ENTRY_ATTACHMENT_MAX_COUNT \<le> length (entry_attachments e)
          then rlift (Inl (Err (''Entry already has '' @ show_nat ENTRY_ATTACHMENT_MAX_COUNT @ '' attachments'')))
          else rbind now_ms (\<lambda>ms. rbind now_secs (\<lambda>t.
            rthen (put_entry i (add_attachment
                \<lparr>at_uuid = u, at_name = name, at_kind = kind, at_data = data\<rparr> ms (chrono_now t) e) s)
              (rret u)))))"
  from assms(1) have sz: "length data \<le> ENPASS_ATTACHMENT_MAX_BYTES"
    by (auto simp: session_add_attachment_def rlift_def split: if_splits)
  with assms(1) obtain u w0 where u: "new_entry_id E w = (Inr u, w0)" and sv: "saving E (?m u) w0 = (Inr uuid, w')"
    by (auto simp: session_add_attachment_def rbind_Inr [of "new_entry_id E"])
  have w0: "w_session w0 = Some s"
    using u assms(2) by (auto simp: new_entry_id_def rnd_simps)
  obtain w1 where m: "?m u w0 = (Inr uuid, w1)" by (rule saving_InrE [OF sv])
  then obtain ms t where c: "has_attachments e" "length (entry_attachments e) < ENTRY_ATTACHMENT_MAX_COUNT" "u = uuid" "\<not> w_poisoned w1"
    and w1: "w_session w1 = Some (s\<lparr>vs_entries := modify_entry i (\<lambda>_. add_attachment ?a ms t e) (vs_entries s)\<rparr>)"
    using w0 assms(3)
    by (auto simp: rbind_def get_session_def rthen_def check_lock_def read_session_def find_entry_def rret_def rlift_def now_ms_def
        now_secs_def read_clock_def put_entry_def put_session_def split: if_splits)
  define e' where "e' = add_attachment ?a ms t e"
  note w' = put_entry_saved [OF sv m w1 c(4)]
  have "entry_id e' = i" using assms(3) by (auto simp: e'_def find_Some_iff)
  with assms(3) have f: "find (\<lambda>e. entry_id e = i) (modify_entry i (\<lambda>_. e') (vs_entries s)) = Some e'" by (rule find_modify)
  have a: "entry_attachments e' = entry_attachments e @ [?a]"
    using c(1) by (simp add: e'_def add_attachment_def Let_def)
  have "find (\<lambda>a. at_uuid a = uuid) (entry_attachments e) = None" using assms(4) by (auto simp: find_None_iff)
  then have "find (\<lambda>a. at_uuid a = uuid) (entry_attachments e') = Some ?a" by (simp add: a find_append)
  with w' f show ?thesis using a c(2) sz
    by (simp add: session_extract_attachment_def rbind_def get_session_open find_entry_def rret_def e'_def [symmetric]
        ENTRY_ATTACHMENT_MAX_COUNT_def ENPASS_ATTACHMENT_MAX_BYTES_def)
qed

theorem attachment_roundtrip_witness:
  "\<exists>E uuid w'. session_add_attachment E ''1'' ''a.txt'' ''text'' [1, 2] sample_world = (Inr uuid, w')
     \<and> session_extract_attachment ''1'' uuid w' = (Inr [1, 2], w')"
proof -
  define a where "a = \<lparr>at_uuid = bytes_str (replicate 16 0), at_name = ''a.txt'', at_kind = ''text'', at_data = [1, 2 :: byte]\<rparr>"
  let ?m = "rbind get_session (\<lambda>s. rbind (find_entry ''1'' s) (\<lambda>e.
          if \<not> has_attachments e then rlift (Inl (Err ''A File entry takes no attachments''))
          else if ENTRY_ATTACHMENT_MAX_COUNT \<le> length (entry_attachments e)
          then rlift (Inl (Err (''Entry already has '' @ show_nat ENTRY_ATTACHMENT_MAX_COUNT @ '' attachments'')))
          else rbind now_ms (\<lambda>ms. rbind now_secs (\<lambda>t.
            rthen (put_entry ''1'' (add_attachment a ms (chrono_now t) e) s) (rret (at_uuid a))))))"
  let ?s = "open_vault_session\<lparr>vs_entries := [add_attachment a 0 (chrono_now 0) sample_local]\<rparr>"
  let ?w = "sample_world\<lparr>w_session := Some ?s\<rparr>"
  have e: "entry_id sample_local = ''1''" "has_attachments sample_local" "entry_attachments sample_local = []"
    by (simp_all add: entry_id_def sample_local_def sample_login_def sample_meta_def)
  have i: "new_entry_id (env_for b) sample_world = (Inr (at_uuid a), sample_world)" for b
    by (simp add: new_entry_id_def rbind_def on_rng_def zoom_def fill_bytes_def rret_def sample_world_def env_for_def sample_env_def
        a_def map_replicate_const)
  have ra: "\<lparr>at_uuid = at_uuid a, at_name = ''a.txt'', at_kind = ''text'', at_data = [1, 2]\<rparr> = a" by (simp add: a_def)
  have g: "get_session sample_world = (Inr open_vault_session, sample_world)" by (rule get_session_open) (simp_all add: sample_world_def)
  have en: "vs_entries open_vault_session = [sample_local]" by (simp add: open_vault_session_def sample_session_def)
  have clk: "now_ms sample_world = (Inr 0, sample_world)" "now_secs sample_world = (Inr 0, sample_world)"
    by (simp_all add: now_ms_def now_secs_def read_clock_def rbind_def rret_def sample_world_def)
  have m: "?m sample_world = (Inr (at_uuid a), ?w)"
    by (simp add: rbind_def g find_entry_def en e rret_def ENTRY_ATTACHMENT_MAX_COUNT_def clk rthen_def put_entry_def
        put_session_def modify_entry_def)
  define E where "E = env_for (build_body (w_clock ?w 0 div 1000) ?s)"
  obtain w' where w': "saving E ?m sample_world = (Inr (at_uuid a), w')"
    using m by (rule quiet_saving [of ?m sample_world "at_uuid a" ?w ?s, folded E_def])
      (simp_all add: sample_world_def open_vault_session_def sample_session_def)
  have "session_add_attachment E ''1'' ''a.txt'' ''text'' [1, 2] sample_world = (Inr (at_uuid a), w')"
    using w' unfolding E_def
    by (simp add: session_add_attachment_def ENPASS_ATTACHMENT_MAX_BYTES_def rbind_def [of "new_entry_id _"] i) (simp only: ra)
  with attachment_roundtrip [OF this, of open_vault_session sample_local] show ?thesis
    by (auto simp: sample_world_def en e)
qed

text \<open>Restoring a history record gives the field the value it had: for a record of an earlier value of a scalar field,
  the entry afterwards has that value again, its other fields are untouched and the record is gone.\<close>

theorem restored_field_has_old_value:
  assumes "session_restore_history E i n w = (Inr (), w')" and "w_session w = Some s"
    and "find (\<lambda>e. entry_id e = i) (vs_entries s) = Some e" and "h = em_history (meta_of e) ! unat n"
    and "same_type e old" and "entry_blob_wf old" and "scalar_at old (hr_field h) = Some v" and "hr_value h = disp b v"
    and "b64_inverse b (e_b64dec E)"
  shows "unat n < length (em_history (meta_of e)) \<and>
    (\<exists>s' e'. w_session w' = Some s' \<and> find (\<lambda>e. entry_id e = i) (vs_entries s') = Some e'
       \<and> scalar_at e' (hr_field h) = Some (present v) \<and> (\<forall>k. k = hr_field h \<or> scalar_at e' k = scalar_at e k)
       \<and> em_history (meta_of e') = remove_nth (unat n) (em_history (meta_of e)))"
proof -
  let ?m = "rbind get_session (\<lambda>s. rbind (find_entry i s) (\<lambda>e.
       let hist = em_history (meta_of e); idx = unat n in
       if length hist \<le> idx then rlift (Inl (no_record n))
       else rbind now_ms (\<lambda>ms. rbind now_secs (\<lambda>t.
         put_entry i (restore_record E idx (hist ! idx) ms (chrono_now t) e) s))))"
  have sv: "saving E ?m w = (Inr (), w')" using assms(1) by (simp add: session_restore_history_def)
  obtain w1 where m: "?m w = (Inr (), w1)" by (rule saving_InrE [OF sv])
  then obtain ms t where c: "unat n < length (em_history (meta_of e))" "\<not> w_poisoned w1"
    and w1: "w_session w1 = Some (s\<lparr>vs_entries := modify_entry i (\<lambda>_. restore_record E (unat n) h ms t e) (vs_entries s)\<rparr>)"
    using assms(2-4)
    by (auto simp: rbind_def get_session_def rthen_def check_lock_def read_session_def find_entry_def rret_def rlift_def now_ms_def
        now_secs_def read_clock_def put_entry_def put_session_def Let_def split: if_splits)
  define e' where "e' = restore_record E (unat n) h ms t e"
  note w' = put_entry_saved [OF sv m w1 c(2)]
  have "entry_id e' = i" using assms(3) by (auto simp: e'_def find_Some_iff)
  with assms(3) have f: "find (\<lambda>e. entry_id e = i) (modify_entry i (\<lambda>_. e') (vs_entries s)) = Some e'" by (rule find_modify)
  have k: "hr_field h \<in> set (scalar_keys e)"
    using scalar_at_key [OF assms(7)] same_type_scalar_keys [OF assms(5)] by simp
  have sc: "scalar_at e' x = scalar_at (set_entry_field_by_key (e_b64dec E) (hr_field h) (hr_value h) e) x" for x
    by (simp add: e'_def restore_record_def scalar_at_def)
  have "scalar_at e' (hr_field h) = Some (present v)"
    using scalar_at_set_entry_scalar [OF assms(9,5-7)] by (simp add: sc set_entry_field_scalar [OF k] assms(8))
  moreover have "k = hr_field h \<or> scalar_at e' k = scalar_at e k" for k
    using scalar_at_set_field_other [of "hr_field h" k] by (auto simp: sc)
  moreover have "em_history (meta_of e') = remove_nth (unat n) (em_history (meta_of e))"
    by (simp add: e'_def restore_record_def touch_def stamp_def)
  ultimately show ?thesis using w'(1) f c(1) by (simp add: e'_def)
qed

theorem restored_field_has_old_value_witness:
  "\<exists>E w w' e'. session_restore_history E ''1'' 0 w = (Inr (), w')
     \<and> map_option vs_entries (w_session w') = Some [e'] \<and> scalar_at e' ''password'' = Some (FStr ''old'')"
proof -
  define h where "h = \<lparr>hr_field = ''password'', hr_value = ''old'', hr_saved_at = [], hr_expires_at = None\<rparr>"
  define e where "e = map_meta (\<lambda>m. m\<lparr>em_history := [h]\<rparr>) sample_local"
  define w where "w = sample_world\<lparr>w_session := Some (open_vault_session\<lparr>vs_entries := [e]\<rparr>)\<rparr>"
  let ?m = "\<lambda>E. rbind get_session (\<lambda>s. rbind (find_entry ''1'' s) (\<lambda>e.
       let hist = em_history (meta_of e); idx = unat (0 :: u32) in
       if length hist \<le> idx then rlift (Inl (no_record 0))
       else rbind now_ms (\<lambda>ms. rbind now_secs (\<lambda>t.
         put_entry ''1'' (restore_record E idx (hist ! idx) ms (chrono_now t) e) s))))"
  let ?r = "restore_record sample_env 0 h 0 (chrono_now 0) e"
  let ?w = "w\<lparr>w_session := Some (open_vault_session\<lparr>vs_entries := [?r]\<rparr>)\<rparr>"
  have rr: "restore_record (env_for b) = restore_record sample_env" for b
    by (simp add: restore_record_def fun_eq_iff env_for_def)
  have e: "entry_id e = ''1''" "em_history (meta_of e) = [h]"
    by (simp_all add: entry_id_def e_def sample_local_def sample_login_def sample_meta_def)
  have g: "get_session w = (Inr (open_vault_session\<lparr>vs_entries := [e]\<rparr>), w)"
    by (rule get_session_open) (simp_all add: w_def sample_world_def)
  have clk: "now_ms w = (Inr 0, w)" "now_secs w = (Inr 0, w)"
    by (simp_all add: now_ms_def now_secs_def read_clock_def rbind_def rret_def sample_world_def w_def)
  have m: "?m (env_for b) w = (Inr (), ?w)" for b
    by (simp add: rbind_def g find_entry_def e rret_def clk put_entry_def put_session_def modify_entry_def rr)
  define E where "E = env_for (build_body (w_clock ?w 0 div 1000) (open_vault_session\<lparr>vs_entries := [?r]\<rparr>))"
  obtain w' where w': "saving E (?m E) w = (Inr (), w')" "w_session w' = Some (open_vault_session\<lparr>vs_entries := [?r]\<rparr>)"
    using m [folded E_def] unfolding E_def
    by (rule quiet_saving [of "?m E" w "()" ?w "open_vault_session\<lparr>vs_entries := [?r]\<rparr>", unfolded E_def])
      (simp_all add: w_def sample_world_def open_vault_session_def sample_session_def)
  let ?s = "open_vault_session\<lparr>vs_entries := [e]\<rparr>" and ?old = "Login (sample_login ''1'' ''old'')"
  have run: "session_restore_history E ''1'' 0 w = (Inr (), w')"
    using w'(1) by (simp add: session_restore_history_def)
  have s: "w_session w = Some ?s" "find (\<lambda>e. entry_id e = ''1'') (vs_entries ?s) = Some e" "h = em_history (meta_of e) ! unat (0 :: u32)"
    by (simp_all add: w_def e)
  have o: "same_type e ?old" "entry_blob_wf ?old" "scalar_at ?old (hr_field h) = Some (FStr ''old'')"
    "hr_value h = disp bytes_str (FStr ''old'')" "b64_inverse bytes_str (e_b64dec E)"
    by (simp_all add: e_def sample_local_def scalar_at_def sample_login_def h_def E_def env_for_def sample_env_def b64_inverse_def)
  from restored_field_has_old_value [OF run s o] w'(2) have "scalar_at ?r ''password'' = Some (FStr ''old'')"
    by (auto simp: h_def split: if_splits)
  with run w'(2) show ?thesis by (intro exI [of _ E] exI [of _ w] exI [of _ w'] exI [of _ ?r]) simp
qed

end
