(* ===== verification/Authenticator.thy ===== *)
theory Authenticator
  imports Session
begin

text \<open>
  The passkey authenticator: the WebAuthn core of \<^verbatim>\<open>crypto/webauthn.rs\<close> (keys, authenticator data, attestation,
  signatures), the JSON requests of \<^verbatim>\<open>api/passkey_bridge.rs\<close> that store and use passkeys in the open vault, the CTAP2
  commands of \<^verbatim>\<open>ctap2.rs\<close> with the user's consent, and the seam of \<^verbatim>\<open>api/passkey_daemon_bridge.rs\<close> that the consent
  dialog calls. The crates for P-256, CBOR and base64url and the derived JSON readers are the record \<open>auth_env\<close>. The
  lemmas show that nothing is signed without consent, that the account chosen is the one that signs, and that drawing a
  key ends.
\<close>

section \<open>What the authenticator rests on\<close>

text \<open>Values of the CBOR crate.\<close>

datatype cbor =
    CInt int
  | CBytes bytes
  | CText string
  | CBool bool
  | CNull
  | CFloat string
  | CTag u64 cbor
  | CArray "cbor list"
  | CMap "(cbor \<times> cbor) list"

record RawParam =
  rpm_ty :: string
  rpm_alg :: int

record RawCreationOptions =
  rco_rp_id :: "string option"
  rco_user_id :: string
  rco_user_name :: string
  rco_display_name :: string
  rco_challenge :: string
  rco_params :: "RawParam list"

record RawDescriptor =
  rd_ty :: string
  rd_id :: string

record RawRequestOptions =
  rro_challenge :: string
  rro_rp_id :: "string option"
  rro_allow_credentials :: "RawDescriptor list"

text \<open>
  The crates: which 32 bytes are a P-256 key, the coordinates of its point, its DER signature of a message; CBOR and
  base64url in both directions; the derived JSON readers.
\<close>

record auth_env =
  a_env :: env
  a_key_ok :: "bytes \<Rightarrow> bool"
  a_point :: "bytes \<Rightarrow> bytes \<times> bytes"
  a_sign :: "bytes \<Rightarrow> bytes \<Rightarrow> bytes"
  a_cbor_dec :: "bytes \<Rightarrow> cbor option"
  a_cbor_enc :: "cbor \<Rightarrow> bytes"
  a_b64url_enc :: "bytes \<Rightarrow> string"
  a_b64url_dec :: "string \<Rightarrow> bytes option"
  a_creation :: "string \<Rightarrow> string + RawCreationOptions"
  a_request :: "string \<Rightarrow> string + RawRequestOptions"

section \<open>The authenticator core\<close>

record Es256KeyPair =
  kp_private_key :: bytes
  kp_public_key_cose :: bytes

definition cose_key :: "bytes \<Rightarrow> bytes \<Rightarrow> bytes" where
  "cose_key x y = [0xA5, 0x01, 0x02, 0x03, 0x26, 0x20, 0x01] @ [0x21] @ [0x58, 0x20] @ x @ [0x22] @ [0x58, 0x20] @ y"

text \<open>Random bytes are drawn until they are a key.\<close>

partial_function (option) draw_key :: "(bytes \<Rightarrow> bool) \<Rightarrow> rng \<Rightarrow> (bytes \<times> rng) option" where
  "draw_key ok r = (if ok (map r [0..<32]) then Some (map r [0..<32], \<lambda>i. r (i + 32)) else draw_key ok (\<lambda>i. r (i + 32)))"

definition generate_es256 :: "auth_env \<Rightarrow> rng \<Rightarrow> (Es256KeyPair \<times> rng) option" where
  "generate_es256 A r =
     (case draw_key (a_key_ok A) r of
        None \<Rightarrow> None
      | Some (sk, r') \<Rightarrow>
          (case a_point A sk of (x, y) \<Rightarrow> Some (\<lparr>kp_private_key = sk, kp_public_key_cose = cose_key x y\<rparr>, r')))"

definition assertion_auth_data_with_flags :: "auth_env \<Rightarrow> string \<Rightarrow> byte \<Rightarrow> bytes" where
  "assertion_auth_data_with_flags A rp_id flags = e_sha256 (a_env A) (str_bytes rp_id) @ [flags] @ be_encode 4 0"

definition assertion_authenticator_data :: "auth_env \<Rightarrow> string \<Rightarrow> bytes" where
  "assertion_authenticator_data A rp_id = assertion_auth_data_with_flags A rp_id 0x1D"

definition silent_assertion_authenticator_data :: "auth_env \<Rightarrow> string \<Rightarrow> bytes" where
  "silent_assertion_authenticator_data A rp_id = assertion_auth_data_with_flags A rp_id 0x18"

definition registration_authenticator_data :: "auth_env \<Rightarrow> string \<Rightarrow> bytes \<Rightarrow> bytes \<Rightarrow> bytes" where
  "registration_authenticator_data A rp_id credential_id public_key_cose =
     e_sha256 (a_env A) (str_bytes rp_id) @ [0x5D] @ be_encode 4 0 @ replicate 16 0
     @ be_encode 2 (length credential_id) @ credential_id @ public_key_cose"

definition cbor_length :: "nat \<Rightarrow> bytes" where
  "cbor_length n = (if n < 24 then [of_nat (0x40 + n)] else if n < 256 then [0x58, of_nat n] else 0x59 # be_encode 2 n)"

definition attestation_object :: "bytes \<Rightarrow> bytes" where
  "attestation_object auth_data =
     0xA3 # (0x63 # str_bytes ''fmt'') @ (0x64 # str_bytes ''none'') @ (0x67 # str_bytes ''attStmt'') @ [0xA0]
     @ (0x68 # str_bytes ''authData'') @ cbor_length (length auth_data) @ auth_data"

definition invalid_key :: err where
  "invalid_key = Err ''invalid passkey private key''"

definition sign_assertion :: "auth_env \<Rightarrow> bytes \<Rightarrow> bytes \<Rightarrow> bytes \<Rightarrow> bytes res" where
  "sign_assertion A private_key authenticator_data client_data_hash =
     (if \<not> a_key_ok A private_key then Inl invalid_key
      else Inr (a_sign A private_key (authenticator_data @ client_data_hash)))"

definition new_credential_id :: "('s store_scheme, bytes) run" where
  "new_credential_id = on_rng (fill_bytes 32)"

section \<open>Requests of the web\<close>

definition ES256 :: int where
  "ES256 = -7"

record CreationRequest =
  cq_rp_id :: string
  cq_user_handle :: bytes
  cq_user_name :: string
  cq_user_display_name :: string
  cq_challenge :: bytes

definition b64url :: "auth_env \<Rightarrow> string \<Rightarrow> string \<Rightarrow> bytes res" where
  "b64url A field s = (case a_b64url_dec A s of None \<Rightarrow> Inl (Err (field @ '' is not valid base64url'')) | Some b \<Rightarrow> Inr b)"

definition named :: "string \<Rightarrow> string option \<Rightarrow> string res" where
  "named msg x = (case x of Some i \<Rightarrow> if i \<noteq> [] then Inr i else Inl (Err msg) | None \<Rightarrow> Inl (Err msg))"

definition parse_creation_request :: "auth_env \<Rightarrow> string \<Rightarrow> CreationRequest res" where
  "parse_creation_request A json =
     and_then (ser_err ''invalid creation request: '' (a_creation A json)) (\<lambda>raw.
     and_then (named ''creation request carries no rp.id'' (rco_rp_id raw)) (\<lambda>rp_id.
       if \<not> (\<exists>p \<in> set (rco_params raw). rpm_ty p = ''public-key'' \<and> rpm_alg p = ES256)
       then Inl (Err ''relying party does not accept ES256, the only algorithm Gabbro provides'')
       else and_then (b64url A ''user.id'' (rco_user_id raw)) (\<lambda>handle.
            and_then (b64url A ''challenge'' (rco_challenge raw)) (\<lambda>challenge.
              Inr \<lparr>cq_rp_id = rp_id, cq_user_handle = handle, cq_user_name = rco_user_name raw,
                   cq_user_display_name = rco_display_name raw, cq_challenge = challenge\<rparr>))))"

record RegistrationParts =
  rg_credential_id :: bytes
  rg_auth_data :: bytes
  rg_public_key_cose :: bytes

definition passkey_entry :: "string \<Rightarrow> string \<Rightarrow> string \<Rightarrow> string \<Rightarrow> string \<Rightarrow> bytes \<Rightarrow> bytes \<Rightarrow> Es256KeyPair \<Rightarrow> PasskeyEntry" where
  "passkey_entry i now rp_id user_name display_name user_handle credential_id kp =
     \<lparr>pe_meta = \<lparr>em_id = i, em_created_at = now, em_updated_at = now, em_folder = [], em_field_times = [], em_history = []\<rparr>,
      pe_rp_id = rp_id, pe_user_name = user_name, pe_user_display_name = display_name, pe_user_handle = user_handle,
      pe_credential_id = credential_id, pe_private_key = kp_private_key kp, pe_public_key_cose = kp_public_key_cose kp,
      pe_algorithm = of_int ES256, pe_notes = None, pe_custom_fields = []\<rparr>"

text \<open>Storing the credential, once the key pair is there.\<close>

definition store_passkey :: "auth_env \<Rightarrow> Es256KeyPair \<Rightarrow> string \<Rightarrow> string \<Rightarrow> string \<Rightarrow> bytes \<Rightarrow> RegistrationParts app" where
  "store_passkey A kp rp_id user_name user_display_name user_handle =
     rbind new_credential_id (\<lambda>credential_id.
     rbind now_secs (\<lambda>t.
     rbind (new_entry_id (a_env A)) (\<lambda>i.
     rthen (session_create_entry (a_env A) (Passkey (passkey_entry i (chrono_now t) rp_id user_name user_display_name
              user_handle credential_id kp)))
       (rret \<lparr>rg_credential_id = credential_id,
              rg_auth_data = registration_authenticator_data A rp_id credential_id (kp_public_key_cose kp),
              rg_public_key_cose = kp_public_key_cose kp\<rparr>))))"

text \<open>\<open>None\<close> when no random bytes are ever a key.\<close>

definition register_passkey_parts ::
  "auth_env \<Rightarrow> string \<Rightarrow> string \<Rightarrow> string \<Rightarrow> bytes \<Rightarrow> world \<Rightarrow> (RegistrationParts res \<times> world) option" where
  "register_passkey_parts A rp_id user_name user_display_name user_handle w =
     map_option (\<lambda>(kp, r). store_passkey A kp rp_id user_name user_display_name user_handle (w\<lparr>st_rng := r\<rparr>))
       (generate_es256 A (st_rng w))"

definition register_passkey :: "auth_env \<Rightarrow> string \<Rightarrow> world \<Rightarrow> (RegistrationParts res \<times> world) option" where
  "register_passkey A request_json w =
     (case parse_creation_request A request_json of
        Inl e \<Rightarrow> Some (Inl e, w)
      | Inr req \<Rightarrow> register_passkey_parts A (cq_rp_id req) (cq_user_name req) (cq_user_display_name req) (cq_user_handle req) w)"

record AssertionRequest =
  aq_rp_id :: string
  aq_challenge :: bytes
  aq_allow_credential_ids :: "bytes list"

definition parse_assertion_request :: "auth_env \<Rightarrow> string \<Rightarrow> AssertionRequest res" where
  "parse_assertion_request A json =
     and_then (ser_err ''invalid assertion request: '' (a_request A json)) (\<lambda>raw.
     and_then (named ''assertion request carries no rpId'' (rro_rp_id raw)) (\<lambda>rp_id.
     and_then (map_res (\<lambda>d. b64url A ''allowCredentials.id'' (rd_id d))
         (filter (\<lambda>d. rd_ty d = ''public-key'') (rro_allow_credentials raw))) (\<lambda>allow.
     and_then (b64url A ''challenge'' (rro_challenge raw)) (\<lambda>challenge.
       Inr \<lparr>aq_rp_id = rp_id, aq_challenge = challenge, aq_allow_credential_ids = allow\<rparr>))))"

record PasskeyMatchData =
  md_entry_id :: string
  md_rp_id :: string
  md_user_name :: string
  md_user_display_name :: string
  md_credential_id :: bytes

definition passkeys_for_request :: "auth_env \<Rightarrow> string \<Rightarrow> PasskeyMatchData list app" where
  "passkeys_for_request A request_json =
     rbind (rlift (parse_assertion_request A request_json)) (\<lambda>req.
     rbind (session_passkeys_for_rp (aq_rp_id req)) (\<lambda>entries.
       rret (map (\<lambda>e. \<lparr>md_entry_id = em_id (pe_meta e), md_rp_id = pe_rp_id e, md_user_name = pe_user_name e,
                      md_user_display_name = pe_user_display_name e, md_credential_id = pe_credential_id e\<rparr>)
         (filter (\<lambda>e. aq_allow_credential_ids req = [] \<or> pe_credential_id e \<in> set (aq_allow_credential_ids req)) entries))))"

record AssertionParts =
  ap_credential_id :: bytes
  ap_auth_data :: bytes
  ap_signature_der :: bytes
  ap_user_handle :: bytes

definition sign_passkey_assertion :: "auth_env \<Rightarrow> string \<Rightarrow> bytes \<Rightarrow> AssertionParts app" where
  "sign_passkey_assertion A i client_data_hash =
     rbind (get_entry i) (\<lambda>entry.
       case entry of
         Passkey e \<Rightarrow>
           (let auth_data = assertion_authenticator_data A (pe_rp_id e) in
            rbind (rlift (sign_assertion A (pe_private_key e) auth_data client_data_hash)) (\<lambda>signature_der.
              rret \<lparr>ap_credential_id = pe_credential_id e, ap_auth_data = auth_data, ap_signature_der = signature_der,
                    ap_user_handle = pe_user_handle e\<rparr>))
       | _ \<Rightarrow> rlift (Inl (Err ''entry is not a passkey'')))"

definition placeholder_client_data :: "auth_env \<Rightarrow> string" where
  "placeholder_client_data A = a_b64url_enc A (str_bytes ''{}'')"

definition P256_SPKI_PREFIX :: bytes where
  "P256_SPKI_PREFIX = [0x30, 0x59, 0x30, 0x13, 0x06, 0x07, 0x2A, 0x86, 0x48, 0xCE, 0x3D, 0x02, 0x01, 0x06, 0x08,
     0x2A, 0x86, 0x48, 0xCE, 0x3D, 0x03, 0x01, 0x07, 0x03, 0x42, 0x00]"

definition spki_from_cose :: "bytes \<Rightarrow> bytes res" where
  "spki_from_cose cose =
     (if length cose < 77 then Inl Panic
      else Inr (P256_SPKI_PREFIX @ [0x04] @ take 32 (drop 10 cose) @ take 32 (drop 45 cose)))"

definition credential_json :: "auth_env \<Rightarrow> bytes \<Rightarrow> json \<Rightarrow> string" where
  "credential_json A credential_id response =
     e_json_print (a_env A) (JObj [(''id'', JStr (a_b64url_enc A credential_id)), (''rawId'', JStr (a_b64url_enc A credential_id)),
       (''type'', JStr ''public-key''), (''authenticatorAttachment'', JStr ''platform''), (''response'', response),
       (''clientExtensionResults'', JObj [])])"

definition registration_response_json :: "auth_env \<Rightarrow> string \<Rightarrow> string option \<Rightarrow> world \<Rightarrow> (string res \<times> world) option" where
  "registration_response_json A request_json client_data w =
     map_option (\<lambda>(r, w').
       (and_then r (\<lambda>parts. and_then (spki_from_cose (rg_public_key_cose parts)) (\<lambda>spki.
          Inr (credential_json A (rg_credential_id parts) (JObj
            [(''clientDataJSON'', JStr (unwrap_or client_data (placeholder_client_data A))),
             (''attestationObject'', JStr (a_b64url_enc A (attestation_object (rg_auth_data parts)))),
             (''authenticatorData'', JStr (a_b64url_enc A (rg_auth_data parts))),
             (''publicKey'', JStr (a_b64url_enc A spki)),
             (''publicKeyAlgorithm'', JNum ''-7''),
             (''transports'', JArr [JStr ''internal'', JStr ''hybrid''])])))), w'))
       (register_passkey A request_json w)"

definition client_data_source :: "auth_env \<Rightarrow> string option \<Rightarrow> string option \<Rightarrow> (bytes \<times> string) res" where
  "client_data_source A json hash =
     (case (json, hash) of
        (Some cdj, None) \<Rightarrow> and_then (b64url A ''clientDataJSON'' cdj) (\<lambda>raw. Inr (e_sha256 (a_env A) raw, cdj))
      | (None, Some h) \<Rightarrow> and_then (b64url A ''clientDataHash'' h) (\<lambda>b. Inr (b, placeholder_client_data A))
      | _ \<Rightarrow> Inl (Err ''exactly one of clientDataJSON or clientDataHash is required''))"

definition assertion_response_json :: "auth_env \<Rightarrow> string \<Rightarrow> string option \<Rightarrow> string option \<Rightarrow> string app" where
  "assertion_response_json A i client_data_json client_data_hash =
     rbind (rlift (client_data_source A client_data_json client_data_hash)) (\<lambda>(hash, cdj_member).
     rbind (sign_passkey_assertion A i hash) (\<lambda>parts.
       rret (credential_json A (ap_credential_id parts) (JObj
         [(''clientDataJSON'', JStr cdj_member),
          (''authenticatorData'', JStr (a_b64url_enc A (ap_auth_data parts))),
          (''signature'', JStr (a_b64url_enc A (ap_signature_der parts))),
          (''userHandle'', JStr (a_b64url_enc A (ap_user_handle parts)))]))))"

section \<open>CTAP2\<close>

definition CMD_MAKE_CREDENTIAL :: byte where "CMD_MAKE_CREDENTIAL = 0x01"
definition CMD_GET_ASSERTION :: byte where "CMD_GET_ASSERTION = 0x02"
definition CMD_GET_INFO :: byte where "CMD_GET_INFO = 0x04"
definition CTAP2_OK :: byte where "CTAP2_OK = 0x00"
definition CTAP1_ERR_INVALID_COMMAND :: byte where "CTAP1_ERR_INVALID_COMMAND = 0x01"
definition CTAP2_ERR_INVALID_CBOR :: byte where "CTAP2_ERR_INVALID_CBOR = 0x12"
definition CTAP2_ERR_MISSING_PARAMETER :: byte where "CTAP2_ERR_MISSING_PARAMETER = 0x14"
definition CTAP2_ERR_CREDENTIAL_EXCLUDED :: byte where "CTAP2_ERR_CREDENTIAL_EXCLUDED = 0x19"
definition CTAP2_ERR_UNSUPPORTED_ALGORITHM :: byte where "CTAP2_ERR_UNSUPPORTED_ALGORITHM = 0x26"
definition CTAP2_ERR_OPERATION_DENIED :: byte where "CTAP2_ERR_OPERATION_DENIED = 0x27"
definition CTAP2_ERR_NO_CREDENTIALS :: byte where "CTAP2_ERR_NO_CREDENTIALS = 0x2E"
definition MAX_MSG_SIZE :: int where "MAX_MSG_SIZE = 2048"

text \<open>The user's decisions.\<close>

record Consent =
  approve_create :: "string \<Rightarrow> string \<Rightarrow> bool"
  approve_assert :: "string \<Rightarrow> string \<Rightarrow> bool"
  choose_account :: "string \<Rightarrow> string list \<Rightarrow> nat option"

datatype RequestPlan = Ask (is_create: bool) (ask_rp_id: string) (accounts: "string list") | Respond bytes

fun as_text :: "cbor \<Rightarrow> string option" where
  "as_text (CText s) = Some s"
| "as_text _ = None"

fun as_map :: "cbor \<Rightarrow> (cbor \<times> cbor) list option" where
  "as_map (CMap m) = Some m"
| "as_map _ = None"

fun as_bytes :: "cbor \<Rightarrow> bytes option" where
  "as_bytes (CBytes b) = Some b"
| "as_bytes _ = None"

definition text_key :: "(cbor \<times> cbor) list \<Rightarrow> string \<Rightarrow> cbor option" where
  "text_key m key = map_option snd (find (\<lambda>(k, _). as_text k = Some key) m)"

definition text_field :: "(cbor \<times> cbor) list \<Rightarrow> string \<Rightarrow> string option" where
  "text_field m key = Option.bind (text_key m key) as_text"

definition int_key :: "(cbor \<times> cbor) list \<Rightarrow> int \<Rightarrow> cbor option" where
  "int_key m key = map_option snd (find (\<lambda>(k, _). k = CInt key) m)"

definition body_map :: "auth_env \<Rightarrow> bytes \<Rightarrow> (cbor \<times> cbor) list option" where
  "body_map A body = Option.bind (a_cbor_dec A body) as_map"

definition has_allow_list :: "auth_env \<Rightarrow> bytes \<Rightarrow> bool" where
  "has_allow_list A body =
     (case body_map A body of
        None \<Rightarrow> False
      | Some req \<Rightarrow> (case int_key req 3 of Some (CArray a) \<Rightarrow> a \<noteq> [] | _ \<Rightarrow> False))"

definition up_option_is_false :: "auth_env \<Rightarrow> bytes \<Rightarrow> bool" where
  "up_option_is_false A body =
     (case body_map A body of
        None \<Rightarrow> False
      | Some req \<Rightarrow> Option.bind (Option.bind (int_key req 5) as_map) (\<lambda>m. text_key m ''up'') = Some (CBool False))"

definition names_credential :: "(bytes \<Rightarrow> bool) \<Rightarrow> cbor \<Rightarrow> bool" where
  "names_credential P d =
     (case as_map d of
        None \<Rightarrow> False
      | Some m \<Rightarrow> \<exists>(k, v) \<in> set m. as_text k = Some ''id'' \<and> (case v of CBytes b \<Rightarrow> P b | _ \<Rightarrow> False))"

record CreateFields =
  cfs_rp_id :: string
  cfs_user_name :: string
  cfs_display_name :: string
  cfs_user_handle :: bytes
  cfs_raw :: "(cbor \<times> cbor) list"

definition accepts_es256 :: "cbor list \<Rightarrow> bool" where
  "accepts_es256 params = (\<exists>p \<in> set params. case as_map p of
     None \<Rightarrow> False | Some m \<Rightarrow> \<exists>(k, v) \<in> set m. as_text k = Some ''alg'' \<and> v = CInt ES256)"

definition parse_create :: "auth_env \<Rightarrow> world \<Rightarrow> bytes \<Rightarrow> bytes + CreateFields" where
  "parse_create A w body =
     (if \<not> is_vault_unlocked w then Inl [CTAP2_ERR_OPERATION_DENIED]
      else case body_map A body of
        None \<Rightarrow> Inl [CTAP2_ERR_INVALID_CBOR]
      | Some req \<Rightarrow>
          (case (int_key req 2, int_key req 3, int_key req 4) of
             (Some (CMap rp), Some (CMap user), Some (CArray params)) \<Rightarrow>
               (case text_field rp ''id'' of
                  None \<Rightarrow> Inl [CTAP2_ERR_MISSING_PARAMETER]
                | Some rp_id \<Rightarrow>
                    (case (text_field user ''name'', text_key user ''id'') of
                       (Some user_name, Some (CBytes user_handle)) \<Rightarrow>
                         if \<not> accepts_es256 params then Inl [CTAP2_ERR_UNSUPPORTED_ALGORITHM]
                         else Inr \<lparr>cfs_rp_id = rp_id, cfs_user_name = user_name,
                                   cfs_display_name = unwrap_or (text_field user ''displayName'') user_name,
                                   cfs_user_handle = user_handle, cfs_raw = req\<rparr>
                     | _ \<Rightarrow> Inl [CTAP2_ERR_MISSING_PARAMETER]))
           | _ \<Rightarrow> Inl [CTAP2_ERR_MISSING_PARAMETER]))"

definition excluded :: "PasskeyEntry list \<Rightarrow> cbor list \<Rightarrow> bool" where
  "excluded ours exclude = (\<exists>d \<in> set exclude. names_credential (\<lambda>b. \<exists>e \<in> set ours. pe_credential_id e = b) d)"

definition creation_response :: "auth_env \<Rightarrow> bytes \<Rightarrow> bytes" where
  "creation_response A auth_data =
     CTAP2_OK # a_cbor_enc A (CMap [(CInt 1, CText ''none''), (CInt 2, CBytes auth_data), (CInt 3, CMap [])])"

definition perform_registration :: "auth_env \<Rightarrow> CreateFields \<Rightarrow> world \<Rightarrow> (bytes \<times> world) option" where
  "perform_registration A c w =
     map_option (\<lambda>(r, w'). (case r of Inl _ \<Rightarrow> [CTAP2_ERR_OPERATION_DENIED] | Inr parts \<Rightarrow> creation_response A (rg_auth_data parts), w'))
       (register_passkey_parts A (cfs_rp_id c) (cfs_user_name c) (cfs_display_name c) (cfs_user_handle c) w)"

definition perform_create :: "auth_env \<Rightarrow> CreateFields \<Rightarrow> world \<Rightarrow> (bytes \<times> world) option" where
  "perform_create A c w =
     (case int_key (cfs_raw c) 5 of
        Some (CArray exclude) \<Rightarrow>
          (case session_passkeys_for_rp (cfs_rp_id c) w of
             (Inl _, w') \<Rightarrow> Some ([CTAP2_ERR_OPERATION_DENIED], w')
           | (Inr ours, w') \<Rightarrow>
               if excluded ours exclude then Some ([CTAP2_ERR_CREDENTIAL_EXCLUDED], w')
               else perform_registration A c w')
      | _ \<Rightarrow> perform_registration A c w)"

definition c_hash :: "auth_env \<Rightarrow> bytes \<Rightarrow> bytes" where
  "c_hash A body =
     (case body_map A body of
        None \<Rightarrow> []
      | Some req \<Rightarrow> (case int_key req 2 of Some (CBytes h) \<Rightarrow> h | _ \<Rightarrow> []))"

definition allowed :: "(cbor \<times> cbor) list \<Rightarrow> PasskeyEntry \<Rightarrow> bool" where
  "allowed req e =
     (case int_key req 3 of
        Some (CArray allow) \<Rightarrow> allow = [] \<or> (\<exists>d \<in> set allow. names_credential (\<lambda>b. b = pe_credential_id e) d)
      | _ \<Rightarrow> True)"

definition assertion_matches :: "auth_env \<Rightarrow> world \<Rightarrow> bytes \<Rightarrow> bytes + string \<times> PasskeyEntry list" where
  "assertion_matches A w body =
     (if \<not> is_vault_unlocked w then Inl [CTAP2_ERR_OPERATION_DENIED]
      else case body_map A body of
        None \<Rightarrow> Inl [CTAP2_ERR_INVALID_CBOR]
      | Some req \<Rightarrow>
          (case Option.bind (int_key req 1) as_text of
             None \<Rightarrow> Inl [CTAP2_ERR_MISSING_PARAMETER]
           | Some rp_id \<Rightarrow>
               if Option.bind (int_key req 2) as_bytes = None then Inl [CTAP2_ERR_MISSING_PARAMETER]
               else case fst (session_passkeys_for_rp rp_id w) of
                   Inl _ \<Rightarrow> Inl [CTAP2_ERR_OPERATION_DENIED]
                 | Inr ms \<Rightarrow>
                     let matches = filter (allowed req) ms in
                     if matches = [] then Inl [CTAP2_ERR_NO_CREDENTIALS] else Inr (rp_id, matches)))"

definition assertion_response :: "auth_env \<Rightarrow> bytes \<Rightarrow> bytes \<Rightarrow> bytes \<Rightarrow> bytes \<Rightarrow> bytes" where
  "assertion_response A credential_id auth_data signature_der user_handle =
     CTAP2_OK # a_cbor_enc A (CMap
       [(CInt 1, CMap [(CText ''id'', CBytes credential_id), (CText ''type'', CText ''public-key'')]),
        (CInt 2, CBytes auth_data), (CInt 3, CBytes signature_der),
        (CInt 4, CMap [(CText ''id'', CBytes user_handle)])])"

definition perform_assert :: "auth_env \<Rightarrow> PasskeyEntry \<Rightarrow> bytes \<Rightarrow> world \<Rightarrow> bytes" where
  "perform_assert A pk hash w =
     (case fst (sign_passkey_assertion A (em_id (pe_meta pk)) hash w) of
        Inl _ \<Rightarrow> [CTAP2_ERR_OPERATION_DENIED]
      | Inr parts \<Rightarrow> assertion_response A (ap_credential_id parts) (ap_auth_data parts) (ap_signature_der parts) (ap_user_handle parts))"

definition perform_assert_silent :: "auth_env \<Rightarrow> PasskeyEntry \<Rightarrow> bytes \<Rightarrow> bytes" where
  "perform_assert_silent A pk hash =
     (let auth_data = silent_assertion_authenticator_data A (pe_rp_id pk) in
      case sign_assertion A (pe_private_key pk) auth_data hash of
        Inl _ \<Rightarrow> [CTAP2_ERR_OPERATION_DENIED]
      | Inr signature_der \<Rightarrow> assertion_response A (pe_credential_id pk) auth_data signature_der (pe_user_handle pk))"

definition get_info :: "auth_env \<Rightarrow> bytes" where
  "get_info A =
     CTAP2_OK # a_cbor_enc A (CMap
       [(CInt 1, CArray [CText ''FIDO_2_0'', CText ''FIDO_2_1'']), (CInt 3, CBytes (replicate 16 0)),
        (CInt 4, CMap [(CText ''rk'', CBool True), (CText ''up'', CBool True), (CText ''uv'', CBool True)]),
        (CInt 5, CInt MAX_MSG_SIZE)])"

definition describe_assertion :: "auth_env \<Rightarrow> world \<Rightarrow> bytes \<Rightarrow> RequestPlan" where
  "describe_assertion A w body =
     (if up_option_is_false A body
      then case assertion_matches A w body of
          Inl b \<Rightarrow> Respond b
        | Inr (_, matches) \<Rightarrow>
            if has_allow_list A body then Respond (perform_assert_silent A (matches ! 0) (c_hash A body))
            else Respond [CTAP2_ERR_NO_CREDENTIALS]
      else case assertion_matches A w body of
          Inl b \<Rightarrow> Respond b
        | Inr (rp_id, matches) \<Rightarrow> Ask False rp_id (map pe_user_name matches))"

fun describe_request :: "auth_env \<Rightarrow> world \<Rightarrow> bytes \<Rightarrow> RequestPlan" where
  "describe_request A w [] = Respond [CTAP1_ERR_INVALID_COMMAND]"
| "describe_request A w (cmd # body) =
     (if cmd = CMD_GET_INFO then Respond (get_info A)
      else if cmd = CMD_MAKE_CREDENTIAL
      then case parse_create A w body of Inl b \<Rightarrow> Respond b | Inr c \<Rightarrow> Ask True (cfs_rp_id c) [cfs_user_name c]
      else if cmd = CMD_GET_ASSERTION then describe_assertion A w body
      else Respond [CTAP1_ERR_INVALID_COMMAND])"

fun perform_approved :: "auth_env \<Rightarrow> bytes \<Rightarrow> nat \<Rightarrow> world \<Rightarrow> (bytes \<times> world) option" where
  "perform_approved A [] account_index w = Some ([CTAP1_ERR_INVALID_COMMAND], w)"
| "perform_approved A (cmd # body) account_index w =
     (if cmd = CMD_MAKE_CREDENTIAL
      then case parse_create A w body of Inl b \<Rightarrow> Some (b, w) | Inr c \<Rightarrow> perform_create A c w
      else if cmd = CMD_GET_ASSERTION
      then case assertion_matches A w body of
          Inl b \<Rightarrow> Some (b, w)
        | Inr (_, matches) \<Rightarrow>
            if account_index < length matches
            then Some (perform_assert A (matches ! account_index) (c_hash A body) w, w)
            else Some ([CTAP2_ERR_NO_CREDENTIALS], w)
      else Some ([CTAP1_ERR_INVALID_COMMAND], w))"

definition denied_response :: bytes where
  "denied_response = [CTAP2_ERR_OPERATION_DENIED]"

definition ask_user :: "Consent \<Rightarrow> bool \<Rightarrow> string \<Rightarrow> string list \<Rightarrow> nat option" where
  "ask_user consent create rp_id accs =
     (if create then (if approve_create consent rp_id (accs ! 0) then Some 0 else None)
      else if length accs = 1 then (if approve_assert consent rp_id (accs ! 0) then Some 0 else None)
      else choose_account consent rp_id accs)"

definition handle_request :: "auth_env \<Rightarrow> bytes \<Rightarrow> Consent \<Rightarrow> world \<Rightarrow> (bytes \<times> world) option" where
  "handle_request A payload consent w =
     (if take 1 payload = [CMD_GET_INFO] then Some (get_info A, w)
      else case describe_request A w payload of
          Respond b \<Rightarrow> Some (b, w)
        | Ask create rp_id accs \<Rightarrow>
            (case ask_user consent create rp_id accs of
               Some i \<Rightarrow> perform_approved A payload i w
             | None \<Rightarrow> Some (denied_response, w)))"

section \<open>The seam to the user interface\<close>

record PasskeyPlan =
  pp_immediate_response :: "bytes option"
  pp_is_create :: bool
  pp_rp_id :: string
  pp_accounts :: "string list"

definition passkey_plan :: "auth_env \<Rightarrow> world \<Rightarrow> bytes \<Rightarrow> PasskeyPlan" where
  "passkey_plan A w payload =
     (case describe_request A w payload of
        Respond b \<Rightarrow> \<lparr>pp_immediate_response = Some b, pp_is_create = False, pp_rp_id = [], pp_accounts = []\<rparr>
      | Ask create rp_id accs \<Rightarrow>
          \<lparr>pp_immediate_response = None, pp_is_create = create, pp_rp_id = rp_id, pp_accounts = accs\<rparr>)"

definition passkey_perform :: "auth_env \<Rightarrow> bytes \<Rightarrow> nat \<Rightarrow> world \<Rightarrow> (bytes \<times> world) option" where
  "passkey_perform A payload account_index = perform_approved A payload account_index"

definition passkey_denied :: bytes where
  "passkey_denied = denied_response"

section \<open>Notions the lemmas are stated with\<close>

text \<open>The passkeys of a session for a site, and the response that signs with one of them.\<close>

definition site_passkeys :: "string \<Rightarrow> VaultSession \<Rightarrow> PasskeyEntry list" where
  "site_passkeys rp s = List.map_filter (passkey_for rp) (vs_entries s)"

definition signed_by :: "auth_env \<Rightarrow> byte \<Rightarrow> PasskeyEntry \<Rightarrow> bytes \<Rightarrow> bytes" where
  "signed_by A flags e hash =
     (let ad = e_sha256 (a_env A) (str_bytes (pe_rp_id e)) @ [flags] @ be_encode 4 0 in
      assertion_response A (pe_credential_id e) ad (a_sign A (pe_private_key e) (ad @ hash)) (pe_user_handle e))"

definition denies :: "Consent \<Rightarrow> bool" where
  "denies c = ((\<forall>rp u. \<not> approve_create c rp u) \<and> (\<forall>rp u. \<not> approve_assert c rp u) \<and> (\<forall>rp us. choose_account c rp us = None))"

definition silent_probe :: "auth_env \<Rightarrow> bytes \<Rightarrow> bool" where
  "silent_probe A payload = (take 1 payload = [CMD_GET_ASSERTION] \<and> up_option_is_false A (drop 1 payload) \<and> has_allow_list A (drop 1 payload))"

definition no_consent :: Consent where
  "no_consent = \<lparr>approve_create = \<lambda>_ _. False, approve_assert = \<lambda>_ _. False, choose_account = \<lambda>_ _. None\<rparr>"

definition sample_auth :: auth_env where
  "sample_auth = \<lparr>a_env = sample_env, a_key_ok = (\<lambda>b. length b = 32), a_point = (\<lambda>sk. (sk, sk)), a_sign = (\<lambda>sk m. sk @ m),
     a_cbor_dec = (\<lambda>b. Some (CMap [(CInt 1, CText ''site''), (CInt 2, CBytes [9])])), a_cbor_enc = (\<lambda>_. []),
     a_b64url_enc = bytes_str, a_b64url_dec = (\<lambda>s. Some (str_bytes s)), a_creation = (\<lambda>_. Inl []), a_request = (\<lambda>_. Inl [])\<rparr>"

definition site_entry :: PasskeyEntry where
  "site_entry = passkey_entry ''7'' '''' ''site'' ''ann'' ''Ann'' [4] [5] \<lparr>kp_private_key = replicate 32 0, kp_public_key_cose = []\<rparr>"

definition site_world :: world where
  "site_world = sample_world\<lparr>w_session := Some (open_vault_session\<lparr>vs_entries := [Passkey site_entry]\<rparr>)\<rparr>"

section \<open>Matching\<close>

lemma session_passkeys_run:
  "w_session w = Some s \<Longrightarrow> \<not> w_poisoned w \<Longrightarrow> session_passkeys_for_rp rp w = (Inr (site_passkeys rp s), w)"
  by (simp add: session_passkeys_for_rp_def rbind_def get_session_open rret_def site_passkeys_def)

lemma site_passkeys_member: "e \<in> set (site_passkeys rp s) \<longleftrightarrow> Passkey e \<in> set (vs_entries s) \<and> pe_rp_id e = rp"
proof -
  have "passkey_for rp v = Some e \<longleftrightarrow> v = Passkey e \<and> pe_rp_id e = rp" for v by (cases v) auto
  then show ?thesis unfolding site_passkeys_def List.map_filter_def by (force simp: image_iff)
qed

lemma parse_create_error: "parse_create A w body = Inl b \<Longrightarrow> length b = 1"
  by (auto simp: parse_create_def split: if_splits option.splits cbor.splits prod.splits)

lemma matches_error: "assertion_matches A w body = Inl b \<Longrightarrow> length b = 1"
  by (auto simp: assertion_matches_def Let_def split: if_splits option.splits sum.splits)

lemma matches_Inr:
  assumes "assertion_matches A w body = Inr (rp_id, ms)"
  obtains s req where "w_session w = Some s" and "\<not> w_poisoned w" and "body_map A body = Some req" and "int_key req 1 = Some (CText rp_id)"
    and "ms = filter (allowed req) (site_passkeys rp_id s)" and "ms \<noteq> []"
proof -
  from assms have "is_vault_unlocked w" by (simp add: assertion_matches_def split: if_splits)
  then obtain s where s: "w_session w = Some s" "\<not> w_poisoned w" by (auto simp: is_vault_unlocked_def)
  from assms obtain req v where req: "body_map A body = Some req" and v: "int_key req 1 = Some v" "as_text v = Some rp_id"
    and ms: "ms = filter (allowed req) (site_passkeys rp_id s)" "ms \<noteq> []"
    using s by (auto simp: assertion_matches_def Let_def session_passkeys_run bind_eq_Some_conv split: if_splits option.splits)
  from v have "int_key req 1 = Some (CText rp_id)" by (cases v) auto
  with that s req ms show ?thesis by blast
qed

section \<open>Signing\<close>

lemma get_entry_distinct:
  assumes "w_session w = Some s" and "\<not> w_poisoned w" and "distinct (map entry_id (vs_entries s))" and "v \<in> set (vs_entries s)"
  shows "get_entry (entry_id v) w = (Inr v, w)"
proof -
  obtain n where n: "n < length (vs_entries s)" "vs_entries s ! n = v" using assms(4) by (auto simp: in_set_conv_nth)
  have "entry_id (vs_entries s ! j) \<noteq> entry_id v" if "j < n" for j
    using nth_eq_iff_index_eq [OF assms(3), of j n] that n by simp
  then have "find (\<lambda>e. entry_id e = entry_id v) (vs_entries s) = Some v" using n by (auto simp: find_Some_iff)
  with assms(1,2) show ?thesis by (simp add: get_entry_def rbind_def get_session_open find_entry_def rret_def)
qed

lemma perform_assert_signs:
  assumes "w_session w = Some s" and "\<not> w_poisoned w" and "distinct (map entry_id (vs_entries s))" and "Passkey e \<in> set (vs_entries s)"
  shows "perform_assert A e hash w = (if a_key_ok A (pe_private_key e) then signed_by A 0x1D e hash else [CTAP2_ERR_OPERATION_DENIED])"
proof -
  have g: "get_entry (em_id (pe_meta e)) w = (Inr (Passkey e), w)"
    using get_entry_distinct [OF assms] by (simp add: entry_id_def)
  show ?thesis
    by (simp add: perform_assert_def sign_passkey_assertion_def rbind_def g rlift_def rret_def sign_assertion_def signed_by_def
        assertion_authenticator_data_def assertion_auth_data_with_flags_def Let_def)
qed

section \<open>Drawing a key\<close>

lemma draw_key_returns:
  "ok (map r [32 * k..<32 * k + 32]) \<Longrightarrow> \<exists>sk r'. draw_key ok r = Some (sk, r') \<and> ok sk"
proof (induction k arbitrary: r)
  case 0
  then show ?case by (simp add: draw_key.simps)
next
  case (Suc k)
  show ?case
  proof (cases "ok (map r [0..<32])")
    case True
    then show ?thesis by (simp add: draw_key.simps)
  next
    case False
    have "map (\<lambda>i. r (i + 32)) [32 * k..<32 * k + 32] = map r [32 * Suc k..<32 * Suc k + 32]"
      by (rule nth_equalityI) (auto simp: algebra_simps)
    with Suc.prems have "ok (map (\<lambda>i. r (i + 32)) [32 * k..<32 * k + 32])" by simp
    from Suc.IH [OF this] False show ?thesis by (simp add: draw_key.simps [of ok r])
  qed
qed

lemma draw_key_sound: "draw_key ok r = Some y \<Longrightarrow> ok (fst y) \<and> length (fst y) = 32"
  by (rule draw_key.raw_induct [where P = "\<lambda>ok r y. ok (fst y) \<and> length (fst y) = 32"])
    (auto split: if_splits)

lemma draw_key_ok: "draw_key ok r = Some (sk, r') \<Longrightarrow> ok sk \<and> length sk = 32"
  using draw_key_sound [of ok r "(sk, r')"] by simp

section \<open>Registration\<close>

lemma from_store_passkey:
  assumes "store_passkey A kp rp un dn uh w = (Inr parts, w')"
  obtains s e where "w_session w = Some s" and "w_session w' = Some (s\<lparr>vs_entries := vs_entries s @ [Passkey e]\<rparr>)" and "\<not> w_poisoned w'"
    and "pe_rp_id e = rp" and "pe_user_name e = un" and "pe_user_handle e = uh" and "pe_private_key e = kp_private_key kp"
    and "pe_public_key_cose e = kp_public_key_cose kp" and "pe_credential_id e = rg_credential_id parts"
    and "rg_public_key_cose parts = kp_public_key_cose kp"
    and "rg_auth_data parts = registration_authenticator_data A rp (rg_credential_id parts) (kp_public_key_cose kp)"
proof -
  from assms obtain cid w1 t w2 i w3 r where c: "new_credential_id w = (Inr cid, w1)" and t: "now_secs w1 = (Inr t, w2)"
    and i: "new_entry_id (a_env A) w2 = (Inr i, w3)"
    and sv: "session_create_entry (a_env A) (Passkey (passkey_entry i (chrono_now t) rp un dn uh cid kp)) w3 = (Inr r, w')"
    and parts: "parts = \<lparr>rg_credential_id = cid, rg_auth_data = registration_authenticator_data A rp cid (kp_public_key_cose kp),
              rg_public_key_cose = kp_public_key_cose kp\<rparr>"
    by (auto simp: store_passkey_def rthen_def rnd_simps)
  define e where "e = passkey_entry i (chrono_now t) rp un dn uh cid kp"
  have keep: "w_session w3 = w_session w"
    using c t i by (auto simp: new_credential_id_def now_secs_def read_clock_def new_entry_id_def rnd_simps)
  let ?m = "rbind get_session (\<lambda>s. rthen (put_session (s\<lparr>vs_entries := vs_entries s @ [Passkey e]\<rparr>))
      (rret (entry_to_summary (a_env A) (Passkey e))))"
  have sv': "saving (a_env A) ?m w3 = (Inr r, w')" using sv by (simp add: session_create_entry_def e_def)
  obtain w4 where m: "?m w3 = (Inr r, w4)" by (rule saving_InrE [OF sv'])
  then obtain s where s: "w_session w3 = Some s" "\<not> w_poisoned w4"
      "w_session w4 = Some (s\<lparr>vs_entries := vs_entries s @ [Passkey e]\<rparr>)"
    by (auto simp: rbind_def rthen_def get_session_def check_lock_def read_session_def put_session_def rret_def
        split: if_splits option.splits)
  from put_entry_saved [OF sv' m s(3,2)] s(1) keep show ?thesis
    by (intro that [of s e]) (simp_all add: e_def passkey_entry_def parts)
qed

section \<open>Properties of the authenticator\<close>

text \<open>C6. Without the user's consent nothing is created and nothing is signed: a request the user turns down, or is not
  asked about, is answered with a one-byte error and leaves the vault as it was. The exceptions are the fixed
  self-description and the silent probe of a site that names its credentials.\<close>

theorem nothing_signed_without_consent:
  assumes "denies consent"
  shows "\<exists>b. handle_request A payload consent w = Some (b, w)
    \<and> (length b = 1 \<or> take 1 payload = [CMD_GET_INFO] \<or> silent_probe A payload)"
proof (cases payload)
  case Nil
  then show ?thesis by (simp add: handle_request_def)
next
  case (Cons cmd body)
  have ask: "ask_user consent c rp accs = None" for c rp accs
    using assms by (simp add: denies_def ask_user_def)
  show ?thesis
  proof (cases "cmd = CMD_GET_INFO")
    case True
    then show ?thesis by (simp add: handle_request_def Cons)
  next
    case False
    have d: "(\<exists>c rp accs. describe_request A w payload = Ask c rp accs) \<or>
        (\<exists>b. describe_request A w payload = Respond b \<and> (length b = 1 \<or> silent_probe A payload))"
      using False by (auto simp: Cons describe_assertion_def silent_probe_def dest: parse_create_error matches_error
          split: sum.split prod.split)
    then show ?thesis
      using False by (auto simp: handle_request_def Cons ask denied_response_def)
  qed
qed

theorem nothing_signed_without_consent_witness:
  "\<exists>b. handle_request sample_auth [CMD_MAKE_CREDENTIAL, 1] no_consent sample_world = Some (b, sample_world) \<and> length b = 1"
  using nothing_signed_without_consent [of no_consent sample_auth "[CMD_MAKE_CREDENTIAL, 1]" sample_world]
  by (auto simp: denies_def no_consent_def silent_probe_def CMD_MAKE_CREDENTIAL_def CMD_GET_INFO_def CMD_GET_ASSERTION_def)

text \<open>C15. The account the user picked is the one that signs, in a vault whose entry ids are distinct (the signing key is looked up by id): an
  account listed for a sign-in request is a passkey of exactly the site that asked, admitted by its allow-list, and when the
  user picks it the answer is its signature over the site's hash, the flags and the client data hash - or a denial when the
  bytes stored as its key are not a P-256 key. The vault is not changed.\<close>

theorem chosen_account_signs:
  assumes "describe_request A w (CMD_GET_ASSERTION # body) = Ask create rp_id accs" and "i < length accs"
    and "w_session w = Some s" and "distinct (map entry_id (vs_entries s))"
  shows "\<exists>req e. body_map A body = Some req \<and> int_key req 1 = Some (CText rp_id) \<and> Passkey e \<in> set (vs_entries s)
    \<and> pe_rp_id e = rp_id \<and> allowed req e \<and> pe_user_name e = accs ! i
    \<and> perform_approved A (CMD_GET_ASSERTION # body) i w =
        Some (if a_key_ok A (pe_private_key e) then signed_by A 0x1D e (c_hash A body) else denied_response, w)"
proof -
  from assms(1) obtain ms where ms: "assertion_matches A w body = Inr (rp_id, ms)" and accs: "accs = map pe_user_name ms"
    by (auto simp: describe_assertion_def CMD_GET_ASSERTION_def CMD_GET_INFO_def CMD_MAKE_CREDENTIAL_def
        split: if_splits sum.splits)
  from ms obtain s' req where s': "w_session w = Some s'" "\<not> w_poisoned w" and req: "body_map A body = Some req"
    "int_key req 1 = Some (CText rp_id)" and eq: "ms = filter (allowed req) (site_passkeys rp_id s')"
    by (rule matches_Inr)
  have i: "i < length ms" using assms(2) by (simp add: accs)
  let ?e = "ms ! i"
  have "?e \<in> set ms" using i by simp
  then have e: "allowed req ?e" "Passkey ?e \<in> set (vs_entries s)" "pe_rp_id ?e = rp_id"
    using assms(3) s'(1) by (auto simp: eq site_passkeys_member)
  have "perform_approved A (CMD_GET_ASSERTION # body) i w = Some (perform_assert A ?e (c_hash A body) w, w)"
    using ms i by (simp add: CMD_GET_ASSERTION_def CMD_MAKE_CREDENTIAL_def)
  with perform_assert_signs [OF assms(3) s'(2) assms(4) e(2)] req e i show ?thesis
    by (intro exI [of _ req] exI [of _ ?e]) (simp add: accs denied_response_def)
qed

theorem chosen_account_signs_witness:
  "perform_approved sample_auth [CMD_GET_ASSERTION] 0 site_world = Some (signed_by sample_auth 0x1D site_entry [9], site_world)"
proof -
  have req: "body_map sample_auth b = Some [(CInt 1, CText ''site''), (CInt 2, CBytes [9])]" for b
    by (simp add: body_map_def sample_auth_def)
  have s: "w_session site_world = Some (open_vault_session\<lparr>vs_entries := [Passkey site_entry]\<rparr>)" "\<not> w_poisoned site_world"
    by (simp_all add: site_world_def sample_world_def)
  have f: "site_passkeys ''site'' (open_vault_session\<lparr>vs_entries := [Passkey site_entry]\<rparr>) = [site_entry]"
    by (simp add: site_passkeys_def List.map_filter_def site_entry_def passkey_entry_def)
  have "describe_request sample_auth site_world [CMD_GET_ASSERTION] = Ask False ''site'' [pe_user_name site_entry]"
    by (simp add: describe_assertion_def up_option_is_false_def assertion_matches_def req int_key_def is_vault_unlocked_def s
        session_passkeys_run [OF s] f allowed_def CMD_GET_ASSERTION_def CMD_GET_INFO_def CMD_MAKE_CREDENTIAL_def)
  from chosen_account_signs [OF this _ s(1), of 0]
  have "perform_approved sample_auth [CMD_GET_ASSERTION] 0 site_world =
      Some (if a_key_ok sample_auth (pe_private_key site_entry) then signed_by sample_auth 0x1D site_entry (c_hash sample_auth [])
        else denied_response, site_world)"
    by (auto simp del: perform_approved.simps)
  moreover have "a_key_ok sample_auth (pe_private_key site_entry)" "c_hash sample_auth [] = [9]"
    by (simp_all add: sample_auth_def site_entry_def passkey_entry_def c_hash_def body_map_def int_key_def)
  ultimately show ?thesis by (simp del: perform_approved.simps)
qed

text \<open>C39. Generating a key ends as soon as the random source gives 32 bytes that are one, and gives such bytes.\<close>

theorem key_generation_terminates:
  assumes "a_key_ok A (map r [32 * k..<32 * k + 32])"
  shows "\<exists>kp r'. generate_es256 A r = Some (kp, r') \<and> a_key_ok A (kp_private_key kp)"
  using draw_key_returns [of "a_key_ok A" r k] assms
  by (auto simp: generate_es256_def split: prod.split)

theorem key_generation_terminates_witness:
  "\<exists>kp r'. generate_es256 sample_auth (\<lambda>_. 0) = Some (kp, r') \<and> a_key_ok sample_auth (kp_private_key kp)"
  by (rule key_generation_terminates [where k = 3]) (simp add: sample_auth_def)

text \<open>The public key handed to browsers in DER is the point in the stored COSE key.\<close>

theorem spki_of_cose_key:
  assumes "length x = 32" and "length y = 32"
  shows "spki_from_cose (cose_key x y) = Inr (P256_SPKI_PREFIX @ [0x04] @ x @ y) \<and> length (cose_key x y) = 77"
  using assms by (simp add: spki_from_cose_def cose_key_def)

theorem spki_of_cose_key_witness:
  "spki_from_cose (cose_key (replicate 32 1) (replicate 32 2)) = Inr (P256_SPKI_PREFIX @ [0x04] @ replicate 32 1 @ replicate 32 2)"
  using spki_of_cose_key [of "replicate 32 1" "replicate 32 2"] by simp

end
