(* ===== verification/Import_Csv.thy ===== *)
theory Import_Csv
  imports Session
begin

text \<open>
  The importers that read comma-separated text: the generic one of \<^verbatim>\<open>import/csv.rs\<close> with the columns the user maps, and the
  exports of Google Password Manager and Dashlane (\<^verbatim>\<open>import/google_pm.rs\<close>, \<^verbatim>\<open>import/dashlane.rs\<close>). Lines, trimming, case
  folding and UTF-8 are those of the Rust library on bytes. The lemmas show that a table written with quoted cells is
  read back cell by cell, that no cell under a header is lost, and what happens to quotes inside a cell.
\<close>

section \<open>Text\<close>

definition TEXT_IMPORT_MAX_BYTES :: nat where
  "TEXT_IMPORT_MAX_BYTES = 25 * 1024 * 1024"

definition ENPASS_IMPORT_MAX_BYTES :: nat where
  "ENPASS_IMPORT_MAX_BYTES = 128 * 1024 * 1024"

definition too_large :: "string \<Rightarrow> nat \<Rightarrow> 'a res" where
  "too_large what limit = Inl (Err (what @ '' file exceeds '' @ show_nat (limit div (1024 * 1024)) @ '' MB limit''))"

definition byte_order_mark :: string where
  "byte_order_mark = [CHR 0xEF, CHR 0xBB, CHR 0xBF]"

definition without_bom :: "string \<Rightarrow> string" where
  "without_bom s = unwrap_or (strip_prefix byte_order_mark s) s"

text \<open>\<open>str::lines\<close>: the text so far is kept in reverse; a carriage return goes with the newline that follows it.\<close>

definition line_end :: "string \<Rightarrow> string" where
  "line_end acc = rev (case acc of [] \<Rightarrow> [] | c # r \<Rightarrow> if c = CHR 0x0D then r else c # r)"

fun lines_from :: "string \<Rightarrow> string \<Rightarrow> string list" where
  "lines_from acc [] = (if acc = [] then [] else [rev acc])"
| "lines_from acc (c # cs) = (if c = CHR 0x0A then line_end acc # lines_from [] cs else lines_from (c # acc) cs)"

definition str_lines :: "string \<Rightarrow> string list" where
  "str_lines s = lines_from [] s"

definition ascii_lower :: "char \<Rightarrow> char" where
  "ascii_lower c = (let n = of_char c :: nat in if 65 \<le> n \<and> n \<le> 90 then char_of (n + 32) else c)"

definition eq_ignore_ascii_case :: "string \<Rightarrow> string \<Rightarrow> bool" where
  "eq_ignore_ascii_case a b = (map ascii_lower a = map ascii_lower b)"

text \<open>\<open>str::from_utf8\<close> and the message of its error.\<close>

definition second_byte_ok :: "byte \<Rightarrow> byte \<Rightarrow> bool" where
  "second_byte_ok a b =
     (if a = 0xE0 then 0xA0 \<le> b \<and> b \<le> 0xBF else if a = 0xED then 0x80 \<le> b \<and> b \<le> 0x9F
      else if a = 0xF0 then 0x90 \<le> b \<and> b \<le> 0xBF else if a = 0xF4 then 0x80 \<le> b \<and> b \<le> 0x8F else is_cont b)"

fun utf8_error_len :: "bytes \<Rightarrow> nat option" where
  "utf8_error_len [] = None"
| "utf8_error_len (a # r) =
     (if a < 0xC2 \<or> 0xF4 < a then Some 1
      else if r = [] then None
      else if \<not> second_byte_ok a (r ! 0) then Some 1
      else if length r < 2 then None
      else if \<not> is_cont (r ! 1) then Some 2
      else if length r < 3 then None else Some 3)"

function utf8_error :: "nat \<Rightarrow> bytes \<Rightarrow> string option" where
  "utf8_error at bs =
     (if bs = [] then None
      else if utf8_width bs = 0 then
        Some (case utf8_error_len bs of
            Some n \<Rightarrow> ''invalid utf-8 sequence of '' @ show_nat n @ '' bytes from index '' @ show_nat at
          | None \<Rightarrow> ''incomplete utf-8 byte sequence from index '' @ show_nat at)
      else utf8_error (at + utf8_width bs) (drop (utf8_width bs) bs))"
  by pat_completeness auto
termination
  by (relation "measure (\<lambda>(_, bs). length bs)") auto

declare utf8_error.simps [simp del]

definition from_utf8 :: "string \<Rightarrow> bytes \<Rightarrow> string res" where
  "from_utf8 msg data = (case utf8_error 0 data of Some e \<Rightarrow> Inl (Err (msg @ e)) | None \<Rightarrow> Inr (bytes_str data))"

section \<open>Comma-separated lines\<close>

definition normalise_field :: "string \<Rightarrow> string" where
  "normalise_field value = (if eq_ignore_ascii_case value ''none'' then [] else value)"

fun csv_fields :: "bool \<Rightarrow> string \<Rightarrow> string \<Rightarrow> string list" where
  "csv_fields in_quotes current [] = [normalise_field (trim current)]"
| "csv_fields in_quotes current (ch # cs) =
     (if ch = CHR 0x22 then csv_fields (\<not> in_quotes) current cs
      else if ch = CHR '','' \<and> \<not> in_quotes then normalise_field (trim current) # csv_fields in_quotes [] cs
      else csv_fields in_quotes (current @ [ch]) cs)"

definition parse_csv_line :: "string \<Rightarrow> string list" where
  "parse_csv_line line = csv_fields False [] line"

text \<open>A cell that may be missing, and the title of a row.\<close>

definition cell :: "string list \<Rightarrow> nat \<Rightarrow> string" where
  "cell row i = (if i < length row then row ! i else [])"

definition cell_opt :: "string list \<Rightarrow> nat option \<Rightarrow> string" where
  "cell_opt row i = (case i of None \<Rightarrow> [] | Some i \<Rightarrow> cell row i)"

definition row_title :: "string \<Rightarrow> string \<Rightarrow> string" where
  "row_title title url = (if title \<noteq> [] then title else if url \<noteq> [] then url else ''MISSING TITLE'')"

definition non_empty :: "string \<Rightarrow> string option" where
  "non_empty s = (if s = [] then None else Some s)"

definition data_rows :: "string list \<Rightarrow> string list list" where
  "data_rows lines = map parse_csv_line (filter (\<lambda>l. trim l \<noteq> []) lines)"

section \<open>The generic importer\<close>

record CsvPreview =
  cp_headers :: "string list"
  cp_rows :: "string list list"

record CsvImportConfig =
  cc_title_col :: "string option"
  cc_url_col :: "string option"
  cc_username_col :: "string option"
  cc_password_col :: "string option"
  cc_notes_col :: "string option"

record CsvEntry =
  ct_title :: string
  ct_url :: string
  ct_username :: string
  ct_password :: string
  ct_notes :: "string option"
  ct_custom_fields :: "(string \<times> string) list"

definition csv_header :: "string \<Rightarrow> (string list \<times> string list) res" where
  "csv_header input =
     (case str_lines (without_bom input) of
        [] \<Rightarrow> Inl (Err ''CSV input is empty'')
      | header_line # lines \<Rightarrow>
          if parse_csv_line header_line = [] then Inl (Err ''CSV has no headers'')
          else Inr (parse_csv_line header_line, lines))"

definition sniff_csv :: "string \<Rightarrow> CsvPreview res" where
  "sniff_csv input = and_then (csv_header input) (\<lambda>(headers, lines).
     Inr \<lparr>cp_headers = headers, cp_rows = map parse_csv_line (take 3 lines)\<rparr>)"

definition col_index :: "string list \<Rightarrow> string option \<Rightarrow> nat option" where
  "col_index headers col = Option.bind col (\<lambda>name. position (\<lambda>h. h = name) headers)"

definition claimed_cols :: "string list \<Rightarrow> CsvImportConfig \<Rightarrow> nat list" where
  "claimed_cols headers c = List.map_filter (col_index headers)
     [cc_title_col c, cc_url_col c, cc_username_col c, cc_password_col c, cc_notes_col c]"

definition csv_entry :: "string list \<Rightarrow> CsvImportConfig \<Rightarrow> string list \<Rightarrow> CsvEntry" where
  "csv_entry headers c row =
     (let get = (\<lambda>col. cell_opt row (col_index headers col)) in
      \<lparr>ct_title = row_title (get (cc_title_col c)) (get (cc_url_col c)),
       ct_url = get (cc_url_col c), ct_username = get (cc_username_col c), ct_password = get (cc_password_col c),
       ct_notes = non_empty (get (cc_notes_col c)),
       ct_custom_fields = map (\<lambda>(i, name). (name, cell row i))
         (filter (\<lambda>(i, _). i \<notin> set (claimed_cols headers c)) (enumerate 0 headers))\<rparr>)"

definition import_csv :: "string \<Rightarrow> CsvImportConfig \<Rightarrow> CsvEntry list res" where
  "import_csv input config =
     (if TEXT_IMPORT_MAX_BYTES < length input then too_large ''CSV'' TEXT_IMPORT_MAX_BYTES
      else and_then (csv_header input) (\<lambda>(headers, lines).
        Inr (map (csv_entry headers config) (data_rows lines))))"

section \<open>Google Password Manager and Dashlane\<close>

record ParseFailure =
  pf_title :: string
  pf_category :: string
  pf_reason :: string
  pf_raw_fields :: "(string \<times> string) list"

definition fresh_meta :: "string \<Rightarrow> EntryMeta" where
  "fresh_meta i = \<lparr>em_id = i, em_created_at = [], em_updated_at = [], em_folder = [], em_field_times = [], em_history = []\<rparr>"

definition named_col :: "string \<Rightarrow> string list \<Rightarrow> string \<Rightarrow> nat res" where
  "named_col what headers name =
     (case position (\<lambda>h. eq_ignore_ascii_case h name) headers of
        None \<Rightarrow> Inl (Err (what @ '' CSV missing required column '' @ [CHR 0x27] @ name @ [CHR 0x27]))
      | Some i \<Rightarrow> Inr i)"

definition ok_opt :: "'a res \<Rightarrow> 'a option" where
  "ok_opt r = (case r of Inl _ \<Rightarrow> None | Inr x \<Rightarrow> Some x)"

definition csv_lines :: "string \<Rightarrow> bytes \<Rightarrow> (string list \<times> string list) res" where
  "csv_lines what data =
     and_then (from_utf8 (what @ '' CSV is not valid UTF-8: '') data) (\<lambda>text.
       case str_lines (without_bom text) of
         [] \<Rightarrow> Inl (Err (what @ '' CSV is empty''))
       | header_line # lines \<Rightarrow> Inr (parse_csv_line header_line, lines))"

text \<open>One entry per row, each with a new id.\<close>

definition login_rows :: "env \<Rightarrow> (string \<Rightarrow> string list \<Rightarrow> LoginEntry) \<Rightarrow> string list \<Rightarrow>
    (VaultEntry list \<times> ParseFailure list) app" where
  "login_rows E login lines =
     rbind (rmap (\<lambda>row. rbind (new_entry_id E) (\<lambda>i. rret (Login (login i row)))) (data_rows lines))
       (\<lambda>entries. rret (entries, []))"

definition google_custom :: "string list \<Rightarrow> nat list \<Rightarrow> string list \<Rightarrow> CustomField list" where
  "google_custom headers required row =
     List.map_filter (\<lambda>(i, header).
         if i \<in> set required \<or> cell row i = [] then None
         else Some \<lparr>cf_label = header, cf_value = cell row i, cf_hidden = False\<rparr>)
       (enumerate 0 headers)"

definition google_login ::
  "string list \<Rightarrow> nat \<Rightarrow> nat \<Rightarrow> nat \<Rightarrow> nat \<Rightarrow> nat option \<Rightarrow> string \<Rightarrow> string list \<Rightarrow> LoginEntry" where
  "google_login headers name_idx url_idx username_idx password_idx note_idx i row =
     \<lparr>le_meta = fresh_meta i, le_title = row_title (cell row name_idx) (cell row url_idx), le_url = cell row url_idx,
      le_username = cell row username_idx, le_password = cell row password_idx,
      le_notes = Option.bind note_idx (\<lambda>n. non_empty (cell row n)),
      le_custom_fields = google_custom headers
        ([name_idx, url_idx, username_idx, password_idx] @ (case note_idx of None \<Rightarrow> [] | Some n \<Rightarrow> [n])) row,
      le_attachments = [], le_app_id = None, le_email = None\<rparr>"

definition google_pm_parse :: "env \<Rightarrow> bytes \<Rightarrow> (VaultEntry list \<times> ParseFailure list) app" where
  "google_pm_parse E data =
     (if TEXT_IMPORT_MAX_BYTES < length data then rlift (too_large ''Google Password Manager'' TEXT_IMPORT_MAX_BYTES)
      else rbind (rlift (csv_lines ''Google PM'' data)) (\<lambda>(headers, lines).
        let col = named_col ''Google PM'' headers in
        rbind (rlift (col ''name'')) (\<lambda>name_idx.
        rbind (rlift (col ''url'')) (\<lambda>url_idx.
        rbind (rlift (col ''username'')) (\<lambda>username_idx.
        rbind (rlift (col ''password'')) (\<lambda>password_idx.
          login_rows E (google_login headers name_idx url_idx username_idx password_idx (ok_opt (col ''note''))) lines))))))"

definition opt_custom :: "string \<Rightarrow> string list \<Rightarrow> nat option \<Rightarrow> CustomField list" where
  "opt_custom label row idx =
     (case idx of
        None \<Rightarrow> []
      | Some i \<Rightarrow> if cell row i = [] then [] else [\<lparr>cf_label = label, cf_value = cell row i, cf_hidden = False\<rparr>])"

definition dashlane_login ::
  "nat \<Rightarrow> nat \<Rightarrow> nat \<Rightarrow> nat \<Rightarrow> nat option \<Rightarrow> nat option \<Rightarrow> nat option \<Rightarrow> string \<Rightarrow> string list \<Rightarrow> LoginEntry" where
  "dashlane_login username_idx url_idx password_idx title_idx username2_idx username3_idx note_idx i row =
     \<lparr>le_meta = fresh_meta i, le_title = row_title (cell row title_idx) (cell row url_idx), le_url = cell row url_idx,
      le_username = cell row username_idx, le_password = cell row password_idx,
      le_notes = Option.bind note_idx (\<lambda>n. non_empty (cell row n)),
      le_custom_fields = opt_custom ''username2'' row username2_idx @ opt_custom ''username3'' row username3_idx,
      le_attachments = [], le_app_id = None, le_email = None\<rparr>"

definition dashlane_parse :: "env \<Rightarrow> bytes \<Rightarrow> (VaultEntry list \<times> ParseFailure list) app" where
  "dashlane_parse E data =
     (if TEXT_IMPORT_MAX_BYTES < length data then rlift (too_large ''Dashlane'' TEXT_IMPORT_MAX_BYTES)
      else rbind (rlift (csv_lines ''Dashlane'' data)) (\<lambda>(headers, lines).
        let col = named_col ''Dashlane'' headers in
        rbind (rlift (col ''username'')) (\<lambda>username_idx.
        rbind (rlift (col ''url'')) (\<lambda>url_idx.
        rbind (rlift (col ''password'')) (\<lambda>password_idx.
        rbind (rlift (col ''title'')) (\<lambda>title_idx.
          login_rows E (dashlane_login username_idx url_idx password_idx title_idx (ok_opt (col ''username2''))
            (ok_opt (col ''username3'')) (ok_opt (col ''note''))) lines))))))"

section \<open>Notions the lemmas are stated with\<close>

text \<open>Writing a table: every cell in quotes. A cell is plain if reading gives it back.\<close>

definition quoted :: "string \<Rightarrow> string" where
  "quoted f = CHR 0x22 # f @ [CHR 0x22]"

definition csv_line :: "string list \<Rightarrow> string" where
  "csv_line row = join_str '','' (map quoted row)"

definition csv_text :: "string list \<Rightarrow> string list list \<Rightarrow> string" where
  "csv_text headers rows = join_str [CHR 0x0A] (map csv_line (headers # rows))"

definition plain_cell :: "string \<Rightarrow> bool" where
  "plain_cell f = (CHR 0x22 \<notin> set f \<and> CHR 0x0A \<notin> set f \<and> trim f = f \<and> \<not> eq_ignore_ascii_case f ''none'')"

definition plain_row :: "string list \<Rightarrow> bool" where
  "plain_row row = (row \<noteq> [] \<and> list_all plain_cell row)"

text \<open>The quoting of RFC 4180, where a quote inside a cell is doubled.\<close>

definition rfc_quoted :: "string \<Rightarrow> string" where
  "rfc_quoted f = CHR 0x22 # concat (map (\<lambda>c. if c = CHR 0x22 then [c, c] else [c]) f) @ [CHR 0x22]"

text \<open>All the values a row becomes.\<close>

definition csv_values :: "CsvEntry \<Rightarrow> string set" where
  "csv_values e = {ct_title e, ct_url e, ct_username e, ct_password e} \<union> set_option (ct_notes e) \<union> snd ` set (ct_custom_fields e)"

definition quote_ended :: "string \<Rightarrow> bool" where
  "quote_ended l = (CHR 0x0A \<notin> set l \<and> (\<exists>m. l = CHR 0x22 # m @ [CHR 0x22]))"

definition title_config :: CsvImportConfig where
  "title_config = \<lparr>cc_title_col = Some ''t'', cc_url_col = None, cc_username_col = None, cc_password_col = Some ''p'', cc_notes_col = None\<rparr>"

section \<open>Trimming\<close>

lemma ws_front_quote: "ws_front (CHR 0x22 # s) = 0"
proof (cases s)
  case (Cons d r)
  then show ?thesis by (cases r) simp_all
qed simp

lemma ws_back_quote: "ws_back (CHR 0x22 # s) = 0"
proof (cases s)
  case Nil
  then show ?thesis by (simp add: ws_back_def)
next
  case (Cons d r)
  have "ws_front [d, CHR 0x22] \<noteq> 2" "ws_front [d, CHR 0x22] \<noteq> 3" by simp_all
  moreover have "ws_front [x, d, CHR 0x22] \<noteq> 3" for x by simp
  ultimately show ?thesis using Cons
    by (cases r) (simp_all add: ws_back_def numeral_2_eq_2 numeral_3_eq_3 del: ws_front.simps add: ws_front_quote)
qed

lemma trim_nonempty: "trim (CHR 0x22 # s @ [CHR 0x22]) \<noteq> []"
  by (simp add: trim_def trim_start.simps [of "CHR 0x22 # _"] ws_front_quote trim_end_rev.simps [of "CHR 0x22 # _"] ws_back_quote)

section \<open>Reading a line\<close>

lemma csv_inside:
  "CHR 0x22 \<notin> set f \<Longrightarrow> csv_fields True cur (f @ CHR 0x22 # r) = csv_fields False (cur @ f) r"
  by (induction f arbitrary: cur) auto

lemma csv_quoted_cell:
  assumes "plain_cell f"
  shows "csv_fields False [] (quoted f @ '','' @ r) = f # csv_fields False [] r" and "csv_fields False [] (quoted f) = [f]"
  using assms csv_inside [of f "[]" "'','' @ r"] csv_inside [of f "[]" "[]"]
  by (simp_all add: plain_cell_def quoted_def normalise_field_def)

lemma csv_line_roundtrip: "plain_row row \<Longrightarrow> parse_csv_line (csv_line row) = row"
proof (induction row rule: induct_list012)
  case (3 x y zs)
  from 3 show ?case
    by (simp add: plain_row_def parse_csv_line_def csv_line_def csv_quoted_cell [simplified])
qed (auto simp: plain_row_def parse_csv_line_def csv_line_def csv_quoted_cell)

section \<open>Reading a file\<close>

lemma lines_from_nonl: "CHR 0x0A \<notin> set l \<Longrightarrow> lines_from acc (l @ r) = lines_from (rev l @ acc) r"
  by (induction l arbitrary: acc) auto

lemma line_end_quote: "line_end (CHR 0x22 # acc) = rev acc @ [CHR 0x22]"
  by (simp add: line_end_def)

lemma str_lines_joined: "list_all quote_ended ls \<Longrightarrow> str_lines (join_str [CHR 0x0A] ls) = ls"
proof (induction ls rule: induct_list012)
  case (2 l)
  then obtain m where "l = CHR 0x22 # m @ [CHR 0x22]" "CHR 0x0A \<notin> set l" by (auto simp: quote_ended_def)
  then show ?case using lines_from_nonl [of l "[]" "[]"] by (simp add: str_lines_def)
next
  case (3 l l' ls)
  then obtain m where m: "l = CHR 0x22 # m @ [CHR 0x22]" "CHR 0x0A \<notin> set l" by (auto simp: quote_ended_def)
  have "lines_from [] (l @ CHR 0x0A # r) = l # lines_from [] r" for r
    using lines_from_nonl [of l "[]" "CHR 0x0A # r"] m by (simp add: line_end_quote)
  with 3 show ?case by (simp add: str_lines_def)
qed (simp add: str_lines_def)

lemma csv_line_ends:
  assumes "plain_row row"
  shows "quote_ended (csv_line row)"
proof -
  have "CHR 0x0A \<notin> set (csv_line row)" using assms
    by (induction row rule: induct_list012) (auto simp: plain_row_def csv_line_def quoted_def plain_cell_def)
  moreover have "\<exists>m. csv_line row = CHR 0x22 # m @ [CHR 0x22]" using assms
  proof (induction row rule: induct_list012)
    case (3 x y zs)
    then obtain m where "csv_line (y # zs) = CHR 0x22 # m @ [CHR 0x22]" by (auto simp: plain_row_def)
    then show ?case by (simp add: csv_line_def quoted_def)
  qed (auto simp: plain_row_def csv_line_def quoted_def)
  ultimately show ?thesis by (simp add: quote_ended_def)
qed

lemma csv_text_rows:
  assumes "plain_row headers" and "list_all plain_row rows"
  shows "csv_header (csv_text headers rows) = Inr (headers, map csv_line rows)" and "data_rows (map csv_line rows) = rows"
proof -
  have q: "list_all quote_ended (map csv_line (headers # rows))"
    using assms csv_line_ends by (auto simp: list_all_iff)
  obtain m where "csv_line headers = CHR 0x22 # m" using csv_line_ends [OF assms(1)] by (auto simp: quote_ended_def)
  then have "without_bom (csv_text headers rows) = csv_text headers rows"
    by (cases rows) (simp_all add: without_bom_def strip_prefix_def byte_order_mark_def csv_text_def unwrap_or_def)
  moreover have "headers \<noteq> []" using assms(1) by (simp add: plain_row_def)
  ultimately show "csv_header (csv_text headers rows) = Inr (headers, map csv_line rows)"
    using str_lines_joined [OF q] csv_line_roundtrip [OF assms(1)] by (simp add: csv_header_def csv_text_def)
  have "plain_row r \<Longrightarrow> trim (csv_line r) \<noteq> []" for r using csv_line_ends [of r] trim_nonempty by (auto simp: quote_ended_def)
  then show "data_rows (map csv_line rows) = rows"
    using assms(2) csv_line_roundtrip by (induction rows) (auto simp: data_rows_def)
qed

section \<open>Properties of the text importers\<close>

text \<open>A table written with every cell in quotes is imported cell by cell: the rows of the import are the rows written,
  in order, as long as no cell has a quote or a newline in it, has blanks around it, or reads none.\<close>

theorem csv_file_roundtrip:
  assumes "plain_row headers" and "list_all plain_row rows" and "length (csv_text headers rows) \<le> TEXT_IMPORT_MAX_BYTES"
  shows "import_csv (csv_text headers rows) config = Inr (map (csv_entry headers config) rows)"
  using csv_text_rows [OF assms(1,2)] assms(3) by (simp add: import_csv_def and_then_def)

theorem csv_file_roundtrip_witness:
  "import_csv (csv_text [''t'', ''p''] [[''a,b'', ''c'']]) title_config
     = Inr [\<lparr>ct_title = ''a,b'', ct_url = [], ct_username = [], ct_password = ''c'', ct_notes = None, ct_custom_fields = []\<rparr>]"
proof -
  have t: "trim ''t'' = ''t''" "trim ''p'' = ''p''" "trim ''c'' = ''c''" "trim ''a,b'' = ''a,b''"
    by (simp_all add: trim_def trim_start.simps trim_end_rev.simps ws_back_def numeral_2_eq_2 numeral_3_eq_3)
  have "import_csv (csv_text [''t'', ''p''] [[''a,b'', ''c'']]) title_config
      = Inr (map (csv_entry [''t'', ''p''] title_config) [[''a,b'', ''c'']])"
    by (rule csv_file_roundtrip) (simp_all add: plain_row_def plain_cell_def t eq_ignore_ascii_case_def ascii_lower_def
        csv_text_def csv_line_def quoted_def TEXT_IMPORT_MAX_BYTES_def)
  then show ?thesis
    by (simp add: csv_entry_def title_config_def claimed_cols_def col_index_def cell_opt_def cell_def row_title_def non_empty_def
        List.map_filter_def)
qed

text \<open>No cell under a header is lost, whatever columns the user maps: each value is in a field of the entry or in a
  custom field. (Cells beyond the header are not imported.)\<close>

theorem csv_import_loses_no_cell:
  assumes "import_csv input config = Inr es" and "csv_header input = Inr (headers, lines)" and "n < length es" and "i < length headers"
  shows "cell (data_rows lines ! n) i \<in> insert [] (csv_values (es ! n))"
proof -
  let ?row = "data_rows lines ! n"
  have "es = map (csv_entry headers config) (data_rows lines)"
    using assms(1,2) by (auto simp: import_csv_def and_then_def too_large_def split: if_splits)
  then have e: "es ! n = csv_entry headers config ?row" using assms(3) by simp
  show ?thesis
  proof (cases "i \<in> set (claimed_cols headers config)")
    case True
    then show ?thesis unfolding e
      by (auto simp: claimed_cols_def List.map_filter_def csv_values_def csv_entry_def Let_def cell_opt_def row_title_def non_empty_def
          split: if_splits)
  next
    case False
    then have "(i, headers ! i) \<in> set (filter (\<lambda>(i, _). i \<notin> set (claimed_cols headers config)) (enumerate 0 headers))"
      using assms(4) by (auto simp: in_set_enumerate_eq)
    then have "(headers ! i, cell ?row i) \<in> set (ct_custom_fields (csv_entry headers config ?row))"
      by (auto simp: csv_entry_def Let_def intro!: rev_image_eqI)
    then show ?thesis unfolding e csv_values_def by force
  qed
qed

theorem csv_import_loses_no_cell_witness:
  "\<exists>es. import_csv (csv_text [''t'', ''u''] [[''a'', ''c'']]) title_config = Inr es \<and> length es = 1 \<and> ''c'' \<in> csv_values (es ! 0)"
proof -
  have t: "trim ''t'' = ''t''" "trim ''u'' = ''u''" "trim ''c'' = ''c''" "trim ''a'' = ''a''"
    by (simp_all add: trim_def trim_start.simps trim_end_rev.simps ws_back_def)
  have p: "plain_row [''t'', ''u'']" "list_all plain_row [[''a'', ''c'']]"
    by (simp_all add: plain_row_def plain_cell_def t eq_ignore_ascii_case_def ascii_lower_def)
  have i: "import_csv (csv_text [''t'', ''u''] [[''a'', ''c'']]) title_config = Inr [csv_entry [''t'', ''u''] title_config [''a'', ''c'']]"
    using csv_text_rows [OF p] by (simp add: import_csv_def and_then_def csv_text_def csv_line_def quoted_def TEXT_IMPORT_MAX_BYTES_def)
  from csv_import_loses_no_cell [OF i csv_text_rows(1) [OF p], of 0 1] csv_text_rows(2) [OF p] i show ?thesis
    by (simp add: cell_def)
qed

text \<open>Quotes inside a cell are lost: a cell written as RFC 4180 asks, with its quotes doubled, is read without any of
  them, so an imported password with a quote in it is not the exported one.\<close>

theorem csv_import_drops_quotes:
  "parse_csv_line (rfc_quoted f) = [normalise_field (trim (filter (\<lambda>c. c \<noteq> CHR 0x22) f))]"
proof -
  have "csv_fields True cur (concat (map (\<lambda>c. if c = CHR 0x22 then [c, c] else [c]) f) @ [CHR 0x22])
      = [normalise_field (trim (cur @ filter (\<lambda>c. c \<noteq> CHR 0x22) f))]" for cur
    by (induction f arbitrary: cur) auto
  from this [of "[]"] show ?thesis by (simp add: parse_csv_line_def rfc_quoted_def)
qed

end
