(* ===== verification/Unicode.thy ===== *)
theory Unicode
  imports Prelude
begin

text \<open>
  Characters of strings: a string is its UTF-8 bytes, and this theory reads it as a list of code points and writes code points
  as bytes. The lemmas show that both are inverse on valid strings and on the code points that are characters, and that the
  characters of a concatenation are the characters of its parts.
\<close>

section \<open>Characters and code points\<close>

text \<open>The characters of a string, each as its UTF-8 bytes.\<close>

function utf8_chars :: "string \<Rightarrow> string list" where
  "utf8_chars s =
     (if s = [] then [] else let n = max 1 (utf8_width (str_bytes s)) in take n s # utf8_chars (drop n s))"
  by pat_completeness auto
termination
  by (relation "measure length") auto

declare utf8_chars.simps [simp del]

fun code_value :: "nat list \<Rightarrow> nat" where
  "code_value [a] = a"
| "code_value [a, b] = a mod 32 * 64 + b mod 64"
| "code_value [a, b, c] = a mod 16 * 4096 + b mod 64 * 64 + c mod 64"
| "code_value [a, b, c, d] = a mod 8 * 262144 + b mod 64 * 4096 + c mod 64 * 64 + d mod 64"
| "code_value _ = 0"

definition codepoint :: "string \<Rightarrow> nat" where
  "codepoint c = code_value (map of_char c)"

definition code_units :: "nat \<Rightarrow> nat list" where
  "code_units n =
     (if n < 128 then [n]
      else if n < 2048 then [192 + n div 64, 128 + n mod 64]
      else if n < 65536 then [224 + n div 4096, 128 + n div 64 mod 64, 128 + n mod 64]
      else [240 + n div 262144, 128 + n div 4096 mod 64, 128 + n div 64 mod 64, 128 + n mod 64])"

definition utf8_encode :: "nat \<Rightarrow> string" where
  "utf8_encode n = map char_of (code_units n)"

definition scalar :: "nat \<Rightarrow> bool" where
  "scalar n = (n < 0x110000 \<and> \<not> (0xD800 \<le> n \<and> n < 0xE000))"

section \<open>The width of a character, on numbers\<close>

definition cont :: "nat \<Rightarrow> bool" where
  "cont b = (0x80 \<le> b \<and> b \<le> 0xBF)"

definition width :: "nat list \<Rightarrow> nat" where
  "width bs =
     (case bs of
        [] \<Rightarrow> 0
      | a # r \<Rightarrow>
          if a < 0x80 then 1
          else if 0xC2 \<le> a \<and> a \<le> 0xDF \<and> 1 \<le> length r \<and> cont (r ! 0) then 2
          else if 2 \<le> length r \<and> cont (r ! 1)
              \<and> (a = 0xE0 \<and> 0xA0 \<le> r ! 0 \<and> r ! 0 \<le> 0xBF
                 \<or> (0xE1 \<le> a \<and> a \<le> 0xEC \<or> 0xEE \<le> a \<and> a \<le> 0xEF) \<and> cont (r ! 0)
                 \<or> a = 0xED \<and> 0x80 \<le> r ! 0 \<and> r ! 0 \<le> 0x9F) then 3
          else if 3 \<le> length r \<and> cont (r ! 1) \<and> cont (r ! 2)
              \<and> (a = 0xF0 \<and> 0x90 \<le> r ! 0 \<and> r ! 0 \<le> 0xBF
                 \<or> 0xF1 \<le> a \<and> a \<le> 0xF3 \<and> cont (r ! 0)
                 \<or> a = 0xF4 \<and> 0x80 \<le> r ! 0 \<and> r ! 0 \<le> 0x8F) then 4
          else 0)"

lemma short_lists:
  obtains "r = []" | b where "r = [b]" | b c where "r = [b, c]" | b c d r' where "r = b # c # d # r'"
  by (metis neq_Nil_conv)

lemma width_unat: "utf8_width bs = width (map unat bs)"
proof (cases bs)
  case (Cons a r)
  have eq: "(a = k) = (unat a = unat k)" for k :: byte by (rule word_unat_eq_iff)
  note d = utf8_width_def width_def Cons is_cont_def cont_def word_le_nat_alt word_less_nat_alt eq
  show ?thesis by (rule short_lists [of r]) (simp_all add: d, argo+)
qed (simp add: utf8_width_def width_def)

lemma unat_of_char [simp]: "unat (of_char c :: byte) = of_char c"
proof -
  have "unat (of_nat (of_char c) :: byte) = (of_char c :: nat)" by (simp add: unat_of_nat)
  then show ?thesis by (simp add: of_nat_of_char)
qed

text \<open>Numbers written with digits of six bits.\<close>

lemma digits3:
  obtains a b c :: nat where "n = 4096 * a + 64 * b + c" and "b < 64" and "c < 64"
proof
  have "n = 64 * (n div 64) + n mod 64" "n div 64 = 64 * (n div 64 div 64) + n div 64 mod 64" by simp_all
  then show "n = 4096 * (n div 64 div 64) + 64 * (n div 64 mod 64) + n mod 64" by linarith
qed simp_all

lemma digits4:
  obtains a b c d :: nat where "n = 262144 * a + 4096 * b + 64 * c + d" and "b < 64" and "c < 64" and "d < 64"
proof -
  obtain m c d where 1: "n = 4096 * m + 64 * c + d" "c < 64" "d < 64" by (rule digits3)
  have "m = 64 * (m div 64) + m mod 64" by simp
  then have "n = 262144 * (m div 64) + 4096 * (m mod 64) + 64 * c + d" using 1(1) by linarith
  then show ?thesis by (rule that) (use 1 in simp_all)
qed

lemma divmod64: "c < 64 \<Longrightarrow> (64 * m + c) mod 64 = c \<and> (64 * m + c) div 64 = (m :: nat)"
  by simp

lemma mod_tag: "a < 32 \<Longrightarrow> (192 + a) mod 32 = a" "a < 16 \<Longrightarrow> (224 + a) mod 16 = a" "a < 8 \<Longrightarrow> (240 + a) mod 8 = a" "a < 64 \<Longrightarrow> (128 + a) mod 64 = (a :: nat)"
  using mod_mult_self3 [of 6 32 a] mod_mult_self3 [of 14 16 a] mod_mult_self3 [of 30 8 a] mod_mult_self3 [of 2 64 a] by simp_all

lemma units2: "b < 64 \<Longrightarrow> 2 \<le> a \<Longrightarrow> a < 32 \<Longrightarrow> code_units (64 * a + b) = [192 + a, 128 + b]"
  by (simp add: code_units_def)

lemma units3:
  assumes "n = 4096 * a + 64 * b + c" and "b < 64" and "c < 64" and "2048 \<le> n" and "n < 65536"
  shows "code_units n = [224 + a, 128 + b, 128 + c]"
proof -
  have "n = 64 * (64 * a + b) + c" using assms(1) by simp
  then have "n mod 64 = c" "n div 64 = 64 * a + b" using divmod64 [OF assms(3), of "64 * a + b"] by (simp_all only:)
  moreover from this assms(2) have "n div 4096 = a" using div_mult2_eq [of n 64 64] by simp
  ultimately show ?thesis using assms by (simp add: code_units_def)
qed

lemma units4:
  assumes "n = 262144 * a + 4096 * b + 64 * c + d" and "b < 64" and "c < 64" and "d < 64" and "65536 \<le> n"
  shows "code_units n = [240 + a, 128 + b, 128 + c, 128 + d]"
proof -
  have "n = 64 * (64 * (64 * a + b) + c) + d" using assms(1) by simp
  then have q: "n mod 64 = d" "n div 64 = 64 * (64 * a + b) + c"
    using divmod64 [OF assms(4), of "64 * (64 * a + b) + c"] by (simp_all only:)
  then have "n div 4096 = 64 * a + b" using assms(3) div_mult2_eq [of n 64 64] by simp
  moreover from this have "n div 262144 = a" using assms(2) div_mult2_eq [of n 4096 64] by simp
  moreover have "n div 64 mod 64 = c" using divmod64 [OF assms(3), of "64 * a + b"] by (simp only: q(2))
  moreover have "n div 4096 mod 64 = b" using divmod64 [OF assms(2), of a] by (simp only: calculation(1))
  ultimately show ?thesis using q(1) assms(5) by (simp add: code_units_def)
qed

lemma units_width:
  assumes "scalar n"
  shows "width (code_units n @ r) = length (code_units n)"
proof -
  consider "n < 128" | "128 \<le> n" "n < 2048" | "2048 \<le> n" "n < 65536" | "65536 \<le> n" "n < 0x110000"
    using assms by (fastforce simp: scalar_def)
  then show ?thesis
  proof cases
    case 2
    then have "2 \<le> n div 64" "n div 64 < 32" by auto
    with 2 show ?thesis by (simp add: code_units_def width_def cont_def)
  next
    case 3
    obtain a b c where n: "n = 4096 * a + 64 * b + c" "b < 64" "c < 64" by (rule digits3)
    have "a < 16" "a = 0 \<Longrightarrow> 32 \<le> b" "a = 13 \<Longrightarrow> b < 32" using n 3 assms by (auto simp: scalar_def)
    with n(2,3) show ?thesis unfolding units3 [OF n 3] by (cases "a = 0"; cases "a = 13") (auto simp: width_def cont_def)
  next
    case 4
    obtain a b c d where n: "n = 262144 * a + 4096 * b + 64 * c + d" "b < 64" "c < 64" "d < 64" by (rule digits4)
    have "a < 5" "a = 0 \<Longrightarrow> 16 \<le> b" "a = 4 \<Longrightarrow> b < 16" using n 4 by auto
    with n(2-4) show ?thesis unfolding units4 [OF n 4(1)] by (cases "a = 0"; cases "a = 4") (auto simp: width_def cont_def)
  qed (simp add: code_units_def width_def)
qed

lemma value_units: 
  assumes "scalar n"
  shows "code_value (code_units n) = n"
proof -
  consider "n < 128" | "128 \<le> n" "n < 2048" | "2048 \<le> n" "n < 65536" | "65536 \<le> n" "n < 0x110000"
    using assms by (fastforce simp: scalar_def)
  then show ?thesis
  proof cases
    case 2
    then have a: "n div 64 < 32" by auto
    with 2 show ?thesis by (simp add: code_units_def mod_tag)
  next
    case 3
    obtain a b c where n: "n = 4096 * a + 64 * b + c" "b < 64" "c < 64" by (rule digits3)
    then have "a < 16" using 3 by auto
    then show ?thesis unfolding units3 [OF n 3] using n by (simp add: mod_tag)
  next
    case 4
    obtain a b c d where n: "n = 262144 * a + 4096 * b + 64 * c + d" "b < 64" "c < 64" "d < 64" by (rule digits4)
    then have "a < 8" using 4 by auto
    then show ?thesis unfolding units4 [OF n 4(1)] using n by (simp add: mod_tag)
  qed (simp add: code_units_def)
qed

lemma shifted: "cont x \<Longrightarrow> \<exists>j < 64. x = 128 + j"
  by (auto simp: cont_def intro!: exI [of _ "x - 128"])

text \<open>The first bytes of a string that decodes, by the number of them that make a character.\<close>

lemma width_cases:
  assumes "width bs = k" and "0 < k"
  obtains a where "k = 1" "a < 128" "take 1 bs = [a]"
    | a b where "k = 2" "194 \<le> a" "a \<le> 223" "take 2 bs = [a, b]" "cont b"
    | a b c where "k = 3" "take 3 bs = [a, b, c]" "cont c" "a = 224 \<and> 160 \<le> b \<and> b \<le> 191
         \<or> (225 \<le> a \<and> a \<le> 236 \<or> 238 \<le> a \<and> a \<le> 239) \<and> cont b \<or> a = 237 \<and> 128 \<le> b \<and> b \<le> 159"
    | a b c d where "k = 4" "take 4 bs = [a, b, c, d]" "cont c" "cont d" "a = 240 \<and> 144 \<le> b \<and> b \<le> 191
         \<or> 241 \<le> a \<and> a \<le> 243 \<and> cont b \<or> a = 244 \<and> 128 \<le> b \<and> b \<le> 143"
proof -
  from assms obtain a r where bs: "bs = a # r" by (cases bs) (auto simp: width_def)
  show ?thesis
  proof (cases rule: short_lists [of r])
    case (4 b c d r')
    show ?thesis using assms that(1) [of a] that(2) [of a b] that(3) [of a b c] that(4) [of a b c d]
      by (auto simp: bs 4 width_def split: if_splits)
  qed (use assms that in \<open>auto simp: bs width_def split: if_splits\<close>)
qed

lemma units_value:
  assumes "width bs = k" and "0 < k"
  shows "code_units (code_value (take k bs)) = take k bs \<and> scalar (code_value (take k bs))"
proof -
  from assms show ?thesis
  proof (cases rule: width_cases)
    case (1 a)
    then show ?thesis by (simp add: code_units_def scalar_def)
  next
    case (2 a b)
    obtain j where j: "j < 64" "b = 128 + j" using shifted [OF 2(5)] by blast
    obtain i where i: "a = 192 + i" "2 \<le> i" "i < 32" using 2(2,3) le_Suc_ex [of 192 a] by auto
    show ?thesis using 2(1,4) i j units2 [of j i] by (simp add: mod_tag scalar_def mult.commute)
  next
    case (3 a b c)
    obtain l where l: "l < 64" "c = 128 + l" using shifted [OF 3(3)] by blast
    have "cont b" using 3(4) by (auto simp: cont_def)
    then obtain j where j: "j < 64" "b = 128 + j" using shifted by blast
    obtain i where i: "a = 224 + i" "i < 16" "i = 0 \<longrightarrow> 32 \<le> j" "i = 13 \<longrightarrow> j < 32"
      using 3(4) j le_Suc_ex [of 224 a] by auto
    let ?n = "4096 * i + 64 * j + l"
    have n: "2048 \<le> ?n" "?n < 65536" using i j l by auto
    have "?n < 55296 \<or> 57344 \<le> ?n" using i j l by (cases "i < 13"; cases "i = 13") linarith+
    with n have "scalar ?n" by (auto simp: scalar_def)
    moreover have "code_value [a, b, c] = ?n" using i j l by (simp add: mod_tag)
    ultimately show ?thesis using 3(1,2) units3 [OF refl j(1) l(1) n] i j l by simp
  next
    case (4 a b c d)
    obtain l m where l: "l < 64" "c = 128 + l" and m: "m < 64" "d = 128 + m" using shifted [OF 4(3)] shifted [OF 4(4)] by blast
    have "cont b" using 4(5) by (auto simp: cont_def)
    then obtain j where j: "j < 64" "b = 128 + j" using shifted by blast
    obtain i where i: "a = 240 + i" "i < 5" "i = 0 \<longrightarrow> 16 \<le> j" "i = 4 \<longrightarrow> j < 16"
      using 4(5) j le_Suc_ex [of 240 a] by auto
    let ?n = "262144 * i + 4096 * j + 64 * l + m"
    have n: "65536 \<le> ?n" "?n < 0x110000" using i j l m by auto
    then have "scalar ?n" by (simp add: scalar_def)
    moreover have "code_value [a, b, c, d] = ?n" using i j l m by (simp add: mod_tag)
    ultimately show ?thesis using 4(1,2) units4 [OF refl j(1) l(1) m(1) n(1)] i j l m by simp
  qed
qed

section \<open>Strings as lists of characters\<close>

lemma char_bytes: "map unat (str_bytes s) = map of_char s"
  by (simp add: str_bytes_def)

lemma char_width: "utf8_width (str_bytes s) = width (map of_char s)"
  by (simp add: width_unat char_bytes)

lemma units_byte: "scalar n \<Longrightarrow> x \<in> set (code_units n) \<Longrightarrow> x < 256"
  by (auto simp: code_units_def scalar_def split: if_splits)

lemma encode_units: "scalar n \<Longrightarrow> map of_char (utf8_encode n) = code_units n"
  by (simp add: utf8_encode_def map_idI units_byte)

lemma codepoint_encode [simp]: "scalar n \<Longrightarrow> codepoint (utf8_encode n) = n"
  by (simp add: codepoint_def encode_units value_units)

lemma units_nonempty [simp]: "code_units n \<noteq> []"
  by (simp add: code_units_def)

lemma chars_scalar_encode:
  assumes "utf8_valid (str_bytes s)"
  shows "list_all scalar (map codepoint (utf8_chars s)) \<and> map (utf8_encode \<circ> codepoint) (utf8_chars s) = utf8_chars s \<and> concat (utf8_chars s) = s"
  using assms
proof (induction s rule: utf8_chars.induct)
  case (1 s)
  show ?case
  proof (cases "s = []")
    case False
    let ?k = "utf8_width (str_bytes s)"
    have v: "?k \<noteq> 0" "utf8_valid (drop ?k (str_bytes s))"
      using 1(2) False utf8_valid.simps [of "str_bytes s"] by (auto simp: str_bytes_def split: if_splits)
    have u: "code_units (codepoint (take ?k s)) = map of_char (take ?k s)" "scalar (codepoint (take ?k s))"
      using units_value [of "map of_char s" ?k] v by (simp_all add: codepoint_def take_map char_width)
    have "utf8_encode (codepoint (take ?k s)) = take ?k s" unfolding utf8_encode_def u(1) by simp
    moreover have "utf8_chars s = take ?k s # utf8_chars (drop ?k s)"
      using False v(1) by (subst utf8_chars.simps) (simp add: Let_def max_def)
    moreover have "utf8_valid (str_bytes (drop ?k s))" using v(2) by (simp add: str_bytes_def drop_map)
    ultimately show ?thesis using 1(1) [OF False refl] v(1) u(2) by (simp add: max_def)
  qed (simp add: utf8_chars.simps)
qed

lemma encode_nonempty: "utf8_encode n \<noteq> []" "0 < length (utf8_encode n)"
  by (simp_all add: utf8_encode_def)

lemma encode_width: "scalar n \<Longrightarrow> utf8_width (str_bytes (utf8_encode n @ r)) = length (utf8_encode n)"
  using units_width [of n "map of_char r"] by (simp add: char_width encode_units) (simp add: utf8_encode_def)

lemma chars_encoded_append:
  "list_all scalar ns \<Longrightarrow> utf8_chars (concat (map utf8_encode ns) @ t) = map utf8_encode ns @ utf8_chars t"
proof (induction ns)
  case (Cons n ns)
  let ?r = "concat (map utf8_encode ns) @ t"
  have w: "utf8_width (str_bytes (utf8_encode n @ ?r)) = length (utf8_encode n)" using Cons.prems by (intro encode_width) simp
  have "utf8_chars (utf8_encode n @ ?r) = utf8_encode n # utf8_chars ?r"
    using encode_nonempty [of n] by (subst utf8_chars.simps) (simp add: Let_def max_def Suc_le_eq w del: length_greater_0_conv)
  with Cons show ?case by simp
qed simp

lemma valid_encoded: "list_all scalar ns \<Longrightarrow> utf8_valid (str_bytes (concat (map utf8_encode ns)))"
proof (induction ns)
  case (Cons n ns)
  let ?r = "concat (map utf8_encode ns)"
  have w: "utf8_width (str_bytes (utf8_encode n @ ?r)) = length (utf8_encode n)" using Cons.prems by (intro encode_width) simp
  have "drop (length (utf8_encode n)) (str_bytes (utf8_encode n @ ?r)) = str_bytes ?r" by (simp add: str_bytes_def)
  then show ?case using Cons w encode_nonempty [of n] by (subst utf8_valid.simps) (simp add: str_bytes_def)
qed (simp add: str_bytes_def)

lemma valid_decomposed:
  assumes "utf8_valid (str_bytes s)"
  obtains ns where "list_all scalar ns" and "s = concat (map utf8_encode ns)" and "utf8_chars s = map utf8_encode ns"
proof -
  note c = chars_scalar_encode [OF assms]
  have e: "utf8_chars s = map utf8_encode (map codepoint (utf8_chars s))" using c by simp
  then have "s = concat (map utf8_encode (map codepoint (utf8_chars s)))" using c by simp
  with c e that show ?thesis by blast
qed

lemma chars_append: "utf8_valid (str_bytes s) \<Longrightarrow> utf8_chars (s @ t) = utf8_chars s @ utf8_chars t"
  by (erule valid_decomposed) (simp add: chars_encoded_append)

lemma chars_concat: "concat (utf8_chars s) = s"
proof (induction s rule: utf8_chars.induct)
  case (1 s)
  then show ?case by (subst utf8_chars.simps) (simp add: Let_def)
qed

text \<open>The characters of a concatenation of encoded characters are these characters.\<close>

lemma chars_of_encoded: "list_all scalar ns \<Longrightarrow> map codepoint (utf8_chars (concat (map utf8_encode ns))) = ns"
  using chars_encoded_append [of ns "[]"] by (simp add: utf8_chars.simps [of "[]"] list_all_iff map_idI)

end
