(* ===== verification/Importers.thy ===== *)
theory Importers
  imports Import_Csv Unicode
begin

text \<open>
  The importers for the JSON exports of Bitwarden and Enpass (\<^verbatim>\<open>import/bitwarden.rs\<close>, \<^verbatim>\<open>import/enpass.rs\<close>) and the
  operations of \<^verbatim>\<open>api/import.rs\<close> that put the entries into the open vault and save once. The derived JSON readers and the
  Unicode class of a character are parameters (record \<open>import_env\<close>). The locale \<open>importer\<close> is the contract of the five
  importers; the lemmas show that an import only adds, that taking over another vault keeps ids distinct while importing
  an export twice does not, that every live Enpass item is accounted for, and which of its fields get lost.
\<close>

section \<open>What the JSON importers rest on\<close>

record BwFolder =
  bf_id :: string
  bf_name :: string

record BwField =
  bd_name :: "string option"
  bd_value :: "string option"
  bd_field_type :: u32

record BwLogin =
  bl_uris :: "string option list"
  bl_username :: "string option"
  bl_password :: "string option"

record BwCard =
  bc_cardholder_name :: "string option"
  bc_brand :: "string option"
  bc_number :: "string option"
  bc_exp_month :: "string option"
  bc_exp_year :: "string option"
  bc_code :: "string option"

record BwIdentity =
  bi_first_name :: "string option"
  bi_last_name :: "string option"
  bi_email :: "string option"
  bi_phone :: "string option"
  bi_company :: "string option"

record BwItem =
  bw_id :: string
  bw_item_type :: u32
  bw_name :: string
  bw_notes :: "string option"
  bw_folder_id :: "string option"
  bw_fields :: "BwField list"
  bw_login :: "BwLogin option"
  bw_card :: "BwCard option"
  bw_identity :: "BwIdentity option"

record BwExport =
  bx_folders :: "BwFolder list"
  bx_items :: "BwItem list"

record EnpassField =
  ef_label :: string
  ef_field_type :: string
  ef_value :: string
  ef_sensitive :: u8
  ef_deleted :: u8

record EnpassAttachment =
  ea_uuid :: string
  ea_name :: string
  ea_kind :: string
  ea_data :: string

record EnpassItem =
  en_uuid :: string
  en_title :: string
  en_category :: string
  en_note :: string
  en_archived :: u8
  en_trashed :: u8
  en_fields :: "EnpassField list"
  en_attachments :: "EnpassAttachment list"

text \<open>The derived JSON readers, and the Unicode class of a character (given as its UTF-8 bytes).\<close>

record import_env =
  im_env :: env
  im_bitwarden :: "bytes \<Rightarrow> string + BwExport"
  im_enpass :: "bytes \<Rightarrow> string + EnpassItem list"
  im_alphanumeric :: "string \<Rightarrow> bool"

section \<open>Bitwarden\<close>

definition convert_fields :: "BwField list \<Rightarrow> CustomField list" where
  "convert_fields bfs = map (\<lambda>f. \<lparr>cf_label = unwrap_or (bd_name f) [], cf_value = unwrap_or (bd_value f) [],
     cf_hidden = (bd_field_type f = 1)\<rparr>) bfs"

definition bw_convert_login :: "EntryMeta \<Rightarrow> string \<Rightarrow> string option \<Rightarrow> CustomField list \<Rightarrow> BwLogin option \<Rightarrow> LoginEntry option" where
  "bw_convert_login meta title notes custom_fields login =
     map_option (\<lambda>l. \<lparr>le_meta = meta, le_title = title,
       le_url = unwrap_or (Option.bind (find (\<lambda>u. u \<noteq> None) (bl_uris l)) id) [],
       le_username = unwrap_or (bl_username l) [], le_password = unwrap_or (bl_password l) [], le_notes = notes,
       le_custom_fields = custom_fields, le_attachments = [], le_app_id = None, le_email = None\<rparr>) login"

definition bw_convert_note :: "EntryMeta \<Rightarrow> string \<Rightarrow> string option \<Rightarrow> NoteEntry" where
  "bw_convert_note meta title notes =
     \<lparr>ne_meta = meta, ne_title = title, ne_content = unwrap_or notes [], ne_custom_fields = [], ne_attachments = []\<rparr>"

definition parse_u32 :: "string \<Rightarrow> nat option" where
  "parse_u32 s = (case parse_u64 s of None \<Rightarrow> None | Some n \<Rightarrow> if n < 2 ^ 32 then Some n else None)"

definition bw_expiry :: "BwCard \<Rightarrow> string" where
  "bw_expiry c =
     (case (bc_exp_month c, bc_exp_year c) of
        (Some m, Some y) \<Rightarrow> pad0 2 (show_nat (unwrap_or (parse_u32 m) 0)) @ ''/'' @ pad0 2 (show_nat (unwrap_or (parse_u32 y) 0 mod 100))
      | _ \<Rightarrow> [])"

definition opt_pair :: "string \<Rightarrow> string option \<Rightarrow> (string \<times> string) list" where
  "opt_pair k v = (case v of None \<Rightarrow> [] | Some x \<Rightarrow> [(k, x)])"

fun err_text :: "err \<Rightarrow> string" where
  "err_text (Err e) = e"
| "err_text Panic = []"

definition bw_card_entry :: "EntryMeta \<Rightarrow> string option \<Rightarrow> CustomField list \<Rightarrow> BwCard \<Rightarrow> CardEntry" where
  "bw_card_entry meta notes custom_fields c =
     \<lparr>ce_meta = meta, ce_card_name = None, ce_status = ''active'', ce_cardholder_name = unwrap_or (bc_cardholder_name c) [],
      ce_card_number = unwrap_or (bc_number c) [], ce_expiry = bw_expiry c, ce_cvv = unwrap_or (bc_code c) [],
      ce_credit_limit = None, ce_card_account_number = None, ce_payment_network = bc_brand c, ce_pin = None, ce_bank_name = None,
      ce_transaction_password = None, ce_notes = notes, ce_custom_fields = custom_fields, ce_attachments = []\<rparr>"

definition bw_card_failure :: "string \<Rightarrow> BwCard \<Rightarrow> err \<Rightarrow> ParseFailure" where
  "bw_card_failure title c reason =
     \<lparr>pf_title = title, pf_category = ''creditcard'', pf_reason = err_text reason,
      pf_raw_fields = [(''title'', title), (''card_number'', unwrap_or (bc_number c) [])]
        @ opt_pair ''cardholder_name'' (bc_cardholder_name c) @ (if bw_expiry c = [] then [] else [(''expiry'', bw_expiry c)])
        @ opt_pair ''cvv'' (bc_code c) @ opt_pair ''payment_network'' (bc_brand c)\<rparr>"

definition bw_convert_card ::
  "EntryMeta \<Rightarrow> string \<Rightarrow> string option \<Rightarrow> CustomField list \<Rightarrow> BwCard option \<Rightarrow> ParseFailure + CardEntry option" where
  "bw_convert_card meta title notes custom_fields bcard =
     (case bcard of
        None \<Rightarrow> Inr None
      | Some c \<Rightarrow> (case CardEntry_new (bw_card_entry meta notes custom_fields c) of
            Inl e \<Rightarrow> Inl (bw_card_failure title c e)
          | Inr entry \<Rightarrow> Inr (Some entry)))"

definition opt_field :: "string \<Rightarrow> string option \<Rightarrow> CustomField list" where
  "opt_field label v = (case Option.bind v non_empty of None \<Rightarrow> [] | Some x \<Rightarrow> [\<lparr>cf_label = label, cf_value = x, cf_hidden = False\<rparr>])"

definition bw_identity_fields :: "string option \<Rightarrow> BwIdentity option \<Rightarrow> CustomField list" where
  "bw_identity_fields notes ident =
     (case ident of
        None \<Rightarrow> []
      | Some i \<Rightarrow> opt_field ''First name'' (bi_first_name i) @ opt_field ''Last name'' (bi_last_name i) @ opt_field ''Email'' (bi_email i)
          @ opt_field ''Phone'' (bi_phone i) @ opt_field ''Company'' (bi_company i) @ opt_field ''Notes'' notes)"

definition bw_convert_identity ::
  "EntryMeta \<Rightarrow> string \<Rightarrow> string option \<Rightarrow> CustomField list \<Rightarrow> BwIdentity option \<Rightarrow> CustomEntry" where
  "bw_convert_identity meta title notes custom_fields ident =
     \<lparr>xe_meta = meta, xe_title = title,
      xe_fields = fold (\<lambda>f. ix_insert (cf_label f) f) (custom_fields @ bw_identity_fields notes ident) [],
      xe_attachments = []\<rparr>"

definition bw_folder :: "BwFolder list \<Rightarrow> BwItem \<Rightarrow> string" where
  "bw_folder folders item =
     (case Option.bind (bw_folder_id item) (last_by bf_id folders) of None \<Rightarrow> [] | Some f \<Rightarrow> bf_name f)"

definition bw_meta :: "BwFolder list \<Rightarrow> BwItem \<Rightarrow> nat \<Rightarrow> nat \<Rightarrow> EntryMeta" where
  "bw_meta folders item created updated =
     \<lparr>em_id = bw_id item, em_created_at = chrono_now created, em_updated_at = chrono_now updated,
      em_folder = bw_folder folders item, em_field_times = [], em_history = []\<rparr>"

text \<open>What becomes of one item: an entry, a failure or nothing.\<close>

definition bw_convert :: "EntryMeta \<Rightarrow> BwItem \<Rightarrow> VaultEntry list \<times> ParseFailure list" where
  "bw_convert meta item =
     (let custom_fields = convert_fields (bw_fields item) in
      if bw_item_type item = 1
      then (case bw_convert_login meta (bw_name item) (bw_notes item) custom_fields (bw_login item) of
              None \<Rightarrow> ([], []) | Some e \<Rightarrow> ([Login e], []))
      else if bw_item_type item = 2 then ([Note (bw_convert_note meta (bw_name item) (bw_notes item))], [])
      else if bw_item_type item = 3
      then (case bw_convert_card meta (bw_name item) (bw_notes item) custom_fields (bw_card item) of
              Inl f \<Rightarrow> ([], [f]) | Inr None \<Rightarrow> ([], []) | Inr (Some e) \<Rightarrow> ([Card e], []))
      else if bw_item_type item = 4
      then ([Custom (bw_convert_identity meta (bw_name item) (bw_notes item) custom_fields (bw_identity item))], [])
      else ([], []))"

definition collect :: "(VaultEntry list \<times> ParseFailure list) list \<Rightarrow> VaultEntry list \<times> ParseFailure list" where
  "collect rs = (concat (map fst rs), concat (map snd rs))"

definition bitwarden_parse :: "import_env \<Rightarrow> bytes \<Rightarrow> (VaultEntry list \<times> ParseFailure list) app" where
  "bitwarden_parse I data =
     (if TEXT_IMPORT_MAX_BYTES < length data then rlift (too_large ''Bitwarden'' TEXT_IMPORT_MAX_BYTES)
      else rbind (rlift (ser_err ''Bitwarden JSON parse error: '' (im_bitwarden I data))) (\<lambda>export.
        rbind (rmap (\<lambda>item. rbind now_secs (\<lambda>created. rbind now_secs (\<lambda>updated.
            rret (bw_convert (bw_meta (bx_folders export) item created updated) item)))) (bx_items export))
          (\<lambda>rs. rret (collect rs))))"

section \<open>Enpass\<close>

definition en_should_drop_field :: "string \<Rightarrow> bool" where
  "en_should_drop_field t = (t \<in> {''totp'', ''section'', ''ccType''} \<or> starts_with ''.Android'' t)"

definition en_find_field_value :: "EnpassField list \<Rightarrow> string list \<Rightarrow> string" where
  "en_find_field_value fs types =
     unwrap_or (find (\<lambda>v. v \<noteq> []) (map ef_value (filter (\<lambda>f. ef_field_type f \<in> set types) fs))) []"

definition en_opt_field_value :: "EnpassField list \<Rightarrow> string list \<Rightarrow> string option" where
  "en_opt_field_value fs types =
     Option.bind (find (\<lambda>f. ef_field_type f \<in> set types) fs) (\<lambda>f. non_empty (ef_value f))"

definition enpass_field_to_custom :: "EnpassField \<Rightarrow> CustomField" where
  "enpass_field_to_custom f = \<lparr>cf_label = ef_label f, cf_value = ef_value f, cf_hidden = (ef_sensitive f = 1)\<rparr>"

definition sanitise_key :: "import_env \<Rightarrow> string \<Rightarrow> string" where
  "sanitise_key I label =
     concat (map (\<lambda>c. if im_alphanumeric I c then c else ''_'') (utf8_chars (e_lower (im_env I) label)))"

definition en_make_meta :: "string \<Rightarrow> EntryMeta" where
  "en_make_meta uuid = fresh_meta uuid"

definition normalise_expiry :: "string \<Rightarrow> string" where
  "normalise_expiry expiry =
     (let month = takeWhile (\<lambda>c. c \<noteq> CHR ''/'') expiry; rest = dropWhile (\<lambda>c. c \<noteq> CHR ''/'') expiry; year = drop 1 rest in
      if rest \<noteq> [] \<and> length year = 4 \<and> list_all is_ascii_digit year then month @ ''/'' @ drop 2 year else expiry)"

definition en_decode_attachment :: "import_env \<Rightarrow> EnpassAttachment \<Rightarrow> EntryAttachment option" where
  "en_decode_attachment I a =
     (if ENPASS_ATTACHMENT_MAX_BYTES < length (ea_data a) div 4 * 3 then None
      else map_option (\<lambda>b. \<lparr>at_uuid = ea_uuid a, at_name = ea_name a, at_kind = ea_kind a, at_data = b\<rparr>)
        (e_b64dec (im_env I) (ea_data a)))"

definition en_decode_attachments :: "import_env \<Rightarrow> EnpassAttachment list \<Rightarrow> EntryAttachment list" where
  "en_decode_attachments I raw = List.map_filter (en_decode_attachment I) raw"

definition en_convert_login :: "EntryMeta \<Rightarrow> string \<Rightarrow> string \<Rightarrow> EnpassField list \<Rightarrow> EntryAttachment list \<Rightarrow> LoginEntry" where
  "en_convert_login meta title note fs attachments =
     \<lparr>le_meta = meta, le_title = title, le_url = en_find_field_value fs [''url''],
      le_username = en_find_field_value fs [''username'', ''email''], le_password = en_find_field_value fs [''password''],
      le_notes = non_empty note,
      le_custom_fields = map enpass_field_to_custom
        (filter (\<lambda>f. ef_field_type f \<notin> {''url'', ''username'', ''email'', ''password''}) fs),
      le_attachments = attachments, le_app_id = None, le_email = None\<rparr>"

definition en_card_types :: "string list" where
  "en_card_types = [''ccName'', ''ccNumber'', ''ccExpiry'', ''ccCvc'', ''ccPin'', ''ccBankname'', ''ccTxnpassword'', ''ccType'']"

definition en_convert_card :: "EntryMeta \<Rightarrow> string \<Rightarrow> string \<Rightarrow> EnpassField list \<Rightarrow> EntryAttachment list \<Rightarrow> CardEntry res" where
  "en_convert_card meta title note fs attachments =
     CardEntry_new \<lparr>ce_meta = meta, ce_card_name = Some title, ce_status = ''active'',
       ce_cardholder_name = en_find_field_value fs [''ccName''], ce_card_number = en_find_field_value fs [''ccNumber''],
       ce_expiry = normalise_expiry (en_find_field_value fs [''ccExpiry'']), ce_cvv = en_find_field_value fs [''ccCvc''],
       ce_credit_limit = None, ce_card_account_number = None, ce_payment_network = None,
       ce_pin = en_opt_field_value fs [''ccPin''], ce_bank_name = en_opt_field_value fs [''ccBankname''],
       ce_transaction_password = en_opt_field_value fs [''ccTxnpassword''], ce_notes = non_empty note,
       ce_custom_fields = map enpass_field_to_custom (filter (\<lambda>f. ef_field_type f \<notin> set en_card_types) fs),
       ce_attachments = attachments\<rparr>"

definition en_convert_custom ::
  "import_env \<Rightarrow> EntryMeta \<Rightarrow> string \<Rightarrow> string \<Rightarrow> EnpassField list \<Rightarrow> EntryAttachment list \<Rightarrow> CustomEntry" where
  "en_convert_custom I meta title note fs attachments =
     (let field_map = fold (\<lambda>f. ix_insert (sanitise_key I (ef_label f)) (enpass_field_to_custom f)) fs [] in
      \<lparr>xe_meta = meta, xe_title = title,
       xe_fields = (case non_empty note of
           None \<Rightarrow> field_map
         | Some t \<Rightarrow> ix_insert ''notes'' \<lparr>cf_label = ''Notes'', cf_value = t, cf_hidden = False\<rparr> field_map),
       xe_attachments = attachments\<rparr>)"

definition raw_key :: "EnpassField \<Rightarrow> string" where
  "raw_key f =
     (case map_of [(''ccNumber'', ''card_number''), (''ccName'', ''cardholder_name''), (''ccExpiry'', ''expiry''), (''ccCvc'', ''cvv''),
         (''ccPin'', ''pin''), (''ccBankname'', ''bank_name''), (''ccTxnpassword'', ''transaction_password''),
         (''username'', ''username''), (''email'', ''username''), (''password'', ''password''), (''url'', ''url'')] (ef_field_type f) of
        Some k \<Rightarrow> k | None \<Rightarrow> ef_label f)"

definition extract_raw_fields :: "EnpassField list \<Rightarrow> (string \<times> string) list" where
  "extract_raw_fields fs = map (\<lambda>f. (raw_key f, ef_value f)) (filter (\<lambda>f. ef_value f \<noteq> []) fs)"

definition active_fields :: "EnpassItem \<Rightarrow> EnpassField list" where
  "active_fields item = filter (\<lambda>f. ef_deleted f = 0 \<and> \<not> en_should_drop_field (ef_field_type f)) (en_fields item)"

definition convert_item :: "import_env \<Rightarrow> EnpassItem \<Rightarrow> ParseFailure + VaultEntry" where
  "convert_item I item =
     (let fs = active_fields item; attachments = en_decode_attachments I (en_attachments item); meta = en_make_meta (en_uuid item) in
      if en_category item \<in> {''login'', ''computer'', ''finance''}
      then Inr (Login (en_convert_login meta (en_title item) (en_note item) fs attachments))
      else if en_category item = ''creditcard''
      then (case en_convert_card meta (en_title item) (en_note item) fs attachments of
              Inr c \<Rightarrow> Inr (Card c)
            | Inl e \<Rightarrow> Inl \<lparr>pf_title = en_title item, pf_category = en_category item, pf_reason = err_text e,
                           pf_raw_fields = (''title'', en_title item) # extract_raw_fields fs\<rparr>)
      else if en_category item = ''note''
      then Inr (Note \<lparr>ne_meta = meta, ne_title = en_title item, ne_content = en_note item, ne_custom_fields = [],
                     ne_attachments = attachments\<rparr>)
      else Inr (Custom (en_convert_custom I meta (en_title item) (en_note item) fs attachments)))"

definition enpass_item :: "import_env \<Rightarrow> EnpassItem \<Rightarrow> VaultEntry list \<times> ParseFailure list" where
  "enpass_item I item =
     (if en_archived item \<noteq> 0 \<or> en_trashed item \<noteq> 0 then ([], [])
      else case convert_item I item of Inr e \<Rightarrow> ([e], []) | Inl f \<Rightarrow> ([], [f]))"

definition enpass_parse :: "import_env \<Rightarrow> bytes \<Rightarrow> (VaultEntry list \<times> ParseFailure list) res" where
  "enpass_parse I data =
     (if ENPASS_IMPORT_MAX_BYTES < length data then too_large ''Enpass'' ENPASS_IMPORT_MAX_BYTES
      else and_then (ser_err ''Failed to parse Enpass JSON: '' (im_enpass I data)) (\<lambda>items.
        Inr (collect (map (enpass_item I) items))))"

section \<open>Importing into the open vault\<close>

record CsvPreviewData =
  pd_headers :: "string list"
  pd_rows :: "string list list"

record ImportFailureData =
  if_title :: string
  if_category :: string
  if_reason :: string
  if_raw_fields :: "(string \<times> string) list"

record ImportResult =
  ir_imported :: nat
  ir_failures :: "ImportFailureData list"

definition sniff_csv_file :: "string \<Rightarrow> CsvPreviewData res" where
  "sniff_csv_file input = and_then (sniff_csv input) (\<lambda>p. Inr \<lparr>pd_headers = cp_headers p, pd_rows = cp_rows p\<rparr>)"

definition failure_data :: "ParseFailure \<Rightarrow> ImportFailureData" where
  "failure_data f = \<lparr>if_title = pf_title f, if_category = pf_category f, if_reason = pf_reason f, if_raw_fields = pf_raw_fields f\<rparr>"

text \<open>Every entry is put into the session, then there is one save.\<close>

definition add_and_save :: "env \<Rightarrow> ('a \<Rightarrow> VaultEntry app) \<Rightarrow> 'a list \<Rightarrow> ParseFailure list \<Rightarrow> ImportResult app" where
  "add_and_save E prep xs failures =
     rthen (rmap (\<lambda>x. rbind (prep x) session_add_entry_no_save) xs)
       (rthen (session_save E) (rret \<lparr>ir_imported = length xs, ir_failures = map failure_data failures\<rparr>))"

definition csv_login :: "string \<Rightarrow> string \<Rightarrow> CsvEntry \<Rightarrow> LoginEntry" where
  "csv_login i now c =
     \<lparr>le_meta = \<lparr>em_id = i, em_created_at = now, em_updated_at = now, em_folder = [], em_field_times = [], em_history = []\<rparr>,
      le_title = ct_title c, le_url = ct_url c, le_username = ct_username c, le_password = ct_password c, le_notes = ct_notes c,
      le_custom_fields = map (\<lambda>(label, value). \<lparr>cf_label = label, cf_value = value, cf_hidden = False\<rparr>) (ct_custom_fields c),
      le_attachments = [], le_app_id = None, le_email = None\<rparr>"

definition prep_csv :: "env \<Rightarrow> CsvEntry \<Rightarrow> VaultEntry app" where
  "prep_csv E c = rbind now_secs (\<lambda>t. rbind (new_entry_id E) (\<lambda>i. rret (Login (csv_login i (chrono_now t) c))))"

definition import_from_csv :: "env \<Rightarrow> string \<Rightarrow> CsvImportConfig \<Rightarrow> ImportResult app" where
  "import_from_csv E input config =
     rbind (rlift (import_csv input config)) (\<lambda>entries. add_and_save E (prep_csv E) entries [])"

definition stamp_meta :: "string \<Rightarrow> EntryMeta \<Rightarrow> EntryMeta" where
  "stamp_meta now m =
     (let m1 = (if em_created_at m = [] then m\<lparr>em_created_at := now\<rparr> else m)
      in if em_updated_at m1 = [] then m1\<lparr>em_updated_at := now\<rparr> else m1)"

fun stamp_timestamps :: "string \<Rightarrow> VaultEntry \<Rightarrow> VaultEntry" where
  "stamp_timestamps now (Login e) = Login (e\<lparr>le_meta := stamp_meta now (le_meta e)\<rparr>)"
| "stamp_timestamps now e = e"

definition prep_stamp :: "VaultEntry \<Rightarrow> VaultEntry app" where
  "prep_stamp e = rbind now_secs (\<lambda>t. rret (stamp_timestamps (chrono_now t) e))"

definition import_from_bitwarden :: "import_env \<Rightarrow> bytes \<Rightarrow> ImportResult app" where
  "import_from_bitwarden I data =
     rbind (bitwarden_parse I data) (\<lambda>(entries, failures). add_and_save (im_env I) rret entries failures)"

definition import_from_enpass :: "import_env \<Rightarrow> bytes \<Rightarrow> ImportResult app" where
  "import_from_enpass I data =
     rbind (rlift (enpass_parse I data)) (\<lambda>(entries, failures). add_and_save (im_env I) rret entries failures)"

definition import_from_google_pm :: "env \<Rightarrow> bytes \<Rightarrow> ImportResult app" where
  "import_from_google_pm E data =
     rbind (google_pm_parse E data) (\<lambda>(entries, failures). add_and_save E prep_stamp entries failures)"

definition import_from_dashlane :: "env \<Rightarrow> bytes \<Rightarrow> ImportResult app" where
  "import_from_dashlane E data =
     rbind (dashlane_parse E data) (\<lambda>(entries, failures). add_and_save E prep_stamp entries failures)"

text \<open>Taking over another vault: an id the session has already is replaced by a new one.\<close>

fun merge_source :: "env \<Rightarrow> string set \<Rightarrow> VaultEntry list \<Rightarrow> nat \<Rightarrow> nat app" where
  "merge_source E existing [] imported = rret imported"
| "merge_source E existing (e # es) imported =
     rbind (if entry_id e \<in> existing
            then rbind (new_entry_id E) (\<lambda>i. rret (map_meta (\<lambda>m. m\<lparr>em_id := i\<rparr>) e))
            else rret e) (\<lambda>e'.
     rthen (session_add_entry_no_save e')
       (merge_source E (insert (entry_id e') existing) es (Suc imported)))"

definition merge_source_into_session :: "env \<Rightarrow> VaultBody \<Rightarrow> nat app" where
  "merge_source_into_session E source =
     rbind session_entry_ids (\<lambda>existing.
     rbind (merge_source E existing (vb_entries source) 0) (\<lambda>imported.
     rthen (session_save E) (rret imported)))"

definition import_from_gabbro :: "env \<Rightarrow> path \<Rightarrow> bytes \<Rightarrow> nat app" where
  "import_from_gabbro E p passphrase = rbind (load_vault E passphrase p) (merge_source_into_session E)"

definition import_from_gabbro_with_key :: "env \<Rightarrow> path \<Rightarrow> bytes \<Rightarrow> bytes \<Rightarrow> bytes \<Rightarrow> nat app" where
  "import_from_gabbro_with_key E p passphrase hmac_secret credential_id =
     (if length hmac_secret \<noteq> 32 then rlift (Inl (Err ''hmac_secret must be exactly 32 bytes''))
      else rbind (load_vault_with_key_record E passphrase hmac_secret credential_id p)
        (\<lambda>(source, _, _). merge_source_into_session E source))"

section \<open>Notions the lemmas are stated with\<close>

text \<open>The ids the random source will give, and an entry without its id.\<close>

definition drawn_id :: "env \<Rightarrow> rng \<Rightarrow> nat \<Rightarrow> string" where
  "drawn_id E r n = e_uuid E (map r [16 * n..<16 * n + 16])"

definition sans_id :: "VaultEntry \<Rightarrow> VaultEntry" where
  "sans_id e = map_meta (\<lambda>m. m\<lparr>em_id := []\<rparr>) e"

definition live_item :: "EnpassItem \<Rightarrow> bool" where
  "live_item item = (en_archived item = 0 \<and> en_trashed item = 0)"

definition note_item :: BwItem where
  "note_item = \<lparr>bw_id = ''1'', bw_item_type = 2, bw_name = ''n'', bw_notes = None, bw_folder_id = None, bw_fields = [],
     bw_login = None, bw_card = None, bw_identity = None\<rparr>"

definition login_item :: EnpassItem where
  "login_item = \<lparr>en_uuid = ''5'', en_title = ''site'', en_category = ''login'', en_note = [], en_archived = 0, en_trashed = 0,
     en_fields = [], en_attachments = []\<rparr>"

definition en_field :: "string \<Rightarrow> string \<Rightarrow> EnpassField" where
  "en_field t v = \<lparr>ef_label = t, ef_field_type = t, ef_value = v, ef_sensitive = 0, ef_deleted = 0\<rparr>"

definition sample_import :: "env \<Rightarrow> import_env" where
  "sample_import E = \<lparr>im_env = E, im_bitwarden = (\<lambda>_. Inr \<lparr>bx_folders = [], bx_items = [note_item]\<rparr>),
     im_enpass = (\<lambda>_. Inr [login_item, login_item\<lparr>en_trashed := 1\<rparr>]), im_alphanumeric = (\<lambda>_. True)\<rparr>"

section \<open>Adding entries\<close>

lemma add_no_save_Inr:
  "session_add_entry_no_save e w = (Inr u, w') \<longleftrightarrow>
     (\<exists>s. \<not> w_poisoned w \<and> w_session w = Some s \<and> w' = w\<lparr>w_session := Some (s\<lparr>vs_entries := vs_entries s @ [e]\<rparr>)\<rparr>)"
  by (auto simp: session_add_entry_no_save_def rnd_simps get_session_def rthen_def check_lock_def read_session_def put_session_def
      split: if_splits option.splits)

lemma add_loop:
  assumes "rmap (\<lambda>x. rbind (prep x) session_add_entry_no_save) xs w = (Inr us, w')" and "\<And>x. keeps_session (prep x)" and "w_session w = Some s"
  shows "\<exists>es. w_session w' = Some (s\<lparr>vs_entries := vs_entries s @ es\<rparr>) \<and> list_all2 (\<lambda>x e. \<exists>v v'. prep x v = (Inr e, v')) xs es"
  using assms(1,3)
proof (induction xs arbitrary: w us s)
  case (Cons x xs)
  then obtain e w1 w2 us' where p: "prep x w = (Inr e, w1)" and a: "session_add_entry_no_save e w1 = (Inr (), w2)"
    and r: "rmap (\<lambda>x. rbind (prep x) session_add_entry_no_save) xs w2 = (Inr us', w')"
    by (auto simp: rnd_simps)
  have "w_session w1 = Some s" using assms(2) [of x] p Cons.prems(2) by (metis keeps_session_def snd_conv)
  with a have w2: "w_session w2 = Some (s\<lparr>vs_entries := vs_entries s @ [e]\<rparr>)" by (auto simp: add_no_save_Inr)
  obtain es where "w_session w' = Some (s\<lparr>vs_entries := vs_entries s @ e # es\<rparr>)" "list_all2 (\<lambda>x e. \<exists>v v'. prep x v = (Inr e, v')) xs es"
    using Cons.IH [OF r w2] by auto
  with p show ?case by (intro exI [of _ "e # es"]) auto
qed (simp add: rret_def)

lemma add_loop_adds:
  assumes "\<And>x. keeps_session (prep x)" and "w_session w = Some s"
  shows "\<exists>es. w_session (snd (rmap (\<lambda>x. rbind (prep x) session_add_entry_no_save) xs w)) = Some (s\<lparr>vs_entries := vs_entries s @ es\<rparr>)"
  using assms(2)
proof (induction xs arbitrary: w s)
  case Nil
  then show ?case by (intro exI [of _ "[]"]) (simp add: rret_def)
next
  case (Cons x xs)
  obtain y w1 where p: "prep x w = (y, w1)" by (rule prod.exhaust)
  have w1: "w_session w1 = Some s" using assms(1) [of x] p Cons.prems by (metis keeps_session_def snd_conv)
  show ?case
  proof (cases "\<exists>e. y = Inr e \<and> \<not> w_poisoned w1")
    case True
    then obtain e where y: "y = Inr e" "\<not> w_poisoned w1" by blast
    let ?w = "w1\<lparr>w_session := Some (s\<lparr>vs_entries := vs_entries s @ [e]\<rparr>)\<rparr>"
    have a: "session_add_entry_no_save e w1 = (Inr (), ?w)" using w1 y(2) by (simp add: add_no_save_Inr)
    obtain es where "w_session (snd (rmap (\<lambda>x. rbind (prep x) session_add_entry_no_save) xs ?w)) =
        Some (s\<lparr>vs_entries := vs_entries s @ e # es\<rparr>)"
      using Cons.IH [of ?w "s\<lparr>vs_entries := vs_entries s @ [e]\<rparr>"] by auto
    moreover have "rbind (prep x) session_add_entry_no_save w = (Inr (), ?w)" by (simp add: rbind_def p y a)
    ultimately show ?thesis
      by (intro exI [of _ "e # es"]) (auto simp: rbind_snd rret_def split: prod.split sum.split)
  next
    case False
    then have "w_session (snd (rbind (prep x) session_add_entry_no_save w)) = Some s \<and> (\<exists>e. fst (rbind (prep x) session_add_entry_no_save w) = Inl e)"
      using w1 by (cases y) (auto simp: rbind_def p session_add_entry_no_save_def locked_def get_session_def rthen_def check_lock_def)
    then show ?thesis by (intro exI [of _ "[]"]) (auto simp: rbind_def [of "rbind (prep x) session_add_entry_no_save"] split: prod.split)
  qed
qed

lemma keeps_whole_save: "keeps_session (session_save E)"
  unfolding session_save_def saving_def by (auto intro!: keeps_intros)

lemma save_keeps_Inr:
  assumes "session_save E w = (Inr u, w')"
  shows "w_session w' = w_session w"
proof -
  obtain w1 s where m: "rthen get_session (rret ()) w = (Inr u, w1)" "w_session w1 = Some s" "w_session w' = Some s"
    by (rule saving_InrE [OF assms [unfolded session_save_def]])
  then show ?thesis by (auto simp: rthen_def rnd_simps get_session_def check_lock_def read_session_def split: if_splits option.splits)
qed

lemma add_and_save_Inr:
  assumes "add_and_save E prep xs failures w = (Inr r, w')" and "\<And>x. keeps_session (prep x)"
  shows "\<exists>s es. w_session w = Some s \<and> w_session w' = Some (s\<lparr>vs_entries := vs_entries s @ es\<rparr>)
    \<and> list_all2 (\<lambda>x e. \<exists>v v'. prep x v = (Inr e, v')) xs es
    \<and> ir_imported r = length xs \<and> ir_failures r = map failure_data failures"
proof -
  from assms(1) obtain us w1 where l: "rmap (\<lambda>x. rbind (prep x) session_add_entry_no_save) xs w = (Inr us, w1)"
    and sv: "session_save E w1 = (Inr (), w')" and r: "r = \<lparr>ir_imported = length xs, ir_failures = map failure_data failures\<rparr>"
    by (auto simp: add_and_save_def rthen_def rnd_simps)
  have "w_session w1 \<noteq> None"
    using saving_InrE [OF sv [unfolded session_save_def]] save_keeps_Inr [OF sv] by (metis option.distinct(1))
  moreover have "keeps_session (prep x)" for x by (rule assms(2))
  moreover have "w_session w \<noteq> None"
  proof (cases xs)
    case Nil
    with l \<open>w_session w1 \<noteq> None\<close> show ?thesis by (simp add: rret_def)
  next
    case (Cons x ys)
    with l obtain e v1 where p: "prep x w = (Inr e, v1)" "w_session v1 \<noteq> None" by (auto simp: rnd_simps add_no_save_Inr)
    then show ?thesis using assms(2) [of x] by (metis keeps_session_def snd_conv)
  qed
  then obtain s where s: "w_session w = Some s" by blast
  from add_loop [OF l assms(2) s] save_keeps_Inr [OF sv] s r show ?thesis by auto
qed

lemma rret_all2: "list_all2 (\<lambda>x e. \<exists>v v'. rret x v = (Inr e, v')) xs es \<longleftrightarrow> es = xs"
  by (auto simp: rret_def list_all2_eq [symmetric] list_all2_conv_all_nth nth_equalityI)

section \<open>What every import does\<close>

lemma keeps_rmap [keeps_intros]: "(\<And>x. keeps_session (f x)) \<Longrightarrow> keeps_session (rmap f xs)"
  by (induction xs) (simp_all, (intro keeps_intros | assumption)+)

text \<open>An import reads records, turns each into an entry and puts it into the session; reading and turning leave the
  session alone.\<close>

locale importer =
  fixes E :: env and parse :: "('a list \<times> ParseFailure list) app" and prep :: "'a \<Rightarrow> VaultEntry app"
  assumes keeps_parse: "keeps_session parse"
    and keeps_prep: "keeps_session (prep x)"
begin

lemma appended:
  assumes "rbind parse (\<lambda>(xs, fs). add_and_save E prep xs fs) w = (Inr r, w')"
  obtains s xs fs w1 es where "w_session w = Some s" and "parse w = (Inr (xs, fs), w1)"
    and "w_session w' = Some (s\<lparr>vs_entries := vs_entries s @ es\<rparr>)" and "list_all2 (\<lambda>x e. \<exists>v v'. prep x v = (Inr e, v')) xs es"
    and "ir_imported r = length xs" and "ir_failures r = map failure_data fs"
proof -
  from assms obtain xs fs w1 where p: "parse w = (Inr (xs, fs), w1)" and a: "add_and_save E prep xs fs w1 = (Inr r, w')"
    by (auto simp: rbind_Inr)
  have "w_session w1 = w_session w" using keeps_parse p by (metis keeps_session_def snd_conv)
  with add_and_save_Inr [OF a keeps_prep] that p show ?thesis by auto
qed

lemma only_adds:
  assumes "w_session w = Some s"
  obtains es where "w_session (snd (rbind parse (\<lambda>(xs, fs). add_and_save E prep xs fs) w)) = Some (s\<lparr>vs_entries := vs_entries s @ es\<rparr>)"
proof (cases "parse w")
  case (Pair x w1)
  have w1: "w_session w1 = Some s" using keeps_parse Pair assms by (metis keeps_session_def snd_conv)
  show thesis
  proof (cases x)
    case (Inl e)
    with w1 show ?thesis using that [of "[]"] by (simp add: rbind_def Pair)
  next
    case (Inr y)
    obtain xs fs where y: "y = (xs, fs)" by (rule prod.exhaust)
    obtain es where es: "w_session (snd (rmap (\<lambda>x. rbind (prep x) session_add_entry_no_save) xs w1)) = Some (s\<lparr>vs_entries := vs_entries s @ es\<rparr>)"
      using add_loop_adds [of prep w1 s xs, OF keeps_prep w1] by blast
    obtain u w2 where l: "rmap (\<lambda>x. rbind (prep x) session_add_entry_no_save) xs w1 = (u, w2)" by (rule prod.exhaust)
    have w2: "w_session w2 = Some (s\<lparr>vs_entries := vs_entries s @ es\<rparr>)" using es l by simp
    have "keeps_session (rthen (session_save E) (rret z))" for z :: ImportResult
      by (intro keeps_intros keeps_whole_save)
    then have "w_session (snd (add_and_save E prep xs fs w1)) = w_session w2"
      unfolding add_and_save_def rthen_def rbind_def [of "rmap _ _"] l keeps_session_def by (auto split: sum.split)
    with w2 that show ?thesis by (simp add: rbind_def Pair Inr y)
  qed
qed

end

interpretation csv: importer E "rbind (rlift (import_csv input config)) (\<lambda>entries. rret (entries, []))" "prep_csv E" for E input config
  by unfold_locales (auto simp: prep_csv_def new_entry_id_def intro!: keeps_intros)

interpretation bw: importer "im_env I" "bitwarden_parse I data" rret for I data
  by unfold_locales (auto simp: bitwarden_parse_def intro!: keeps_intros)

interpretation en: importer "im_env I" "rlift (enpass_parse I data)" rret for I data
  by unfold_locales (auto intro!: keeps_intros)

interpretation gp: importer E "google_pm_parse E data" prep_stamp for E data
  by unfold_locales (auto simp: google_pm_parse_def prep_stamp_def login_rows_def new_entry_id_def Let_def split_beta intro!: keeps_intros)

interpretation dl: importer E "dashlane_parse E data" prep_stamp for E data
  by unfold_locales (auto simp: dashlane_parse_def prep_stamp_def login_rows_def new_entry_id_def Let_def split_beta intro!: keeps_intros)

section \<open>Taking over another vault\<close>

lemma drawn_id_shift: "drawn_id E (\<lambda>i. r (i + 16)) n = drawn_id E r (Suc n)"
proof -
  have "map (\<lambda>i. r (i + 16)) [16 * n..<16 * n + 16] = map r [16 * Suc n..<16 * Suc n + 16]"
    by (rule nth_equalityI) (auto simp: algebra_simps)
  then show ?thesis by (simp add: drawn_id_def)
qed

lemma new_entry_id_run: "new_entry_id E w = (Inr (drawn_id E (st_rng w) 0), w\<lparr>st_rng := (\<lambda>i. st_rng w (i + 16))\<rparr>)"
  by (simp add: new_entry_id_def rbind_def on_rng_def zoom_def fill_bytes_def rret_def drawn_id_def)

lemma sans_id_other [simp]: "sans_id (map_meta (\<lambda>m. m\<lparr>em_id := i\<rparr>) e) = sans_id e"
  by (simp add: sans_id_def comp_def)

lemma merge_source_run:
  assumes "merge_source E ex es n w = (Inr k, w')" and "w_session w = Some s" and "ex = entry_id ` set (vs_entries s)"
    and "distinct (map entry_id (vs_entries s))" and "inj_on (drawn_id E (st_rng w)) {..<length es}"
    and "drawn_id E (st_rng w) ` {..<length es} \<inter> (ex \<union> entry_id ` set es) = {}"
  shows "\<exists>es'. w_session w' = Some (s\<lparr>vs_entries := vs_entries s @ es'\<rparr>) \<and> map sans_id es' = map sans_id es
    \<and> distinct (map entry_id (vs_entries s @ es')) \<and> k = n + length es
    \<and> (\<forall>j < length es. entry_id (es ! j) \<notin> ex \<union> entry_id ` set (take j es) \<longrightarrow> es' ! j = es ! j)"
  using assms
proof (induction E ex es n arbitrary: w s rule: merge_source.induct)
  case (1 E ex n)
  then show ?case by (auto simp: rret_def)
next
  case (2 E ex e es n)
  let ?r = "st_rng w"
  define e' where "e' = (if entry_id e \<in> ex then map_meta (\<lambda>m. m\<lparr>em_id := drawn_id E ?r 0\<rparr>) e else e)"
  define w1 where "w1 = (if entry_id e \<in> ex then w\<lparr>st_rng := (\<lambda>i. st_rng w (i + 16))\<rparr> else w)"
  let ?s = "s\<lparr>vs_entries := vs_entries s @ [e']\<rparr>" and ?w = "w1\<lparr>w_session := Some (s\<lparr>vs_entries := vs_entries s @ [e']\<rparr>)\<rparr>"
  have "(if entry_id e \<in> ex then rbind (new_entry_id E) (\<lambda>i. rret (map_meta (\<lambda>m. m\<lparr>em_id := i\<rparr>) e)) else rret e) w = (Inr e', w1)"
    by (simp add: rbind_def new_entry_id_run rret_def e'_def w1_def)
  with "2.prems"(1,2) have run: "merge_source E (insert (entry_id e') ex) es (Suc n) ?w = (Inr k, w')"
    by (auto simp: rthen_def rbind_Inr add_no_save_Inr w1_def)
  have fresh: "drawn_id E ?r j \<notin> ex" "drawn_id E ?r j \<noteq> entry_id e" "drawn_id E ?r j \<notin> entry_id ` set es" if "j < Suc (length es)" for j
  proof -
    have "drawn_id E ?r j \<in> drawn_id E ?r ` {..<Suc (length es)}" using that by simp
    with "2.prems"(6) show "drawn_id E ?r j \<notin> ex" "drawn_id E ?r j \<noteq> entry_id e" "drawn_id E ?r j \<notin> entry_id ` set es"
      by (auto simp: disjoint_iff)
  qed
  have inj: "i = j" if "drawn_id E ?r i = drawn_id E ?r j" "i < Suc (length es)" "j < Suc (length es)" for i j
    using "2.prems"(5) that by (auto simp: inj_on_def)
  have new: "entry_id e' \<notin> ex" using fresh(1) [of 0] by (simp add: e'_def)
  have next_id: "\<exists>j'<Suc (length es). drawn_id E (st_rng ?w) j = drawn_id E ?r j' \<and> drawn_id E ?r j' \<noteq> entry_id e'"
    if "j < length es" for j
    using that fresh(2) [of j] inj [of "Suc j" 0] unfolding e'_def w1_def
    by (intro exI [of _ "if entry_id e \<in> ex then Suc j else j"]) (auto simp: drawn_id_shift)
  have inj': "inj_on (drawn_id E (st_rng ?w)) {..<length es}"
    using inj by (fastforce simp: inj_on_def w1_def drawn_id_shift)
  have dis: "drawn_id E (st_rng ?w) ` {..<length es} \<inter> (insert (entry_id e') ex \<union> entry_id ` set es) = {}"
    using next_id fresh by fastforce
  obtain es' where es': "w_session w' = Some (?s\<lparr>vs_entries := vs_entries ?s @ es'\<rparr>)" "map sans_id es' = map sans_id es"
    "distinct (map entry_id (vs_entries ?s @ es'))" "k = Suc n + length es"
    "\<forall>j < length es. entry_id (es ! j) \<notin> insert (entry_id e') ex \<union> entry_id ` set (take j es) \<longrightarrow> es' ! j = es ! j"
    using "2.IH" [OF run, of ?s] "2.prems"(3,4) new inj' dis by auto
  have "(e' # es') ! j = (e # es) ! j"
    if j: "j < length (e # es)" "entry_id ((e # es) ! j) \<notin> ex \<union> entry_id ` set (take j (e # es))" for j
  proof (cases j)
    case 0
    with j(2) show ?thesis by (simp add: e'_def)
  next
    case (Suc i)
    then have "entry_id (es ! i) \<in> entry_id ` set es" using j(1) by simp
    with Suc j(2) fresh(3) [of 0] have "entry_id (es ! i) \<noteq> entry_id e'" by (auto simp: e'_def)
    with Suc j es'(5) show ?thesis by simp
  qed
  moreover have "sans_id e' = sans_id e" by (simp add: e'_def)
  ultimately show ?case using es'(1-4) by (intro exI [of _ "e' # es'"]) simp
qed

section \<open>Items\<close>

lemma rmap_element:
  assumes "rmap f xs w = (Inr ys, w')" and "x \<in> set xs"
  shows "\<exists>y \<in> set ys. \<exists>v v'. f x v = (Inr y, v')"
proof -
  have l: "list_all2 (\<lambda>x y. \<exists>v v'. f x v = (Inr y, v')) xs ys" by (rule rmap_Inr [OF assms(1)])
  obtain n where n: "n < length xs" "xs ! n = x" using assms(2) by (auto simp: in_set_conv_nth)
  from list_all2_nthD [OF l n(1)] list_all2_lengthD [OF l] n show ?thesis by (metis nth_mem)
qed

lemma bitwarden_note_entry:
  assumes "bitwarden_parse I data w = (Inr (es, fs), w')" and "im_bitwarden I data = Inr ex"
    and "item \<in> set (bx_items ex)" and "bw_item_type item = 2"
  shows "bw_id item \<in> entry_id ` set es"
proof -
  from assms(1,2) obtain rs w1 where rs: "rmap (\<lambda>item. rbind now_secs (\<lambda>created. rbind now_secs (\<lambda>updated.
            rret (bw_convert (bw_meta (bx_folders ex) item created updated) item)))) (bx_items ex) w = (Inr rs, w1)"
    and es: "es = concat (map fst rs)"
    by (auto simp: bitwarden_parse_def rnd_simps ser_err_def collect_def rlift_def too_large_def split: if_splits)
  obtain y v v' where y: "y \<in> set rs" and "rbind now_secs (\<lambda>created. rbind now_secs (\<lambda>updated.
            rret (bw_convert (bw_meta (bx_folders ex) item created updated) item))) v = (Inr y, v')"
    using rmap_element [OF rs assms(3)] by blast
  then obtain c u where "y = bw_convert (bw_meta (bx_folders ex) item c u) item" by (auto simp: rnd_simps)
  then have "fst y = [Note (bw_convert_note (bw_meta (bx_folders ex) item c u) (bw_name item) (bw_notes item))]"
    using assms(4) by (simp add: bw_convert_def)
  with y show ?thesis unfolding es
    by (auto simp: entry_id_def bw_convert_note_def bw_meta_def intro!: rev_image_eqI [where x = "Note _"] bexI [of _ y])
qed

lemma CardEntry_new_meta: "CardEntry_new c = Inr c' \<Longrightarrow> c' = c"
  by (auto simp: CardEntry_new_def Let_def split: if_splits)

lemma convert_item_id: "convert_item I item = Inr e \<Longrightarrow> entry_id e = en_uuid item"
  by (auto simp: convert_item_def Let_def entry_id_def en_convert_login_def en_convert_custom_def en_convert_card_def en_make_meta_def
      fresh_meta_def split: if_splits sum.splits dest!: CardEntry_new_meta)

lemma convert_item_title: "convert_item I item = Inl f \<Longrightarrow> pf_title f = en_title item"
  by (auto simp: convert_item_def Let_def split: if_splits sum.splits)

section \<open>Properties of the imports\<close>

text \<open>C21. Taking over another vault never puts two entries under one id: the ids are distinct afterwards if those of the open vault were
  before and the ids drawn are new. The entries added are those of the source, in order and equal up to the ids, and an entry
  whose id clashes neither with the open vault nor with an earlier entry of the source keeps it, whatever becomes of the others.\<close>

theorem vault_import_keeps_ids_distinct:
  assumes "merge_source_into_session E source w = (Inr k, w')" and "w_session w = Some s" and "distinct (map entry_id (vs_entries s))"
    and "inj_on (drawn_id E (st_rng w)) {..<length (vb_entries source)}"
    and "drawn_id E (st_rng w) ` {..<length (vb_entries source)} \<inter> entry_id ` (set (vs_entries s) \<union> set (vb_entries source)) = {}"
  shows "\<exists>es. w_session w' = Some (s\<lparr>vs_entries := vs_entries s @ es\<rparr>) \<and> k = length (vb_entries source)
    \<and> map sans_id es = map sans_id (vb_entries source) \<and> distinct (map entry_id (vs_entries s @ es))
    \<and> (\<forall>j < length (vb_entries source).
         entry_id (vb_entries source ! j) \<notin> entry_id ` set (vs_entries s @ take j (vb_entries source)) \<longrightarrow> es ! j = vb_entries source ! j)"
proof -
  have g: "session_entry_ids w = (Inr (entry_id ` set (vs_entries s)), w)" if "\<not> w_poisoned w"
    using get_session_open [OF assms(2) that] by (simp add: session_entry_ids_def rbind_def rret_def)
  have "\<not> w_poisoned w"
    using assms(1,2) by (auto simp: merge_source_into_session_def session_entry_ids_def rnd_simps get_session_def rthen_def check_lock_def
        split: if_splits)
  with g assms(1) obtain w1 where m: "merge_source E (entry_id ` set (vs_entries s)) (vb_entries source) 0 w = (Inr k, w1)"
    and sv: "session_save E w1 = (Inr (), w')"
    by (auto simp: merge_source_into_session_def rthen_def rnd_simps)
  have d: "drawn_id E (st_rng w) ` {..<length (vb_entries source)} \<inter> (entry_id ` set (vs_entries s) \<union> entry_id ` set (vb_entries source)) = {}"
    using assms(5) by (simp add: image_Un)
  from merge_source_run [OF m assms(2) refl assms(3,4) d] obtain es where
    "w_session w1 = Some (s\<lparr>vs_entries := vs_entries s @ es\<rparr>)" "map sans_id es = map sans_id (vb_entries source)"
    "distinct (map entry_id (vs_entries s @ es))" "k = 0 + length (vb_entries source)"
    "\<forall>j < length (vb_entries source). entry_id (vb_entries source ! j) \<notin> entry_id ` set (vs_entries s) \<union> entry_id ` set (take j (vb_entries source))
       \<longrightarrow> es ! j = vb_entries source ! j"
    by blast
  with save_keeps_Inr [OF sv] show ?thesis by (intro exI [of _ es]) (simp add: image_Un)
qed

text \<open>Importing the same Bitwarden export again leaves two entries under one id, which synchronisation relies on not
  happening: the ids of the export are taken over without looking whether the vault has them.\<close>

theorem reimport_repeats_ids:
  assumes "import_from_bitwarden I data w = (Inr r, w')" and "im_bitwarden I data = Inr ex" and "item \<in> set (bx_items ex)"
    and "bw_item_type item = 2" and "w_session w = Some s" and "bw_id item \<in> entry_id ` set (vs_entries s)"
  shows "\<exists>s'. w_session w' = Some s' \<and> \<not> distinct (map entry_id (vs_entries s'))"
proof -
  obtain s1 xs fs w1 es where a: "w_session w = Some s1" "bitwarden_parse I data w = (Inr (xs, fs), w1)"
    "w_session w' = Some (s1\<lparr>vs_entries := vs_entries s1 @ es\<rparr>)" "list_all2 (\<lambda>x e. \<exists>v v'. (rret x :: VaultEntry app) v = (Inr e, v')) xs es"
    by (rule bw.appended [OF assms(1) [unfolded import_from_bitwarden_def]])
  then have p: "bitwarden_parse I data w = (Inr (es, fs), w1)" and "w_session w' = Some (s\<lparr>vs_entries := vs_entries s @ es\<rparr>)"
    using assms(5) by (simp_all add: rret_all2)
  moreover have "bw_id item \<in> entry_id ` set es" by (rule bitwarden_note_entry [OF p assms(2-4)])
  ultimately show ?thesis using assms(6) by auto
qed

text \<open>Every Enpass item that is neither archived nor in the trash becomes an entry under its own id or is reported as a
  failure under its title; no other entries and failures come out.\<close>

theorem enpass_items_accounted:
  assumes "enpass_parse I data = Inr (es, fs)" and "im_enpass I data = Inr items"
  shows "length es + length fs = length (filter live_item items)
    \<and> (\<forall>item \<in> set (filter live_item items). en_uuid item \<in> entry_id ` set es \<or> en_title item \<in> pf_title ` set fs)"
proof -
  have r: "es = concat (map (fst \<circ> enpass_item I) items)" "fs = concat (map (snd \<circ> enpass_item I) items)"
    using assms by (auto simp: enpass_parse_def and_then_def ser_err_def collect_def too_large_def split: if_splits)
  have "length es + length fs = length (filter live_item items)"
    unfolding r by (induction items) (auto simp: enpass_item_def live_item_def split: sum.split)
  moreover have "en_uuid item \<in> entry_id ` set es \<or> en_title item \<in> pf_title ` set fs" if "item \<in> set items" "live_item item" for item
  proof (cases "convert_item I item")
    case (Inl f)
    then have "snd (enpass_item I item) = [f]" using that(2) by (simp add: enpass_item_def live_item_def)
    then have "f \<in> set fs" using that(1) unfolding r by (auto intro!: bexI [of _ item])
    then show ?thesis using convert_item_title [OF Inl] by (metis imageI)
  next
    case (Inr e)
    then have "fst (enpass_item I item) = [e]" using that(2) by (simp add: enpass_item_def live_item_def)
    then have "e \<in> set es" using that(1) unfolding r by (auto intro!: bexI [of _ item])
    then show ?thesis using convert_item_id [OF Inr] by (metis imageI)
  qed
  ultimately show ?thesis by simp
qed

text \<open>The second name of an Enpass login is lost: once an earlier field gave the user name, an email field leaves no trace
  in the imported entry, neither as a field of its own nor as a custom field.\<close>

theorem enpass_email_lost:
  assumes "en_category item = ''login''" and "ef_field_type f = ''email''"
    and "en_find_field_value (active_fields (item\<lparr>en_fields := fs\<rparr>)) [''username'', ''email''] \<noteq> []"
  shows "convert_item I (item\<lparr>en_fields := fs @ f # gs\<rparr>) = convert_item I (item\<lparr>en_fields := fs @ gs\<rparr>)"
proof -
  have u: "en_find_field_value (as @ bs) ts = en_find_field_value as ts" if "en_find_field_value as ts \<noteq> []" for as bs ts
    using that by (auto simp: en_find_field_value_def unwrap_or_def find_append split: option.splits)
  have o: "en_find_field_value (as @ f # bs) [t] = en_find_field_value (as @ bs) [t]" if "t \<noteq> ''email''" for as bs t
    using that assms(2) by (simp add: en_find_field_value_def)
  have "en_convert_login m t n (as @ f # bs) att = en_convert_login m t n (as @ bs) att"
    if "en_find_field_value as [''username'', ''email''] \<noteq> []" for m t n as bs att
    using assms(2) by (simp add: en_convert_login_def u [OF that] o)
  with assms(1,3) show ?thesis by (simp add: convert_item_def active_fields_def)
qed

lemma quiet_session_save:
  assumes "w_session w = Some s" and "vs_path s = ''v''" and "vs_yubikey s = None" and "st_disk w = sample_disk"
    and "st_rng w = (\<lambda>_. 0)" and "\<not> w_poisoned w"
  obtains w' where "session_save (env_for (build_body (w_clock w 0 div 1000) s)) w = (Inr (), w')"
proof -
  have "rthen get_session (rret ()) w = (Inr (), w)"
    using get_session_open [OF assms(1,6)] by (simp add: rthen_def rbind_def rret_def)
  then show ?thesis
    by (rule quiet_saving [of "rthen get_session (rret ())" w "()" w s]) (use assms that in \<open>auto simp: session_save_def\<close>)
qed

theorem vault_import_keeps_ids_distinct_witness:
  "\<exists>E source w' s. vb_entries source = [sample_local] \<and> merge_source_into_session E source sample_world = (Inr 1, w')
     \<and> w_session w' = Some s \<and> map entry_id (vs_entries s) = [''1'', bytes_str (replicate 16 0)]"
proof -
  define source where "source = VaultBody_empty\<lparr>vb_entries := [sample_local]\<rparr>"
  let ?i = "bytes_str (replicate 16 0)"
  let ?e = "map_meta (\<lambda>m. m\<lparr>em_id := ?i\<rparr>) sample_local"
  let ?s = "open_vault_session\<lparr>vs_entries := [sample_local, ?e]\<rparr>"
  define w where "w = sample_world\<lparr>w_session := Some ?s\<rparr>"
  define E where "E = env_for (build_body (w_clock w 0 div 1000) ?s)"
  obtain w' where w': "session_save E w = (Inr (), w')"
    by (rule quiet_session_save [of w ?s]) (simp_all add: w_def E_def sample_world_def open_vault_session_def sample_session_def)
  have sl: "entry_id sample_local = ''1''" by (simp add: entry_id_def sample_local_def sample_login_def sample_meta_def)
  have es: "vs_entries open_vault_session = [sample_local]" by (simp add: open_vault_session_def sample_session_def)
  have d: "drawn_id E (st_rng sample_world) n = ?i" for n
    by (simp add: drawn_id_def sample_world_def E_def env_for_def sample_env_def map_replicate_const)
  have ne: "?i \<noteq> ''1''" by (simp add: bytes_str_def numeral_eq_Suc)
  have ws: "w_session sample_world = Some open_vault_session" by (simp add: sample_world_def)
  have g: "session_entry_ids sample_world = (Inr {''1''}, sample_world)"
    using get_session_open [of sample_world open_vault_session]
    by (simp add: session_entry_ids_def rbind_def rret_def es sl sample_world_def)
  have i: "new_entry_id E sample_world = (Inr ?i, sample_world)"
    using new_entry_id_run [of E sample_world] d [of 0] by (simp add: sample_world_def)
  have a: "session_add_entry_no_save ?e sample_world = (Inr (), w)"
    by (simp add: add_no_save_Inr w_def es sample_world_def)
  have m: "merge_source_into_session E source sample_world = (Inr 1, w')"
    using w' by (simp add: merge_source_into_session_def rbind_def rthen_def g i a sl rret_def source_def)
  have "\<exists>es. w_session w' = Some (open_vault_session\<lparr>vs_entries := vs_entries open_vault_session @ es\<rparr>) \<and> (1::nat) = length (vb_entries source)
    \<and> map sans_id es = map sans_id (vb_entries source) \<and> distinct (map entry_id (vs_entries open_vault_session @ es))
    \<and> (\<forall>j < length (vb_entries source). entry_id (vb_entries source ! j) \<notin> entry_id ` set (vs_entries open_vault_session @ take j (vb_entries source))
         \<longrightarrow> es ! j = vb_entries source ! j)"
    by (rule vault_import_keeps_ids_distinct [OF m])
      (use ne in \<open>simp_all add: ws es sl source_def d lessThan_Suc\<close>)
  then have "w_session w' \<noteq> None" by auto
  moreover have "w_session w' = Some ?s" using save_keeps_Inr [OF w'] by (simp add: w_def)
  ultimately show ?thesis using m by (intro exI [of _ E] exI [of _ source] exI [of _ w'] exI [of _ ?s]) (simp add: source_def sl)
qed

theorem reimport_repeats_ids_witness:
  "\<exists>I r w' s. import_from_bitwarden I [] sample_world = (Inr r, w') \<and> w_session w' = Some s \<and> \<not> distinct (map entry_id (vs_entries s))"
proof -
  define e where "e = Note (bw_convert_note (bw_meta [] note_item 0 0) ''n'' None)"
  let ?s = "open_vault_session\<lparr>vs_entries := [sample_local, e]\<rparr>"
  define w where "w = sample_world\<lparr>w_clock := (\<lambda>i. w_clock sample_world (i + 2)), w_session := Some ?s\<rparr>"
  define E where "E = env_for (build_body (w_clock w 0 div 1000) ?s)"
  obtain w' where w': "session_save E w = (Inr (), w')"
    by (rule quiet_session_save [of w ?s]) (simp_all add: w_def E_def sample_world_def open_vault_session_def sample_session_def)
  define w0 where "w0 = sample_world\<lparr>w_clock := (\<lambda>i. w_clock sample_world (i + 2))\<rparr>"
  have p: "bitwarden_parse (sample_import E) [] sample_world = (Inr ([e], []), w0)"
    by (simp add: bitwarden_parse_def sample_import_def ser_err_def rlift_def rbind_def now_secs_def read_clock_def rret_def collect_def
        bw_convert_def e_def sample_world_def note_item_def w0_def)
  have a: "session_add_entry_no_save e w0 = (Inr (), w)"
    by (simp add: add_no_save_Inr w_def w0_def sample_world_def open_vault_session_def sample_session_def)
  have i: "im_env (sample_import E) = E" by (simp add: sample_import_def)
  have r: "\<exists>r. import_from_bitwarden (sample_import E) [] sample_world = (Inr r, w')"
    using w' by (simp add: import_from_bitwarden_def rbind_def p add_and_save_def rthen_def rret_def a i)
  then obtain r where r: "import_from_bitwarden (sample_import E) [] sample_world = (Inr r, w')" by blast
  have "\<exists>s'. w_session w' = Some s' \<and> \<not> distinct (map entry_id (vs_entries s'))"
    by (rule reimport_repeats_ids [OF r, where s = open_vault_session and item = note_item and ex = "\<lparr>bx_folders = [], bx_items = [note_item]\<rparr>"])
      (simp_all add: sample_import_def note_item_def sample_world_def open_vault_session_def sample_session_def entry_id_def
        sample_local_def sample_login_def sample_meta_def)
  with r show ?thesis by blast
qed

theorem enpass_items_accounted_witness:
  "\<exists>es fs. enpass_parse (sample_import sample_env) [] = Inr (es, fs) \<and> length es + length fs = 1"
proof -
  obtain es fs where p: "enpass_parse (sample_import sample_env) [] = Inr (es, fs)"
    by (simp add: enpass_parse_def sample_import_def and_then_def ser_err_def collect_def)
  from enpass_items_accounted [OF this, of "[login_item, login_item\<lparr>en_trashed := 1\<rparr>]"] p show ?thesis
    by (simp add: sample_import_def live_item_def login_item_def)
qed

theorem enpass_email_lost_witness:
  "convert_item (sample_import sample_env) (login_item\<lparr>en_fields := [en_field ''username'' ''ann'', en_field ''email'' ''a@b'']\<rparr>)
     = convert_item (sample_import sample_env) (login_item\<lparr>en_fields := [en_field ''username'' ''ann'']\<rparr>)"
  using enpass_email_lost [of login_item "en_field ''email'' ''a@b''" "[en_field ''username'' ''ann'']" "sample_import sample_env" "[]"]
  by (simp add: login_item_def en_field_def active_fields_def en_should_drop_field_def starts_with_def en_find_field_value_def unwrap_or_def)

lemma import_from_csv_as_importer:
  "import_from_csv E input config = rbind (rbind (rlift (import_csv input config)) (\<lambda>entries. rret (entries, [])))
     (\<lambda>(xs, fs). add_and_save E (prep_csv E) xs fs)"
  by (auto simp: import_from_csv_def rbind_def rlift_def rret_def fun_eq_iff split: sum.split)

text \<open>C20. An import only adds: whatever file is read, and whether the import succeeds or stops at an error, the entries the
  session had are all still there, unchanged and in order, and everything else in the session is as it was.\<close>

theorem imports_only_add:
  assumes "w_session w = Some s"
  shows "(\<exists>es. w_session (snd (import_from_csv E input config w)) = Some (s\<lparr>vs_entries := vs_entries s @ es\<rparr>))
    \<and> (\<exists>es. w_session (snd (import_from_bitwarden I data w)) = Some (s\<lparr>vs_entries := vs_entries s @ es\<rparr>))
    \<and> (\<exists>es. w_session (snd (import_from_enpass I data w)) = Some (s\<lparr>vs_entries := vs_entries s @ es\<rparr>))
    \<and> (\<exists>es. w_session (snd (import_from_google_pm E data w)) = Some (s\<lparr>vs_entries := vs_entries s @ es\<rparr>))
    \<and> (\<exists>es. w_session (snd (import_from_dashlane E data w)) = Some (s\<lparr>vs_entries := vs_entries s @ es\<rparr>))"
  unfolding import_from_csv_as_importer import_from_bitwarden_def import_from_enpass_def import_from_google_pm_def
    import_from_dashlane_def
  using csv.only_adds [OF assms] bw.only_adds [OF assms] en.only_adds [OF assms] gp.only_adds [OF assms] dl.only_adds [OF assms]
  by metis

theorem imports_only_add_witness:
  "\<exists>es. w_session (snd (import_from_bitwarden (sample_import sample_env) [] sample_world)) =
     Some (open_vault_session\<lparr>vs_entries := vs_entries open_vault_session @ es\<rparr>)"
  using imports_only_add [of sample_world open_vault_session] by (simp add: sample_world_def)

end
