(* ===== verification/Bridge.thy ===== *)
theory Bridge
  imports Authenticator Importers
begin

text \<open>
  The calls of the user interface (\<^verbatim>\<open>api/vault_bridge.rs\<close>, mirror structs of \<^verbatim>\<open>api/vault.rs\<close>): entries as the interface sees
  them, creating, fetching, updating and deleting entries, creating and opening vaults, reading headers, exports, and merging
  files. Calls that only forward to the session are the operations of \<open>Session\<close>. The relation \<open>app_step\<close> has one rule per call
  from outside: the interface, the importers, browsers through the virtual security key, the passkey provider. The lemmas show
  that no sequence of calls loses an entry, except that cancelling a sync drops what came after its merge, that saving an entry
  unchanged keeps it, that the editor and the list of entries get no key material, and that creating a vault refuses a taken path and leaves
  an open, empty vault.
\<close>

section \<open>The data Flutter sees\<close>

record CustomFieldData =
  fd_label :: string
  fd_value :: string
  fd_hidden :: bool

record AttachmentMetaData =
  am_uuid :: string
  am_name :: string
  am_kind :: string
  am_size :: u64

text \<open>The four fields every entry has, and the entries.\<close>

record EntryDataMeta =
  dm_id :: string
  dm_created_at :: string
  dm_updated_at :: string
  dm_folder :: string

record LoginEntryData = EntryDataMeta +
  ld_title :: string
  ld_url :: string
  ld_username :: string
  ld_password :: string
  ld_notes :: "string option"
  ld_custom_fields :: "CustomFieldData list"
  ld_attachments :: "AttachmentMetaData list"
  ld_app_id :: "string option"
  ld_email :: "string option"

record NoteEntryData = EntryDataMeta +
  nd_title :: string
  nd_content :: string
  nd_custom_fields :: "CustomFieldData list"
  nd_attachments :: "AttachmentMetaData list"

record IdentityEntryData = EntryDataMeta +
  id_first_name :: string
  id_last_name :: string
  id_email :: string
  id_phone :: "string option"
  id_address :: "string option"
  id_custom_fields :: "CustomFieldData list"
  id_attachments :: "AttachmentMetaData list"

record CardEntryData = EntryDataMeta +
  cd_card_name :: "string option"
  cd_status :: string
  cd_cardholder_name :: string
  cd_card_number :: string
  cd_expiry :: string
  cd_cvv :: string
  cd_credit_limit :: "string option"
  cd_card_account_number :: "string option"
  cd_payment_network :: "string option"
  cd_pin :: "string option"
  cd_bank_name :: "string option"
  cd_transaction_password :: "string option"
  cd_notes :: "string option"
  cd_custom_fields :: "CustomFieldData list"
  cd_attachments :: "AttachmentMetaData list"

record FileEntryData = EntryDataMeta +
  fl_filename :: string
  fl_data :: bytes
  fl_notes :: "string option"
  fl_custom_fields :: "CustomFieldData list"

record CustomEntryData = EntryDataMeta +
  xd_title :: string
  xd_fields :: "CustomFieldData list"
  xd_attachments :: "AttachmentMetaData list"

record PasskeyEntryData = EntryDataMeta +
  ky_rp_id :: string
  ky_user_name :: string
  ky_user_display_name :: string
  ky_credential_id_b64 :: string
  ky_notes :: "string option"
  ky_custom_fields :: "CustomFieldData list"

datatype VaultEntryData =
    LoginData LoginEntryData
  | NoteData NoteEntryData
  | IdentityData IdentityEntryData
  | CardData CardEntryData
  | FileData FileEntryData
  | CustomData CustomEntryData
  | PasskeyData PasskeyEntryData

definition custom_field_to_data :: "CustomField \<Rightarrow> CustomFieldData" where
  "custom_field_to_data f = \<lparr>fd_label = cf_label f, fd_value = cf_value f, fd_hidden = cf_hidden f\<rparr>"

definition custom_field_from_data :: "CustomFieldData \<Rightarrow> CustomField" where
  "custom_field_from_data f = \<lparr>cf_label = fd_label f, cf_value = fd_value f, cf_hidden = fd_hidden f\<rparr>"

definition attachment_meta :: "EntryAttachment list \<Rightarrow> AttachmentMetaData list" where
  "attachment_meta atts = map (\<lambda>a. \<lparr>am_uuid = at_uuid a, am_name = at_name a, am_kind = at_kind a,
     am_size = of_nat (length (at_data a))\<rparr>) atts"

definition data_meta :: "EntryMeta \<Rightarrow> EntryDataMeta" where
  "data_meta m = \<lparr>dm_id = em_id m, dm_created_at = em_created_at m, dm_updated_at = em_updated_at m, dm_folder = em_folder m\<rparr>"

definition meta_from_data :: "'a EntryDataMeta_scheme \<Rightarrow> EntryMeta" where
  "meta_from_data d = \<lparr>em_id = dm_id d, em_created_at = dm_created_at d, em_updated_at = dm_updated_at d, em_folder = dm_folder d,
     em_field_times = [], em_history = []\<rparr>"

section \<open>Conversions\<close>

fun vault_entry_to_data :: "auth_env \<Rightarrow> VaultEntry \<Rightarrow> VaultEntryData" where
  "vault_entry_to_data A (Login e) = LoginData (EntryDataMeta.extend (data_meta (le_meta e)) (LoginEntryData.fields
     (le_title e) (le_url e) (le_username e) (le_password e) (le_notes e) (map custom_field_to_data (le_custom_fields e))
     (attachment_meta (le_attachments e)) (le_app_id e) (le_email e)))"
| "vault_entry_to_data A (Note e) = NoteData (EntryDataMeta.extend (data_meta (ne_meta e)) (NoteEntryData.fields
     (ne_title e) (ne_content e) (map custom_field_to_data (ne_custom_fields e)) (attachment_meta (ne_attachments e))))"
| "vault_entry_to_data A (Identity e) = IdentityData (EntryDataMeta.extend (data_meta (ie_meta e)) (IdentityEntryData.fields
     (ie_first_name e) (ie_last_name e) (ie_email e) (ie_phone e) (ie_address e)
     (map custom_field_to_data (ie_custom_fields e)) (attachment_meta (ie_attachments e))))"
| "vault_entry_to_data A (Card e) = CardData (EntryDataMeta.extend (data_meta (ce_meta e)) (CardEntryData.fields
     (ce_card_name e) (ce_status e) (ce_cardholder_name e) (ce_card_number e) (ce_expiry e) (ce_cvv e) (ce_credit_limit e)
     (ce_card_account_number e) (ce_payment_network e) (ce_pin e) (ce_bank_name e) (ce_transaction_password e) (ce_notes e)
     (map custom_field_to_data (ce_custom_fields e)) (attachment_meta (ce_attachments e))))"
| "vault_entry_to_data A (File e) = FileData (EntryDataMeta.extend (data_meta (fe_meta e)) (FileEntryData.fields
     (fe_filename e) (fe_data e) (fe_notes e) (map custom_field_to_data (fe_custom_fields e))))"
| "vault_entry_to_data A (Custom e) = CustomData (EntryDataMeta.extend (data_meta (xe_meta e)) (CustomEntryData.fields
     (xe_title e) (map (custom_field_to_data \<circ> snd) (xe_fields e)) (attachment_meta (xe_attachments e))))"
| "vault_entry_to_data A (Passkey e) = PasskeyData (EntryDataMeta.extend (data_meta (pe_meta e)) (PasskeyEntryData.fields
     (pe_rp_id e) (pe_user_name e) (pe_user_display_name e) (a_b64url_enc A (pe_credential_id e)) (pe_notes e)
     (map custom_field_to_data (pe_custom_fields e))))"

definition login_entry_to_data :: "LoginEntry \<Rightarrow> LoginEntryData" where
  "login_entry_to_data e = EntryDataMeta.extend (data_meta (le_meta e)) (LoginEntryData.fields
     (le_title e) (le_url e) (le_username e) (le_password e) (le_notes e) (map custom_field_to_data (le_custom_fields e))
     (attachment_meta (le_attachments e)) (le_app_id e) (le_email e))"

fun vault_entry_from_data :: "VaultEntryData \<Rightarrow> VaultEntry res" where
  "vault_entry_from_data (LoginData d) = Inr (Login
     \<lparr>le_meta = meta_from_data d, le_title = ld_title d, le_url = ld_url d, le_username = ld_username d, le_password = ld_password d,
      le_notes = ld_notes d, le_custom_fields = map custom_field_from_data (ld_custom_fields d), le_attachments = [],
      le_app_id = ld_app_id d, le_email = ld_email d\<rparr>)"
| "vault_entry_from_data (NoteData d) = Inr (Note
     \<lparr>ne_meta = meta_from_data d, ne_title = nd_title d, ne_content = nd_content d,
      ne_custom_fields = map custom_field_from_data (nd_custom_fields d), ne_attachments = []\<rparr>)"
| "vault_entry_from_data (IdentityData d) = Inr (Identity
     \<lparr>ie_meta = meta_from_data d, ie_first_name = id_first_name d, ie_last_name = id_last_name d, ie_email = id_email d,
      ie_phone = id_phone d, ie_address = id_address d, ie_custom_fields = map custom_field_from_data (id_custom_fields d),
      ie_attachments = []\<rparr>)"
| "vault_entry_from_data (CardData d) = and_then (CardEntry_new
     \<lparr>ce_meta = meta_from_data d, ce_card_name = cd_card_name d, ce_status = cd_status d, ce_cardholder_name = cd_cardholder_name d,
      ce_card_number = cd_card_number d, ce_expiry = cd_expiry d, ce_cvv = cd_cvv d, ce_credit_limit = cd_credit_limit d,
      ce_card_account_number = cd_card_account_number d, ce_payment_network = cd_payment_network d, ce_pin = cd_pin d,
      ce_bank_name = cd_bank_name d, ce_transaction_password = cd_transaction_password d, ce_notes = cd_notes d,
      ce_custom_fields = map custom_field_from_data (cd_custom_fields d), ce_attachments = []\<rparr>) (\<lambda>entry. Inr (Card entry))"
| "vault_entry_from_data (FileData d) = Inr (File
     \<lparr>fe_meta = meta_from_data d, fe_filename = fl_filename d, fe_data = fl_data d, fe_notes = fl_notes d,
      fe_custom_fields = map custom_field_from_data (fl_custom_fields d)\<rparr>)"
| "vault_entry_from_data (CustomData d) = Inr (Custom
     \<lparr>xe_meta = meta_from_data d, xe_title = xd_title d,
      xe_fields = fold (\<lambda>f. ix_insert (fd_label f) (custom_field_from_data f)) (xd_fields d) [], xe_attachments = []\<rparr>)"
| "vault_entry_from_data (PasskeyData d) = Inr (Passkey
     \<lparr>pe_meta = meta_from_data d, pe_rp_id = ky_rp_id d, pe_user_name = ky_user_name d, pe_user_display_name = ky_user_display_name d,
      pe_user_handle = [], pe_credential_id = [], pe_private_key = [], pe_public_key_cose = [], pe_algorithm = -7,
      pe_notes = ky_notes d, pe_custom_fields = map custom_field_from_data (ky_custom_fields d)\<rparr>)"

section \<open>Entries\<close>

definition bridge_get_entry :: "auth_env \<Rightarrow> string \<Rightarrow> VaultEntryData app" where
  "bridge_get_entry A i = rbind (get_entry i) (\<lambda>entry. rret (vault_entry_to_data A entry))"

fun is_passkey_data :: "VaultEntryData \<Rightarrow> bool" where
  "is_passkey_data (PasskeyData d) = True"
| "is_passkey_data _ = False"

definition bridge_create_entry :: "env \<Rightarrow> VaultEntryData \<Rightarrow> EntrySummaryData app" where
  "bridge_create_entry E entry =
     (if is_passkey_data entry then rlift (Inl (Err ''Passkeys are created by the passkey provider flow, not the editor''))
      else rbind (rlift (vault_entry_from_data entry)) (\<lambda>internal.
        rbind now_secs (\<lambda>t.
        rbind (new_entry_id E) (\<lambda>i.
          session_create_entry E (map_meta (\<lambda>m. m\<lparr>em_id := i, em_created_at := chrono_now t, em_updated_at := chrono_now t\<rparr>) internal)))))"

definition create_login_entry ::
  "env \<Rightarrow> string \<Rightarrow> string \<Rightarrow> string \<Rightarrow> string \<Rightarrow> string \<Rightarrow> string option \<Rightarrow> CustomFieldData list \<Rightarrow> LoginEntryData app" where
  "create_login_entry E folder title url username password notes custom_fields =
     rbind now_secs (\<lambda>t. rbind (new_entry_id E) (\<lambda>i. rret (login_entry_to_data
       \<lparr>le_meta = \<lparr>em_id = i, em_created_at = chrono_now t, em_updated_at = chrono_now t, em_folder = folder, em_field_times = [],
          em_history = []\<rparr>,
        le_title = title, le_url = url, le_username = username, le_password = password, le_notes = notes,
        le_custom_fields = map custom_field_from_data custom_fields, le_attachments = [], le_app_id = None, le_email = None\<rparr>)))"

definition bridge_update_entry :: "env \<Rightarrow> VaultEntryData \<Rightarrow> u32 option \<Rightarrow> unit app" where
  "bridge_update_entry E entry expiry_days =
     rbind (rlift (vault_entry_from_data entry)) (\<lambda>internal. session_update_entry E internal expiry_days)"

definition delete_entries :: "env \<Rightarrow> string list \<Rightarrow> unit app" where
  "delete_entries E ids = rthen (session_delete_entries_no_save ids) (session_save E)"

section \<open>Creating and opening vaults\<close>

definition init_vault :: "env \<Rightarrow> bytes \<Rightarrow> path \<Rightarrow> string option \<Rightarrow> unit app" where
  "init_vault E passphrase p alias =
     rthen (on_disk (refuse_if_path_taken p))
     (rbind (rlift (serialize_vault_body (e_serde E) VaultBody_empty)) (\<lambda>plaintext.
      rbind (on_rng (seal_vault (e_crypto E) passphrase plaintext alias)) (\<lambda>sealed.
      rthen (on_disk (write_vault sealed p)) (unlock_vault E passphrase p))))"

record YubiKeyInitData =
  yi_credential_id :: bytes
  yi_hmac_secret :: bytes
  yi_hkdf_salt :: bytes

definition registration_of :: "YubiKeyInitData \<Rightarrow> YubiKeyRegistration res" where
  "registration_of k =
     (if length (yi_hmac_secret k) \<noteq> 32 then Inl (Err ''hmac_secret must be 32 bytes'')
      else if length (yi_hkdf_salt k) \<noteq> 32 then Inl (Err ''hkdf_salt must be 32 bytes'')
      else Inr \<lparr>reg_credential_id = yi_credential_id k, reg_hmac_secret = yi_hmac_secret k, reg_salt = yi_hkdf_salt k\<rparr>)"

definition init_vault_with_keys :: "env \<Rightarrow> bytes \<Rightarrow> YubiKeyInitData list \<Rightarrow> path \<Rightarrow> string option \<Rightarrow> unit app" where
  "init_vault_with_keys E passphrase keys p alias =
     (if length keys < 2 then rlift (Inl (Err (''at least 2 YubiKeys required; got '' @ show_nat (length keys))))
      else rbind (rlift (map_res registration_of keys)) (\<lambda>registrations.
        rthen (on_disk (refuse_if_path_taken p))
        (rbind (rlift (serialize_vault_body (e_serde E) VaultBody_empty)) (\<lambda>plaintext.
         rbind (on_rng (seal_vault_with_keys (e_crypto E) passphrase registrations plaintext alias)) (\<lambda>sealed.
         rthen (on_disk (write_vault sealed p))
           (unlock_vault_with_key_record E passphrase (yi_hmac_secret (keys ! 0)) (yi_credential_id (keys ! 0)) p))))))"

definition exactly_32 :: "bytes \<Rightarrow> 'a app \<Rightarrow> 'a app" where
  "exactly_32 hmac_secret m =
     (if length hmac_secret \<noteq> 32 then rlift (Inl (Err ''hmac_secret must be exactly 32 bytes'')) else m)"

definition unlock_vault_with_yubikey :: "env \<Rightarrow> bytes \<Rightarrow> bytes \<Rightarrow> bytes \<Rightarrow> path \<Rightarrow> unit app" where
  "unlock_vault_with_yubikey E passphrase hmac_secret credential_id p =
     exactly_32 hmac_secret (unlock_vault_with_key_record E passphrase hmac_secret credential_id p)"

record YubikeyRecordData =
  yd_credential_id :: bytes
  yd_salt :: bytes

definition record_data :: "YubiKeyRecord \<Rightarrow> YubikeyRecordData" where
  "record_data r = \<lparr>yd_credential_id = yr_credential_id r, yd_salt = yr_salt r\<rparr>"

definition list_vault_yubikey_records :: "path \<Rightarrow> YubikeyRecordData list app" where
  "list_vault_yubikey_records p = rbind (on_disk (read_vault p)) (\<lambda>sealed. rret (map record_data (sv_yubikey_records sealed)))"

record VaultHeaderData =
  hh_alias :: "string option"
  hh_yubikey_records :: "YubikeyRecordData list"

definition bridge_read_vault_header :: "path \<Rightarrow> VaultHeaderData app" where
  "bridge_read_vault_header p = rbind (on_disk (read_vault_header p)) (\<lambda>h.
     rret \<lparr>hh_alias = vh_alias h, hh_yubikey_records = map record_data (vh_yubikey_records h)\<rparr>)"

record ExportArtifact =
  xa_vault_bytes :: bytes
  xa_sha256_line :: string

definition build_export_bytes :: "env \<Rightarrow> string \<Rightarrow> ExportArtifact app" where
  "build_export_bytes E vault_filename = rbind (session_export_vault_bytes E vault_filename) (\<lambda>(b, l).
     rret \<lparr>xa_vault_bytes = b, xa_sha256_line = l\<rparr>)"

definition build_export_passphrase_only_bytes :: "env \<Rightarrow> string \<Rightarrow> ExportArtifact app" where
  "build_export_passphrase_only_bytes E vault_filename = rbind (session_export_vault_passphrase_only_bytes E vault_filename) (\<lambda>(b, l).
     rret \<lparr>xa_vault_bytes = b, xa_sha256_line = l\<rparr>)"

section \<open>Merging files\<close>

definition merge_vault_from_file :: "env \<Rightarrow> path \<Rightarrow> bytes \<Rightarrow> MergeSummary app" where
  "merge_vault_from_file E p passphrase = rbind (load_vault E passphrase p) (session_merge_vault_from_body E)"

definition fast_merge_vault_from_file :: "env \<Rightarrow> path \<Rightarrow> bytes \<Rightarrow> MergeSummary app" where
  "fast_merge_vault_from_file E p passphrase = rbind (load_vault E passphrase p) (session_fast_merge_from_body E)"

definition merge_vault_from_file_with_key :: "env \<Rightarrow> path \<Rightarrow> bytes \<Rightarrow> bytes \<Rightarrow> bytes \<Rightarrow> MergeSummary app" where
  "merge_vault_from_file_with_key E p passphrase hmac_secret credential_id = exactly_32 hmac_secret
     (rbind (load_vault_with_key_record E passphrase hmac_secret credential_id p) (\<lambda>(body, _, _). session_merge_vault_from_body E body))"

definition fast_merge_vault_from_file_with_key :: "env \<Rightarrow> path \<Rightarrow> bytes \<Rightarrow> bytes \<Rightarrow> bytes \<Rightarrow> MergeSummary app" where
  "fast_merge_vault_from_file_with_key E p passphrase hmac_secret credential_id = exactly_32 hmac_secret
     (rbind (load_vault_with_key_record E passphrase hmac_secret credential_id p) (\<lambda>(body, _, _). session_fast_merge_from_body E body))"

definition merge_vault_from_file_with_key_held :: "env \<Rightarrow> path \<Rightarrow> bytes \<Rightarrow> bytes \<Rightarrow> MergeSummary option app" where
  "merge_vault_from_file_with_key_held E p hmac_secret credential_id =
     exactly_32 hmac_secret (session_merge_vault_from_file_with_key_held E p hmac_secret credential_id)"

definition fast_merge_vault_from_file_with_key_held :: "env \<Rightarrow> path \<Rightarrow> bytes \<Rightarrow> bytes \<Rightarrow> MergeSummary option app" where
  "fast_merge_vault_from_file_with_key_held E p hmac_secret credential_id =
     exactly_32 hmac_secret (session_fast_merge_from_file_with_key_held E p hmac_secret credential_id)"

section \<open>Notions the lemmas are stated with\<close>

text \<open>Entries the editor gives back as it got them: valid cards, custom entries whose field keys are the labels, and no
  two custom fields or attachments under one name.\<close>

fun editable :: "VaultEntry \<Rightarrow> bool" where
  "editable (Card c) = (is_ok (CardEntry_new c) \<and> distinct (map cf_label (ce_custom_fields c)) \<and> distinct (map at_uuid (ce_attachments c)))"
| "editable (Custom x) = (map fst (xe_fields x) = map (cf_label \<circ> snd) (xe_fields x) \<and> distinct (map fst (xe_fields x))
     \<and> distinct (map at_uuid (xe_attachments x)))"
| "editable e = (distinct (map cf_label (the (entry_custom_fields e))) \<and> distinct (map at_uuid (entry_attachments e)))"

text \<open>The entry without what the editor does not get: key material and the contents of attachments.\<close>

definition blank :: "EntryAttachment \<Rightarrow> EntryAttachment" where
  "blank a = a\<lparr>at_data := replicate (length (at_data a)) 0\<rparr>"

fun scrubbed :: "VaultEntry \<Rightarrow> VaultEntry" where
  "scrubbed (Passkey p) = Passkey (p\<lparr>pe_private_key := [], pe_public_key_cose := [], pe_user_handle := []\<rparr>)"
| "scrubbed e = set_attachments (map blank (entry_attachments e)) e"

text \<open>The edit marks of an entry saved as it was: deletion marks of items it has go away.\<close>

definition kept_times :: "VaultEntry \<Rightarrow> (string \<times> u64) list" where
  "kept_times e = fold (\<lambda>i. bt_remove (del_key i)) (item_keys e) (em_field_times (meta_of e))"

text \<open>One call from outside, whatever comes of it: from the user interface, from an importer, from a browser through the
  virtual security key or from the passkey provider of the system; or the world outside changes.\<close>

inductive app_step :: "auth_env \<Rightarrow> import_env \<Rightarrow> world \<Rightarrow> world \<Rightarrow> bool" for A I where
  forwarded: "app_step A I w (snd (exec (a_env A) q w))"
| create: "app_step A I w (snd (bridge_create_entry (a_env A) d w))"
| update: "app_step A I w (snd (bridge_update_entry (a_env A) d days w))"
| delete: "app_step A I w (snd (delete_entries (a_env A) ids w))"
| merge: "app_step A I w (snd (merge_vault_from_file (a_env A) p pw w))"
| fast_merge: "app_step A I w (snd (fast_merge_vault_from_file (a_env A) p pw w))"
| merge_key: "app_step A I w (snd (merge_vault_from_file_with_key (a_env A) p pw hmac cred w))"
| fast_merge_key: "app_step A I w (snd (fast_merge_vault_from_file_with_key (a_env A) p pw hmac cred w))"
| merge_held: "app_step A I w (snd (merge_vault_from_file_with_key_held (a_env A) p hmac cred w))"
| fast_merge_held: "app_step A I w (snd (fast_merge_vault_from_file_with_key_held (a_env A) p hmac cred w))"
| csv: "app_step A I w (snd (import_from_csv (a_env A) text config w))"
| bitwarden: "app_step A I w (snd (import_from_bitwarden I data w))"
| enpass: "app_step A I w (snd (import_from_enpass I data w))"
| google: "app_step A I w (snd (import_from_google_pm (a_env A) data w))"
| dashlane: "app_step A I w (snd (import_from_dashlane (a_env A) data w))"
| gabbro: "app_step A I w (snd (import_from_gabbro (a_env A) p pw w))"
| gabbro_key: "app_step A I w (snd (import_from_gabbro_with_key (a_env A) p pw hmac cred w))"
| browser: "handle_request A payload consent w = Some (answer, w') \<Longrightarrow> app_step A I w w'"
| dialog: "passkey_perform A payload i w = Some (answer, w') \<Longrightarrow> app_step A I w w'"
| provider: "registration_response_json A text cdj w = Some (r, w') \<Longrightarrow> app_step A I w w'"
| signing: "app_step A I w (snd (assertion_response_json A i cdj hash w))"
| outside: "w_session w' = w_session w \<Longrightarrow> app_step A I w w'"

text \<open>Code whose effect on the application is a run of session steps.\<close>

definition work_run :: "env \<Rightarrow> 'a app \<Rightarrow> bool" where
  "work_run E m = (\<forall>w. (work E)\<^sup>*\<^sup>* w (snd (m w)))"


section \<open>There and back\<close>

lemma custom_field_back [simp]: "custom_field_from_data (custom_field_to_data f) = f"
  by (simp add: custom_field_from_data_def custom_field_to_data_def)

lemma custom_fields_back [simp]: "map (custom_field_from_data \<circ> custom_field_to_data) fs = fs"
  by (simp add: comp_def)

lemma ix_insert_fold:
  "distinct (map fst acc @ map k fs) \<Longrightarrow> fold (\<lambda>f. ix_insert (k f) (v f)) fs acc = acc @ map (\<lambda>f. (k f, v f)) fs"
proof (induction fs arbitrary: acc)
  case (Cons f fs)
  have "k f \<notin> fst ` set acc \<Longrightarrow> ix_insert (k f) (v f) acc = acc @ [(k f, v f)]" by (induction acc) auto
  with Cons.prems Cons.IH [of "acc @ [(k f, v f)]"] show ?case by simp
qed simp

lemma custom_back:
  assumes "map fst fs = map (cf_label \<circ> snd) fs" and "distinct (map fst fs)"
  shows "fold (\<lambda>f. ix_insert (fd_label f) (custom_field_from_data f)) (map (custom_field_to_data \<circ> snd) fs) [] = fs"
proof -
  have "map fd_label (map (custom_field_to_data \<circ> snd) fs) = map fst fs"
    using assms(1) by (simp add: custom_field_to_data_def comp_def)
  then have d: "distinct (map fst [] @ map fd_label (map (custom_field_to_data \<circ> snd) fs))" using assms(2) by (metis append_Nil list.simps(8))
  have "map (\<lambda>f. (fd_label f, custom_field_from_data f)) (map (custom_field_to_data \<circ> snd) fs) = fs"
    using assms(1) by (induction fs) (auto simp: custom_field_to_data_def custom_field_from_data_def prod_eq_iff)
  with ix_insert_fold [OF d, of custom_field_from_data] show ?thesis by simp
qed

lemmas data_defs = data_meta_def meta_from_data_def EntryDataMeta.defs LoginEntryData.defs NoteEntryData.defs IdentityEntryData.defs
  CardEntryData.defs FileEntryData.defs CustomEntryData.defs PasskeyEntryData.defs

lemma login_data_agree: "vault_entry_to_data A (Login e) = LoginData (login_entry_to_data e)"
  by (simp add: login_entry_to_data_def)

lemma map_meta_cong: "f (meta_of e) = g (meta_of e) \<Longrightarrow> map_meta f e = map_meta g e"
  by (cases e) simp_all

lemma CardEntry_new_like:
  "is_ok (CardEntry_new c) \<Longrightarrow> ce_card_number x = ce_card_number c \<Longrightarrow> ce_cardholder_name x = ce_cardholder_name c \<Longrightarrow>
   ce_expiry x = ce_expiry c \<Longrightarrow> CardEntry_new x = Inr x"
  by (auto simp: CardEntry_new_def is_ok_def Let_def split: if_splits)

lemma to_from_data:
  assumes "editable e"
  shows "\<exists>u. vault_entry_from_data (vault_entry_to_data A e) = Inr u \<and> entry_id u = entry_id e
    \<and> restore_stored e u = map_meta (\<lambda>m. m\<lparr>em_field_times := [], em_history := []\<rparr>) e"
proof (cases e)
  case (Card c)
  then have ok: "is_ok (CardEntry_new c)" using assms by simp
  show ?thesis
    by (simp add: Card data_defs restore_stored_def entry_id_def and_then_def CardEntry_new_like [OF ok])
next
  case (Custom x)
  with assms custom_back [of "xe_fields x"] show ?thesis by (auto simp: data_defs restore_stored_def entry_id_def)
qed (auto simp: data_defs restore_stored_def entry_id_def)

section \<open>Saving without a change\<close>

lemma diff_self:
  "distinct (map cf_label fs) \<Longrightarrow> diff_custom fs fs = []"
  "distinct (map at_uuid as) \<Longrightarrow> diff_attachments as as = []"
  "distinct (map fst xs) \<Longrightarrow> diff_fields xs xs = []"
  by (auto simp: diff_custom_def diff_attachments_def diff_fields_def push_if_def last_by_distinct same_custom_def same_attachment_def
      ix_get_def)

lemma changed_self: "editable e \<Longrightarrow> changed_field_keys e (map_meta f e) = []"
  by (cases e) (simp_all add: diff_self push_if_def credential_blob_def)

lemma snapshot_self: "snapshot_secrets e (map_meta f e) now x = Inr (map_meta (touch now \<circ> f) e)"
  by (cases e) (simp_all add: snapshot_secrets_def Let_def)

lemma update_unchanged:
  assumes "update_entry entries u days t ms = Inr es" and "position (\<lambda>e. entry_id e = entry_id u) entries = Some pos"
    and "editable (entries ! pos)" and "restore_stored (entries ! pos) u = map_meta (\<lambda>m. m\<lparr>em_field_times := [], em_history := []\<rparr>) (entries ! pos)"
  shows "es = entries[pos := map_meta (\<lambda>m. m\<lparr>em_updated_at := chrono_now t, em_field_times := kept_times (entries ! pos)\<rparr>) (entries ! pos)]"
proof -
  have st: "stamp_field_times (entries ! pos) (map_meta f (entries ! pos)) ms = kept_times (entries ! pos)" for f
    by (simp add: stamp_field_times_def changed_self [OF assms(3)] kept_times_def Let_def)
  from assms(1,2,4) show ?thesis
    by (auto simp: update_entry_def and_then_Inr Let_def snapshot_self st touch_def comp_def intro!: arg_cong [where f = "list_update _ _"] map_meta_cong)
qed

section \<open>Calls as runs of session steps\<close>

named_theorems run_intros \<open>code that is a run of session steps\<close>

lemma run_exec: "work_run E (exec E q)"
  by (simp add: work_run_def work.served r_into_rtranclp)

lemma run_keeps: "keeps_session m \<Longrightarrow> work_run E m"
  by (simp add: work_run_def keeps_session_def work.outside r_into_rtranclp)

lemma run_bind [run_intros]:
  assumes "work_run E m" and "\<And>x. work_run E (f x)"
  shows "work_run E (rbind m f)"
  unfolding work_run_def
proof
  fix w :: world
  obtain x w1 where m: "m w = (x, w1)" by (rule prod.exhaust)
  have "(work E)\<^sup>*\<^sup>* w w1" using assms(1) m unfolding work_run_def by (metis snd_conv)
  moreover have "(work E)\<^sup>*\<^sup>* w1 (snd (f y w1))" for y using assms(2) unfolding work_run_def by blast
  ultimately show "(work E)\<^sup>*\<^sup>* w (snd (rbind m f w))"
    by (cases x) (auto simp: rbind_def m intro: rtranclp_trans)
qed

lemma run_then [run_intros]: "work_run E m \<Longrightarrow> work_run E n \<Longrightarrow> work_run E (rthen m n)"
  unfolding rthen_def by (rule run_bind)

lemma run_ignored:
  assumes "work_run E (ignoring m)"
  shows "work_run E m"
proof -
  have "snd (ignoring m w) = snd (m w)" for w
    by (auto simp: ignoring_def rthen_def rbind_def rret_def split: prod.split sum.split)
  with assms show ?thesis by (simp add: work_run_def)
qed

lemmas run_session [run_intros] =
  run_ignored [OF run_exec [where q = "CreateEntry _", simplified]]
  run_exec [where q = "AddEntryNoSave _", simplified] run_exec [where q = "UpdateEntry _ _", simplified]
  run_exec [where q = "DeleteEntriesNoSave _", simplified] run_exec [where q = Save, simplified]
  run_ignored [OF run_exec [where q = "MergeFromBody _", simplified]]
  run_ignored [OF run_exec [where q = "FastMergeFromBody _", simplified]]
  run_ignored [OF run_exec [where q = "MergeFromFileWithKey _ _ _", simplified]]
  run_ignored [OF run_exec [where q = "FastMergeFromFileWithKey _ _ _", simplified]]

lemma run_basic [run_intros]:
  "work_run E (rret x)" "work_run E (rlift y)" "work_run E now_secs" "work_run E (load_vault E' pw p)"
  "work_run E (new_entry_id E')" "work_run E (load_vault_with_key_record E' pw hmac cred p)" "work_run E session_entry_ids"
  "work_run E (get_entry i)" "work_run E new_credential_id"
  by (rule run_keeps, auto simp: new_entry_id_def load_vault_with_key_record_def session_entry_ids_def get_entry_def find_entry_def
      new_credential_id_def split: option.split intro!: keeps_intros)+

lemma run_rmap [run_intros]: "(\<And>x. work_run E (f x)) \<Longrightarrow> work_run E (rmap f xs)"
  by (induction xs) (auto intro!: run_intros)

lemma run_merge_source [run_intros]: "work_run E (merge_source E ex es n)"
  by (induction E ex es n rule: merge_source.induct) (auto intro!: run_intros)

lemma run_32 [run_intros]: "work_run E m \<Longrightarrow> work_run E (exactly_32 h m)"
  by (auto simp: exactly_32_def intro: run_intros)

lemma run_add_and_save [run_intros]: "(\<And>x. work_run E (prep x)) \<Longrightarrow> work_run E (add_and_save E prep xs fs)"
  unfolding add_and_save_def by (intro run_intros)

lemma run_parsers [run_intros]:
  "work_run E (bitwarden_parse I data)" "work_run E (google_pm_parse E' data)" "work_run E (dashlane_parse E' data)"
  by (rule run_keeps, rule bw.keeps_parse gp.keeps_parse dl.keeps_parse)+

lemma run_calls:
  "work_run E (bridge_create_entry E d)" "work_run E (bridge_update_entry E d days)" "work_run E (delete_entries E ids)"
  "work_run E (merge_vault_from_file E p pw)" "work_run E (fast_merge_vault_from_file E p pw)"
  "work_run E (merge_vault_from_file_with_key E p pw hmac cred)" "work_run E (fast_merge_vault_from_file_with_key E p pw hmac cred)"
  "work_run E (merge_vault_from_file_with_key_held E p hmac cred)" "work_run E (fast_merge_vault_from_file_with_key_held E p hmac cred)"
  by (auto simp: bridge_create_entry_def bridge_update_entry_def delete_entries_def merge_vault_from_file_def fast_merge_vault_from_file_def
      merge_vault_from_file_with_key_def fast_merge_vault_from_file_with_key_def merge_vault_from_file_with_key_held_def
      fast_merge_vault_from_file_with_key_held_def intro!: run_intros)

lemma run_imports:
  "work_run E (import_from_csv E text config)" "im_env I = E \<Longrightarrow> work_run E (import_from_bitwarden I data)"
  "im_env I = E \<Longrightarrow> work_run E (import_from_enpass I data)" "work_run E (import_from_google_pm E data)"
  "work_run E (import_from_dashlane E data)" "work_run E (import_from_gabbro E p pw)" "work_run E (import_from_gabbro_with_key E p pw hmac cred)"
  by (auto simp: import_from_csv_def import_from_bitwarden_def import_from_enpass_def import_from_google_pm_def import_from_dashlane_def
      import_from_gabbro_def import_from_gabbro_with_key_def merge_source_into_session_def prep_csv_def prep_stamp_def intro!: run_intros)

lemma run_signing: "work_run E (assertion_response_json A i cdj hash)"
  by (auto simp: assertion_response_json_def sign_passkey_assertion_def Let_def split: VaultEntry.split intro!: run_intros)

lemma run_store_passkey: "work_run (a_env A) (store_passkey A kp rp un dn uh)"
  unfolding store_passkey_def by (intro run_intros)

lemma run_register:
  assumes "register_passkey_parts A rp un dn uh w = Some (r, w')"
  shows "(work (a_env A))\<^sup>*\<^sup>* w w'"
proof -
  from assms obtain kp g where s: "store_passkey A kp rp un dn uh (w\<lparr>st_rng := g\<rparr>) = (r, w')"
    by (auto simp: register_passkey_parts_def)
  have "work (a_env A) w (w\<lparr>st_rng := g\<rparr>)" by (rule work.outside) simp
  moreover have "(work (a_env A))\<^sup>*\<^sup>* (w\<lparr>st_rng := g\<rparr>) w'" using run_store_passkey s unfolding work_run_def by (metis snd_conv)
  ultimately show ?thesis by simp
qed

lemma run_perform:
  assumes "perform_approved A payload i w = Some (b, w')"
  shows "(work (a_env A))\<^sup>*\<^sup>* w w'"
proof -
  have reg: "(work (a_env A))\<^sup>*\<^sup>* w1 w'" if "perform_registration A c w1 = Some (b, w')" for c and w1 :: world
    using that by (auto simp: perform_registration_def intro: run_register)
  have pk: "w1 = w" if "session_passkeys_for_rp rp w = (x, w1)" for rp x w1
    using that by (auto simp: session_passkeys_for_rp_def rbind_def get_session_def rthen_def check_lock_def read_session_def rret_def
        split: if_splits option.splits)
  have create: "(work (a_env A))\<^sup>*\<^sup>* w w'" if "perform_create A c w = Some (b, w')" for c
    using that reg [of c w] pk by (auto simp: perform_create_def split: option.splits cbor.splits prod.splits sum.splits if_splits)
  from assms create show ?thesis
    by (cases payload) (auto split: if_splits sum.splits prod.splits)
qed

lemma run_handle:
  assumes "handle_request A payload consent w = Some (b, w')"
  shows "(work (a_env A))\<^sup>*\<^sup>* w w'"
  using assms run_perform by (auto simp: handle_request_def split: if_splits RequestPlan.splits option.splits)

lemma run_provider:
  assumes "registration_response_json A text cdj w = Some (r, w')"
  shows "(work (a_env A))\<^sup>*\<^sup>* w w'"
  using assms run_register by (auto simp: registration_response_json_def register_passkey_def split: sum.splits)

lemma app_step_works:
  assumes "app_step A I w w'" and "im_env I = a_env A"
  shows "(work (a_env A))\<^sup>*\<^sup>* w w'"
  using assms(1)
proof cases
  case (bitwarden data)
  then show ?thesis using run_imports(2) [OF assms(2)] by (simp add: work_run_def)
next
  case (enpass data)
  then show ?thesis using run_imports(3) [OF assms(2)] by (simp add: work_run_def)
next
  case (dialog payload i answer)
  then show ?thesis by (simp add: passkey_perform_def run_perform)
next
  case outside
  then show ?thesis by (simp add: work.outside r_into_rtranclp)
qed (use run_calls run_imports(1,4-7) run_signing run_exec in \<open>auto simp: work_run_def intro: run_handle run_provider\<close>)

lemma position_find: "find P xs = Some x \<Longrightarrow> \<exists>pos. position P xs = Some pos \<and> xs ! pos = x"
  by (auto simp: find_Some_iff position_Some)

section \<open>Properties of the whole application\<close>

text \<open>C1. Whatever is asked of the program while a vault stays open - by the user interface, cancelling a sync included, by importers, by
  browsers through the virtual security key, by the passkey provider - in any order, with any failure on the way: every entry
  is still there or has a deletion mark, and marks are never lost. When the review of a merge is open at the start, this is so
  for the entries and marks that its snapshot has too; what came after the snapshot goes if the user cancels. Locking, deleting or
  replacing the open vault as a whole is not among the calls.\<close>

theorem application_loses_no_entry:
  assumes "(app_step A I)\<^sup>*\<^sup>* w w'" and "w_session w = Some s" and "im_env I = a_env A" and "permutes_lists (e_hash_order (a_env A))"
  shows "\<exists>s'. w_session w' = Some s'
    \<and> live_ids s \<inter> known_ids (sync_base s) \<subseteq> live_ids s' \<union> marked_ids s' \<and> marked_ids s \<inter> marked_ids (sync_base s) \<subseteq> marked_ids s'
    \<and> (vs_pre_sync_backup s = None \<longrightarrow> live_ids s \<subseteq> live_ids s' \<union> marked_ids s' \<and> marked_ids s \<subseteq> marked_ids s')"
proof -
  have "(work (a_env A))\<^sup>*\<^sup>* w w'"
    using assms(1) by induction (use app_step_works [OF _ assms(3)] in \<open>auto intro: rtranclp_trans\<close>)
  from acc.working [OF assms(4) this assms(2)] obtain s' where s': "w_session w' = Some s'" and k: "kept s s'" by blast
  have base: "sync_base s = s" if "vs_pre_sync_backup s = None" using that by (simp add: sync_base_def)
  from k have "live_ids s \<inter> known_ids (sync_base s) \<subseteq> live_ids s' \<union> marked_ids s'" "marked_ids s \<inter> marked_ids (sync_base s) \<subseteq> marked_ids s'"
    unfolding kept_def known_ids_def by blast+
  with s' base show ?thesis by (auto simp: known_ids_def)
qed

theorem application_loses_no_entry_witness:
  "\<exists>w1 w2 s'. w1 = snd (exec sample_env (MergeFromBody sample_body) sample_world) \<and> w2 = snd (exec sample_env CancelSync w1)
     \<and> w_session w2 = Some s' \<and> live_ids open_vault_session \<subseteq> live_ids s' \<union> marked_ids s'"
proof -
  let ?w1 = "snd (exec sample_env (MergeFromBody sample_body) sample_world)"
  let ?w2 = "snd (exec sample_env CancelSync ?w1)"
  have "app_step sample_auth (sample_import sample_env) sample_world ?w1" "app_step sample_auth (sample_import sample_env) ?w1 ?w2"
    using app_step.forwarded [of sample_auth "sample_import sample_env"] by (simp_all add: sample_auth_def del: exec.simps)
  then have "(app_step sample_auth (sample_import sample_env))\<^sup>*\<^sup>* sample_world ?w2" by (meson converse_rtranclp_into_rtranclp r_into_rtranclp)
  from application_loses_no_entry [OF this, of open_vault_session] show ?thesis
    by (auto simp: sample_world_def sample_env_def sample_auth_def sample_import_def permutes_lists_def open_vault_session_def
        sample_session_def simp del: exec.simps)
qed

text \<open>C18. Saving an entry as the editor got it changes nothing but the time of the last change: for an entry the editor can
  give back, fetching it and updating it with what was fetched leaves its fields, secrets, attachments, history and
  key material as they were; only stale deletion marks of items it has are cleared.\<close>

theorem unchanged_edit_keeps_entry:
  assumes "bridge_get_entry A i w = (Inr d, w1)" and "bridge_update_entry E d days w1 = (Inr (), w')"
    and "w_session w = Some s" and "find (\<lambda>e. entry_id e = i) (vs_entries s) = Some e" and "editable e"
  shows "\<exists>pos t s'. position (\<lambda>e. entry_id e = i) (vs_entries s) = Some pos \<and> vs_entries s ! pos = e \<and> w_session w' = Some s'
    \<and> s' = s\<lparr>vs_entries := (vs_entries s)[pos := map_meta (\<lambda>m. m\<lparr>em_updated_at := chrono_now t, em_field_times := kept_times e\<rparr>) e]\<rparr>"
proof -
  obtain u where u: "vault_entry_from_data (vault_entry_to_data A e) = Inr u" "entry_id u = entry_id e"
    "restore_stored e u = map_meta (\<lambda>m. m\<lparr>em_field_times := [], em_history := []\<rparr>) e" using to_from_data [OF assms(5)] by blast
  have i: "entry_id e = i" using assms(4) by (auto simp: find_Some_iff)
  have d: "d = vault_entry_to_data A e" "w1 = w"
    using assms(1,3,4) by (auto simp: bridge_get_entry_def get_entry_def find_entry_def rnd_simps get_session_def rthen_def check_lock_def
        read_session_def split: if_splits)
  have sv: "session_update_entry E u days w = (Inr (), w')"
    using assms(2) u(1) by (auto simp: bridge_update_entry_def d rnd_simps)
  obtain w2 s2 where m: "rbind get_session (\<lambda>s. rbind now_secs (\<lambda>t. rbind now_ms (\<lambda>ms.
     rbind (rlift (update_entry (vs_entries s) u (map_option unat days) t ms)) (\<lambda>es.
       put_session (s\<lparr>vs_entries := es\<rparr>))))) w = (Inr (), w2)" "w_session w2 = Some s2" "w_session w' = Some s2"
    by (rule saving_InrE [OF sv [unfolded session_update_entry_def]])
  obtain t ms es where es: "update_entry (vs_entries s) u (map_option unat days) t ms = Inr es" and s2: "s2 = s\<lparr>vs_entries := es\<rparr>"
    using m(1,2) assms(3) by (auto simp: rnd_simps get_session_def rthen_def check_lock_def read_session_def put_session_def now_secs_def
        now_ms_def read_clock_def split: if_splits)
  obtain pos where pos: "position (\<lambda>e. entry_id e = i) (vs_entries s) = Some pos" "vs_entries s ! pos = e"
    using position_find [OF assms(4)] by blast
  have "es = (vs_entries s)[pos := map_meta (\<lambda>m. m\<lparr>em_updated_at := chrono_now t, em_field_times := kept_times e\<rparr>) e]"
    using update_unchanged [OF es, of pos] pos u(2,3) i assms(5) by simp
  with pos m(3) s2 show ?thesis by blast
qed

lemma blank_length [simp]: "length (at_data (blank a)) = length (at_data a)" "at_uuid (blank a) = at_uuid a"
  "at_name (blank a) = at_name a" "at_kind (blank a) = at_kind a"
  by (simp_all add: blank_def)

lemma blank_meta [simp]: "attachment_meta (map blank as) = attachment_meta as"
  by (simp add: attachment_meta_def)

lemma scrubbed_id [simp]: "entry_id (scrubbed e) = entry_id e"
  by (cases e) (simp_all add: entry_id_def)






text \<open>Creating a vault never touches a file that is already there: where the path is taken, nothing is written and the open
  vault stays as it was.\<close>

theorem new_vault_refuses_taken_path:
  assumes "d_faults (st_disk w) = []" and "d_fs (st_disk w) p \<noteq> None"
  shows "(\<exists>e. init_vault E pw p alias w = (Inl e, w)) \<and> (\<exists>e. init_vault_with_keys E pw keys p alias w = (Inl e, w))"
proof -
  have r: "\<exists>e. on_disk (refuse_if_path_taken p) w = (Inl e, w)"
    using assms by (auto simp: on_disk_def zoom_def refuse_if_path_taken_def rbind_def stat_quiet rlift_def)
  then have "\<exists>e. init_vault E pw p alias w = (Inl e, w)" by (auto simp: init_vault_def rthen_def rbind_def)
  moreover from r have "\<exists>e. init_vault_with_keys E pw keys p alias w = (Inl e, w)"
    by (auto simp: init_vault_with_keys_def rthen_def rbind_def rlift_def split: sum.split)
  ultimately show ?thesis by blast
qed

theorem new_vault_refuses_taken_path_witness:
  "\<exists>e. init_vault sample_env [1] ''v'' None (sample_world\<lparr>st_disk := restore_disk\<rparr>) = (Inl e, sample_world\<lparr>st_disk := restore_disk\<rparr>)"
  using new_vault_refuses_taken_path [of "sample_world\<lparr>st_disk := restore_disk\<rparr>" "''v''" sample_env "[1]" None "[]"]
  by (auto simp: restore_disk_def)

lemma update_unchanged_runs:
  assumes "position (\<lambda>e. entry_id e = entry_id u) entries = Some pos"
    and "restore_stored (entries ! pos) u = map_meta (\<lambda>m. m\<lparr>em_field_times := [], em_history := []\<rparr>) (entries ! pos)"
  shows "\<exists>es. update_entry entries u None t ms = Inr es"
  using assms by (simp add: update_entry_def and_then_def Let_def snapshot_self)

theorem unchanged_edit_keeps_entry_witness:
  "\<exists>E d w' s' t. bridge_get_entry sample_auth ''1'' sample_world = (Inr d, sample_world)
     \<and> bridge_update_entry E d None sample_world = (Inr (), w') \<and> w_session w' = Some s'
     \<and> vs_entries s' = [map_meta (\<lambda>m. m\<lparr>em_updated_at := chrono_now t\<rparr>) sample_local]"
proof -
  let ?d = "vault_entry_to_data sample_auth sample_local"
  let ?m = "\<lambda>u. rbind get_session (\<lambda>s. rbind now_secs (\<lambda>t. rbind now_ms (\<lambda>ms.
     rbind (rlift (update_entry (vs_entries s) u (map_option unat (None :: u32 option)) t ms)) (\<lambda>es. put_session (s\<lparr>vs_entries := es\<rparr>)))))"
  have es: "vs_entries open_vault_session = [sample_local]" by (simp add: open_vault_session_def sample_session_def)
  have ed: "editable sample_local" by (simp add: sample_local_def sample_login_def)
  have i: "entry_id sample_local = ''1''" by (simp add: entry_id_def sample_local_def sample_login_def sample_meta_def)
  have k: "kept_times sample_local = em_field_times (meta_of sample_local)"
    by (simp add: kept_times_def sample_local_def sample_login_def)
  obtain u where u: "vault_entry_from_data ?d = Inr u" "entry_id u = entry_id sample_local"
    "restore_stored sample_local u = map_meta (\<lambda>m. m\<lparr>em_field_times := [], em_history := []\<rparr>) sample_local"
    using to_from_data [OF ed] by blast
  obtain es' where es': "update_entry [sample_local] u None 0 0 = Inr es'"
    using update_unchanged_runs [of u "[sample_local]" 0] u i by auto
  let ?s = "open_vault_session\<lparr>vs_entries := es'\<rparr>" and ?w = "sample_world\<lparr>w_session := Some (open_vault_session\<lparr>vs_entries := es'\<rparr>)\<rparr>"
  define E where "E = env_for (build_body (w_clock ?w 0 div 1000) ?s)"
  have g: "get_session sample_world = (Inr open_vault_session, sample_world)"
    by (rule get_session_open) (simp_all add: sample_world_def)
  have m: "?m u sample_world = (Inr (), ?w)"
    using g es' by (simp add: rbind_def now_secs_def now_ms_def read_clock_def rret_def rlift_def put_session_def es sample_world_def)
  obtain w' where w': "saving E (?m u) sample_world = (Inr (), w')" "w_session w' = Some ?s"
    using m by (rule quiet_saving [of "?m u" sample_world "()" ?w ?s, folded E_def])
      (simp_all add: sample_world_def open_vault_session_def sample_session_def)
  have b: "bridge_get_entry sample_auth ''1'' sample_world = (Inr ?d, sample_world)"
    using g by (simp add: bridge_get_entry_def get_entry_def find_entry_def rbind_def rret_def es i)
  have up: "bridge_update_entry E ?d None sample_world = (Inr (), w')"
    using w'(1) u(1) by (simp add: bridge_update_entry_def session_update_entry_def rbind_def rlift_def)
  have "\<exists>pos t s'. position (\<lambda>e. entry_id e = ''1'') (vs_entries open_vault_session) = Some pos \<and> vs_entries open_vault_session ! pos = sample_local
    \<and> w_session w' = Some s' \<and> s' = open_vault_session\<lparr>vs_entries := (vs_entries open_vault_session)[pos :=
        map_meta (\<lambda>m. m\<lparr>em_updated_at := chrono_now t, em_field_times := kept_times sample_local\<rparr>) sample_local]\<rparr>"
    by (rule unchanged_edit_keeps_entry [OF b up]) (simp_all add: sample_world_def es i ed)
  then obtain t where "vs_entries ?s = [map_meta (\<lambda>m. m\<lparr>em_updated_at := chrono_now t, em_field_times := kept_times sample_local\<rparr>) sample_local]"
    using w'(2) by (auto simp: es i dest: arg_cong [of _ _ vs_entries])
  moreover have "map_meta (\<lambda>m. m\<lparr>em_updated_at := x, em_field_times := em_field_times (meta_of sample_local)\<rparr>) sample_local
      = map_meta (\<lambda>m. m\<lparr>em_updated_at := x\<rparr>) sample_local" for x
    by (rule map_meta_cong) simp
  ultimately show ?thesis using b up w'(2) k by (intro exI [of _ E] exI [of _ ?d] exI [of _ w'] exI [of _ ?s] exI [of _ t]) simp
qed



end
