(* ===== verification/Relying_Party.thy ===== *)
theory Relying_Party
  imports Authenticator
begin

text \<open>
  The other end of a passkey: a site that follows the registration and sign-in ceremonies of WebAuthn, as the specification of
  what \<^verbatim>\<open>crypto/webauthn.rs\<close> and \<^verbatim>\<open>api/passkey_bridge.rs\<close> have to produce. The site reads the attestation object byte by byte
  with readers of its own, keeps the credential id and the public key in it, and later checks an assertion against them. The
  theorem joins both ceremonies: what the program registered, the site accepts on every later sign-in, and no other site does.
\<close>

section \<open>The site\<close>

text \<open>What a site keeps of a passkey.\<close>

record site_account =
  sa_credential :: bytes
  sa_key :: "bytes \<times> bytes"

text \<open>The CBOR map of an attestation object with format \<open>none\<close>. The length of the byte string at its end is in its first byte, or in
  the one or two bytes after it.\<close>

definition strip_prefix :: "bytes \<Rightarrow> bytes \<Rightarrow> bytes option" where
  "strip_prefix p b = (if take (length p) b = p then Some (drop (length p) b) else None)"

fun byte_string :: "bytes \<Rightarrow> bytes option" where
  "byte_string [] = None"
| "byte_string (b # rest) =
     (let sized = (\<lambda>n r. if length r = n then Some r else None) in
      if 0x40 \<le> b \<and> b < 0x58 then sized (unat b - 0x40) rest
      else if b = 0x58 \<and> rest \<noteq> [] then sized (unat (hd rest)) (tl rest)
      else if b = 0x59 \<and> 2 \<le> length rest then sized (be_decode (take 2 rest)) (drop 2 rest)
      else None)"

definition NONE_ATTESTATION :: bytes where
  "NONE_ATTESTATION = [0xA3, 0x63, 0x66, 0x6D, 0x74, 0x64, 0x6E, 0x6F, 0x6E, 0x65, 0x67, 0x61, 0x74, 0x74, 0x53, 0x74, 0x6D, 0x74, 0xA0,
     0x68, 0x61, 0x75, 0x74, 0x68, 0x44, 0x61, 0x74, 0x61]"

definition site_attested_data :: "bytes \<Rightarrow> bytes option" where
  "site_attested_data obj = Option.bind (strip_prefix NONE_ATTESTATION obj) byte_string"

text \<open>A COSE key of ES256 in its canonical form.\<close>

definition site_cose_key :: "bytes \<Rightarrow> (bytes \<times> bytes) option" where
  "site_cose_key b =
     (if length b = 77 \<and> take 10 b = [0xA5, 0x01, 0x02, 0x03, 0x26, 0x20, 0x01, 0x21, 0x58, 0x20]
         \<and> take 3 (drop 42 b) = [0x22, 0x58, 0x20]
      then Some (take 32 (drop 10 b), drop 45 b) else None)"

text \<open>User present and user verified, the bits 0 and 2 of the flags; attested data follow, bit 6.\<close>

definition user_flags :: "byte \<Rightarrow> bool" where
  "user_flags f = (bit f 0 \<and> bit f 2)"

text \<open>The ceremonies of the site: what it keeps of a registration and which assertion it accepts.\<close>

definition site_register :: "(bytes \<Rightarrow> bytes) \<Rightarrow> string \<Rightarrow> bytes \<Rightarrow> site_account option" where
  "site_register sha rp_id obj =
     Option.bind (site_attested_data obj) (\<lambda>ad.
       let n = be_decode (take 2 (drop 53 ad)) in
       if length ad < 55 + n \<or> take 32 ad \<noteq> sha (str_bytes rp_id) \<or> \<not> user_flags (ad ! 32) \<or> \<not> bit (ad ! 32) 6 then None
       else map_option (\<lambda>k. \<lparr>sa_credential = take n (drop 55 ad), sa_key = k\<rparr>) (site_cose_key (drop (55 + n) ad)))"

definition site_accepts ::
  "(bytes \<Rightarrow> bytes) \<Rightarrow> (bytes \<times> bytes \<Rightarrow> bytes \<Rightarrow> bytes \<Rightarrow> bool) \<Rightarrow> string \<Rightarrow> site_account \<Rightarrow> bytes \<Rightarrow> AssertionParts \<Rightarrow> bool" where
  "site_accepts sha verify rp_id acct client_hash r =
     (ap_credential_id r = sa_credential acct \<and> length (ap_auth_data r) = 37 \<and> take 32 (ap_auth_data r) = sha (str_bytes rp_id)
      \<and> user_flags (ap_auth_data r ! 32) \<and> \<not> bit (ap_auth_data r ! 32) 6
      \<and> verify (sa_key acct) (ap_auth_data r @ client_hash) (ap_signature_der r))"

text \<open>The crates, as a site relies on them: coordinates and hashes have 32 bytes, and a signature is good for its key.\<close>

definition site_crypto :: "auth_env \<Rightarrow> (bytes \<times> bytes \<Rightarrow> bytes \<Rightarrow> bytes \<Rightarrow> bool) \<Rightarrow> bool" where
  "site_crypto A verify \<longleftrightarrow>
     (\<forall>b. length (e_sha256 (a_env A) b) = 32)
     \<and> (\<forall>sk. a_key_ok A sk \<longrightarrow> length (fst (a_point A sk)) = 32 \<and> length (snd (a_point A sk)) = 32)
     \<and> (\<forall>sk m. a_key_ok A sk \<longrightarrow> verify (a_point A sk) m (a_sign A sk m))"

text \<open>The assertion of a stored passkey, in both forms it leaves the program.\<close>

definition assertion_of :: "auth_env \<Rightarrow> PasskeyEntry \<Rightarrow> bytes \<Rightarrow> AssertionParts" where
  "assertion_of A e hash =
     (let ad = assertion_authenticator_data A (pe_rp_id e) in
      \<lparr>ap_credential_id = pe_credential_id e, ap_auth_data = ad,
       ap_signature_der = a_sign A (pe_private_key e) (ad @ hash), ap_user_handle = pe_user_handle e\<rparr>)"

text \<open>A signature scheme for the samples: the signature is the key and the message.\<close>

definition sample_verify :: "bytes \<times> bytes \<Rightarrow> bytes \<Rightarrow> bytes \<Rightarrow> bool" where
  "sample_verify k m sg = (sg = fst k @ m)"

section \<open>Reading what the authenticator wrote\<close>

lemma byte_string_of_length:
  assumes "length b < 65536"
  shows "byte_string (cbor_length (length b) @ b) = Some b"
proof -
  let ?n = "length b"
  consider "?n < 24" | "24 \<le> ?n" "?n < 256" | "256 \<le> ?n" by linarith
  then show ?thesis
  proof cases
    case 1
    have u: "unat (of_nat (0x40 + ?n) :: byte) = 0x40 + ?n" using 1 by (simp add: unat_of_nat del: of_nat_add)
    then have "0x40 \<le> (of_nat (0x40 + ?n) :: byte)" "(of_nat (0x40 + ?n) :: byte) < 0x58"
      using 1 by (simp_all only: word_le_nat_alt word_less_nat_alt) simp_all
    with 1 u show ?thesis unfolding cbor_length_def by (simp del: of_nat_add)
  next
    case 2
    have "unat (of_nat ?n :: byte) = ?n" using 2 by (simp add: unat_of_nat)
    with 2 show ?thesis by (simp add: cbor_length_def)
  next
    case 3
    with assms show ?thesis by (simp add: cbor_length_def be_decode_encode_small)
  qed
qed

lemma site_reads_attestation:
  assumes "length ad < 65536"
  shows "site_attested_data (attestation_object ad) = Some ad"
proof -
  have "attestation_object ad = NONE_ATTESTATION @ cbor_length (length ad) @ ad"
    by (simp add: attestation_object_def NONE_ATTESTATION_def str_bytes_def)
  then show ?thesis using byte_string_of_length [OF assms] by (simp add: site_attested_data_def strip_prefix_def)
qed

lemma site_reads_cose: "length x = 32 \<Longrightarrow> length y = 32 \<Longrightarrow> site_cose_key (cose_key x y) = Some (x, y)"
  by (simp add: site_cose_key_def cose_key_def)

lemma length_registration_data:
  assumes "site_crypto A verify" and "length cid = 32" and "length x = 32" and "length y = 32"
  shows "length (registration_authenticator_data A rp_id cid (cose_key x y)) = 164"
  using assms by (simp add: registration_authenticator_data_def cose_key_def site_crypto_def)

lemma site_registers:
  assumes "site_crypto A verify" and "length cid = 32" and "length x = 32" and "length y = 32"
  shows "site_register (e_sha256 (a_env A)) rp_id (attestation_object (registration_authenticator_data A rp_id cid (cose_key x y)))
    = Some \<lparr>sa_credential = cid, sa_key = (x, y)\<rparr>"
proof -
  let ?h = "e_sha256 (a_env A) (str_bytes rp_id)"
  let ?ad = "registration_authenticator_data A rp_id cid (cose_key x y)"
  have h: "length ?h = 32" using assms(1) by (simp add: site_crypto_def)
  have len: "length ?ad = 164" by (rule length_registration_data [OF assms])
  have ad: "site_attested_data (attestation_object ?ad) = Some ?ad" using len by (intro site_reads_attestation) simp
  have p: "take 32 ?ad = ?h" "?ad ! 32 = 0x5D" "drop 53 ?ad = be_encode 2 32 @ cid @ cose_key x y" "drop 55 ?ad = cid @ cose_key x y"
    using h assms(2) by (simp_all add: registration_authenticator_data_def nth_append)
  have n: "be_decode (take 2 (drop 53 ?ad)) = 32" by (simp add: p(3) be_decode_encode_small)
  have n': "be_decode (be_encode 2 32) = 32" by (simp add: be_decode_encode_small)
  have d: "drop (55 + 32) ?ad = cose_key x y" using p(4) assms(2) by (metis append_eq_conv_conj drop_drop add.commute)
  have f: "user_flags (0x5D :: byte)" "bit (0x5D :: byte) 6" by (code_simp, code_simp)
  show ?thesis
    using site_reads_cose [OF assms(3,4)] f d assms(2) by (simp add: site_register_def ad n n' len p Let_def del: add_numeral_special)
qed

lemma credential_id_length:
  assumes "store_passkey A kp rp un dn uh w = (Inr parts, w')"
  shows "length (rg_credential_id parts) = 32"
  using assms by (auto simp: store_passkey_def rthen_def rnd_simps new_credential_id_def fill_bytes_def)

lemma from_register:
  assumes "register_passkey_parts A rp_id user_name display_name user_handle w = Some (Inr parts, w')"
  obtains s e x y where "w_session w = Some s" and "w_session w' = Some (s\<lparr>vs_entries := vs_entries s @ [Passkey e]\<rparr>)" and "\<not> w_poisoned w'"
    and "pe_rp_id e = rp_id" and "pe_user_name e = user_name" and "pe_user_handle e = user_handle" and "a_key_ok A (pe_private_key e)"
    and "a_point A (pe_private_key e) = (x, y)" and "pe_public_key_cose e = cose_key x y" and "rg_public_key_cose parts = cose_key x y"
    and "length (pe_credential_id e) = 32" and "rg_credential_id parts = pe_credential_id e"
    and "rg_auth_data parts = registration_authenticator_data A rp_id (pe_credential_id e) (cose_key x y)"
proof -
  from assms obtain kp r where g: "generate_es256 A (st_rng w) = Some (kp, r)"
    and st: "store_passkey A kp rp_id user_name display_name user_handle (w\<lparr>st_rng := r\<rparr>) = (Inr parts, w')"
    by (auto simp: register_passkey_parts_def)
  obtain x y where xy: "a_point A (kp_private_key kp) = (x, y)" by (cases "a_point A (kp_private_key kp)")
  have kp: "a_key_ok A (kp_private_key kp)" "kp_public_key_cose kp = cose_key x y"
    using g xy draw_key_ok [of "a_key_ok A" "st_rng w"] by (auto simp: generate_es256_def split: option.splits prod.splits)
  obtain s e where s: "w_session w = Some s" "w_session w' = Some (s\<lparr>vs_entries := vs_entries s @ [Passkey e]\<rparr>)" "\<not> w_poisoned w'"
    and e: "pe_rp_id e = rp_id" "pe_user_name e = user_name" "pe_user_handle e = user_handle" "pe_private_key e = kp_private_key kp"
      "pe_public_key_cose e = kp_public_key_cose kp" "pe_credential_id e = rg_credential_id parts"
    and p: "rg_public_key_cose parts = kp_public_key_cose kp"
      "rg_auth_data parts = registration_authenticator_data A rp_id (rg_credential_id parts) (kp_public_key_cose kp)"
    by (rule from_store_passkey [OF st]) simp
  have c: "length (pe_credential_id e) = 32" using credential_id_length [OF st] e(6) by (simp only:)
  have k: "a_key_ok A (pe_private_key e)" "a_point A (pe_private_key e) = (x, y)" "pe_public_key_cose e = cose_key x y"
    "rg_public_key_cose parts = cose_key x y"
    using kp xy e(4,5) p(1) by simp_all
  show ?thesis by (rule that [OF s e(1-3) k c e(6) [symmetric]]) (simp only: p(2) kp(2) e(6))
qed

lemma site_passkeys_append:
  "pe_rp_id e = rp \<Longrightarrow> site_passkeys rp (s\<lparr>vs_entries := vs_entries s @ [Passkey e]\<rparr>) = site_passkeys rp s @ [e]"
  by (simp add: site_passkeys_def List.map_filter_def)

lemma stored_passkey_signs:
  assumes "w_session w = Some s" and "\<not> w_poisoned w" and "distinct (map entry_id (vs_entries s))" and "Passkey e \<in> set (vs_entries s)"
    and "a_key_ok A (pe_private_key e)"
  shows "sign_passkey_assertion A (em_id (pe_meta e)) hash w = (Inr (assertion_of A e hash), w)"
    and "perform_assert A e hash w = (let r = assertion_of A e hash in
           assertion_response A (ap_credential_id r) (ap_auth_data r) (ap_signature_der r) (ap_user_handle r))"
proof -
  have g: "get_entry (em_id (pe_meta e)) w = (Inr (Passkey e), w)"
    using get_entry_distinct [OF assms(1-4)] by (simp add: entry_id_def)
  show "sign_passkey_assertion A (em_id (pe_meta e)) hash w = (Inr (assertion_of A e hash), w)"
    using assms(5) by (simp add: sign_passkey_assertion_def rbind_def g rlift_def rret_def sign_assertion_def Let_def assertion_of_def)
  show "perform_assert A e hash w = (let r = assertion_of A e hash in
      assertion_response A (ap_credential_id r) (ap_auth_data r) (ap_signature_der r) (ap_user_handle r))"
    using perform_assert_signs [OF assms(1-4)] assms(5)
    by (simp add: signed_by_def Let_def assertion_of_def assertion_authenticator_data_def assertion_auth_data_with_flags_def)
qed

lemma site_accepts_signed:
  assumes "site_crypto A verify" and "a_key_ok A (pe_private_key e)"
  shows "site_accepts (e_sha256 (a_env A)) verify rp
      \<lparr>sa_credential = pe_credential_id e, sa_key = a_point A (pe_private_key e)\<rparr> hash (assertion_of A e hash)
    \<longleftrightarrow> e_sha256 (a_env A) (str_bytes rp) = e_sha256 (a_env A) (str_bytes (pe_rp_id e))"
proof -
  let ?ad = "assertion_authenticator_data A (pe_rp_id e)"
  have h: "length (e_sha256 (a_env A) (str_bytes (pe_rp_id e))) = 32" using assms(1) by (simp add: site_crypto_def)
  have ad: "length ?ad = 37" "take 32 ?ad = e_sha256 (a_env A) (str_bytes (pe_rp_id e))" "?ad ! 32 = 0x1D"
    using h by (simp_all add: assertion_authenticator_data_def assertion_auth_data_with_flags_def nth_append)
  have "user_flags (0x1D :: byte)" "\<not> bit (0x1D :: byte) 6" by (code_simp, code_simp)
  with assms ad show ?thesis by (auto simp: site_accepts_def site_crypto_def assertion_of_def Let_def)
qed

section \<open>The two ceremonies together\<close>

text \<open>C16. A registered passkey signs its owner in, in a vault whose entry ids are distinct. The site can read the attestation object of a registration that succeeded and
  keeps an account of it; the new passkey is then the last one offered for the site, after those that were there before. For
  every client data hash, the program signs with it, over the bridge and over CTAP2 alike, under the user handle of the
  registration, and of all sites exactly those accept the assertion for that account whose name hashes to the registered site's.\<close>

theorem passkey_signs_in:
  assumes "site_crypto A verify"
    and "register_passkey_parts A rp_id user_name display_name user_handle w = Some (Inr parts, w')"
    and "w_session w' = Some s'" and "distinct (map entry_id (vs_entries s'))"
  defines "sha \<equiv> e_sha256 (a_env A)"
  shows "\<exists>acct s e. site_register sha rp_id (attestation_object (rg_auth_data parts)) = Some acct
    \<and> w_session w = Some s \<and> session_passkeys_for_rp rp_id w' = (Inr (site_passkeys rp_id s @ [e]), w')
    \<and> (\<forall>hash. \<exists>r. sign_passkey_assertion A (em_id (pe_meta e)) hash w' = (Inr r, w')
         \<and> perform_assert A e hash w' = assertion_response A (ap_credential_id r) (ap_auth_data r) (ap_signature_der r) (ap_user_handle r)
         \<and> ap_user_handle r = user_handle
         \<and> (\<forall>rp. site_accepts sha verify rp acct hash r \<longleftrightarrow> sha (str_bytes rp) = sha (str_bytes rp_id)))"
proof -
  from assms(2) obtain s e x y where s: "w_session w = Some s" and s1: "w_session w' = Some (s\<lparr>vs_entries := vs_entries s @ [Passkey e]\<rparr>)" "\<not> w_poisoned w'"
    and e: "pe_rp_id e = rp_id" "pe_user_handle e = user_handle" and ok: "a_key_ok A (pe_private_key e)"
    and xy: "a_point A (pe_private_key e) = (x, y)" and cid: "length (pe_credential_id e) = 32"
    and ad: "rg_auth_data parts = registration_authenticator_data A rp_id (pe_credential_id e) (cose_key x y)"
    by (rule from_register)
  have s': "s' = s\<lparr>vs_entries := vs_entries s @ [Passkey e]\<rparr>" using s1 assms(3) by simp
  then have e_in: "Passkey e \<in> set (vs_entries s')" by simp
  have "length x = 32" "length y = 32" using assms(1) ok xy by (auto simp: site_crypto_def)
  note reg = site_registers [OF assms(1) cid this, of rp_id, folded ad sha_def, folded xy]
  have "session_passkeys_for_rp rp_id w' = (Inr (site_passkeys rp_id s @ [e]), w')"
    using session_passkeys_run [OF s1] site_passkeys_append [OF e(1)] by simp
  with reg s stored_passkey_signs [OF assms(3) s1(2) assms(4) e_in ok] site_accepts_signed [OF assms(1) ok] e
  show ?thesis
    by (intro exI [of _ "\<lparr>sa_credential = pe_credential_id e, sa_key = a_point A (pe_private_key e)\<rparr>"] exI [of _ s] exI [of _ e] conjI allI exI [of _ "assertion_of A e _"])
      (simp_all add: sha_def Let_def assertion_of_def)
qed

lemma sample_site_crypto: "site_crypto (sample_auth\<lparr>a_env := env_for b\<rparr>) sample_verify"
  by (auto simp: site_crypto_def sample_auth_def env_for_def sample_env_def sample_verify_def min_def)

text \<open>A registration in a vault of the samples.\<close>

lemma sample_registration:
  obtains A parts w' s' where "site_crypto A sample_verify"
    and "register_passkey_parts A ''site'' ''ann'' ''Ann'' [4] sample_world = Some (Inr parts, w')"
    and "w_session w' = Some s'" and "distinct (map entry_id (vs_entries s'))"
proof -
  define kp where "kp = \<lparr>kp_private_key = replicate 32 (0::byte), kp_public_key_cose = cose_key (replicate 32 0) (replicate 32 0)\<rparr>"
  define e where "e = passkey_entry (bytes_str (replicate 16 0)) (chrono_now 0) ''site'' ''ann'' ''Ann'' [4] (replicate 32 0) kp"
  define w where "w = sample_world\<lparr>w_clock := (\<lambda>i. w_clock sample_world (Suc i))\<rparr>"
  let ?s = "open_vault_session\<lparr>vs_entries := vs_entries open_vault_session @ [Passkey e]\<rparr>"
  let ?m = "\<lambda>E. rbind get_session (\<lambda>s. rthen (put_session (s\<lparr>vs_entries := vs_entries s @ [Passkey e]\<rparr>))
           (rret (entry_to_summary E (Passkey e))))"
  let ?w = "w\<lparr>w_session := Some ?s\<rparr>"
  define E where "E = env_for (build_body (w_clock ?w 0 div 1000) ?s)"
  define A where "A = sample_auth\<lparr>a_env := E\<rparr>"
  have m: "?m E w = (Inr (entry_to_summary E (Passkey e)), ?w)"
    by (simp add: rbind_def rthen_def rret_def put_session_def get_session_open [where s = open_vault_session] sample_world_def w_def)
  obtain w' where w': "saving E (?m E) w = (Inr (entry_to_summary E (Passkey e)), w')" and s': "w_session w' = Some ?s"
    using m by (rule quiet_saving [of "?m E" w "entry_to_summary E (Passkey e)" ?w ?s, folded E_def])
      (simp_all add: w_def sample_world_def open_vault_session_def sample_session_def)
  have g: "generate_es256 A (st_rng sample_world) = Some (kp, \<lambda>_. 0)"
    by (simp add: generate_es256_def draw_key.simps A_def sample_auth_def sample_world_def kp_def map_replicate_const)
  have r: "sample_world\<lparr>st_rng := \<lambda>_. 0\<rparr> = sample_world" by (simp add: sample_world_def)
  have i: "new_entry_id E w = (Inr (bytes_str (replicate 16 0)), w)"
    by (simp add: new_entry_id_def rbind_def on_rng_def zoom_def fill_bytes_def rret_def w_def sample_world_def E_def env_for_def
        sample_env_def map_replicate_const)
  have c: "new_credential_id sample_world = (Inr (replicate 32 0), sample_world)" "now_secs sample_world = (Inr 0, w)"
    by (simp_all add: new_credential_id_def on_rng_def zoom_def fill_bytes_def sample_world_def map_replicate_const now_secs_def
        read_clock_def rbind_def rret_def w_def)
  have cr: "session_create_entry E (Passkey e) w = (Inr (entry_to_summary E (Passkey e)), w')"
    using w' by (simp add: session_create_entry_def)
  have "\<exists>parts. register_passkey_parts A ''site'' ''ann'' ''Ann'' [4] sample_world = Some (Inr parts, w')"
    unfolding register_passkey_parts_def g store_passkey_def using i c cr
    by (simp add: r rbind_def rthen_def rret_def A_def flip: e_def)
  moreover have "distinct (map entry_id (vs_entries ?s))"
    by (simp add: open_vault_session_def sample_session_def sample_local_def entry_id_def e_def passkey_entry_def bytes_str_def
        sample_meta_def numeral_eq_Suc)
  ultimately show ?thesis
    using that [OF _ _ s'] sample_site_crypto by (metis A_def E_def)
qed

theorem passkey_signs_in_witness:
  "\<exists>A parts w' acct e r. register_passkey_parts A ''site'' ''ann'' ''Ann'' [4] sample_world = Some (Inr parts, w')
     \<and> site_register (e_sha256 (a_env A)) ''site'' (attestation_object (rg_auth_data parts)) = Some acct
     \<and> session_passkeys_for_rp ''site'' w' = (Inr [e], w')
     \<and> sign_passkey_assertion A (em_id (pe_meta e)) [1, 2, 3] w' = (Inr r, w') \<and> ap_user_handle r = [4]
     \<and> site_accepts (e_sha256 (a_env A)) sample_verify ''site'' acct [1, 2, 3] r"
proof -
  obtain A parts w' s' where c: "site_crypto A sample_verify"
    and r: "register_passkey_parts A ''site'' ''ann'' ''Ann'' [4] sample_world = Some (Inr parts, w')"
    and s': "w_session w' = Some s'" "distinct (map entry_id (vs_entries s'))"
    by (rule sample_registration)
  have "w_session sample_world = Some open_vault_session" by (simp add: sample_world_def)
  moreover have "site_passkeys ''site'' open_vault_session = []"
    by (simp add: site_passkeys_def List.map_filter_def open_vault_session_def sample_session_def sample_local_def)
  ultimately show ?thesis using passkey_signs_in [OF c r s'] r by fastforce
qed

end
