(* ===== verification/Autotype.thy ===== *)
theory Autotype
  imports Import_Csv Unicode
begin

text \<open>
  Typing a login into another window (\<^verbatim>\<open>autotype/\<close>, \<^verbatim>\<open>api/autotype_bridge.rs\<close>): the keysyms of a login, the plan that binds them
  to free keycodes, the injection through the X server, the captured window and the trigger. The server is a parameter (record
  \<open>x_server\<close>): its answer to a request may be anything and may depend on all requests before; the state of the code is the log
  of requests with the verdict on each. Pauses are not modelled, except that waiting for the modifier keys ends after a second;
  arithmetic on keycodes wraps as in a release build. The lemmas show what the log types and what it leaves of the keymap.
\<close>

section \<open>Keysyms\<close>

type_synonym window = u32

definition char_to_keysym :: "u32 \<Rightarrow> u32" where
  "char_to_keysym cp = (if (0x20 \<le> cp \<and> cp \<le> 0x7e) \<or> (0xa0 \<le> cp \<and> cp \<le> 0xff) then cp else 0x01000000 + cp)"

definition plan_string :: "string \<Rightarrow> u32 list" where
  "plan_string s = map (\<lambda>c. char_to_keysym (of_nat (codepoint c))) (utf8_chars s)"

definition KEYSYM_TAB :: u32 where
  "KEYSYM_TAB = 0xff09"

definition KEYSYM_RETURN :: u32 where
  "KEYSYM_RETURN = 0xff0d"

definition build_sequence :: "string \<Rightarrow> string \<Rightarrow> u32 list" where
  "build_sequence username password = plan_string username @ [KEYSYM_TAB] @ plan_string password @ [KEYSYM_RETURN]"

definition login_identifier :: "string \<Rightarrow> string option \<Rightarrow> string" where
  "login_identifier username email = (if username \<noteq> [] then username else unwrap_or email [])"

fun login_sequence :: "VaultEntry \<Rightarrow> u32 list res" where
  "login_sequence (Login e) = Inr (build_sequence (login_identifier (le_username e) (le_email e)) (le_password e))"
| "login_sequence _ = Inl (Err ''entry is not a login'')"

section \<open>The X server\<close>

text \<open>What a connection sends, with the server's verdict.\<close>

datatype x_request =
    InternAtom string
  | GetProperty window u32
  | SendActivate window window u32
  | QueryPointer window
  | GetModifierMapping
  | GetKeyboardMapping byte byte
  | ChangeKeyboardMapping byte byte "u32 list"
  | FakeInput bool byte
  | Flush

type_synonym x_log = "(x_request \<times> bool) list"

type_synonym 'a x_run = "(x_log, 'a) run"

record X11Error =
  xe_error_kind :: string
  xe_bad_value :: u32
  xe_request_name :: "string option"

datatype ReplyError =
    ConnectionError string
  | X11Error X11Error

fun redact_reply :: "ReplyError \<Rightarrow> string" where
  "redact_reply (ConnectionError e) = ''X11 connection error: '' @ e"
| "redact_reply (X11Error e) = ''X11 request rejected: '' @ xe_error_kind e @
     (case xe_request_name e of Some name \<Rightarrow> '' ('' @ name @ '')'' | None \<Rightarrow> [])"

text \<open>A request fails when it cannot be sent or when its reply is an error.\<close>

datatype x_failure =
    NotSent string
  | Refused ReplyError

fun show_failure :: "x_failure \<Rightarrow> err" where
  "show_failure (NotSent e) = Err (''X11 request failed: '' @ e)"
| "show_failure (Refused e) = Err (redact_reply e)"

type_synonym 'a answer = "x_log \<Rightarrow> x_failure + 'a"

text \<open>The server: the set-up of the connection and the answer to each request, which may depend on everything sent before.
  \<open>x_delay\<close> is the time in milliseconds a round trip takes.\<close>

record x_server =
  x_connect :: "string + nat"
  x_roots :: "window list"
  x_min_keycode :: byte
  x_max_keycode :: byte
  x_intern_atom :: "string \<Rightarrow> u32 answer"
  x_property32 :: "window \<Rightarrow> u32 \<Rightarrow> u32 list answer"
  x_property8 :: "window \<Rightarrow> u32 \<Rightarrow> u32 \<Rightarrow> bytes answer"
  x_pointer_mask :: "16 word answer"
  x_modifier_mapping :: "byte list answer"
  x_keyboard_mapping :: "byte \<Rightarrow> byte \<Rightarrow> (byte \<times> u32 list) answer"
  x_change :: "x_request \<Rightarrow> unit answer"
  x_delay :: "x_log \<Rightarrow> nat"

definition ask :: "x_request \<Rightarrow> 'a answer \<Rightarrow> 'a x_run" where
  "ask q f l = (case f l of
     Inl e \<Rightarrow> (Inl (show_failure e), l @ [(q, False)])
   | Inr x \<Rightarrow> (Inr x, l @ [(q, True)]))"

definition tell :: "x_server \<Rightarrow> x_request \<Rightarrow> unit x_run" where
  "tell X q = ask q (x_change X q)"

fun each :: "('a \<Rightarrow> unit x_run) \<Rightarrow> 'a list \<Rightarrow> unit x_run" where
  "each f [] = rret ()"
| "each f (x # xs) = rthen (f x) (each f xs)"

section \<open>Windows\<close>

definition first_active_window :: "u32 list \<Rightarrow> window option" where
  "first_active_window values = (case values of v # _ \<Rightarrow> if v \<noteq> 0 then Some v else None | [] \<Rightarrow> None)"

definition active_window :: "x_server \<Rightarrow> window \<Rightarrow> window option x_run" where
  "active_window X root =
     rbind (ask (InternAtom ''_NET_ACTIVE_WINDOW'') (x_intern_atom X ''_NET_ACTIVE_WINDOW'')) (\<lambda>atom.
       if atom = 0 then rret None
       else rbind (ask (GetProperty root atom) (x_property32 X root atom)) (\<lambda>values. rret (first_active_window values)))"

text \<open>\<open>String::from_utf8_lossy\<close>: every invalid stretch becomes the replacement character.\<close>

function utf8_lossy :: "bytes \<Rightarrow> string" where
  "utf8_lossy bs =
     (if bs = [] then []
      else if utf8_width bs \<noteq> 0 then bytes_str (take (utf8_width bs) bs) @ utf8_lossy (drop (utf8_width bs) bs)
      else utf8_encode 0xFFFD @ (case utf8_error_len bs of Some n \<Rightarrow> utf8_lossy (drop (max 1 n) bs) | None \<Rightarrow> []))"
  by pat_completeness auto
termination
  by (relation "measure length") auto

declare utf8_lossy.simps [simp del]

definition parse_wm_class :: "bytes \<Rightarrow> (string \<times> string) option" where
  "parse_wm_class value =
     (if value = [] then None
      else let inst = takeWhile (\<lambda>b. b \<noteq> 0) value;
               rest = drop (Suc (length inst)) value
           in Some (utf8_lossy inst, utf8_lossy (takeWhile (\<lambda>b. b \<noteq> 0) rest)))"

definition WM_CLASS :: u32 where
  "WM_CLASS = 67"

definition WM_NAME :: u32 where
  "WM_NAME = 39"

definition STRING :: u32 where
  "STRING = 31"

definition wm_class :: "x_server \<Rightarrow> window \<Rightarrow> (string \<times> string) option x_run" where
  "wm_class X win = rbind (ask (GetProperty win WM_CLASS) (x_property8 X win WM_CLASS STRING)) (\<lambda>value. rret (parse_wm_class value))"

definition window_title :: "x_server \<Rightarrow> window \<Rightarrow> string option x_run" where
  "window_title X win =
     rbind (ask (InternAtom ''_NET_WM_NAME'') (x_intern_atom X ''_NET_WM_NAME'')) (\<lambda>net_name.
     rbind (ask (InternAtom ''UTF8_STRING'') (x_intern_atom X ''UTF8_STRING'')) (\<lambda>utf8.
     rbind (if net_name \<noteq> 0 \<and> utf8 \<noteq> 0 then ask (GetProperty win net_name) (x_property8 X win net_name utf8) else rret []) (\<lambda>value.
       if value \<noteq> [] then rret (Some (utf8_lossy value))
       else rbind (ask (GetProperty win WM_NAME) (x_property8 X win WM_NAME STRING)) (\<lambda>value.
         rret (if value = [] then None else Some (utf8_lossy value))))))"

record CapturedWindow =
  cw_id :: window
  cw_class :: "(string \<times> string) option"
  cw_title :: "string option"

definition ok_flatten :: "'a option res \<Rightarrow> 'a option" where
  "ok_flatten r = (case r of Inl _ \<Rightarrow> None | Inr x \<Rightarrow> x)"

definition capture_active :: "x_server \<Rightarrow> window \<Rightarrow> CapturedWindow option x_run" where
  "capture_active X root = rbind (active_window X root) (\<lambda>active.
     case active of
       None \<Rightarrow> rret None
     | Some i \<Rightarrow> rbind (rtry (wm_class X i)) (\<lambda>c. rbind (rtry (window_title X i)) (\<lambda>t.
         rret (Some \<lparr>cw_id = i, cw_class = ok_flatten c, cw_title = ok_flatten t\<rparr>))))"

record CapturedWindowData =
  wd_id :: window
  wd_app_class :: string
  wd_title :: string

definition captured_to_data :: "CapturedWindow \<Rightarrow> CapturedWindowData" where
  "captured_to_data c = \<lparr>wd_id = cw_id c, wd_app_class = unwrap_or (map_option snd (cw_class c)) [], wd_title = unwrap_or (cw_title c) []\<rparr>"

definition request_activate :: "x_server \<Rightarrow> window \<Rightarrow> window \<Rightarrow> unit x_run" where
  "request_activate X root target =
     rbind (ask (InternAtom ''_NET_ACTIVE_WINDOW'') (x_intern_atom X ''_NET_ACTIVE_WINDOW'')) (\<lambda>atom.
       if atom = 0 then rret () else tell X (SendActivate root target atom))"

definition focus_matches :: "window option \<Rightarrow> window \<Rightarrow> bool" where
  "focus_matches active target = (active = Some target)"

section \<open>Planning\<close>

datatype Slot =
    Real byte
  | Scratch u32

record Batch =
  ba_bindings :: "(byte \<times> u32) list"
  ba_taps :: "byte list"

fun plan_loop :: "byte list \<Rightarrow> (byte \<times> u32) list \<Rightarrow> byte list \<Rightarrow> (u32 \<times> byte) list \<Rightarrow> Slot list \<Rightarrow> Batch list res" where
  "plan_loop pool bindings taps assigned [] =
     Inr (if bindings \<noteq> [] \<or> taps \<noteq> [] then [\<lparr>ba_bindings = bindings, ba_taps = taps\<rparr>] else [])"
| "plan_loop pool bindings taps assigned (Real kc # slots) = plan_loop pool bindings (taps @ [kc]) assigned slots"
| "plan_loop pool bindings taps assigned (Scratch ks # slots) =
     (case map_of assigned ks of
        Some kc \<Rightarrow> plan_loop pool bindings (taps @ [kc]) assigned slots
      | None \<Rightarrow>
          if length assigned = length pool then
            (case pool of
               [] \<Rightarrow> Inl Panic
             | kc # _ \<Rightarrow> and_then (plan_loop pool [(kc, ks)] [kc] [(ks, kc)] slots)
                 (\<lambda>batches. Inr (\<lparr>ba_bindings = bindings, ba_taps = taps\<rparr> # batches)))
          else let kc = pool ! length assigned in
            plan_loop pool (bindings @ [(kc, ks)]) (taps @ [kc]) (assigned @ [(ks, kc)]) slots)"

definition plan_batches :: "Slot list \<Rightarrow> byte list \<Rightarrow> Batch list res" where
  "plan_batches slots pool = plan_loop pool [] [] [] slots"

function chunks :: "nat \<Rightarrow> 'a list \<Rightarrow> 'a list list" where
  "chunks n xs = (if xs = [] \<or> n = 0 then [] else take n xs # chunks n (drop n xs))"
  by pat_completeness auto
termination
  by (relation "measure (\<lambda>(n, xs). length xs)") auto

declare chunks.simps [simp del]

definition keycode_for_keysym :: "u32 list \<Rightarrow> nat \<Rightarrow> byte \<Rightarrow> u32 \<Rightarrow> byte option" where
  "keycode_for_keysym keysyms per first target =
     (if per = 0 then None
      else map_option (\<lambda>i. first + of_nat i) (position (\<lambda>c. c \<noteq> [] \<and> hd c = target) (chunks per keysyms)))"

definition slot_of :: "u32 list \<Rightarrow> nat \<Rightarrow> byte \<Rightarrow> u32 \<Rightarrow> Slot" where
  "slot_of keysyms kb_per first ks =
     (if ks = KEYSYM_TAB \<or> ks = KEYSYM_RETURN then
        (case keycode_for_keysym keysyms kb_per first ks of Some kc \<Rightarrow> Real kc | None \<Rightarrow> Scratch ks)
      else Scratch ks)"

section \<open>Injection\<close>

definition keyboard_mapping :: "x_server \<Rightarrow> (byte \<times> u32 list) x_run" where
  "keyboard_mapping X =
     (let count = x_max_keycode X - x_min_keycode X + 1
      in ask (GetKeyboardMapping (x_min_keycode X) count) (x_keyboard_mapping X (x_min_keycode X) count))"

definition find_all_scratch_keycodes :: "x_server \<Rightarrow> (byte list \<times> byte) x_run" where
  "find_all_scratch_keycodes X = rbind (keyboard_mapping X) (\<lambda>(per, keysyms).
     if per = 0 then rlift (Inl (Err ''the keyboard mapping reports zero levels per keycode''))
     else let pool = map (\<lambda>(i, _). x_min_keycode X + of_nat i)
            (filter (\<lambda>(_, chunk). list_all (\<lambda>ks. ks = 0) chunk) (enumerate 0 (chunks (unat per) keysyms)))
       in if pool = [] then rlift (Inl (Err ''no unused keycode is available to remap for injection''))
          else rret (pool, per))"

definition MODIFIER_WAIT_TIMEOUT :: nat where
  "MODIFIER_WAIT_TIMEOUT = 1000"

definition MODIFIER_POLL :: nat where
  "MODIFIER_POLL = 10"

definition SHORTCUT_MODIFIERS :: "16 word" where
  "SHORTCUT_MODIFIERS = 0x00cd"

definition shortcut_modifiers_held :: "16 word \<Rightarrow> bool" where
  "shortcut_modifiers_held m = (and m SHORTCUT_MODIFIERS \<noteq> 0)"

function wait_loop :: "x_server \<Rightarrow> window \<Rightarrow> nat \<Rightarrow> unit x_run" where
  "wait_loop X root elapsed l =
     (case ask (QueryPointer root) (x_pointer_mask X) l of
        (Inl e, l') \<Rightarrow> (Inl e, l')
      | (Inr m, l') \<Rightarrow>
          let now = elapsed + x_delay X l' in
          if \<not> shortcut_modifiers_held m \<or> MODIFIER_WAIT_TIMEOUT \<le> now then (Inr (), l')
          else wait_loop X root (now + MODIFIER_POLL) l')"
  by pat_completeness auto
termination
  by (relation "measure (\<lambda>(X, root, elapsed, l). MODIFIER_WAIT_TIMEOUT - elapsed)") (auto simp: MODIFIER_POLL_def)

declare wait_loop.simps [simp del]

definition wait_for_modifiers_released :: "x_server \<Rightarrow> unit x_run" where
  "wait_for_modifiers_released X = (case x_roots X of [] \<Rightarrow> rlift (Inl Panic) | root # _ \<Rightarrow> wait_loop X root 0)"

definition modifier_keycodes :: "byte list \<Rightarrow> byte list" where
  "modifier_keycodes keycodes = remdups_adj (sort (filter (\<lambda>k. k \<noteq> 0) keycodes))"

definition release_held_modifiers :: "x_server \<Rightarrow> unit x_run" where
  "release_held_modifiers X = rbind (ask GetModifierMapping (x_modifier_mapping X)) (\<lambda>keycodes.
     each (\<lambda>kc. tell X (FakeInput False kc)) (modifier_keycodes keycodes))"

definition tap_keycode :: "x_server \<Rightarrow> byte \<Rightarrow> unit x_run" where
  "tap_keycode X kc = rthen (tell X (FakeInput True kc)) (tell X (FakeInput False kc))"

definition bind_keycode :: "x_server \<Rightarrow> byte \<Rightarrow> byte \<times> u32 \<Rightarrow> unit x_run" where
  "bind_keycode X per b = (case b of (kc, ks) \<Rightarrow> tell X (ChangeKeyboardMapping kc per (replicate (unat per) ks)))"

definition restore_keycode :: "x_server \<Rightarrow> byte \<Rightarrow> byte \<Rightarrow> unit x_run" where
  "restore_keycode X per scratch = tell X (ChangeKeyboardMapping scratch per (replicate (unat per) 0))"

fun restore_all :: "x_server \<Rightarrow> byte \<Rightarrow> byte list \<Rightarrow> unit x_run" where
  "restore_all X per [] = rret ()"
| "restore_all X per (kc # pool) = rbind (rtry (restore_keycode X per kc)) (\<lambda>r.
     rbind (rtry (restore_all X per pool)) (\<lambda>rest. rlift (and_then r (\<lambda>_. rest))))"

fun run_batches :: "x_server \<Rightarrow> byte \<Rightarrow> Batch list \<Rightarrow> unit x_run" where
  "run_batches X per [] = rret ()"
| "run_batches X per (b # batches) =
     rthen (each (bind_keycode X per) (ba_bindings b))
     (rthen (each (tap_keycode X) (ba_taps b))
     (if batches = [] then rret ()
      else rthen (each (\<lambda>(kc, _). restore_keycode X per kc) (ba_bindings b)) (run_batches X per batches)))"

definition inject_planned :: "x_server \<Rightarrow> byte list \<Rightarrow> byte \<Rightarrow> u32 list \<Rightarrow> unit x_run" where
  "inject_planned X pool per keysyms = rbind (keyboard_mapping X) (\<lambda>(kb_per, mapping).
     rbind (rlift (plan_batches (map (slot_of mapping (unat kb_per) (x_min_keycode X)) keysyms) pool)) (run_batches X per))"

definition type_keysyms :: "x_server \<Rightarrow> u32 list \<Rightarrow> unit x_run" where
  "type_keysyms X keysyms =
     (if keysyms = [] then rret ()
      else rbind (find_all_scratch_keycodes X) (\<lambda>(pool, per).
        rthen (wait_for_modifiers_released X)
        (rthen (release_held_modifiers X)
        (rbind (rtry (inject_planned X pool per keysyms)) (\<lambda>injected.
         rbind (rtry (restore_all X per pool)) (\<lambda>restored.
         rthen (tell X Flush) (rlift (and_then injected (\<lambda>_. restored)))))))))"

definition connect :: "x_server \<Rightarrow> nat x_run" where
  "connect X = (case x_connect X of
     Inl e \<Rightarrow> rlift (Inl (Err (''could not connect to the X server: '' @ e)))
   | Inr screen \<Rightarrow> rret screen)"

definition type_text :: "x_server \<Rightarrow> string \<Rightarrow> unit x_run" where
  "type_text X text = rbind (connect X) (\<lambda>_. type_keysyms X (plan_string text))"

definition impl_capture :: "x_server \<Rightarrow> CapturedWindowData option x_run" where
  "impl_capture X =
     (case x_connect X of
        Inl e \<Rightarrow> rlift (Inl (Err e))
      | Inr screen \<Rightarrow>
          if length (x_roots X) \<le> screen then rlift (Inl Panic)
          else rbind (capture_active X (x_roots X ! screen)) (\<lambda>captured. rret (map_option captured_to_data captured)))"

section \<open>Triggers\<close>

definition TRIGGER_TOKEN :: string where
  "TRIGGER_TOKEN = ''gabbro-autotype-trigger''"

definition path_join :: "path \<Rightarrow> path \<Rightarrow> path" where
  "path_join base p = (if base = [] \<or> last base = CHR ''/'' then base @ p else base @ ''/'' @ p)"

definition socket_path :: "path option \<Rightarrow> path \<Rightarrow> path" where
  "socket_path xdg_runtime_dir fallback_dir = path_join (path_join (unwrap_or xdg_runtime_dir fallback_dir) ''gabbro'') ''autotype.sock''"

text \<open>The connections of a listener, each an I/O error or what it sent; the result says for which ones a fill is started.\<close>

definition accept_one :: "io_error + bytes \<Rightarrow> bool res" where
  "accept_one c = (case c of Inl e \<Rightarrow> Inl (Err (''trigger socket I/O failed: '' @ show_io e)) | Inr buf \<Rightarrow> Inr (buf = str_bytes TRIGGER_TOKEN))"

fun serve :: "(io_error + bytes) list \<Rightarrow> bool list" where
  "serve [] = []"
| "serve (c # conns) = (case accept_one c of Inr True \<Rightarrow> True | _ \<Rightarrow> False) # serve conns"

section \<open>Filling\<close>

definition fill_sequence :: "x_server \<Rightarrow> window \<Rightarrow> u32 list \<Rightarrow> unit x_run" where
  "fill_sequence X window_id seq = rbind (connect X) (\<lambda>screen.
     if length (x_roots X) \<le> screen then rlift (Inl Panic)
     else let root = x_roots X ! screen in
       rthen (request_activate X root window_id)
       (rthen (tell X Flush)
       (rbind (active_window X root) (\<lambda>active.
        if \<not> focus_matches active window_id
        then rlift (Inl (Err ''focus did not return to the target window; aborted before typing''))
        else type_keysyms X seq))))"

definition fill :: "x_server \<Rightarrow> window \<Rightarrow> string \<Rightarrow> world \<Rightarrow> unit x_run" where
  "fill X window_id i w =
     (if \<not> is_vault_unlocked w then rlift (Inl (Err ''vault is locked''))
      else rbind (rlift (res_map_err ''session error: '' (fst (get_entry i w)))) (\<lambda>entry.
           rbind (rlift (login_sequence entry)) (fill_sequence X window_id)))"

section \<open>Notions the lemmas are stated with\<close>

text \<open>What the keyboard of the server maps keycodes to, and what key presses type at a level of the keymap. Only accepted
  requests count.\<close>

type_synonym keymap = "byte \<Rightarrow> u32 list"

fun changed :: "keymap \<Rightarrow> x_request \<times> bool \<Rightarrow> keymap" where
  "changed km (ChangeKeyboardMapping kc per kss, True) = km(kc := kss)"
| "changed km _ = km"

definition keymap_after :: "keymap \<Rightarrow> x_log \<Rightarrow> keymap" where
  "keymap_after km l = foldl changed km l"

fun press :: "nat \<Rightarrow> keymap \<Rightarrow> x_request \<times> bool \<Rightarrow> u32 list" where
  "press lv km (FakeInput True kc, True) = [km kc ! lv]"
| "press lv km _ = []"

fun typed :: "nat \<Rightarrow> keymap \<Rightarrow> x_log \<Rightarrow> u32 list" where
  "typed lv km [] = []"
| "typed lv km (e # l) = press lv km e @ typed lv (changed km e) l"

text \<open>Requests that neither press a key nor change the keymap.\<close>

fun harmless :: "x_request \<Rightarrow> bool" where
  "harmless (ChangeKeyboardMapping kc per kss) = False"
| "harmless (FakeInput True kc) = False"
| "harmless _ = True"

definition quiet :: "x_log \<Rightarrow> bool" where
  "quiet l = list_all (harmless \<circ> fst) l"

text \<open>Code that sends only requests of a kind.\<close>

definition sends :: "(x_request \<Rightarrow> bool) \<Rightarrow> 'a x_run \<Rightarrow> bool" where
  "sends R m = (\<forall>l. \<exists>e. snd (m l) = l @ e \<and> list_all (R \<circ> fst) e)"

definition keycode_count :: "x_server \<Rightarrow> byte" where
  "keycode_count X = x_max_keycode X - x_min_keycode X + 1"

definition keycodes :: "x_server \<Rightarrow> byte list" where
  "keycodes X = map (\<lambda>i. x_min_keycode X + of_nat i) [0..<unat (keycode_count X)]"

text \<open>The server reports its keymap as the protocol documents it: as many levels for every keycode of the range.\<close>

definition reports :: "x_server \<Rightarrow> keymap \<Rightarrow> bool" where
  "reports X km = (\<forall>l per kss. quiet l \<and> x_keyboard_mapping X (x_min_keycode X) (keycode_count X) l = Inr (per, kss) \<longrightarrow>
     chunks (unat per) kss = map km (keycodes X) \<and> (\<forall>kc \<in> set (keycodes X). length (km kc) = unat per))"

text \<open>What a slot and a tap of a batch stand for, given the keysyms of the genuine keys.\<close>

fun slot_value :: "(byte \<Rightarrow> u32) \<Rightarrow> Slot \<Rightarrow> u32" where
  "slot_value base (Real kc) = base kc"
| "slot_value base (Scratch ks) = ks"

definition tap_value :: "(byte \<Rightarrow> u32) \<Rightarrow> (byte \<times> u32) list \<Rightarrow> byte \<Rightarrow> u32" where
  "tap_value base bindings kc = (case map_of bindings kc of Some ks \<Rightarrow> ks | None \<Rightarrow> base kc)"

definition batch_values :: "(byte \<Rightarrow> u32) \<Rightarrow> Batch \<Rightarrow> u32 list" where
  "batch_values base b = map (tap_value base (ba_bindings b)) (ba_taps b)"

text \<open>Keycodes are bound in the order of the pool, and a batch taps only bound keycodes or genuine keys.\<close>

definition batch_ok :: "byte list \<Rightarrow> Batch \<Rightarrow> bool" where
  "batch_ok pool b = (map fst (ba_bindings b) = take (length (ba_bindings b)) pool
     \<and> (\<forall>kc \<in> set (ba_taps b). kc \<in> fst ` set (ba_bindings b) \<or> kc \<notin> set pool))"

definition plan_inv :: "byte list \<Rightarrow> (byte \<times> u32) list \<Rightarrow> byte list \<Rightarrow> (u32 \<times> byte) list \<Rightarrow> bool" where
  "plan_inv pool bs ts assigned = (assigned = map prod.swap bs \<and> distinct (map snd bs)
     \<and> length bs \<le> length pool \<and> batch_ok pool \<lparr>ba_bindings = bs, ba_taps = ts\<rparr>)"

text \<open>The requests of a batch that all succeed.\<close>

definition bind_log :: "byte \<Rightarrow> (byte \<times> u32) list \<Rightarrow> x_log" where
  "bind_log per bs = map (\<lambda>(kc, ks). (ChangeKeyboardMapping kc per (replicate (unat per) ks), True)) bs"

definition tap_log :: "byte list \<Rightarrow> x_log" where
  "tap_log ts = concat (map (\<lambda>kc. [(FakeInput True kc, True), (FakeInput False kc, True)]) ts)"

text \<open>Requests that change the keymap only at some keycodes.\<close>

fun within :: "byte set \<Rightarrow> x_request \<Rightarrow> bool" where
  "within P (ChangeKeyboardMapping kc per kss) = (kc \<in> P)"
| "within P _ = True"

text \<open>The server with every rejected value of its error replies blanked.\<close>

fun blank_failure :: "x_failure \<Rightarrow> x_failure" where
  "blank_failure (Refused (X11Error e)) = Refused (X11Error (e\<lparr>xe_bad_value := 0\<rparr>))"
| "blank_failure f = f"

definition blank_answer :: "'a answer \<Rightarrow> 'a answer" where
  "blank_answer f l = map_sum blank_failure id (f l)"

definition blank_server :: "x_server \<Rightarrow> x_server" where
  "blank_server X = X\<lparr>x_intern_atom := (\<lambda>s. blank_answer (x_intern_atom X s)),
     x_property32 := (\<lambda>win a. blank_answer (x_property32 X win a)),
     x_property8 := (\<lambda>win a t. blank_answer (x_property8 X win a t)), x_pointer_mask := blank_answer (x_pointer_mask X),
     x_modifier_mapping := blank_answer (x_modifier_mapping X),
     x_keyboard_mapping := (\<lambda>k n. blank_answer (x_keyboard_mapping X k n)), x_change := (\<lambda>q. blank_answer (x_change X q))\<rparr>"

text \<open>The text of a keysym that stands for a character.\<close>

definition keysym_text :: "u32 \<Rightarrow> string" where
  "keysym_text k = utf8_encode (if 0x01000000 \<le> unat k then unat k - 0x01000000 else unat k)"

text \<open>A keyboard with Tab, Return and one free keycode, and a server that accepts everything and keeps the focus.\<close>

definition sample_keymap :: keymap where
  "sample_keymap kc = (if kc = 8 then [KEYSYM_TAB] else if kc = 9 then [KEYSYM_RETURN] else [0])"

definition sample_server :: x_server where
  "sample_server = \<lparr>x_connect = Inr 0, x_roots = [1], x_min_keycode = 8, x_max_keycode = 10,
     x_intern_atom = (\<lambda>_ _. Inr 5), x_property32 = (\<lambda>_ _ _. Inr [7]), x_property8 = (\<lambda>_ _ _ _. Inr []), x_pointer_mask = (\<lambda>_. Inr 0),
     x_modifier_mapping = (\<lambda>_. Inr [0, 0]), x_keyboard_mapping = (\<lambda>_ _ _. Inr (1, [KEYSYM_TAB, KEYSYM_RETURN, 0])),
     x_change = (\<lambda>_ _. Inr ()), x_delay = (\<lambda>_. 0)\<rparr>"

text \<open>A server that answers every request and keeps the focus on a window.\<close>

definition serves :: "x_server \<Rightarrow> window \<Rightarrow> bool" where
  "serves X win = (win \<noteq> 0 \<and> (\<exists>n < length (x_roots X). x_connect X = Inr n) \<and> (\<forall>s l. \<exists>a. x_intern_atom X s l = Inr a \<and> a \<noteq> 0)
     \<and> (\<forall>root a l. \<exists>vs. x_property32 X root a l = Inr (win # vs)) \<and> (\<forall>l. \<exists>m. x_pointer_mask X l = Inr m)
     \<and> (\<forall>l. \<exists>ks. x_modifier_mapping X l = Inr ks)
     \<and> (\<forall>k n l. \<exists>per kss. per \<noteq> 0 \<and> x_keyboard_mapping X k n l = Inr (per, kss)) \<and> (\<forall>q l. x_change X q l = Inr ()))"

definition succeeds :: "'a x_run \<Rightarrow> bool" where
  "succeeds m = (\<forall>l. \<exists>x l'. m l = (Inr x, l'))"

section \<open>Logs\<close>

lemma keymap_after_simps [simp]: "keymap_after km [] = km" "keymap_after km (e # l) = keymap_after (changed km e) l"
  "keymap_after km (l @ l') = keymap_after (keymap_after km l) l'"
  by (simp_all add: keymap_after_def)

lemma typed_append [simp]: "typed lv km (l @ l') = typed lv km l @ typed lv (keymap_after km l) l'"
  by (induction l arbitrary: km) simp_all

lemma quiet_simps [simp]: "quiet []" "quiet (e # l) \<longleftrightarrow> harmless (fst e) \<and> quiet l" "quiet (l @ l') \<longleftrightarrow> quiet l \<and> quiet l'"
  by (simp_all add: quiet_def)

lemma harmless_changed: "harmless q \<Longrightarrow> changed km (q, b) = km" "harmless q \<Longrightarrow> press lv km (q, b) = []"
  by (cases "(km, q, b)" rule: changed.cases; simp) (cases "(lv, km, q, b)" rule: press.cases; simp)

lemma quiet_typed: "quiet l \<Longrightarrow> typed lv km l = []"
  by (induction l arbitrary: km) (auto simp: harmless_changed)

lemma quiet_keymap: "quiet l \<Longrightarrow> keymap_after km l = km"
  by (induction l arbitrary: km) (auto simp: harmless_changed)

section \<open>What code sends\<close>

lemma sends_bind:
  assumes "sends R m" and "\<And>x. sends R (f x)"
  shows "sends R (rbind m f)"
  unfolding sends_def
proof
  fix l
  obtain r l1 where m: "m l = (r, l1)" by (rule prod.exhaust)
  obtain e where e: "l1 = l @ e" "list_all (R \<circ> fst) e" using assms(1) m unfolding sends_def by (metis snd_conv)
  show "\<exists>e. snd (rbind m f l) = l @ e \<and> list_all (R \<circ> fst) e"
  proof (cases r)
    case (Inr x)
    obtain e' where "snd (f x l1) = l1 @ e'" "list_all (R \<circ> fst) e'" using assms(2) unfolding sends_def by blast
    with e show ?thesis by (auto simp: rbind_def m Inr)
  qed (use e in \<open>auto simp: rbind_def m\<close>)
qed

lemma sends_then: "sends R m \<Longrightarrow> sends R n \<Longrightarrow> sends R (rthen m n)"
  unfolding rthen_def by (rule sends_bind)

lemma sends_simple: "sends R (rret x)" "sends R (rlift y)"
  by (simp_all add: sends_def rret_def rlift_def)

lemma sends_ask: "R q \<Longrightarrow> sends R (ask q f)"
  by (auto simp: sends_def ask_def split: sum.split)

lemma sends_tell: "R q \<Longrightarrow> sends R (tell X q)"
  unfolding tell_def by (rule sends_ask)

lemma sends_each: "(\<And>x. x \<in> set xs \<Longrightarrow> sends R (f x)) \<Longrightarrow> sends R (each f xs)"
  by (induction xs) (auto intro: sends_then sends_simple)

lemma sends_weaken: "sends R m \<Longrightarrow> (\<And>q. R q \<Longrightarrow> Q q) \<Longrightarrow> sends Q m"
  unfolding sends_def list_all_iff comp_def by blast

lemmas quiet_intros = sends_bind sends_then sends_simple sends_ask sends_tell sends_each

lemma sends_quiet: "sends harmless m \<Longrightarrow> m l = (r, l') \<Longrightarrow> \<exists>e. l' = l @ e \<and> quiet e"
  unfolding sends_def quiet_def by (metis snd_conv)

lemma quiet_wait_loop: "\<exists>e. snd (wait_loop X root t l) = l @ e \<and> quiet e"
proof (induction X root t l rule: wait_loop.induct)
  case (1 X root t l)
  show ?case
  proof (cases "x_pointer_mask X l")
    case (Inr m)
    let ?l = "l @ [(QueryPointer root, True)]"
    have a: "ask (QueryPointer root) (x_pointer_mask X) l = (Inr m, ?l)" by (simp add: ask_def Inr)
    show ?thesis
    proof (cases "\<not> shortcut_modifiers_held m \<or> MODIFIER_WAIT_TIMEOUT \<le> t + x_delay X ?l")
      case False
      from 1 [OF a [symmetric] refl refl False] show ?thesis
        using False by (subst wait_loop.simps) (auto simp: a Let_def)
    qed (subst wait_loop.simps, auto simp: a Let_def)
  qed (subst wait_loop.simps, simp add: ask_def)
qed

lemma quiet_parts:
  "sends harmless (keyboard_mapping X)" "sends harmless (find_all_scratch_keycodes X)" "sends harmless (wait_for_modifiers_released X)"
  "sends harmless (release_held_modifiers X)" "sends harmless (active_window X root)" "sends harmless (request_activate X root win)"
proof -
  show k: "sends harmless (keyboard_mapping X)" by (simp add: keyboard_mapping_def Let_def sends_ask)
  show "sends harmless (find_all_scratch_keycodes X)"
    unfolding find_all_scratch_keycodes_def by (auto simp: Let_def intro!: sends_bind k sends_simple split: prod.split)
  have "sends harmless (wait_loop X root 0)" for root using quiet_wait_loop by (auto simp: sends_def quiet_def)
  then show "sends harmless (wait_for_modifiers_released X)"
    by (auto simp: wait_for_modifiers_released_def intro: sends_simple split: list.split)
  show "sends harmless (release_held_modifiers X)" unfolding release_held_modifiers_def by (intro quiet_intros) simp_all
  show "sends harmless (active_window X root)" "sends harmless (request_activate X root win)"
    unfolding active_window_def request_activate_def by (auto intro!: quiet_intros)
qed

section \<open>The planner\<close>

lemma inv_distinct:
  assumes "plan_inv pool bs ts assigned" and "distinct pool"
  shows "distinct (map fst bs)" and "fst ` set bs \<subseteq> set pool"
proof -
  have f: "map fst bs = take (length bs) pool" using assms(1) by (simp add: plan_inv_def batch_ok_def)
  then show "distinct (map fst bs)" using assms(2) by simp
  from f have "set (map fst bs) = set (take (length bs) pool)" by (rule arg_cong)
  then show "fst ` set bs \<subseteq> set pool" using set_take_subset [of "length bs" pool] by simp
qed

lemma tap_value_bound: "distinct (map fst bs) \<Longrightarrow> (kc, ks) \<in> set bs \<Longrightarrow> tap_value base bs kc = ks"
  by (simp add: tap_value_def)

lemma assigned_bound:
  assumes "map_of (map prod.swap bs) ks = Some kc"
  shows "(kc, ks) \<in> set bs"
  using map_of_SomeD [OF assms] by auto

lemma inv_tap: "plan_inv pool bs ts assigned \<Longrightarrow> kc \<in> fst ` set bs \<or> kc \<notin> set pool \<Longrightarrow> plan_inv pool bs (ts @ [kc]) assigned"
  by (auto simp: plan_inv_def batch_ok_def)

lemma inv_bind:
  assumes "plan_inv pool bs ts assigned" and "map_of assigned ks = None" and "length assigned < length pool"
  shows "plan_inv pool (bs @ [(pool ! length assigned, ks)]) (ts @ [pool ! length assigned]) (assigned @ [(ks, pool ! length assigned)])"
proof -
  have l: "length assigned = length bs" "length bs < length pool" and s: "assigned = map prod.swap bs" using assms by (auto simp: plan_inv_def)
  have "ks \<notin> snd ` set bs" using assms(2) s by (auto simp: map_of_eq_None_iff image_iff)
  moreover have "take (Suc (length bs)) pool = take (length bs) pool @ [pool ! length bs]" using l(2) by (rule take_Suc_conv_app_nth)
  ultimately show ?thesis using assms(1) l by (auto simp: plan_inv_def batch_ok_def)
qed

lemma inv_start: "pool = kc # p \<Longrightarrow> plan_inv pool [(kc, ks)] [kc] [(ks, kc)]"
  by (simp add: plan_inv_def batch_ok_def)

lemma tap_value_extend:
  assumes "plan_inv pool bs ts assigned" and "distinct pool" and "length bs < length pool" and "t \<in> set ts"
  shows "tap_value base (bs @ [(pool ! length bs, ks)]) t = tap_value base bs t"
proof -
  have f: "map fst bs = take (length bs) pool" and t: "t \<in> fst ` set bs \<or> t \<notin> set pool"
    using assms(1,4) by (simp_all add: plan_inv_def batch_ok_def)
  show ?thesis
  proof (cases "t \<in> fst ` set bs")
    case True
    then obtain k where "map_of bs t = Some k" by (metis domIff dom_map_of_conv_image_fst not_Some_eq)
    then show ?thesis by (simp add: tap_value_def map_add_def)
  next
    case False
    with t assms(3) have "t \<noteq> pool ! length bs" by auto
    moreover from False have "map_of bs t = None" by (simp add: map_of_eq_None_iff)
    ultimately show ?thesis by (simp add: tap_value_def map_add_def)
  qed
qed

lemma plan_loop_correct:
  assumes "plan_loop pool bs ts assigned slots = Inr batches" and "distinct pool" and "plan_inv pool bs ts assigned"
    and "\<forall>kc. Real kc \<in> set slots \<longrightarrow> kc \<notin> set pool"
  shows "list_all (batch_ok pool) batches \<and> concat (map (batch_values base) batches) = map (tap_value base bs) ts @ map (slot_value base) slots"
  using assms
proof (induction pool bs ts assigned slots arbitrary: batches rule: plan_loop.induct)
  case (1 pool bs ts assigned)
  then show ?case by (auto simp: batch_values_def plan_inv_def)
next
  case (2 pool bs ts assigned kc slots)
  have kc: "kc \<notin> set pool" using "2.prems"(4) by simp
  then have "kc \<notin> fst ` set bs" using inv_distinct [OF "2.prems"(3,2)] by blast
  then have "tap_value base bs kc = base kc" unfolding tap_value_def using map_of_eq_None_iff [of bs kc] by simp
  moreover have "plan_inv pool bs (ts @ [kc]) assigned" by (rule inv_tap [OF "2.prems"(3)]) (simp add: kc)
  ultimately show ?case using "2.IH" [of batches] "2.prems" by simp
next
  case (3 pool bs ts assigned ks slots)
  have as: "assigned = map prod.swap bs" using "3.prems"(3) by (simp add: plan_inv_def)
  show ?case
  proof (cases "map_of assigned ks")
    case (Some kc)
    then have m: "(kc, ks) \<in> set bs" unfolding as by (rule assigned_bound)
    have "plan_inv pool bs (ts @ [kc]) assigned" by (rule inv_tap [OF "3.prems"(3)]) (use m in force)
    with "3.IH"(3) [OF Some, of batches] "3.prems" Some tap_value_bound [OF inv_distinct(1) [OF "3.prems"(3,2)] m] show ?thesis by simp
  next
    case None
    show ?thesis
    proof (cases "length assigned = length pool")
      case True
      with "3.prems"(1) None obtain kc p bt where p: "pool = kc # p" and b: "plan_loop pool [(kc, ks)] [kc] [(ks, kc)] slots = Inr bt"
        "batches = \<lparr>ba_bindings = bs, ba_taps = ts\<rparr> # bt" by (auto simp: and_then_Inr split: list.splits)
      from "3.IH"(1) [OF None True p b(1) "3.prems"(2) inv_start [OF p]] "3.prems"(3,4) b(2) show ?thesis
        by (simp add: batch_values_def plan_inv_def tap_value_def)
    next
      case False
      have l: "length bs < length pool" "length assigned = length bs" using False "3.prems"(3) by (auto simp: plan_inv_def)
      let ?kc = "pool ! length assigned"
      have i: "plan_inv pool (bs @ [(?kc, ks)]) (ts @ [?kc]) (assigned @ [(ks, ?kc)])"
        using inv_bind [OF "3.prems"(3) None] l by simp
      have v: "tap_value base (bs @ [(?kc, ks)]) ?kc = ks" using inv_distinct(1) [OF i "3.prems"(2)] by (intro tap_value_bound) simp_all
      have "map (tap_value base (bs @ [(?kc, ks)])) ts = map (tap_value base bs) ts"
        using tap_value_extend [OF "3.prems"(3,2) l(1)] l(2) by simp
      with "3.IH"(2) [OF None False refl _ "3.prems"(2) i, of batches] "3.prems"(1,4) None False v show ?thesis by (simp add: Let_def)
    qed
  qed
qed

lemma plan_loop_total: "pool \<noteq> [] \<Longrightarrow> \<exists>batches. plan_loop pool bs ts assigned slots = Inr batches"
proof (induction pool bs ts assigned slots rule: plan_loop.induct)
  case (3 pool bs ts assigned ks slots)
  then show ?case by (cases "map_of assigned ks"; cases pool) (auto simp: and_then_def Let_def split: sum.split)
qed simp_all

section \<open>Typing what was planned\<close>

lemma tell_Inr [rnd_simps]: "tell X q l = (Inr y, l') \<longleftrightarrow> x_change X q l = Inr () \<and> l' = l @ [(q, True)]"
  by (auto simp: tell_def ask_def split: sum.splits)

lemma each_log:
  assumes "\<And>x l l'. f x l = (Inr (), l') \<Longrightarrow> l' = l @ g x" and "each f xs l = (Inr (), l')"
  shows "l' = l @ concat (map g xs)"
  using assms(2)
proof (induction xs arbitrary: l)
  case (Cons x xs)
  then obtain l1 where "f x l = (Inr (), l1)" "each f xs l1 = (Inr (), l')" by (auto simp: rnd_simps rthen_def)
  with Cons.IH [of l1] assms(1) show ?case by simp
qed (simp add: rret_def)

lemma each_tap: "each (tap_keycode X) ts l = (Inr (), l') \<Longrightarrow> l' = l @ tap_log ts"
  unfolding tap_log_def by (rule each_log) (auto simp: rnd_simps rthen_def tap_keycode_def)

lemma bind_log_concat: "bind_log per bs = concat (map (\<lambda>(kc, ks). [(ChangeKeyboardMapping kc per (replicate (unat per) ks), True)]) bs)"
  by (induction bs) (auto simp: bind_log_def)

lemma each_bind: "each (bind_keycode X per) bs l = (Inr (), l') \<Longrightarrow> l' = l @ bind_log per bs"
  unfolding bind_log_concat by (rule each_log) (auto simp: rnd_simps bind_keycode_def)

lemma each_restore:
  assumes "each (\<lambda>(kc, _). restore_keycode X per kc) bs l = (Inr (), l')"
  shows "l' = l @ bind_log per (map (\<lambda>(kc, _). (kc, 0)) bs)"
proof -
  have "l' = l @ concat (map (\<lambda>(kc, _). [(ChangeKeyboardMapping kc per (replicate (unat per) 0), True)]) bs)"
    by (rule each_log [OF _ assms]) (auto simp: rnd_simps restore_keycode_def)
  moreover have "concat (map (\<lambda>(kc, _). [(ChangeKeyboardMapping kc per (replicate (unat per) 0), True)]) bs)
      = bind_log per (map (\<lambda>(kc, _). (kc, 0)) bs)" by (induction bs) (auto simp: bind_log_def)
  ultimately show ?thesis by simp
qed

lemma bind_log_typed [simp]: "typed lv km (bind_log per bs) = []"
  by (induction bs arbitrary: km) (auto simp: bind_log_def)

lemma bind_log_keymap:
  "distinct (map fst bs) \<Longrightarrow> keymap_after km (bind_log per bs) kc = (case map_of bs kc of Some ks \<Rightarrow> replicate (unat per) ks | None \<Rightarrow> km kc)"
proof (induction bs arbitrary: km)
  case (Cons b bs)
  obtain k v where b: "b = (k, v)" by (rule prod.exhaust)
  have "map_of bs k = None" using Cons.prems b by (simp add: map_of_eq_None_iff)
  with Cons show ?case by (auto simp: bind_log_def b split: option.split)
qed (simp add: bind_log_def)

lemma tap_log_typed [simp]: "typed lv km (tap_log ts) = map (\<lambda>kc. km kc ! lv) ts" "keymap_after km (tap_log ts) = km"
  by (induction ts) (simp_all add: tap_log_def)

lemma batch_typed:
  assumes "batch_ok pool b" and "distinct pool" and "lv < unat per"
  shows "typed lv km (bind_log per (ba_bindings b) @ tap_log (ba_taps b)) = batch_values (\<lambda>kc. km kc ! lv) b"
proof -
  have "distinct (map fst (ba_bindings b))" using assms(1,2) by (simp add: batch_ok_def)
  then show ?thesis using assms(3)
    by (auto simp: batch_values_def tap_value_def bind_log_keymap split: option.split)
qed

lemma batch_restored:
  assumes "batch_ok pool b" and "distinct pool" and "\<forall>kc \<in> set pool. km kc = replicate (unat per) 0"
  shows "keymap_after km (bind_log per (ba_bindings b) @ tap_log ts @ bind_log per (map (\<lambda>(kc, _). (kc, 0)) (ba_bindings b))) = km"
proof -
  let ?bs = "ba_bindings b" and ?zs = "map (\<lambda>(kc, _). (kc, 0 :: u32)) (ba_bindings b)"
  have f: "map fst ?bs = take (length ?bs) pool" using assms(1) by (simp add: batch_ok_def)
  have z: "map fst ?zs = map fst ?bs" by (simp add: comp_def split_beta)
  have d: "distinct (map fst ?bs)" "distinct (map fst ?zs)" unfolding z f using assms(2) by simp_all
  show ?thesis
  proof
    fix kc
    show "keymap_after km (bind_log per ?bs @ tap_log ts @ bind_log per ?zs) kc = km kc"
    proof (cases "kc \<in> fst ` set ?bs")
      case True
      then have "kc \<in> set (take (length ?bs) pool)" by (metis f list.set_map)
      then have "kc \<in> set pool" by (rule in_set_takeD)
      moreover have "map_of ?zs kc = Some 0" using True by (force simp: map_of_eq_Some_iff [OF d(2)])
      ultimately show ?thesis using assms(3) by (simp add: bind_log_keymap [OF d(1)] bind_log_keymap [OF d(2)])
    next
      case False
      then have "kc \<notin> fst ` set ?zs" by force
      then have "map_of ?zs kc = None" "map_of ?bs kc = None" using False map_of_eq_None_iff by metis+
      then show ?thesis by (simp add: bind_log_keymap [OF d(1)] bind_log_keymap [OF d(2)])
    qed
  qed
qed

lemma run_batches_typed:
  assumes "run_batches X per batches l = (Inr (), l')" and "list_all (batch_ok pool) batches" and "distinct pool" and "lv < unat per"
    and "\<forall>kc \<in> set pool. km kc = replicate (unat per) 0"
  shows "\<exists>e. l' = l @ e \<and> typed lv km e = concat (map (batch_values (\<lambda>kc. km kc ! lv)) batches)"
  using assms
proof (induction X per batches arbitrary: l rule: run_batches.induct)
  case (2 X per b batches)
  let ?e = "bind_log per (ba_bindings b) @ tap_log (ba_taps b)"
  have t: "typed lv km ?e = batch_values (\<lambda>kc. km kc ! lv) b" using "2.prems" by (intro batch_typed) simp_all
  show ?case
  proof (cases "batches = []")
    case True
    with "2.prems"(1) have "l' = l @ ?e" by (auto simp: rnd_simps rthen_def dest!: each_bind each_tap)
    with t True show ?thesis by simp
  next
    case False
    let ?r = "bind_log per (map (\<lambda>(kc, _). (kc, 0)) (ba_bindings b))"
    from "2.prems"(1) False have "run_batches X per batches (l @ ?e @ ?r) = (Inr (), l')"
      by (auto simp: rnd_simps rthen_def dest!: each_bind each_tap each_restore)
    with "2.IH" [OF False] "2.prems" obtain e where e: "l' = (l @ ?e @ ?r) @ e"
      "typed lv km e = concat (map (batch_values (\<lambda>kc. km kc ! lv)) batches)" by fastforce
    moreover have "keymap_after km (?e @ ?r) = km" using batch_restored [of pool b km per "ba_taps b"] "2.prems" by simp
    ultimately show ?thesis using t by (intro exI [of _ "?e @ ?r @ e"]) simp
  qed
qed (simp add: rret_def)

section \<open>The scratch keycodes\<close>

lemma keyboard_mapping_Inr:
  "keyboard_mapping X l = (Inr (per, kss), l') \<Longrightarrow>
   x_keyboard_mapping X (x_min_keycode X) (keycode_count X) l = Inr (per, kss) \<and> (\<exists>e. l' = l @ e \<and> quiet e)"
  by (auto simp: keyboard_mapping_def ask_def Let_def keycode_count_def split: sum.splits)

lemma distinct_keycodes: "distinct (keycodes X)"
proof -
  have "i = j" if "i < unat (keycode_count X)" "j < unat (keycode_count X)" "(of_nat i :: byte) = of_nat j" for i j
  proof -
    have "unat (keycode_count X) < 256" by (rule unat_byte_less)
    with that(1,2) have "unat (of_nat i :: byte) = i" "unat (of_nat j :: byte) = j" by (simp_all add: unat_of_nat)
    with that(3) show ?thesis by metis
  qed
  then show ?thesis by (auto simp: keycodes_def distinct_map inj_on_def)
qed

lemma pool_is:
  assumes "find_all_scratch_keycodes X l = (Inr (pool, per), l')" and "quiet l" and "reports X km"
  shows "pool = filter (\<lambda>kc. list_all (\<lambda>ks. ks = 0) (km kc)) (keycodes X)" "pool \<noteq> []" "distinct pool"
    "\<forall>kc \<in> set pool. km kc = replicate (unat per) 0" "\<exists>e. l' = l @ e \<and> quiet e"
proof -
  let ?f = "\<lambda>i. x_min_keycode X + of_nat i :: byte" and ?P = "list_all (\<lambda>ks. ks = (0 :: u32))"
  from assms(1) obtain kss where m: "keyboard_mapping X l = (Inr (per, kss), l')"
    and p: "pool = map (\<lambda>(i, _). ?f i) (filter (\<lambda>(_, c). ?P c) (enumerate 0 (chunks (unat per) kss)))" "pool \<noteq> []"
    by (auto simp: find_all_scratch_keycodes_def rnd_simps Let_def split: if_splits)
  note k = keyboard_mapping_Inr [OF m]
  then have c: "chunks (unat per) kss = map km (keycodes X)" "\<forall>kc \<in> set (keycodes X). length (km kc) = unat per"
    using assms(2,3) unfolding reports_def by blast+
  have "enumerate 0 (map km (keycodes X)) = map (\<lambda>i. (i, km (?f i))) [0..<unat (keycode_count X)]"
    by (simp add: keycodes_def enumerate_map_upt comp_def)
  then show pool: "pool = filter (\<lambda>kc. ?P (km kc)) (keycodes X)"
    by (simp add: p(1) c(1) keycodes_def filter_map comp_def)
  show "pool \<noteq> []" by (rule p(2))
  show "distinct pool" unfolding pool using distinct_keycodes by (rule distinct_filter)
  show "\<forall>kc \<in> set pool. km kc = replicate (unat per) 0"
    unfolding pool using c(2) by (auto simp: list_all_iff intro!: replicate_eqI)
  show "\<exists>e. l' = l @ e \<and> quiet e" using k by blast
qed

lemma genuine_key:
  assumes "keyboard_mapping X l = (Inr (per, kss), l')" and "quiet l" and "reports X km"
    and "keycode_for_keysym kss (unat per) (x_min_keycode X) ks = Some kc"
  shows "kc \<in> set (keycodes X)" "km kc \<noteq> []" "hd (km kc) = ks"
proof -
  have c: "chunks (unat per) kss = map km (keycodes X)"
    using keyboard_mapping_Inr [OF assms(1)] assms(2,3) unfolding reports_def by blast
  from assms(4) obtain i where i: "position (\<lambda>c. c \<noteq> [] \<and> hd c = ks) (map km (keycodes X)) = Some i" and kc: "kc = x_min_keycode X + of_nat i"
    by (auto simp: keycode_for_keysym_def c split: if_splits)
  then have b: "i < length (keycodes X)" "km (keycodes X ! i) \<noteq> []" "hd (km (keycodes X ! i)) = ks"
    by (auto simp: position_Some)
  moreover have "keycodes X ! i = kc" using b(1) by (simp add: keycodes_def kc)
  ultimately show "kc \<in> set (keycodes X)" "km kc \<noteq> []" "hd (km kc) = ks" using nth_mem by blast+
qed

lemma slots_real:
  assumes "keyboard_mapping X l = (Inr (per, kss), l')" and "quiet l" and "reports X km"
    and "Real kc \<in> set (map (slot_of kss (unat per) (x_min_keycode X)) keysyms)"
  shows "kc \<notin> set (filter (\<lambda>kc. list_all (\<lambda>ks. ks = 0) (km kc)) (keycodes X))"
proof -
  from assms(4) obtain ks where "keycode_for_keysym kss (unat per) (x_min_keycode X) ks = Some kc" "ks = KEYSYM_TAB \<or> ks = KEYSYM_RETURN"
    by (auto simp: slot_of_def split: if_splits option.splits)
  with genuine_key [OF assms(1-3), of ks kc] have "km kc \<noteq> []" "hd (km kc) \<noteq> 0"
    by (auto simp: KEYSYM_TAB_def KEYSYM_RETURN_def)
  then show ?thesis using hd_in_set [of "km kc"] by (auto simp: list_all_iff)
qed

lemma slots_value:
  assumes "keyboard_mapping X l = (Inr (per, kss), l')" and "quiet l" and "reports X km" and "lv = 0 \<or> ks \<noteq> KEYSYM_TAB \<and> ks \<noteq> KEYSYM_RETURN"
  shows "slot_value (\<lambda>kc. km kc ! lv) (slot_of kss (unat per) (x_min_keycode X) ks) = ks"
  using assms(4) genuine_key [OF assms(1-3), of ks] by (auto simp: slot_of_def hd_conv_nth split: option.split)

section \<open>Injection\<close>

lemma inject_plan:
  assumes "inject_planned X pool per keysyms l = (r, l')" and "quiet l" and "reports X km"
    and "pool = filter (\<lambda>kc. list_all (\<lambda>ks. ks = 0) (km kc)) (keycodes X)" and "pool \<noteq> []"
    and "lv = 0 \<or> KEYSYM_TAB \<notin> set keysyms \<and> KEYSYM_RETURN \<notin> set keysyms"
  obtains (nothing) e where "r \<noteq> Inr ()" "l' = l @ e" "quiet e"
  | (planned) e batches where "quiet e" "run_batches X per batches (l @ e) = (r, l')" "list_all (batch_ok pool) batches"
      "concat (map (batch_values (\<lambda>kc. km kc ! lv)) batches) = keysyms"
proof -
  obtain m l1 where k: "keyboard_mapping X l = (m, l1)" by (rule prod.exhaust)
  show ?thesis
  proof (cases m)
    case (Inl x)
    then have "r \<noteq> Inr ()" "l' = l1" using assms(1) k by (auto simp: inject_planned_def rbind_def)
    moreover obtain e where "l1 = l @ e" "quiet e" using sends_quiet [OF quiet_parts(1) k] by blast
    ultimately have "r \<noteq> Inr ()" "l' = l @ e" "quiet e" by simp_all
    then show ?thesis by (rule nothing)
  next
    case (Inr pk)
    then obtain kb kss where k: "keyboard_mapping X l = (Inr (kb, kss), l1)" using k by (cases pk) auto
    let ?slots = "map (slot_of kss (unat kb) (x_min_keycode X)) keysyms"
    obtain batches where b: "plan_batches ?slots pool = Inr batches"
      using plan_loop_total [OF assms(5)] unfolding plan_batches_def by blast
    obtain e where e: "l1 = l @ e" "quiet e" using keyboard_mapping_Inr [OF k] by blast
    have i: "plan_inv pool [] [] []" by (simp add: plan_inv_def batch_ok_def)
    have d: "distinct pool" unfolding assms(4) using distinct_keycodes by (rule distinct_filter)
    have rl: "\<forall>kc. Real kc \<in> set ?slots \<longrightarrow> kc \<notin> set pool" using slots_real [OF k assms(2,3)] unfolding assms(4) by blast
    have "map (slot_value (\<lambda>kc. km kc ! lv)) ?slots = keysyms"
      unfolding map_map using assms(6) by (intro map_idI) (auto intro!: slots_value [OF k assms(2,3)])
    with plan_loop_correct [OF b [unfolded plan_batches_def] d i rl, of "\<lambda>kc. km kc ! lv"] planned [OF e(2)] assms(1) k b e(1)
    show ?thesis by (auto simp: inject_planned_def rbind_def rlift_def)
  qed
qed

section \<open>The keymap afterwards\<close>

lemma within_keymap: "list_all (within P \<circ> fst) e \<Longrightarrow> kc \<notin> P \<Longrightarrow> keymap_after km e kc = km kc"
proof (induction e arbitrary: km)
  case (Cons x e)
  have "changed km x kc = km kc" using Cons.prems by (cases "(km, x)" rule: changed.cases) auto
  with Cons show ?case by simp
qed simp

lemma sends_within: "sends R m \<Longrightarrow> (\<And>q. R q \<Longrightarrow> within P q) \<Longrightarrow> m l = (r, l') \<Longrightarrow> \<exists>e. l' = l @ e \<and> list_all (within P \<circ> fst) e"
  using sends_weaken [of R m "within P"] unfolding sends_def by (metis snd_conv)

lemma batches_within: "list_all (batch_ok pool) batches \<Longrightarrow> sends (within (set pool)) (run_batches X per batches)"
proof (induction X per batches rule: run_batches.induct)
  case (2 X per b batches)
  have "map fst (ba_bindings b) = take (length (ba_bindings b)) pool" using "2.prems" by (simp add: batch_ok_def)
  then have p: "kc \<in> set pool" if "(kc, ks) \<in> set (ba_bindings b)" for kc ks
    using that image_eqI [of kc fst "(kc, ks)" "set (ba_bindings b)"] by (metis fst_conv in_set_takeD list.set_map)
  have "sends (within (set pool)) (each (bind_keycode X per) (ba_bindings b))"
    by (rule sends_each) (auto simp: bind_keycode_def p intro!: sends_tell)
  moreover have "sends (within (set pool)) (each (\<lambda>(kc, _). restore_keycode X per kc) (ba_bindings b))"
    by (rule sends_each) (auto simp: restore_keycode_def p intro!: sends_tell)
  moreover have "sends (within (set pool)) (each (tap_keycode X) (ba_taps b))"
    by (rule sends_each) (auto simp: tap_keycode_def intro!: sends_then sends_tell)
  ultimately show ?case using "2.IH" "2.prems" by (auto intro!: sends_then sends_simple)
qed (simp add: sends_simple)

lemma restore_all_log:
  "\<exists>bs. length bs = length pool \<and> snd (restore_all X per pool l) = l @ map2 (\<lambda>kc b. (ChangeKeyboardMapping kc per (replicate (unat per) 0), b)) pool bs"
proof (induction pool arbitrary: l)
  case (Cons kc pool)
  let ?q = "ChangeKeyboardMapping kc per (replicate (unat per) 0)"
  obtain r b where r: "restore_keycode X per kc l = (r, l @ [(?q, b)])"
    by (cases "x_change X ?q l") (auto simp: restore_keycode_def tell_def ask_def)
  obtain bs where bs: "length bs = length pool" "snd (restore_all X per pool (l @ [(?q, b)])) =
      (l @ [(?q, b)]) @ map2 (\<lambda>kc b. (ChangeKeyboardMapping kc per (replicate (unat per) 0), b)) pool bs" using Cons.IH by blast
  then have "snd (restore_all X per (kc # pool) l) = l @ map2 (\<lambda>kc b. (ChangeKeyboardMapping kc per (replicate (unat per) 0), b)) (kc # pool) (b # bs)"
    using r by (auto simp: rbind_snd rtry_def rlift_def split: prod.split)
  with bs(1) show ?case by (intro exI [of _ "b # bs"]) simp
qed (simp add: rret_def)

lemma accepted_restores:
  assumes "length bs = length pool" and "\<forall>kc. (ChangeKeyboardMapping kc per (replicate (unat per) 0), False) \<notin> set (map2 (\<lambda>kc b. (ChangeKeyboardMapping kc per (replicate (unat per) 0), b)) pool bs)"
  shows "map2 (\<lambda>kc b. (ChangeKeyboardMapping kc per (replicate (unat per) 0), b)) pool bs = bind_log per (map (\<lambda>kc. (kc, 0)) pool)"
  using assms by (induction pool bs rule: list_induct2') (auto simp: bind_log_def)

lemma pool_restored:
  assumes "distinct pool" and "\<forall>kc \<in> set pool. km kc = replicate (unat per) 0" and "\<And>kc. kc \<notin> set pool \<Longrightarrow> km1 kc = km kc"
  shows "keymap_after km1 (bind_log per (map (\<lambda>kc. (kc, 0)) pool)) = km"
proof
  fix kc
  have d: "distinct (map fst (map (\<lambda>kc. (kc, 0 :: u32)) pool))" using assms(1) by (simp add: comp_def)
  show "keymap_after km1 (bind_log per (map (\<lambda>kc. (kc, 0)) pool)) kc = km kc"
  proof (cases "kc \<in> set pool")
    case True
    then have "map_of (map (\<lambda>kc. (kc, 0 :: u32)) pool) kc = Some 0" by (simp add: map_of_eq_Some_iff [OF d])
    then show ?thesis using True assms(2) by (simp add: bind_log_keymap [OF d])
  next
    case False
    then have "map_of (map (\<lambda>kc. (kc, 0 :: u32)) pool) kc = None" by (auto simp: map_of_eq_None_iff)
    then show ?thesis using False assms(3) by (simp add: bind_log_keymap [OF d])
  qed
qed

text \<open>The shape of a run that got as far as injecting.\<close>

lemma type_keysyms_shape:
  assumes "type_keysyms X keysyms l = (r, l')" and "quiet l" and "reports X km"
  obtains (early) e where "l' = l @ e" "quiet e" "r = Inr () \<longrightarrow> keysyms = []"
  | (injected) pool per e0 l1 i l2 where "quiet e0" "pool = filter (\<lambda>kc. list_all (\<lambda>ks. ks = 0) (km kc)) (keycodes X)" "pool \<noteq> []"
      "distinct pool" "\<forall>kc \<in> set pool. km kc = replicate (unat per) 0"
      "inject_planned X pool per keysyms (l @ e0) = (i, l1)" "l2 = snd (restore_all X per pool l1)"
      "\<exists>b. l' = l2 @ [(Flush, b)]" "r = Inr () \<longrightarrow> i = Inr ()"
proof (cases "keysyms = []")
  case True
  then show ?thesis using early [of "[]"] assms(1) by (simp add: type_keysyms_def rret_def)
next
  case False
  let ?pre = "rbind (find_all_scratch_keycodes X) (\<lambda>p. rthen (wait_for_modifiers_released X) (rthen (release_held_modifiers X) (rret p)))"
  let ?post = "\<lambda>(pool, per). rbind (rtry (inject_planned X pool per keysyms)) (\<lambda>injected. rbind (rtry (restore_all X per pool)) (\<lambda>restored.
         rthen (tell X Flush) (rlift (and_then injected (\<lambda>_. restored)))))"
  have split: "type_keysyms X keysyms = rbind ?pre ?post"
    using False by (auto simp: type_keysyms_def rbind_def rthen_def rret_def fun_eq_iff split: prod.split sum.split)
  obtain x m where x: "?pre l = (x, m)" by (rule prod.exhaust)
  have "sends harmless ?pre" by (intro sends_bind sends_then quiet_parts sends_simple)
  then obtain e0 where e0: "m = l @ e0" "quiet e0" using sends_quiet x by blast
  show ?thesis
  proof (cases x)
    case (Inl err)
    then have "r \<noteq> Inr ()" "l' = l @ e0" using e0 assms(1) x by (auto simp: split rbind_def)
    then show ?thesis using early [of e0] e0(2) by blast
  next
    case (Inr pp)
    obtain pool per where pp: "pp = (pool, per)" by (rule prod.exhaust)
    with x Inr obtain lf where "find_all_scratch_keycodes X l = (Inr (pool, per), lf)" by (auto simp: rnd_simps rthen_def)
    note pool = pool_is [OF this assms(2,3)]
    obtain i l1 where i: "inject_planned X pool per keysyms (l @ e0) = (i, l1)" by (rule prod.exhaust)
    obtain rs l2 where rs: "restore_all X per pool l1 = (rs, l2)" by (rule prod.exhaust)
    have "\<exists>b. l' = l2 @ [(Flush, b)]" "r = Inr () \<longrightarrow> i = Inr ()"
      using assms(1) x e0(1) i rs Inr pp
      by (auto simp: split rbind_def rtry_def rthen_def tell_def ask_def rlift_def and_then_def split: sum.splits)
    then show ?thesis using injected [OF e0(2) pool(1-4) i, of l2] rs by simp
  qed
qed

section \<open>Properties of the injection\<close>

text \<open>What arrives in the focused window is exactly the planned sequence, in order, no matter how many distinct characters it
  has and how few free keycodes there are: at every level of the keymap where it has only characters, and at the base
  level with its separators.\<close>

lemma typing_is_exact:
  assumes "type_keysyms X keysyms l = (Inr (), l')" and "quiet l" and "reports X km"
    and "\<forall>kc \<in> set (keycodes X). lv < length (km kc)" and "lv = 0 \<or> KEYSYM_TAB \<notin> set keysyms \<and> KEYSYM_RETURN \<notin> set keysyms"
  shows "typed lv km l' = keysyms"
proof (cases rule: type_keysyms_shape [OF assms(1-3)])
  case (1 e)
  then show ?thesis using assms(2) by (simp add: quiet_typed)
next
  case (2 pool per e0 l1 i l2)
  obtain kc where kc: "kc \<in> set pool" using 2(3) by (cases pool) auto
  with 2(2,5) assms(4) have lv: "lv < unat per" by force
  obtain bs where l2: "l2 = l1 @ map2 (\<lambda>kc b. (ChangeKeyboardMapping kc per (replicate (unat per) 0), b)) pool bs"
    using restore_all_log [of pool X per l1] 2(7) by auto
  have quietly: "typed lv m (map2 (\<lambda>kc b. (ChangeKeyboardMapping kc per (replicate (unat per) 0), b)) pool bs) = []" for m
    by (induction pool bs arbitrary: m rule: list_induct2') simp_all
  have q: "quiet (l @ e0)" using assms(2) 2(1) by simp
  have "i = Inr ()" using 2(9) by simp
  then have inj: "inject_planned X pool per keysyms (l @ e0) = (Inr (), l1)" using 2(6) by simp
  have "typed lv km l1 = keysyms"
  proof (cases rule: inject_plan [OF inj q assms(3) 2(2,3) assms(5)])
    case (2 e batches)
    from run_batches_typed [OF 2(2,3) \<open>distinct pool\<close> lv \<open>\<forall>kc \<in> set pool. km kc = replicate (unat per) 0\<close>]
    obtain e' where "l1 = ((l @ e0) @ e) @ e'" "typed lv km e' = keysyms" using 2(4) by auto
    then show ?thesis using q 2(1) by (simp add: quiet_typed quiet_keymap)
  qed simp
  then show ?thesis using 2(8) l2 quietly by auto
qed

text \<open>C31. The keyboard is left as it was found, whatever request failed on the way: when the server accepts the requests that
  unmap the borrowed keycodes, no keycode keeps a character of the secret.\<close>

theorem keymap_is_restored:
  assumes "type_keysyms X keysyms l = (r, l')" and "quiet l" and "reports X km"
    and "\<forall>kc per. (ChangeKeyboardMapping kc per (replicate (unat per) 0), False) \<notin> set l'"
  shows "keymap_after km l' = km"
proof (cases rule: type_keysyms_shape [OF assms(1-3)])
  case (1 e)
  then show ?thesis using assms(2) by (simp add: quiet_keymap)
next
  case (2 pool per e0 l1 i l2)
  obtain bs where bs: "length bs = length pool" "l2 = l1 @ map2 (\<lambda>kc b. (ChangeKeyboardMapping kc per (replicate (unat per) 0), b)) pool bs"
    using restore_all_log [of pool X per l1] 2(7) by auto
  have e: "l2 = l1 @ bind_log per (map (\<lambda>kc. (kc, 0)) pool)"
    using bs assms(4) 2(8) accepted_restores [OF bs(1)] by auto
  have q: "quiet (l @ e0)" using assms(2) 2(1) by simp
  have "keymap_after km l1 kc = km kc" if "kc \<notin> set pool" for kc
  proof (cases rule: inject_plan [OF 2(6) q assms(3) 2(2,3) disjI1 [OF refl]])
    case (2 e batches)
    obtain e' where "l1 = ((l @ e0) @ e) @ e'" "list_all (within (set pool) \<circ> fst) e'"
      using sends_within [OF batches_within [OF 2(3)] _ 2(2)] by blast
    then show ?thesis using q 2(1) within_keymap [OF _ that] by (simp add: quiet_keymap)
  qed (use q in \<open>simp_all add: quiet_keymap\<close>)
  from pool_restored [OF 2(4,5) this] have "keymap_after km l2 = km" by (simp add: e)
  then show ?thesis using 2(8) by auto
qed

section \<open>Errors\<close>

lemma blank_ask [simp]: "ask q (blank_answer f) = ask q f"
proof
  fix l
  have "show_failure (blank_failure e) = show_failure e" for e by (cases e rule: blank_failure.cases) simp_all
  then show "ask q (blank_answer f) l = ask q f l" by (cases "f l") (simp_all add: ask_def blank_answer_def)
qed

lemma blank_fields [simp]:
  "x_connect (blank_server X) = x_connect X" "x_roots (blank_server X) = x_roots X" "x_min_keycode (blank_server X) = x_min_keycode X"
  "x_max_keycode (blank_server X) = x_max_keycode X" "x_delay (blank_server X) = x_delay X"
  "x_intern_atom (blank_server X) s = blank_answer (x_intern_atom X s)"
  "x_property32 (blank_server X) win a = blank_answer (x_property32 X win a)" "x_property8 (blank_server X) win a t = blank_answer (x_property8 X win a t)"
  "x_pointer_mask (blank_server X) = blank_answer (x_pointer_mask X)"
  "x_modifier_mapping (blank_server X) = blank_answer (x_modifier_mapping X)"
  "x_keyboard_mapping (blank_server X) k n = blank_answer (x_keyboard_mapping X k n)" "x_change (blank_server X) q = blank_answer (x_change X q)"
  by (simp_all add: blank_server_def)

lemma blank_tell [simp]: "tell (blank_server X) q = tell X q"
  by (simp add: tell_def)

lemma blank_wait: "wait_loop (blank_server X) root t l = wait_loop X root t l"
proof (induction X root t l rule: wait_loop.induct)
  case (1 X root t l)
  obtain r l1 where a: "ask (QueryPointer root) (x_pointer_mask X) l = (r, l1)" by (rule prod.exhaust)
  from 1 [OF a [symmetric]] show ?case
    by (subst (1 2) wait_loop.simps) (simp add: a Let_def split: sum.split)
qed

lemma blank_batches: "run_batches (blank_server X) per batches = run_batches X per batches"
  by (induction X per batches rule: run_batches.induct)
    (simp_all add: bind_keycode_def [abs_def] tap_keycode_def [abs_def] restore_keycode_def)

lemma blank_restore: "restore_all (blank_server X) per pool = restore_all X per pool"
  by (induction pool) (simp_all add: restore_keycode_def)

lemma blank_type: "type_keysyms (blank_server X) = type_keysyms X"
proof -
  have k: "keyboard_mapping (blank_server X) = keyboard_mapping X" by (simp add: keyboard_mapping_def)
  have w: "wait_for_modifiers_released (blank_server X) = wait_for_modifiers_released X"
    by (auto simp: wait_for_modifiers_released_def blank_wait fun_eq_iff split: list.split)
  have "inject_planned (blank_server X) = inject_planned X"
    by (intro ext) (simp add: inject_planned_def k blank_batches [abs_def])
  moreover have "find_all_scratch_keycodes (blank_server X) = find_all_scratch_keycodes X"
    unfolding find_all_scratch_keycodes_def k blank_fields ..
  moreover have "release_held_modifiers (blank_server X) = release_held_modifiers X"
    by (simp add: release_held_modifiers_def)
  ultimately show ?thesis by (intro ext) (simp only: type_keysyms_def w blank_restore blank_tell)
qed

lemma blank_fill: "fill_sequence (blank_server X) win seq = fill_sequence X win seq"
proof -
  have "request_activate (blank_server X) = request_activate X" "active_window (blank_server X) = active_window X"
    unfolding request_activate_def [abs_def] active_window_def [abs_def] blank_fields blank_ask blank_tell by simp_all
  then show ?thesis by (simp only: fill_sequence_def connect_def blank_fields blank_tell blank_type)
qed

text \<open>C32. No error of a fill shows a value the server rejected, which could be a character of the password: the result is the
  same whatever these values are.\<close>

theorem fill_errors_hide_values: "fill (blank_server X) win i w = fill X win i w"
  by (simp add: fill_def blank_fill [abs_def])

section \<open>The sequence\<close>

lemma keysym_cases:
  assumes "scalar n"
  shows "unat (char_to_keysym (of_nat n)) = n \<and> n < 256 \<or> unat (char_to_keysym (of_nat n)) = 0x01000000 + n"
proof -
  have u: "unat (of_nat n :: u32) = n" using assms by (simp add: unat_of_nat scalar_def)
  have "unat (0x01000000 + of_nat n :: u32) = 0x01000000 + n"
    using assms u by (simp add: unat_word_ariths scalar_def)
  then show ?thesis using u by (auto simp: char_to_keysym_def word_le_nat_alt)
qed

lemma keysym_text_char: "scalar n \<Longrightarrow> keysym_text (char_to_keysym (of_nat n)) = utf8_encode n"
  using keysym_cases [of n] by (auto simp: keysym_text_def)

lemma keysym_no_separator: "scalar n \<Longrightarrow> char_to_keysym (of_nat n) \<noteq> KEYSYM_TAB \<and> char_to_keysym (of_nat n) \<noteq> KEYSYM_RETURN"
  using keysym_cases [of n] by (auto simp: KEYSYM_TAB_def KEYSYM_RETURN_def)

lemma plan_text:
  assumes "utf8_valid (str_bytes s)"
  shows "concat (map keysym_text (plan_string s)) = s" and "KEYSYM_TAB \<notin> set (plan_string s)" and "KEYSYM_RETURN \<notin> set (plan_string s)"
proof -
  note c = chars_scalar_encode [OF assms]
  have sc: "scalar (codepoint x)" if "x \<in> set (utf8_chars s)" for x using c that by (simp add: list_all_iff)
  have "map keysym_text (plan_string s) = map (utf8_encode \<circ> codepoint) (utf8_chars s)"
    using sc by (simp add: plan_string_def keysym_text_char)
  with c show "concat (map keysym_text (plan_string s)) = s" by simp
  show "KEYSYM_TAB \<notin> set (plan_string s)" "KEYSYM_RETURN \<notin> set (plan_string s)"
    using sc keysym_no_separator by (fastforce simp: plan_string_def)+
qed

text \<open>The sequence of a login is its identifier, one Tab, its password and one Return: no character of either becomes a
  separator, and both texts can be read off the sequence.\<close>

theorem login_sequence_reads_back:
  assumes "utf8_valid (str_bytes username)" and "utf8_valid (str_bytes password)"
  shows "let seq = build_sequence username password;
             ks = takeWhile (\<lambda>k. k \<noteq> KEYSYM_TAB) seq;
             rest = drop (Suc (length ks)) seq
         in filter (\<lambda>k. k = KEYSYM_TAB \<or> k = KEYSYM_RETURN) seq = [KEYSYM_TAB, KEYSYM_RETURN]
          \<and> concat (map keysym_text ks) = username \<and> concat (map keysym_text (butlast rest)) = password"
proof -
  note u = plan_text [OF assms(1)] and p = plan_text [OF assms(2)]
  have "takeWhile (\<lambda>k. k \<noteq> KEYSYM_TAB) (build_sequence username password) = plan_string username"
    using u(2) by (auto simp: build_sequence_def takeWhile_append takeWhile_eq_all_conv)
  moreover have "filter (\<lambda>k. k = KEYSYM_TAB \<or> k = KEYSYM_RETURN) (plan_string s) = []" if "utf8_valid (str_bytes s)" for s
    using plan_text(2,3) [OF that] by (auto simp: filter_empty_conv)
  ultimately show ?thesis using assms u(1) p(1) by (simp add: Let_def build_sequence_def butlast_append)
qed

section \<open>Filling a login\<close>

lemma fill_split:
  assumes "fill X win i w [] = (r, l)" and "\<not> quiet l \<or> r = Inr ()"
  shows "\<exists>e root l1 l2. is_vault_unlocked w \<and> fst (get_entry i w) = Inr (Login e) \<and> quiet l1
    \<and> active_window X root l1 = (Inr (Some win), l2) \<and> quiet l2
    \<and> type_keysyms X (build_sequence (login_identifier (le_username e) (le_email e)) (le_password e)) l2 = (r, l)"
proof -
  from assms obtain seq where w: "is_vault_unlocked w" and q: "and_then (fst (get_entry i w)) login_sequence = Inr seq"
    and f: "fill_sequence X win seq [] = (r, l)"
    by (auto simp: fill_def rbind_def rlift_def res_map_err_def and_then_def split: if_splits sum.splits)
  then obtain e where e: "fst (get_entry i w) = Inr (Login e)" "seq = build_sequence (login_identifier (le_username e) (le_email e)) (le_password e)"
    by (auto simp: and_then_Inr elim!: login_sequence.elims)
  from f assms(2) obtain screen where f: "x_connect X = Inr screen" "screen < length (x_roots X)"
    by (auto simp: fill_sequence_def rbind_def connect_def rlift_def rret_def split: sum.splits if_splits)
  let ?root = "x_roots X ! screen"
  let ?pre = "rthen (request_activate X ?root win) (tell X Flush)"
  obtain a l1 where a: "?pre [] = (a, l1)" by (rule prod.exhaust)
  have "sends harmless ?pre" by (intro quiet_intros quiet_parts) simp
  from sends_quiet [OF this a] have l1: "quiet l1" by auto
  obtain v l2 where v: "active_window X ?root l1 = (v, l2)" by (rule prod.exhaust)
  have l2: "quiet l2" using sends_quiet [OF quiet_parts(5) v] l1 by auto
  have "fill_sequence X win seq [] = (case a of Inl err \<Rightarrow> (Inl err, l1) | Inr _ \<Rightarrow>
      (case v of Inl err \<Rightarrow> (Inl err, l2) | Inr active \<Rightarrow> if \<not> focus_matches active win
        then (Inl (Err ''focus did not return to the target window; aborted before typing''), l2) else type_keysyms X seq l2))"
    using a v f by (auto simp: fill_sequence_def connect_def rbind_def rthen_def rret_def rlift_def Let_def split: sum.splits prod.splits)
  with \<open>fill_sequence X win seq [] = (r, l)\<close> assms(2) l1 l2 have "v = Inr (Some win) \<and> type_keysyms X seq l2 = (r, l)"
    by (auto simp: focus_matches_def split: sum.splits if_splits)
  with w e l1 l2 v show ?thesis by blast
qed

text \<open>C30. A key is pressed, or the keyboard changed, only for a login of the unlocked vault and only after the window manager
  reported the chosen window as the active one.\<close>

theorem fill_types_only_into_target:
  assumes "fill X win i w [] = (r, l)" and "\<not> quiet l"
  shows "\<exists>e root l1 l2. is_vault_unlocked w \<and> fst (get_entry i w) = Inr (Login e) \<and> quiet l1
    \<and> active_window X root l1 = (Inr (Some win), l2) \<and> quiet l2
    \<and> type_keysyms X (build_sequence (login_identifier (le_username e) (le_email e)) (le_password e)) l2 = (r, l)"
  using fill_split [OF assms(1)] assms(2) by blast

lemma sequence_parts:
  assumes "utf8_valid (str_bytes ident)" and "utf8_valid (str_bytes password)"
  shows "\<exists>ks ks'. build_sequence ident password = ks @ [0xff09] @ ks' @ [0xff0d] \<and> {0xff09, 0xff0d} \<inter> set (ks @ ks') = {}
    \<and> concat (map keysym_text ks) = ident \<and> concat (map keysym_text ks') = password"
  using plan_text [OF assms(1)] plan_text [OF assms(2)]
  by (intro exI [of _ "plan_string ident"] exI [of _ "plan_string password"])
    (auto simp: build_sequence_def KEYSYM_TAB_def KEYSYM_RETURN_def)

text \<open>C29. A fill that reports success has typed the login and nothing else: first the keysyms of the user name, or of the email
  address where the user name is empty, then one Tab (0xff09), then those of the password, and last one Return (0xff0d). Neither
  text contributes a Tab or a Return of its own, and read as X11 assigns keysyms to characters they give back exactly the two
  strings, which are UTF-8 as every string of the program is.\<close>

theorem fill_types_the_login:
  assumes "fill X win i w [] = (Inr (), l)" and "reports X km" and "\<forall>kc \<in> set (keycodes X). km kc \<noteq> []"
  shows "\<exists>e. fst (get_entry i w) = Inr (Login e)
    \<and> (\<forall>ident. ident = (if le_username e = [] then case le_email e of None \<Rightarrow> [] | Some m \<Rightarrow> m else le_username e)
          \<and> utf8_valid (str_bytes ident) \<and> utf8_valid (str_bytes (le_password e)) \<longrightarrow>
        (\<exists>ks ks'. typed 0 km l = ks @ [0xff09] @ ks' @ [0xff0d] \<and> {0xff09, 0xff0d} \<inter> set (ks @ ks') = {}
          \<and> concat (map keysym_text ks) = ident \<and> concat (map keysym_text ks') = le_password e))"
proof -
  from fill_split [OF assms(1)] obtain e root l1 l2 where e: "fst (get_entry i w) = Inr (Login e)" "quiet l2"
    "type_keysyms X (build_sequence (login_identifier (le_username e) (le_email e)) (le_password e)) l2 = (Inr (), l)" by auto
  have "login_identifier (le_username e) (le_email e) = (if le_username e = [] then case le_email e of None \<Rightarrow> [] | Some m \<Rightarrow> m else le_username e)"
    by (cases "le_email e") (simp_all add: login_identifier_def)
  with typing_is_exact [OF e(3,2) assms(2), of 0] assms(3) e(1) sequence_parts show ?thesis by auto
qed

lemma sample_codes: "keycode_count sample_server = 3" "keycodes sample_server = [8, 9, 10]"
  by (simp_all add: keycode_count_def sample_server_def keycodes_def upt_rec)

lemma sample_reports: "reports sample_server sample_keymap"
  by (auto simp: reports_def sample_codes) (simp_all add: sample_server_def sample_keymap_def chunks.simps)

section \<open>Runs that succeed\<close>

lemma succeeds_bind: "succeeds m \<Longrightarrow> (\<And>x. succeeds (f x)) \<Longrightarrow> succeeds (rbind m f)"
  unfolding succeeds_def rbind_def by (metis (no_types, lifting) case_prod_conv sum.simps(6))

lemma succeeds_then: "succeeds m \<Longrightarrow> succeeds n \<Longrightarrow> succeeds (rthen m n)"
  unfolding rthen_def by (rule succeeds_bind)

lemma succeeds_ret: "succeeds (rret x)"
  by (simp add: succeeds_def rret_def)

lemma succeeds_each: "(\<And>x. succeeds (f x)) \<Longrightarrow> succeeds (each f xs)"
  by (induction xs) (auto intro: succeeds_then succeeds_ret)

lemma succeeds_ask: "(\<And>l. \<exists>x. f l = Inr x) \<Longrightarrow> succeeds (ask q f)"
  unfolding succeeds_def ask_def by (metis sum.simps(6))

lemma serves_answers:
  assumes "serves X win"
  shows "\<exists>a. x_intern_atom X s l = Inr a" "\<exists>ks. x_modifier_mapping X l = Inr ks" "\<exists>per kss. per \<noteq> 0 \<and> x_keyboard_mapping X k n l = Inr (per, kss)"
  using assms unfolding serves_def by blast+

lemma succeeds_tell: "serves X win \<Longrightarrow> succeeds (tell X q)"
  by (simp add: succeeds_def tell_def ask_def serves_def)

lemma succeeds_restore: "serves X win \<Longrightarrow> succeeds (restore_all X per pool)"
proof (induction pool)
  case (Cons kc pool)
  have t: "restore_keycode X per kc l = (Inr (), l @ [(ChangeKeyboardMapping kc per (replicate (unat per) 0), True)])" for l
    using Cons.prems by (simp add: restore_keycode_def tell_def ask_def serves_def)
  show ?case unfolding succeeds_def
  proof
    fix l
    obtain l' where "restore_all X per pool (l @ [(ChangeKeyboardMapping kc per (replicate (unat per) 0), True)]) = (Inr (), l')"
      using Cons unfolding succeeds_def by (metis old.unit.exhaust)
    then show "\<exists>x l'. restore_all X per (kc # pool) l = (Inr x, l')"
      by (simp add: rbind_def rtry_def t rlift_def and_then_def)
  qed
qed (simp add: succeeds_ret)

lemma succeeds_batches: "serves X win \<Longrightarrow> succeeds (run_batches X per batches)"
  by (induction X per batches rule: run_batches.induct)
    (auto simp: bind_keycode_def tap_keycode_def restore_keycode_def intro!: succeeds_then succeeds_each succeeds_tell succeeds_ret
      split: prod.split)

lemma wait_succeeds: "serves X win \<Longrightarrow> \<exists>l'. wait_loop X root t l = (Inr (), l')"
proof (induction X root t l rule: wait_loop.induct)
  case (1 X root t l)
  obtain m where m: "x_pointer_mask X l = Inr m" using "1.prems" unfolding serves_def by blast
  let ?l = "l @ [(QueryPointer root, True)]"
  have a: "ask (QueryPointer root) (x_pointer_mask X) l = (Inr m, ?l)" by (simp add: ask_def m)
  from "1.IH" [OF a [symmetric] refl refl] "1.prems" show ?case by (subst wait_loop.simps) (simp add: a Let_def)
qed

lemma inject_succeeds:
  assumes "serves X win" and "pool \<noteq> []"
  shows "succeeds (inject_planned X pool per keysyms)"
proof -
  have k: "succeeds (keyboard_mapping X)"
    unfolding keyboard_mapping_def Let_def by (rule succeeds_ask) (use serves_answers(3) [OF assms(1)] in blast)
  have b: "succeeds (rbind (rlift (plan_batches slots pool)) (run_batches X per))" for slots
    using plan_loop_total [OF assms(2), of "[]" "[]" "[]" slots] succeeds_batches [OF assms(1)]
    by (auto simp: plan_batches_def rbind_rlift_Inr)
  show ?thesis unfolding inject_planned_def by (rule succeeds_bind [OF k]) (simp add: split_beta b)
qed

lemma type_succeeds:
  assumes "serves X win" and "reports X km" and "quiet l" and "kc \<in> set (keycodes X)" and "list_all (\<lambda>ks. ks = 0) (km kc)"
  shows "\<exists>l'. type_keysyms X keysyms l = (Inr (), l')"
proof (cases "keysyms = []")
  case False
  obtain per kss where "per \<noteq> 0" "x_keyboard_mapping X (x_min_keycode X) (keycode_count X) l = Inr (per, kss)"
    using serves_answers(3) [OF assms(1)] by blast
  then obtain l1 where k: "per \<noteq> 0" "keyboard_mapping X l = (Inr (per, kss), l1)"
    by (simp add: keyboard_mapping_def ask_def Let_def keycode_count_def)
  have c: "chunks (unat per) kss = map km (keycodes X)"
    using keyboard_mapping_Inr [OF k(2)] assms(2,3) unfolding reports_def by blast
  obtain j where "j < length (keycodes X)" "keycodes X ! j = kc" using assms(4) by (auto simp: in_set_conv_nth)
  then have "(j, km kc) \<in> set (enumerate 0 (chunks (unat per) kss))" by (force simp: c in_set_enumerate_eq)
  then have "(j, km kc) \<in> set (filter (\<lambda>(_, chunk). list_all (\<lambda>ks. ks = 0) chunk) (enumerate 0 (chunks (unat per) kss)))"
    using assms(5) by simp
  then have "filter (\<lambda>(_, chunk). list_all (\<lambda>ks. ks = 0) chunk) (enumerate 0 (chunks (unat per) kss)) \<noteq> []"
    by (metis empty_iff list.set(1))
  then obtain pool where f: "find_all_scratch_keycodes X l = (Inr (pool, per), l1)" "pool \<noteq> []"
    using k unfolding find_all_scratch_keycodes_def rbind_def k(2) Let_def rret_def by simp
  obtain root roots where "x_roots X = root # roots" using assms(1) by (cases "x_roots X") (auto simp: serves_def)
  then obtain l2 where w: "wait_for_modifiers_released X l1 = (Inr (), l2)"
    using wait_succeeds [OF assms(1), of root 0 l1] by (auto simp: wait_for_modifiers_released_def)
  have "succeeds (release_held_modifiers X)" unfolding release_held_modifiers_def
    by (intro succeeds_bind succeeds_ask succeeds_each succeeds_tell [OF assms(1)] serves_answers(2) [OF assms(1)])
  then obtain l3 where r: "release_held_modifiers X l2 = (Inr (), l3)" unfolding succeeds_def by (metis old.unit.exhaust)
  obtain l4 where i: "inject_planned X pool per keysyms l3 = (Inr (), l4)"
    using inject_succeeds [OF assms(1) f(2)] unfolding succeeds_def by (metis old.unit.exhaust)
  obtain l5 where s: "restore_all X per pool l4 = (Inr (), l5)"
    using succeeds_restore [OF assms(1)] unfolding succeeds_def by (metis old.unit.exhaust)
  obtain l6 where "tell X Flush l5 = (Inr (), l6)" using succeeds_tell [OF assms(1)] unfolding succeeds_def by (metis old.unit.exhaust)
  then show ?thesis using False f(1) w r i s by (simp add: type_keysyms_def rbind_def rthen_def rtry_def rlift_def and_then_def)
qed (simp add: type_keysyms_def rret_def)

lemma fill_runs:
  assumes "serves X win" and "reports X km" and "kc \<in> set (keycodes X)" and "list_all (\<lambda>ks. ks = 0) (km kc)"
    and "is_vault_unlocked w" and "fst (get_entry i w) = Inr (Login e)"
  shows "\<exists>l. fill X win i w [] = (Inr (), l)"
proof -
  let ?seq = "build_sequence (login_identifier (le_username e) (le_email e)) (le_password e)"
  obtain n where n: "n < length (x_roots X)" "x_connect X = Inr n" using assms(1) unfolding serves_def by blast
  let ?root = "x_roots X ! n"
  have "succeeds (request_activate X ?root win)" unfolding request_activate_def
    using succeeds_tell [OF assms(1)] serves_answers(1) [OF assms(1)] by (auto intro!: succeeds_bind succeeds_ask succeeds_ret)
  then obtain l1 where r: "request_activate X ?root win [] = (Inr (), l1)" unfolding succeeds_def by (metis old.unit.exhaust)
  obtain l2 where f: "tell X Flush l1 = (Inr (), l2)" using succeeds_tell [OF assms(1)] unfolding succeeds_def by (metis old.unit.exhaust)
  obtain a where a: "x_intern_atom X ''_NET_ACTIVE_WINDOW'' l2 = Inr a" "a \<noteq> 0" using assms(1) unfolding serves_def by blast
  obtain vs where "x_property32 X ?root a (l2 @ [(InternAtom ''_NET_ACTIVE_WINDOW'', True)]) = Inr (win # vs)"
    using assms(1) unfolding serves_def by blast
  with a assms(1) obtain l3 where v: "active_window X ?root l2 = (Inr (Some win), l3)"
    by (auto simp: active_window_def rbind_def ask_def rret_def first_active_window_def serves_def)
  have "quiet l3" using sends_quiet [OF quiet_parts(6) r] sends_quiet [OF sends_tell f] sends_quiet [OF quiet_parts(5) v] by auto
  from type_succeeds [OF assms(1,2) this assms(3,4)] obtain l where "type_keysyms X ?seq l3 = (Inr (), l)" by blast
  then have "fill_sequence X win ?seq [] = (Inr (), l)"
    using n r f v by (simp add: fill_sequence_def connect_def rbind_def rthen_def rret_def Let_def focus_matches_def)
  then show ?thesis using assms(5,6) by (simp add: fill_def rbind_def rlift_def res_map_err_def)
qed

text \<open>A fill of a login of the unlocked vault comes to its end and succeeds when the server answers, the window keeps the focus
  and one keycode is free, even if the user never lets go of the modifier keys.\<close>

theorem fill_succeeds:
  assumes "serves X win" and "reports X km" and "kc \<in> set (keycodes X)" and "list_all (\<lambda>ks. ks = 0) (km kc)"
    and "is_vault_unlocked w" and "fst (get_entry i w) = Inr (Login e)"
  shows "\<exists>l. fill X win i w [] = (Inr (), l)"
  using assms by (rule fill_runs)

lemma sample_login_entry:
  "is_vault_unlocked sample_world" "\<exists>e. sample_local = Login e \<and> fst (get_entry ''1'' sample_world) = Inr (Login e)"
proof -
  show u: "is_vault_unlocked sample_world" by (simp add: is_vault_unlocked_def sample_world_def)
  have "get_session sample_world = (Inr open_vault_session, sample_world)" by (rule get_session_open) (simp_all add: sample_world_def)
  then have "fst (get_entry ''1'' sample_world) = Inr sample_local"
    by (simp add: get_entry_def find_entry_def rbind_def rret_def open_vault_session_def sample_session_def entry_id_def sample_local_def
        sample_login_def sample_meta_def)
  then show "\<exists>e. sample_local = Login e \<and> fst (get_entry ''1'' sample_world) = Inr (Login e)" by (auto simp: sample_local_def)
qed

lemma sample_serves: "serves sample_server 7"
  by (auto simp: serves_def sample_server_def)

theorem fill_succeeds_witness: "\<exists>l. fill sample_server 7 ''1'' sample_world [] = (Inr (), l)"
proof -
  obtain e where "fst (get_entry ''1'' sample_world) = Inr (Login e)" using sample_login_entry(2) by blast
  from fill_succeeds [OF sample_serves sample_reports _ _ sample_login_entry(1) this, of 10] show ?thesis
    by (simp add: sample_codes sample_keymap_def)
qed

lemma sample_run: "type_keysyms sample_server [0x61, 0x62] [] = (Inr (),
   [(GetKeyboardMapping 8 3, True), (QueryPointer 1, True), (GetModifierMapping, True), (GetKeyboardMapping 8 3, True),
    (ChangeKeyboardMapping 10 1 [0x61], True), (FakeInput True 10, True), (FakeInput False 10, True),
    (ChangeKeyboardMapping 10 1 [0], True),
    (ChangeKeyboardMapping 10 1 [0x62], True), (FakeInput True 10, True), (FakeInput False 10, True),
    (ChangeKeyboardMapping 10 1 [0], True), (Flush, True)])"
  by code_simp

theorem keymap_is_restored_witness:
  "keymap_after sample_keymap (snd (type_keysyms sample_server [0x61, 0x62] [])) = sample_keymap"
  unfolding sample_run snd_conv by (rule keymap_is_restored [OF sample_run _ sample_reports]) simp_all

lemma sample_typed:
  "\<exists>e l. sample_local = Login e \<and> fst (get_entry ''1'' sample_world) = Inr (Login e) \<and> fill sample_server 7 ''1'' sample_world [] = (Inr (), l)
     \<and> \<not> quiet l"
proof -
  obtain e where e: "sample_local = Login e" "fst (get_entry ''1'' sample_world) = Inr (Login e)" using sample_login_entry(2) by blast
  obtain l where l: "fill sample_server 7 ''1'' sample_world [] = (Inr (), l)"
    using fill_runs [OF sample_serves sample_reports _ _ sample_login_entry(1) e(2), of 10] by (auto simp: sample_codes sample_keymap_def)
  from fill_split [OF l] obtain e' :: LoginEntry and l2 where t: "quiet l2"
    "type_keysyms sample_server (build_sequence (login_identifier (le_username e') (le_email e')) (le_password e')) l2 = (Inr (), l)" by auto
  have "typed 0 sample_keymap l \<noteq> []"
    using typing_is_exact [OF t(2,1) sample_reports, of 0] by (simp add: sample_keymap_def build_sequence_def)
  then have "\<not> quiet l" using quiet_typed by blast
  with e l show ?thesis by blast
qed

theorem fill_types_the_login_witness:
  "\<exists>l ks ks'. fill sample_server 7 ''1'' sample_world [] = (Inr (), l) \<and> typed 0 sample_keymap l = ks @ [0xff09] @ ks' @ [0xff0d]
     \<and> Inr (concat (map keysym_text ks), concat (map keysym_text ks'))
       = and_then (fst (get_entry ''1'' sample_world)) (\<lambda>x. case x of Login e \<Rightarrow> Inr (le_username e, le_password e) | _ \<Rightarrow> Inl Panic)"
proof -
  obtain e l where e: "sample_local = Login e" "fst (get_entry ''1'' sample_world) = Inr (Login e)"
    "fill sample_server 7 ''1'' sample_world [] = (Inr (), l)" using sample_typed by blast
  have v: "utf8_valid (str_bytes ''alice'')" "utf8_valid (str_bytes ''mine'')" by code_simp+
  have f: "le_username e = ''alice''" "le_password e = ''mine''" using e(1) by (auto simp: sample_local_def sample_login_def)
  have "\<forall>kc \<in> set (keycodes sample_server). sample_keymap kc \<noteq> []" by (simp add: sample_keymap_def)
  from fill_types_the_login [OF e(3) sample_reports this] v e(2) f obtain ks ks' where
    "typed 0 sample_keymap l = ks @ [0xff09] @ ks' @ [0xff0d]" "concat (map keysym_text ks) = ''alice''" "concat (map keysym_text ks') = ''mine''"
    by auto
  with e(2,3) f show ?thesis by (intro exI [of _ l] exI [of _ ks] exI [of _ ks']) (simp add: and_then_def)
qed

theorem fill_types_only_into_target_witness:
  "\<exists>l root l1 l2. fill sample_server 7 ''1'' sample_world [] = (Inr (), l) \<and> \<not> quiet l
     \<and> active_window sample_server root l1 = (Inr (Some 7), l2)"
proof -
  obtain l where l: "fill sample_server 7 ''1'' sample_world [] = (Inr (), l)" "\<not> quiet l" using sample_typed by blast
  from fill_types_only_into_target [OF l] l show ?thesis by blast
qed

theorem login_sequence_reads_back_witness:
  "let seq = build_sequence ''me'' ''pw''; ks = takeWhile (\<lambda>k. k \<noteq> KEYSYM_TAB) seq in concat (map keysym_text ks) = ''me''"
proof -
  have v: "utf8_valid (str_bytes ''me'')" "utf8_valid (str_bytes ''pw'')" by code_simp+
  from login_sequence_reads_back [OF v] show ?thesis by (simp add: Let_def)
qed

section \<open>The captured window\<close>

lemma lossy_valid: "utf8_valid bs \<Longrightarrow> utf8_lossy bs = bytes_str bs"
proof (induction bs rule: utf8_lossy.induct)
  case (1 bs)
  show ?case
  proof (cases "bs = []")
    case False
    with "1.prems" have v: "utf8_width bs \<noteq> 0" "utf8_valid (drop (utf8_width bs) bs)"
      using utf8_valid.simps [of bs] by (auto split: if_splits)
    have "bytes_str (take (utf8_width bs) bs) @ bytes_str (drop (utf8_width bs) bs) = bytes_str bs"
      by (simp add: bytes_str_def flip: map_append)
    with "1.IH"(1) [OF False v] v False show ?thesis by (subst utf8_lossy.simps) simp
  qed (simp add: utf8_lossy.simps)
qed

lemma wm_class_reads_back:
  assumes "utf8_valid a" and "utf8_valid b" and "0 \<notin> set a" and "0 \<notin> set b"
  shows "parse_wm_class (a @ [0] @ b @ [0]) = Some (bytes_str a, bytes_str b)"
proof -
  have t: "takeWhile (\<lambda>b. b \<noteq> 0) (x @ 0 # y) = x" if "0 \<notin> set x" for x y :: bytes
    using that by (induction x) auto
  show ?thesis using assms t [of a "b @ [0]"] t [of b "[]"] by (simp add: parse_wm_class_def Let_def lossy_valid)
qed

text \<open>Capturing the window that is to be filled touches nothing, and a class or title that cannot be read never hides the
  window itself.\<close>

theorem capture_keeps_the_window:
  assumes "active_window X root l = (Inr (Some i), l1)"
  shows "\<exists>c e. capture_active X root l = (Inr (Some c), l1 @ e) \<and> quiet e \<and> cw_id c = i"
proof -
  obtain c l2 where c: "wm_class X i l1 = (c, l2)" by (rule prod.exhaust)
  obtain t l3 where t: "window_title X i l2 = (t, l3)" by (rule prod.exhaust)
  have w: "sends harmless (wm_class X i)" unfolding wm_class_def by (intro quiet_intros) simp
  have "sends harmless (window_title X i)" unfolding window_title_def by (auto intro!: quiet_intros)
  with sends_quiet [OF w c] t obtain e1 e2 where "l2 = l1 @ e1" "l3 = l2 @ e2" "quiet e1" "quiet e2" using sends_quiet by metis
  then show ?thesis using assms c t
    by (intro exI [of _ "\<lparr>cw_id = i, cw_class = ok_flatten c, cw_title = ok_flatten t\<rparr>"] exI [of _ "e1 @ e2"])
      (simp add: capture_active_def rbind_def rtry_def rret_def)
qed

theorem capture_keeps_the_window_witness:
  "\<exists>c l. capture_active sample_server 1 [] = (Inr (Some c), l) \<and> cw_id c = 7"
proof -
  have "active_window sample_server 1 [] = (Inr (Some 7), [(InternAtom ''_NET_ACTIVE_WINDOW'', True), (GetProperty 1 5, True)])"
    by (simp add: active_window_def rbind_def ask_def sample_server_def rret_def first_active_window_def)
  from capture_keeps_the_window [OF this] show ?thesis by auto
qed

text \<open>A fill is started for exactly the connections that carry the token; no other connection, and no failed one, stops the
  listener.\<close>

lemma serve_exact: "serve conns = map (\<lambda>c. c = Inr (str_bytes TRIGGER_TOKEN)) conns"
  by (induction conns) (auto simp: accept_one_def split: sum.split bool.split)

end
