(* ===== verification/Trigger.thy ===== *)
theory Trigger
  imports Autotype
begin

text \<open>
  What starts a fill from outside: the trigger socket (\<open>rust/src/autotype/trigger.rs\<close>, \<open>rust/src/bin/gabbro-autotype.rs\<close>), the calls of
  \<open>rust/src/api/autotype_bridge.rs\<close> and, on Android, the functions the autofill service calls
  (\<open>rust/src/api/autofill_bridge.rs\<close>). The sockets of the system are a map from paths to nodes with a queue of connections per listener; every
  call can fail as the list of faults to come says, a write after a part of the bytes.

  The listener \<open>serve\<close> is the one of the development tool; the application listens in Dart, with the path and the token it gets from here.

  Shown: every trigger reported as sent to a bound socket makes \<open>serve\<close> call its handler exactly once unless reading the connection fails,
  and anything else that arrives calls it never; binding again takes the path away from a listener that is still alive; a locked
  vault gives the autofill service nothing.
\<close>

section \<open>Sockets\<close>

datatype socket_node = Socket nat | Plain | Directory

record sockets =
  sk_node :: "path \<Rightarrow> socket_node option"
  sk_queue :: "nat \<Rightarrow> bytes list option"
  sk_next :: nat
  sk_faults :: "fault list"

type_synonym 'a socket_run = "sockets \<Rightarrow> (io_error + 'a) \<times> sockets"

definition sk_call :: "(sockets \<Rightarrow> (io_error + 'a) \<times> sockets) \<Rightarrow> (nat \<Rightarrow> sockets \<Rightarrow> sockets) \<Rightarrow> 'a socket_run" where
  "sk_call f broken w =
     (case sk_faults w of
        Fault e n # fs \<Rightarrow> (Inl e, broken n (w\<lparr>sk_faults := fs\<rparr>))
      | NoFault # fs \<Rightarrow> f (w\<lparr>sk_faults := fs\<rparr>)
      | [] \<Rightarrow> f w)"

definition sk_create_dir_all :: "unit socket_run" where
  "sk_create_dir_all = sk_call (\<lambda>w. (Inr (), w)) (\<lambda>_ w. w)"

definition sk_remove_file :: "path \<Rightarrow> unit socket_run" where
  "sk_remove_file p = sk_call (\<lambda>w. case sk_node w p of
     None \<Rightarrow> (Inl NotFound, w)
   | Some Directory \<Rightarrow> (Inl eisdir, w)
   | Some _ \<Rightarrow> (Inr (), w\<lparr>sk_node := (sk_node w)(p := None)\<rparr>)) (\<lambda>_ w. w)"

definition sk_listen :: "path \<Rightarrow> nat socket_run" where
  "sk_listen p = sk_call (\<lambda>w. case sk_node w p of
     Some _ \<Rightarrow> (Inl (IoError ''Address already in use (os error 98)''), w)
   | None \<Rightarrow> (Inr (sk_next w), w\<lparr>sk_node := (sk_node w)(p := Some (Socket (sk_next w))),
       sk_queue := (sk_queue w)(sk_next w := Some []), sk_next := Suc (sk_next w)\<rparr>)) (\<lambda>_ w. w)"

definition refused :: io_error where
  "refused = IoError ''Connection refused (os error 111)''"

definition sk_connect :: "path \<Rightarrow> nat socket_run" where
  "sk_connect p = sk_call (\<lambda>w. case sk_node w p of
     None \<Rightarrow> (Inl NotFound, w)
   | Some (Socket l) \<Rightarrow> (if sk_queue w l = None then (Inl refused, w) else (Inr l, w))
   | Some _ \<Rightarrow> (Inl refused, w)) (\<lambda>_ w. w)"

text \<open>What a connection carries when it is closed: all the bytes, or those before the fault.\<close>

definition deliver :: "nat \<Rightarrow> bytes \<Rightarrow> sockets \<Rightarrow> sockets" where
  "deliver l bs w = w\<lparr>sk_queue := (sk_queue w)(l := map_option (\<lambda>q. q @ [bs]) (sk_queue w l))\<rparr>"

definition sk_write_all :: "nat \<Rightarrow> bytes \<Rightarrow> unit socket_run" where
  "sk_write_all l bs = sk_call (\<lambda>w. (Inr (), deliver l bs w)) (\<lambda>n. deliver l (take (min n (length bs - 1)) bs))"

section \<open>The trigger\<close>

definition io_failed :: "io_error \<Rightarrow> err" where
  "io_failed e = Err (''trigger socket I/O failed: '' @ show_io e)"

definition default_socket_path :: "path option \<Rightarrow> path \<Rightarrow> path" where
  "default_socket_path xdg temp_dir = socket_path xdg temp_dir"

text \<open>\<open>Path::parent\<close> is \<open>None\<close> for the root and for the empty path.\<close>

definition has_parent :: "path \<Rightarrow> bool" where
  "has_parent p = (\<exists>c \<in> set p. c \<noteq> CHR ''/'')"

definition bind :: "path \<Rightarrow> sockets \<Rightarrow> nat res \<times> sockets" where
  "bind p w =
     (case (if has_parent p then sk_create_dir_all w else (Inr (), w)) of
        (Inl e, w1) \<Rightarrow> (Inl (io_failed e), w1)
      | (Inr _, w1) \<Rightarrow>
          (case sk_remove_file p w1 of
             (Inl (IoError m), w2) \<Rightarrow> (Inl (io_failed (IoError m)), w2)
           | (_, w2) \<Rightarrow>
               (case sk_listen p w2 of
                  (Inl e, w3) \<Rightarrow> (Inl (io_failed e), w3)
                | (Inr l, w3) \<Rightarrow> (Inr l, w3))))"

definition send :: "path \<Rightarrow> sockets \<Rightarrow> unit res \<times> sockets" where
  "send p w =
     (case sk_connect p w of
        (Inl e, w1) \<Rightarrow> (Inl (io_failed e), w1)
      | (Inr l, w1) \<Rightarrow>
          (case sk_write_all l (str_bytes TRIGGER_TOKEN) w1 of
             (Inl e, w2) \<Rightarrow> (Inl (io_failed e), w2)
           | (Inr _, w2) \<Rightarrow> (Inr (), w2)))"

text \<open>The command the user binds to a key: it prints why and exits with 1 when no instance takes the trigger.\<close>

definition autotype_main :: "path \<Rightarrow> sockets \<Rightarrow> nat \<times> string \<times> sockets" where
  "autotype_main p w =
     (case send p w of
        (Inr _, w1) \<Rightarrow> (0, [], w1)
      | (Inl (Err e), w1) \<Rightarrow> (1, ''gabbro-autotype: no running Gabbro to trigger ('' @ e @ '').'', w1)
      | (Inl Panic, w1) \<Rightarrow> (101, [], w1))"

text \<open>What becomes of a turn of \<open>serve\<close>: the connection is read, accepting fails and leaves it waiting, or reading it fails.\<close>

datatype turn = Reads | AcceptFails io_error | ReadFails io_error

fun accepted :: "turn list \<Rightarrow> bytes list \<Rightarrow> (io_error + bytes) list" where
  "accepted [] q = map Inr q"
| "accepted (AcceptFails e # ts) q = Inl e # accepted ts q"
| "accepted (Reads # ts) (bs # q) = Inr bs # accepted ts q"
| "accepted (ReadFails e # ts) (bs # q) = Inl e # accepted ts q"
| "accepted (_ # ts) [] = []"

text \<open>The connections a listener has waiting, as \<open>serve\<close> sees them when its next turns go as given and the later ones read.\<close>

definition queued :: "nat \<Rightarrow> sockets \<Rightarrow> bytes list" where
  "queued l w = (case sk_queue w l of None \<Rightarrow> [] | Some q \<Rightarrow> q)"

definition waiting :: "turn list \<Rightarrow> nat \<Rightarrow> sockets \<Rightarrow> (io_error + bytes) list" where
  "waiting ts l w = accepted ts (queued l w)"

fun send_many :: "nat \<Rightarrow> path \<Rightarrow> sockets \<Rightarrow> unit res list \<times> sockets" where
  "send_many 0 p w = ([], w)"
| "send_many (Suc n) p w = (case send p w of (r, w1) \<Rightarrow> case send_many n p w1 of (rs, w2) \<Rightarrow> (r # rs, w2))"

section \<open>The autofill service\<close>

text \<open>Strings of the Java side that cannot be read are \<open>None\<close>; allocating the result succeeds.\<close>

definition autofill_isVaultUnlocked :: "world \<Rightarrow> byte" where
  "autofill_isVaultUnlocked w = of_bool (is_vault_unlocked w)"

definition autofill_getEntry :: "env \<Rightarrow> string option \<Rightarrow> world \<Rightarrow> string" where
  "autofill_getEntry E i w = (case i of
     None \<Rightarrow> ''{}''
   | Some i \<Rightarrow> (case fst (get_entry_for_autofill E i w) of Inr json \<Rightarrow> json | Inl _ \<Rightarrow> ''{}''))"

definition autofill_listLoginSummaries :: "env \<Rightarrow> world \<Rightarrow> string" where
  "autofill_listLoginSummaries E w = (case fst (login_summaries_for_autofill w) of
     Inr summaries \<Rightarrow> login_summaries_json E summaries | Inl _ \<Rightarrow> ''[]'')"

section \<open>Notions the lemmas are stated with\<close>

text \<open>The system keeps listening at the path, and every queue only grows.\<close>

definition listens :: "path \<Rightarrow> nat \<Rightarrow> sockets \<Rightarrow> bool" where
  "listens p l w = (sk_node w p = Some (Socket l) \<and> sk_queue w l \<noteq> None)"

definition empty_sockets :: sockets where
  "empty_sockets = \<lparr>sk_node = \<lambda>_. None, sk_queue = \<lambda>_. None, sk_next = 0, sk_faults = [NoFault, NoFault, NoFault, NoFault, Fault refused 5]\<rparr>"

section \<open>Delivery\<close>

lemma bind_listens:
  assumes "bind p w = (Inr l, w1)"
  shows "listens p l w1 \<and> sk_queue w1 l = Some [] \<and> l = sk_next w \<and> sk_next w1 = Suc (sk_next w)"
  using assms
  by (auto simp: bind_def listens_def sk_create_dir_all_def sk_remove_file_def sk_listen_def sk_call_def
      split: if_splits list.splits fault.splits option.splits sum.splits socket_node.splits io_error.splits)

lemma token_prefix: "take (min n (length (str_bytes TRIGGER_TOKEN) - 1)) (str_bytes TRIGGER_TOKEN) \<noteq> str_bytes TRIGGER_TOKEN"
proof -
  have "length (take (min n (length (str_bytes TRIGGER_TOKEN) - 1)) (str_bytes TRIGGER_TOKEN)) < length (str_bytes TRIGGER_TOKEN)"
    by (simp add: TRIGGER_TOKEN_def)
  then show ?thesis by (metis less_irrefl)
qed

text \<open>A send adds one connection to the queue or none; it reports success exactly when the connection carries the token.\<close>

lemma send_effect:
  assumes "listens p l w" and "send p w = (r, w1)"
  obtains bs where "listens p l w1" and "queued l w1 = queued l w @ bs"
    and "count_list bs (str_bytes TRIGGER_TOKEN) = (if r = Inr () then 1 else 0)"
proof -
  from assms(1) obtain q where q: "sk_node w p = Some (Socket l)" "sk_queue w l = Some q" by (auto simp: listens_def)
  show ?thesis
  proof (cases "sk_connect p w")
    case (Pair c w0)
    then have w0: "sk_node w0 = sk_node w" "sk_queue w0 = sk_queue w" "\<forall>l'. c = Inr l' \<longrightarrow> l' = l"
      using q by (auto simp: sk_connect_def sk_call_def split: list.splits fault.splits)
    show ?thesis
    proof (cases c)
      case (Inl e)
      with Pair assms(2) have "r = Inl (io_failed e)" "w1 = w0" by (simp_all add: send_def)
      with q w0 show ?thesis by (intro that [of "[]"]) (simp_all add: listens_def queued_def)
    next
      case (Inr l')
      obtain x w2 where x: "sk_write_all l (str_bytes TRIGGER_TOKEN) w0 = (x, w2)" by (rule prod.exhaust)
      then obtain bs where bs: "sk_node w2 = sk_node w0" "sk_queue w2 = (sk_queue w0)(l := map_option (\<lambda>q. q @ [bs]) (sk_queue w0 l))"
        "bs = str_bytes TRIGGER_TOKEN \<longleftrightarrow> (\<exists>u. x = Inr u)"
        using token_prefix by (auto simp: sk_write_all_def sk_call_def deliver_def split: list.splits fault.splits)
      have "w1 = w2" "r = Inr () \<longleftrightarrow> (\<exists>u. x = Inr u)"
        using assms(2) Pair Inr w0(3) x by (auto simp: send_def split: sum.splits)
      with q w0 bs show ?thesis by (intro that [of "[bs]"]) (auto simp: listens_def queued_def)
    qed
  qed
qed

lemma serve_accepted:
  "count_list (serve (accepted ts q)) True \<le> count_list q (str_bytes TRIGGER_TOKEN)
   \<and> ((\<forall>e. ReadFails e \<notin> set ts) \<longrightarrow> count_list (serve (accepted ts q)) True = count_list q (str_bytes TRIGGER_TOKEN))"
proof (induction ts q rule: accepted.induct)
  case (1 q)
  then show ?case by (induction q) (simp_all add: accept_one_def)
qed (auto simp: accept_one_def)

lemma send_many_counts:
  assumes "listens p l w" and "send_many n p w = (rs, w')"
  shows "count_list (queued l w') (str_bytes TRIGGER_TOKEN) = count_list (queued l w) (str_bytes TRIGGER_TOKEN) + count_list rs (Inr ())"
  using assms
proof (induction n arbitrary: w rs)
  case (Suc n)
  obtain r w1 where r: "send p w = (r, w1)" by force
  with Suc.prems(2) obtain rs' where rs: "send_many n p w1 = (rs', w')" "rs = r # rs'" by (auto split: prod.splits)
  obtain bs where "listens p l w1" "queued l w1 = queued l w @ bs"
    "count_list bs (str_bytes TRIGGER_TOKEN) = (if r = Inr () then 1 else 0)" by (rule send_effect [OF Suc.prems(1) r])
  with Suc.IH [of w1 rs'] rs show ?case by (simp add: count_list_append)
qed simp

text \<open>Of any number of triggers sent after a listener is bound, with any failures in between, \<open>serve\<close> calls its handler at most once
  for each send that succeeded and never for a cut-off one; it misses one only where reading the connection fails, and no failure stops it.\<close>

theorem trigger_handled_once:
  assumes "bind p w = (Inr l, w1)" and "send_many n p w1 = (results, w2)"
  shows "count_list (serve (waiting ts l w2)) True \<le> count_list results (Inr ())
    \<and> ((\<forall>e. ReadFails e \<notin> set ts) \<longrightarrow> count_list (serve (waiting ts l w2)) True = count_list results (Inr ()))"
proof -
  have b: "listens p l w1" "queued l w1 = []" using bind_listens [OF assms(1)] by (auto simp: queued_def)
  from send_many_counts [OF b(1) assms(2)] b(2) serve_accepted [of ts "queued l w2"] show ?thesis by (simp add: waiting_def)
qed

text \<open>Without a listener the command says so and exits with 1.\<close>

theorem no_listener_is_reported:
  assumes "sk_node w p = None" and "sk_faults w = []"
  shows "autotype_main p w = (1, ''gabbro-autotype: no running Gabbro to trigger (trigger socket I/O failed: No such file or directory (os error 2)).'', w)"
  using assms by (simp add: autotype_main_def send_def sk_connect_def sk_call_def io_failed_def)

text \<open>Binding the path again takes it from a listener that is still there: it goes on listening and gets nothing more.\<close>

theorem second_listener_takes_over:
  assumes "bind p w = (Inr l, w1)" and "bind p w1 = (Inr l', w2)" and "send_many n p w2 = (results, w3)"
  shows "l' \<noteq> l \<and> sk_queue w3 l = Some []"
proof -
  note b = bind_listens [OF assms(1)] and b' = bind_listens [OF assms(2)]
  have n: "l' \<noteq> l" using b b' by simp
  have "sk_queue w2 l = Some []" using assms(2) b n
    by (auto simp: bind_def listens_def sk_create_dir_all_def sk_remove_file_def sk_listen_def sk_call_def
        split: if_splits list.splits fault.splits option.splits sum.splits socket_node.splits io_error.splits)
  moreover have "sk_queue w' l = sk_queue v l" if "listens p l' v" "send_many k p v = (rs, w')" for k v rs w'
    using that
  proof (induction k arbitrary: v rs)
    case (Suc k)
    obtain r v1 where r: "send p v = (r, v1)" by force
    obtain bs where "listens p l' v1" by (rule send_effect [OF Suc.prems(1) r])
    moreover have "sk_queue v1 l = sk_queue v l" using r Suc.prems(1) n
      by (auto simp: listens_def send_def sk_connect_def sk_write_all_def sk_call_def deliver_def
          split: list.splits fault.splits option.splits sum.splits)
    ultimately show ?case using Suc.IH [of v1] Suc.prems(2) r by (auto split: prod.splits)
  qed simp
  ultimately show ?thesis using n b' assms(3) by metis
qed

text \<open>The autofill service learns nothing from a locked vault.\<close>

theorem locked_vault_fills_nothing:
  assumes "w_session w = None"
  shows "autofill_isVaultUnlocked w = 0 \<and> autofill_getEntry E i w = ''{}'' \<and> autofill_listLoginSummaries E w = ''[]''"
proof -
  obtain e w' where "get_session w = (Inl e, w')"
    using assms by (cases "w_poisoned w") (auto simp: get_session_def rthen_def rbind_def check_lock_def read_session_def)
  then show ?thesis using assms
    by (auto simp: autofill_isVaultUnlocked_def autofill_getEntry_def autofill_listLoginSummaries_def is_vault_unlocked_def
        get_entry_for_autofill_def login_summaries_for_autofill_def rbind_def split: option.split)
qed

theorem trigger_handled_once_witness:
  "\<exists>l w1 w2. bind ''/run/t'' empty_sockets = (Inr l, w1) \<and> send_many 3 ''/run/t'' w1 = ([Inl (io_failed refused), Inr (), Inr ()], w2)
     \<and> count_list (serve (waiting [AcceptFails refused] l w2)) True = 2"
proof -
  obtain l w1 w2 where r: "bind ''/run/t'' empty_sockets = (Inr l, w1)" "send_many 3 ''/run/t'' w1 = ([Inl (io_failed refused), Inr (), Inr ()], w2)"
    by (simp add: bind_def has_parent_def empty_sockets_def sk_create_dir_all_def sk_remove_file_def sk_listen_def sk_connect_def sk_write_all_def
        send_def sk_call_def deliver_def numeral_eq_Suc)
  from trigger_handled_once [OF r, of "[AcceptFails refused]"] r show ?thesis by (auto simp: io_failed_def)
qed

theorem no_listener_is_reported_witness: "fst (autotype_main ''/run/t'' (empty_sockets\<lparr>sk_faults := []\<rparr>)) = 1"
  using no_listener_is_reported [of "empty_sockets\<lparr>sk_faults := []\<rparr>" "''/run/t''"] by (simp add: empty_sockets_def)

theorem second_listener_takes_over_witness:
  "\<exists>w1 w2 w3. bind ''/run/t'' (empty_sockets\<lparr>sk_faults := []\<rparr>) = (Inr 0, w1) \<and> bind ''/run/t'' w1 = (Inr 1, w2)
     \<and> send_many 1 ''/run/t'' w2 = ([Inr ()], w3) \<and> sk_queue w3 0 = Some []"
proof -
  obtain w1 w2 w3 where r: "bind ''/run/t'' (empty_sockets\<lparr>sk_faults := []\<rparr>) = (Inr 0, w1)" "bind ''/run/t'' w1 = (Inr 1, w2)"
    "send_many 1 ''/run/t'' w2 = ([Inr ()], w3)"
    by (simp add: bind_def has_parent_def empty_sockets_def sk_create_dir_all_def sk_remove_file_def sk_listen_def sk_connect_def sk_write_all_def
        send_def sk_call_def deliver_def)
  from second_listener_takes_over [OF r] r show ?thesis by blast
qed

theorem locked_vault_fills_nothing_witness:
  "autofill_getEntry sample_env (Some ''1'') (sample_world\<lparr>w_session := None\<rparr>) = ''{}''"
  using locked_vault_fills_nothing [of "sample_world\<lparr>w_session := None\<rparr>" sample_env "Some ''1''"] by simp

end
