(* ===== verification/Generators.thy ===== *)
theory Generators
  imports Import_Csv Unicode "HOL-Library.Sublist"
begin

text \<open>
  Passwords, passphrases and the estimate of their strength (\<^verbatim>\<open>api/password_generator.rs\<close>, \<^verbatim>\<open>api/passphrase_generator.rs\<close>,
  \<^verbatim>\<open>api/entropy.rs\<close>, \<^verbatim>\<open>api/types.rs\<close>). The random generator, the embedded word lists, the upper case of a character and the
  floating-point operations are parameters (records \<open>rand\<close>, \<open>word_env\<close>, \<open>floats\<close>). The lemmas show that every request within
  the bounds is served as configured and that typing more never lowers the estimate.
\<close>

datatype Language = English | French | German | Spanish | Italian | Swedish | Danish | Norwegian | Finnish | Slovenian | Polish
  | Russian | Hungarian | Czech | Greek | Portuguese | Estonian | Slovak | Bulgarian | Ukrainian | Japanese | Korean
  | ChineseSimplified | ChineseTraditional | Dutch | Croatian | Lithuanian | Latvian | Kazakh

text \<open>The generator of the \<^verbatim>\<open>rand\<close> crate: a number below a bound and a fair coin.\<close>

record 'g rand =
  r_range :: "nat \<Rightarrow> 'g \<Rightarrow> nat \<times> 'g"
  r_bool :: "'g \<Rightarrow> bool \<times> 'g"

definition gen_range :: "'g rand \<Rightarrow> nat \<Rightarrow> nat \<Rightarrow> ('g, nat) run" where
  "gen_range G a b g = (if a < b then case r_range G (b - a) g of (n, g') \<Rightarrow> (Inr (a + n), g') else (Inl Panic, g))"

definition gen_bool :: "'g rand \<Rightarrow> ('g, bool) run" where
  "gen_bool G g = (case r_bool G g of (b, g') \<Rightarrow> (Inr b, g'))"

definition at_index :: "'a list \<Rightarrow> nat \<Rightarrow> 'a res" where
  "at_index xs i = (if i < length xs then Inr (xs ! i) else Inl Panic)"

definition pick :: "'g rand \<Rightarrow> 'a list \<Rightarrow> ('g, 'a) run" where
  "pick G xs = rbind (gen_range G 0 (length xs)) (\<lambda>i. rlift (at_index xs i))"

section \<open>Passwords\<close>

definition MIN_LENGTH :: nat where
  "MIN_LENGTH = 12"

definition MAX_LENGTH :: nat where
  "MAX_LENGTH = 256"

record PasswordConfig =
  pc_length :: u32
  pc_use_uppercase :: bool
  pc_use_lowercase :: bool
  pc_use_digits :: bool
  pc_use_symbols :: bool
  pc_exclude_ambiguous :: bool
  pc_language :: Language

definition codes :: "string \<Rightarrow> nat list" where
  "codes s = map of_char s"

definition uppercase_pool :: "Language \<Rightarrow> bool \<Rightarrow> nat list" where
  "uppercase_pool lang exclude_ambiguous =
     (case lang of
        Greek \<Rightarrow> [0x391..<0x3A2] @ [0x3A3..<0x3AA]
      | Russian \<Rightarrow> [0x410..<0x416] @ [0x401] @ [0x416..<0x430]
      | Ukrainian \<Rightarrow> [0x410..<0x414] @ [0x490, 0x414, 0x415, 0x404] @ [0x416..<0x419] @ [0x406, 0x407] @ [0x419..<0x42A]
          @ [0x42C, 0x42E, 0x42F]
      | Bulgarian \<Rightarrow> [0x410..<0x42B] @ [0x42C, 0x42E, 0x42F]
      | Japanese \<Rightarrow> [0x30A2, 0x30A4, 0x30A6, 0x30A8, 0x30AA, 0x30AB, 0x30AD, 0x30AF, 0x30B1, 0x30B3, 0x30B5, 0x30B7, 0x30B9,
          0x30BB, 0x30BD, 0x30BF, 0x30C1, 0x30C4, 0x30C6, 0x30C8] @ [0x30CA..<0x30D0] @ [0x30D2, 0x30D5, 0x30D8, 0x30DB]
          @ [0x30DE..<0x30E3] @ [0x30E4, 0x30E6] @ [0x30E8..<0x30EE] @ [0x30EF, 0x30F2, 0x30F3]
      | _ \<Rightarrow> codes (if exclude_ambiguous then ''ABCDEFGHJKLMNPQRSTUVWXYZ'' else ''ABCDEFGHIJKLMNOPQRSTUVWXYZ''))"

definition lowercase_pool :: "Language \<Rightarrow> bool \<Rightarrow> nat list" where
  "lowercase_pool lang exclude_ambiguous =
     (case lang of
        Greek \<Rightarrow> [0x3B1..<0x3C2] @ [0x3C3..<0x3CA]
      | Russian \<Rightarrow> [0x430..<0x436] @ [0x451] @ [0x436..<0x450]
      | Ukrainian \<Rightarrow> [0x430..<0x434] @ [0x491, 0x434, 0x435, 0x454] @ [0x436..<0x439] @ [0x456, 0x457] @ [0x439..<0x44A]
          @ [0x44C, 0x44E, 0x44F]
      | Bulgarian \<Rightarrow> [0x430..<0x44B] @ [0x44C, 0x44E, 0x44F]
      | Japanese \<Rightarrow> [0x3042, 0x3044, 0x3046, 0x3048, 0x304A, 0x304B, 0x304D, 0x304F, 0x3051, 0x3053, 0x3055, 0x3057, 0x3059,
          0x305B, 0x305D, 0x305F, 0x3061, 0x3064, 0x3066, 0x3068] @ [0x306A..<0x3070] @ [0x3072, 0x3075, 0x3078, 0x307B]
          @ [0x307E..<0x3083] @ [0x3084, 0x3086] @ [0x3088..<0x308E] @ [0x308F, 0x3092, 0x3093]
      | _ \<Rightarrow> codes (if exclude_ambiguous then ''abcdefghjkmnpqrstuvwxyz'' else ''abcdefghijklmnopqrstuvwxyz''))"

definition letter_pool :: "PasswordConfig \<Rightarrow> nat list" where
  "letter_pool config =
     (if pc_language config = Korean then
        (if pc_use_uppercase config \<or> pc_use_lowercase config then filter scalar (map (\<lambda>i. 0xAC00 + i) [0..<2350]) else [])
      else if pc_language config \<in> {ChineseSimplified, ChineseTraditional} then
        (if pc_use_uppercase config \<or> pc_use_lowercase config then filter scalar (map (\<lambda>i. 0x4E00 + i) [0..<3755]) else [])
      else (if pc_use_uppercase config then uppercase_pool (pc_language config) (pc_exclude_ambiguous config) else [])
         @ (if pc_use_lowercase config then lowercase_pool (pc_language config) (pc_exclude_ambiguous config) else []))"

definition character_pool :: "PasswordConfig \<Rightarrow> nat list" where
  "character_pool config = letter_pool config
     @ (if pc_use_digits config then codes (if pc_exclude_ambiguous config then ''23456789'' else ''0123456789'') else [])
     @ (if pc_use_symbols config then codes ''!@#$%^&*()-_=+[]{}|;:,.<>?'' else [])"

definition generate_password :: "'g rand \<Rightarrow> PasswordConfig \<Rightarrow> ('g, string) run" where
  "generate_password G config =
     (if unat (pc_length config) < MIN_LENGTH \<or> MAX_LENGTH < unat (pc_length config) then
        rlift (Inl (Err (''Password length must be between '' @ show_nat MIN_LENGTH @ '' and '' @ show_nat MAX_LENGTH
          @ '' characters, got '' @ show_nat (unat (pc_length config)))))
      else if character_pool config = [] then rlift (Inl (Err ''No character sets selected.''))
      else rbind (rmap (\<lambda>_. pick G (character_pool config)) [0..<unat (pc_length config)]) (\<lambda>cs.
        rret (concat (map utf8_encode cs))))"

section \<open>Passphrases\<close>

record PassphraseConfig =
  pp_word_count :: u32
  pp_separator :: string
  pp_capitalise :: bool
  pp_append_number :: bool
  pp_language :: Language

text \<open>What the build embeds and the Unicode table of the standard library: the word list of a language and the upper case
  of a character.\<close>

record word_env =
  wd_list :: "Language \<Rightarrow> string"
  wd_upper :: "string \<Rightarrow> string"

definition wordlist_for :: "word_env \<Rightarrow> Language \<Rightarrow> string list" where
  "wordlist_for W language = filter (\<lambda>l. l \<noteq> []) (str_lines (wd_list W language))"

definition capitalised :: "word_env \<Rightarrow> string \<Rightarrow> string" where
  "capitalised W word = (case utf8_chars word of [] \<Rightarrow> [] | c # cs \<Rightarrow> wd_upper W c @ concat cs)"

definition choose_word :: "'g rand \<Rightarrow> word_env \<Rightarrow> bool \<Rightarrow> string list \<Rightarrow> ('g, string) run" where
  "choose_word G W capitalise ws = rbind (pick G ws) (\<lambda>word.
     if capitalise then rbind (gen_bool G) (\<lambda>b. rret (if b then capitalised W word else word)) else rret word)"

definition boundaries :: "string \<Rightarrow> nat list" where
  "boundaries s = map (\<lambda>i. length (concat (take i (utf8_chars s)))) [0..<length (utf8_chars s)] @ [length s]"

definition insert_digit :: "'g rand \<Rightarrow> string \<Rightarrow> ('g, string) run" where
  "insert_digit G s = rbind (pick G (boundaries s)) (\<lambda>pos. rbind (gen_range G 0 10) (\<lambda>d. rret (take pos s @ show_nat d @ drop pos s)))"

fun insert_digits :: "'g rand \<Rightarrow> nat \<Rightarrow> string \<Rightarrow> ('g, string) run" where
  "insert_digits G 0 s = rret s"
| "insert_digits G (Suc n) s = rbind (insert_digit G s) (insert_digits G n)"

definition generate_passphrase :: "'g rand \<Rightarrow> word_env \<Rightarrow> PassphraseConfig \<Rightarrow> ('g, string) run" where
  "generate_passphrase G W config =
     (let n = unat (pp_word_count config) in
      if n < 4 then rlift (Inl (Err ''word_count must be at least 4''))
      else if 20 < n then rlift (Inl (Err ''word_count must be at most 20''))
      else if wordlist_for W (pp_language config) = [] then rlift (Inl (Err ''wordlist is empty''))
      else rbind (rmap (\<lambda>_. choose_word G W (pp_capitalise config) (wordlist_for W (pp_language config))) [0..<n]) (\<lambda>chosen.
        let passphrase = join_str (pp_separator config) chosen in
        if pp_append_number config
        then rbind (gen_range G n (n * 3 div 2 + 1)) (\<lambda>num_dig. insert_digits G num_dig passphrase)
        else rret passphrase))"

section \<open>Strength\<close>

definition POOL_LOWERCASE :: u32 where
  "POOL_LOWERCASE = 26"

definition POOL_UPPERCASE :: u32 where
  "POOL_UPPERCASE = 26"

definition POOL_DIGITS :: u32 where
  "POOL_DIGITS = 10"

definition POOL_SYMBOLS :: u32 where
  "POOL_SYMBOLS = 32"

definition POOL_NON_ASCII :: u32 where
  "POOL_NON_ASCII = 128"


datatype StrengthTier = Terrible | Weak | Fair | Strong | VeryStrong | Centuries

text \<open>The floating-point operations the estimate uses, on the finite values it meets.\<close>

record 'f floats =
  f_of :: "nat \<Rightarrow> 'f"
  f_log2 :: "'f \<Rightarrow> 'f"
  f_mul :: "'f \<Rightarrow> 'f \<Rightarrow> 'f"

record 'f EntropyResult =
  er_bits :: 'f
  er_tier :: StrengthTier

definition any_char :: "(nat \<Rightarrow> bool) \<Rightarrow> string \<Rightarrow> bool" where
  "any_char P s = list_ex (\<lambda>c. P (codepoint c)) (utf8_chars s)"

definition is_ascii_punctuation :: "nat \<Rightarrow> bool" where
  "is_ascii_punctuation n = (33 \<le> n \<and> n \<le> 47 \<or> 58 \<le> n \<and> n \<le> 64 \<or> 91 \<le> n \<and> n \<le> 96 \<or> 123 \<le> n \<and> n \<le> 126)"

definition pool_size :: "string \<Rightarrow> u32" where
  "pool_size password =
     (if any_char (\<lambda>n. 97 \<le> n \<and> n \<le> 122) password then POOL_LOWERCASE else 0)
   + (if any_char (\<lambda>n. 65 \<le> n \<and> n \<le> 90) password then POOL_UPPERCASE else 0)
   + (if any_char (\<lambda>n. 48 \<le> n \<and> n \<le> 57) password then POOL_DIGITS else 0)
   + (if any_char is_ascii_punctuation password then POOL_SYMBOLS else 0)
   + (if any_char (\<lambda>n. 128 \<le> n) password then POOL_NON_ASCII else 0)"

definition tier_for :: "'f :: linorder floats \<Rightarrow> 'f \<Rightarrow> StrengthTier" where
  "tier_for F bits =
     (if bits < f_of F 28 then Terrible else if bits < f_of F 36 then Weak else if bits < f_of F 52 then Fair
      else if bits < f_of F 80 then Strong else if bits < f_of F 128 then VeryStrong else Centuries)"

definition estimate_entropy :: "'f :: linorder floats \<Rightarrow> string \<Rightarrow> 'f EntropyResult" where
  "estimate_entropy F password =
     (if password = [] then \<lparr>er_bits = f_of F 0, er_tier = Terrible\<rparr>
      else let pool = unat (pool_size password);
               bits = (if pool = 0 then f_of F 0 else f_mul F (f_of F (length (utf8_chars password))) (f_log2 F (f_of F pool)))
           in \<lparr>er_bits = bits, er_tier = tier_for F bits\<rparr>)"

definition entropy_bits :: "'f floats \<Rightarrow> u32 \<Rightarrow> u32 \<Rightarrow> 'f" where
  "entropy_bits F pool len =
     (if pool = 0 \<or> len = 0 then f_of F 0 else f_mul F (f_of F (unat len)) (f_log2 F (f_of F (unat pool))))"

definition passphrase_entropy_bits :: "'f floats \<Rightarrow> word_env \<Rightarrow> u32 \<Rightarrow> Language \<Rightarrow> 'f" where
  "passphrase_entropy_bits F W word_count language =
     f_mul F (f_of F (unat word_count)) (f_log2 F (f_of F (length (wordlist_for W language))))"

section \<open>Notions the lemmas are stated with\<close>

text \<open>The generator keeps its promise: a number below the bound.\<close>

definition in_range :: "'g rand \<Rightarrow> bool" where
  "in_range G = (\<forall>n g. 0 < n \<longrightarrow> fst (r_range G n g) < n)"

text \<open>Letters and digits that are easily taken for each other.\<close>

definition ambiguous :: "nat list" where
  "ambiguous = codes ''IOilo01''"

definition latin :: "Language \<Rightarrow> bool" where
  "latin lang = (lang \<notin> {Greek, Russian, Ukrainian, Bulgarian, Japanese, Korean, ChineseSimplified, ChineseTraditional})"

text \<open>What a request selects, read off the Unicode tables: the capital and the small letters of the script the language is written
  in (for Japanese Katakana and Hiragana; Hangul and Han characters have no case), the decimal digits, and the ASCII punctuation
  that needs no escaping.\<close>

definition capital_letter :: "Language \<Rightarrow> nat \<Rightarrow> bool" where
  "capital_letter lang n =
     (if lang = Greek then 0x391 \<le> n \<and> n \<le> 0x3A9 \<and> n \<noteq> 0x3A2
      else if lang = Russian then 0x410 \<le> n \<and> n \<le> 0x42F \<or> n = 0x401
      else if lang \<in> {Ukrainian, Bulgarian} then 0x400 \<le> n \<and> n \<le> 0x42F \<or> n = 0x490
      else if lang = Japanese then 0x30A1 \<le> n \<and> n \<le> 0x30FA
      else if lang = Korean then 0xAC00 \<le> n \<and> n \<le> 0xD7A3
      else if lang \<in> {ChineseSimplified, ChineseTraditional} then 0x4E00 \<le> n \<and> n \<le> 0x9FFF
      else 65 \<le> n \<and> n \<le> 90)"

definition small_letter :: "Language \<Rightarrow> nat \<Rightarrow> bool" where
  "small_letter lang n =
     (if lang = Greek then 0x3B1 \<le> n \<and> n \<le> 0x3C9 \<and> n \<noteq> 0x3C2
      else if lang = Russian then 0x430 \<le> n \<and> n \<le> 0x44F \<or> n = 0x451
      else if lang \<in> {Ukrainian, Bulgarian} then 0x430 \<le> n \<and> n \<le> 0x45F \<or> n = 0x491
      else if lang = Japanese then 0x3041 \<le> n \<and> n \<le> 0x3096
      else if lang = Korean then 0xAC00 \<le> n \<and> n \<le> 0xD7A3
      else if lang \<in> {ChineseSimplified, ChineseTraditional} then 0x4E00 \<le> n \<and> n \<le> 0x9FFF
      else 97 \<le> n \<and> n \<le> 122)"

definition plain_symbol :: "nat \<Rightarrow> bool" where
  "plain_symbol n = (is_ascii_punctuation n \<and> n \<notin> {34, 39, 47, 92, 96, 126})"

definition selected_char :: "PasswordConfig \<Rightarrow> nat \<Rightarrow> bool" where
  "selected_char config n =
     ((pc_use_uppercase config \<and> capital_letter (pc_language config) n \<or> pc_use_lowercase config \<and> small_letter (pc_language config) n
       \<or> pc_use_digits config \<and> 48 \<le> n \<and> n \<le> 57 \<or> pc_use_symbols config \<and> plain_symbol n)
      \<and> (pc_exclude_ambiguous config \<longrightarrow> n \<notin> set ambiguous))"

definition selects_a_set :: "PasswordConfig \<Rightarrow> bool" where
  "selects_a_set config = (pc_use_uppercase config \<or> pc_use_lowercase config \<or> pc_use_digits config \<or> pc_use_symbols config)"

text \<open>The languages whose letters \<open>capital_letter\<close> and \<open>small_letter\<close> give one by one.\<close>

definition whole_alphabet :: "Language \<Rightarrow> bool" where
  "whole_alphabet lang = (latin lang \<or> lang \<in> {Greek, Russian})"

text \<open>A generator that always draws the number \<open>i\<close>, where the bound allows it.\<close>

definition always :: "nat \<Rightarrow> unit rand" where
  "always i = \<lparr>r_range = (\<lambda>n g. (if i < n then i else 0, g)), r_bool = Pair True\<rparr>"

definition is_digit :: "string \<Rightarrow> bool" where
  "is_digit c = (\<exists>d < 10. c = show_nat d)"

text \<open>What the estimate relies on: conversion, logarithm and multiplication keep the order of the values they meet.\<close>

definition monotone :: "'f :: linorder floats \<Rightarrow> bool" where
  "monotone F = ((\<forall>m n. m \<le> n \<longrightarrow> f_of F m \<le> f_of F n) \<and> (\<forall>m n. 0 < m \<and> m \<le> n \<longrightarrow> f_of F 0 \<le> f_log2 F (f_of F m) \<and> f_log2 F (f_of F m) \<le> f_log2 F (f_of F n))
     \<and> (\<forall>a b c d. f_of F 0 \<le> a \<and> a \<le> b \<and> f_of F 0 \<le> c \<and> c \<le> d \<longrightarrow> f_of F 0 \<le> f_mul F a c \<and> f_mul F a c \<le> f_mul F b d))"

fun rank :: "StrengthTier \<Rightarrow> nat" where
  "rank Terrible = 0"
| "rank Weak = 1"
| "rank Fair = 2"
| "rank Strong = 3"
| "rank VeryStrong = 4"
| "rank Centuries = 5"

text \<open>Tiers are ordered by strength.\<close>

instantiation StrengthTier :: linorder
begin

definition less_eq_StrengthTier :: "StrengthTier \<Rightarrow> StrengthTier \<Rightarrow> bool" where
  "less_eq_StrengthTier a b = (rank a \<le> rank b)"

definition less_StrengthTier :: "StrengthTier \<Rightarrow> StrengthTier \<Rightarrow> bool" where
  "less_StrengthTier a b = (rank a < rank b)"

instance
proof
  have inj: "rank a = rank b \<Longrightarrow> a = b" for a b by (cases a; cases b) simp_all
  fix a b c :: StrengthTier
  show "(a < b) = (a \<le> b \<and> \<not> b \<le> a)" "a \<le> a" "a \<le> b \<or> b \<le> a" by (auto simp: less_eq_StrengthTier_def less_StrengthTier_def)
  show "a \<le> b \<Longrightarrow> b \<le> c \<Longrightarrow> a \<le> c" "a \<le> b \<Longrightarrow> b \<le> a \<Longrightarrow> a = b" using inj by (auto simp: less_eq_StrengthTier_def)
qed

end

definition sample_rand :: "unit rand" where
  "sample_rand = \<lparr>r_range = (\<lambda>n g. (0, g)), r_bool = Pair True\<rparr>"

definition sample_words :: word_env where
  "sample_words = \<lparr>wd_list = (\<lambda>_. [CHR ''a'', CHR 0x0A, CHR ''b'']), wd_upper = id\<rparr>"

definition sample_phrase :: PassphraseConfig where
  "sample_phrase = \<lparr>pp_word_count = 4, pp_separator = ''-'', pp_capitalise = False, pp_append_number = False, pp_language = English\<rparr>"

section \<open>Choosing\<close>

lemma pick_Inr:
  assumes "pick G xs g = (Inr x, g')"
  shows "x \<in> set xs"
  using assms by (auto simp: pick_def rnd_simps at_index_def split: if_splits)

lemma pick_total: "in_range G \<Longrightarrow> xs \<noteq> [] \<Longrightarrow> \<exists>x g'. pick G xs g = (Inr x, g')"
  by (auto simp: pick_def rbind_def gen_range_def at_index_def rlift_def in_range_def split: prod.split) (metis fst_conv length_greater_0_conv)+

lemma rmap_total: "(\<And>x g. \<exists>y g'. f x g = (Inr y, g')) \<Longrightarrow> \<exists>ys g'. rmap f xs g = (Inr ys, g')"
proof (induction xs arbitrary: g)
  case (Cons x xs)
  obtain y g1 where y: "f x g = (Inr y, g1)" using Cons.prems by blast
  obtain ys g2 where "rmap f xs g1 = (Inr ys, g2)" using Cons by blast
  with y show ?case by (simp add: rbind_def rret_def)
qed (simp add: rret_def)

lemma rmap_all:
  assumes "rmap f xs g = (Inr ys, g')" and "\<And>x g y g'. f x g = (Inr y, g') \<Longrightarrow> P y"
  shows "length ys = length xs \<and> list_all P ys"
  using rmap_Inr [OF assms(1)] assms(2) by (auto simp: list_all2_conv_all_nth list_all_length)

section \<open>Passwords\<close>

lemma codes_scalar: "list_all scalar (codes s)"
proof -
  have "(of_char c :: nat) < 256" for c by simp
  moreover have "scalar n" if "n < 256" for n using that by (simp add: scalar_def)
  ultimately have "scalar (of_char c)" for c by blast
  then show ?thesis by (simp add: codes_def list_all_iff)
qed

lemma pool_scalar: "list_all scalar (character_pool config)"
proof -
  have "list_all scalar (uppercase_pool lang ex)" "list_all scalar (lowercase_pool lang ex)" for lang ex
    by (cases lang; simp add: uppercase_pool_def lowercase_pool_def codes_def list_all_iff scalar_def)+
  moreover have "list_all scalar (filter scalar xs)" for xs by (simp add: list_all_iff)
  ultimately have "list_all scalar (letter_pool config)" unfolding letter_pool_def by (simp split: if_split)
  then show ?thesis unfolding character_pool_def using codes_scalar by (simp split: if_split)
qed

text \<open>The characters of a generated password.\<close>

lemma password_characters:
  assumes "generate_password G config g = (Inr s, g')"
  shows "length (utf8_chars s) = unat (pc_length config) \<and> set (map codepoint (utf8_chars s)) \<subseteq> set (character_pool config)
    \<and> MIN_LENGTH \<le> unat (pc_length config) \<and> unat (pc_length config) \<le> MAX_LENGTH"
proof -
  from assms obtain cs where cs: "rmap (\<lambda>_. pick G (character_pool config)) [0..<unat (pc_length config)] g = (Inr cs, g')"
    and s: "s = concat (map utf8_encode cs)" and l: "MIN_LENGTH \<le> unat (pc_length config)" "unat (pc_length config) \<le> MAX_LENGTH"
    by (auto simp: generate_password_def rnd_simps split: if_splits)
  have "length cs = length [0..<unat (pc_length config)] \<and> list_all (\<lambda>c. c \<in> set (character_pool config)) cs"
    by (rule rmap_all [OF cs]) (rule pick_Inr)
  then have c: "length cs = unat (pc_length config)" "set cs \<subseteq> set (character_pool config)" by (auto simp: list_all_iff)
  then have "list_all scalar cs" using pool_scalar [of config] by (auto simp: list_all_iff)
  from chars_of_encoded [OF this] have "map codepoint (utf8_chars s) = cs" by (simp add: s)
  with c l show ?thesis by (metis length_map)
qed

subsection \<open>What is drawn from is what was selected\<close>

lemma codes_alphabet:
  "set (codes ''ABCDEFGHIJKLMNOPQRSTUVWXYZ'') = {65..90}" "set (codes ''abcdefghijklmnopqrstuvwxyz'') = {97..122}"
  "set (codes ''ABCDEFGHJKLMNPQRSTUVWXYZ'') = {65..90} - {73, 79}" "set (codes ''abcdefghjkmnpqrstuvwxyz'') = {97..122} - {105, 108, 111}"
  "set (codes ''0123456789'') = {48..57}" "set (codes ''23456789'') = {50..57}" "set ambiguous = {73, 79, 105, 108, 111, 48, 49}"
  by (auto simp: codes_def ambiguous_def) presburger+

lemma codes_symbols: "n \<in> set (codes ''!@#$%^&*()-_=+[]{}|;:,.<>?'') \<longleftrightarrow> plain_symbol n"
  unfolding plain_symbol_def is_ascii_punctuation_def by (simp add: codes_def) presburger

lemmas alphabet_simps = capital_letter_def small_letter_def uppercase_pool_def lowercase_pool_def codes_alphabet

lemma uppercase_selected:
  "n \<in> set (uppercase_pool lang ex) \<Longrightarrow> lang \<notin> {Korean, ChineseSimplified, ChineseTraditional}
     \<Longrightarrow> capital_letter lang n \<and> (ex \<longrightarrow> n \<notin> set ambiguous)"
  by (cases lang) (auto simp: alphabet_simps simp del: upt_rec_numeral split: if_splits)

lemma lowercase_selected:
  "n \<in> set (lowercase_pool lang ex) \<Longrightarrow> lang \<notin> {Korean, ChineseSimplified, ChineseTraditional}
     \<Longrightarrow> small_letter lang n \<and> (ex \<longrightarrow> n \<notin> set ambiguous)"
  by (cases lang) (auto simp: alphabet_simps simp del: upt_rec_numeral split: if_splits)

lemma uppercase_complete:
  "whole_alphabet lang \<Longrightarrow> capital_letter lang n \<Longrightarrow> ex \<longrightarrow> n \<notin> set ambiguous \<Longrightarrow> n \<in> set (uppercase_pool lang ex)"
  by (cases lang; cases ex) (auto simp: alphabet_simps whole_alphabet_def latin_def simp del: upt_rec_numeral)

lemma lowercase_complete:
  "whole_alphabet lang \<Longrightarrow> small_letter lang n \<Longrightarrow> ex \<longrightarrow> n \<notin> set ambiguous \<Longrightarrow> n \<in> set (lowercase_pool lang ex)"
  by (cases lang; cases ex) (auto simp: alphabet_simps whole_alphabet_def latin_def simp del: upt_rec_numeral)

lemma letters_selected:
  assumes "n \<in> set (letter_pool config)"
  shows "(pc_use_uppercase config \<and> capital_letter (pc_language config) n \<or> pc_use_lowercase config \<and> small_letter (pc_language config) n)
    \<and> (pc_exclude_ambiguous config \<longrightarrow> n \<notin> set ambiguous)"
proof (cases "pc_language config \<in> {Korean, ChineseSimplified, ChineseTraditional}")
  case True
  with assms show ?thesis by (auto simp: letter_pool_def capital_letter_def small_letter_def codes_alphabet split: if_splits)
next
  case False
  then have "letter_pool config = (if pc_use_uppercase config then uppercase_pool (pc_language config) (pc_exclude_ambiguous config) else [])
      @ (if pc_use_lowercase config then lowercase_pool (pc_language config) (pc_exclude_ambiguous config) else [])"
    by (simp add: letter_pool_def)
  with assms False show ?thesis using uppercase_selected lowercase_selected by (auto split: if_splits)
qed

lemma symbols_not_ambiguous: "plain_symbol n \<Longrightarrow> n \<notin> set ambiguous"
  by (auto simp: plain_symbol_def is_ascii_punctuation_def codes_alphabet)

lemma pool_selected: "n \<in> set (character_pool config) \<Longrightarrow> selected_char config n"
  using letters_selected [of n config] symbols_not_ambiguous [of n]
  by (auto simp: character_pool_def selected_char_def codes_symbols codes_alphabet split: if_splits)

lemma pool_complete:
  assumes "selected_char config n" and "whole_alphabet (pc_language config)"
  shows "n \<in> set (character_pool config)"
proof -
  have "letter_pool config = (if pc_use_uppercase config then uppercase_pool (pc_language config) (pc_exclude_ambiguous config) else [])
      @ (if pc_use_lowercase config then lowercase_pool (pc_language config) (pc_exclude_ambiguous config) else [])"
    using assms(2) by (auto simp: letter_pool_def whole_alphabet_def latin_def)
  then show ?thesis
    using assms uppercase_complete [OF assms(2)] lowercase_complete [OF assms(2)]
    by (auto simp: character_pool_def selected_char_def codes_symbols codes_alphabet)
qed

lemma pool_empty: "character_pool config = [] \<longleftrightarrow> \<not> selects_a_set config"
proof -
  have "uppercase_pool lang ex \<noteq> []" "lowercase_pool lang ex \<noteq> []" for lang ex
    by (cases lang; simp add: uppercase_pool_def lowercase_pool_def codes_def)+
  moreover have "filter scalar (map (\<lambda>i. 0xAC00 + i) [0..<2350]) \<noteq> []" "filter scalar (map (\<lambda>i. 0x4E00 + i) [0..<3755]) \<noteq> []"
    by (auto simp: filter_empty_conv scalar_def intro!: bexI [of _ 0])
  ultimately show ?thesis by (auto simp: character_pool_def letter_pool_def selects_a_set_def codes_def)
qed

lemma always_picks: "i < length xs \<Longrightarrow> pick (always i) xs g = (Inr (xs ! i), g)"
  by (cases xs) (simp_all add: pick_def rbind_def gen_range_def at_index_def rlift_def always_def)

lemma rmap_constant: "(\<And>x. f x g = (Inr y, g)) \<Longrightarrow> rmap f xs g = (Inr (replicate (length xs) y), g)"
  by (induction xs) (simp_all add: rbind_def rret_def)

text \<open>Every character that may be drawn can come up, at every place of the password.\<close>

lemma every_character_comes_up:
  assumes "n \<in> set (character_pool config)" and "12 \<le> pc_length config" and "pc_length config \<le> 256"
  obtains i where "in_range (always i)"
    and "generate_password (always i) config () = (Inr (concat (replicate (unat (pc_length config)) (utf8_encode n))), ())"
proof -
  obtain i where i: "i < length (character_pool config)" "character_pool config ! i = n" using assms(1) by (auto simp: in_set_conv_nth)
  then have "rmap (\<lambda>_. pick (always i) (character_pool config)) [0..<unat (pc_length config)] () = (Inr (replicate (unat (pc_length config)) n), ())"
    using rmap_constant [of "\<lambda>_. pick (always i) (character_pool config)" "()" n "[0..<unat (pc_length config)]"]
      always_picks [OF i(1), of "()"] by simp
  moreover have "\<not> (unat (pc_length config) < MIN_LENGTH \<or> MAX_LENGTH < unat (pc_length config))"
    using assms(2,3) by (simp add: MIN_LENGTH_def MAX_LENGTH_def word_le_nat_alt not_less)
  moreover have "character_pool config \<noteq> []" using i by auto
  ultimately show ?thesis by (intro that [of i]) (simp_all add: in_range_def always_def generate_password_def rbind_def rret_def)
qed

text \<open>C33. With a generator whose numbers are within their bounds, a request for 12 to 256 characters that selects at least one set is always
  served, and any other is refused with an error.
  The password has exactly the requested number of characters, each of a selected set: capital or small letters of the script of the
  language, digits, symbols, and none that is easily mistaken for another when these are excluded. Conversely, for the languages in
  Latin letters, Greek and Russian, every selected character can come up at every place.\<close>

theorem password_is_as_requested:
  assumes "in_range G"
  shows "(case fst (generate_password G config g) of
      Inr s \<Rightarrow> 12 \<le> pc_length config \<and> pc_length config \<le> 256 \<and> selects_a_set config
        \<and> length (utf8_chars s) = unat (pc_length config) \<and> list_all (selected_char config) (map codepoint (utf8_chars s))
    | Inl e \<Rightarrow> e \<noteq> Panic \<and> (pc_length config < 12 \<or> 256 < pc_length config \<or> \<not> selects_a_set config))
    \<and> (\<forall>n. selected_char config n \<and> whole_alphabet (pc_language config) \<and> 12 \<le> pc_length config \<and> pc_length config \<le> 256 \<longrightarrow>
         (\<exists>i. in_range (always i) \<and> fst (generate_password (always i) config ()) = Inr (concat (replicate (unat (pc_length config)) (utf8_encode n)))))"
    (is "?served \<and> ?all")
proof
  obtain r g' where r: "generate_password G config g = (r, g')" by (rule prod.exhaust)
  show ?served
  proof (cases r)
    case (Inr s)
    note c = password_characters [OF r [unfolded Inr]]
    have "selects_a_set config" using r Inr pool_empty [of config] by (auto simp: generate_password_def rlift_def split: if_splits)
    with c show ?thesis using pool_selected by (auto simp: r Inr MIN_LENGTH_def MAX_LENGTH_def word_le_nat_alt list_all_iff)
  next
    case (Inl e)
    have "\<exists>cs g'. rmap (\<lambda>_. pick G (character_pool config)) xs g = (Inr cs, g')" if "character_pool config \<noteq> []" for xs
      by (rule rmap_total) (rule pick_total [OF assms that])
    from this [of "[0..<unat (pc_length config)]"] r Inl pool_empty [of config] show ?thesis
      by (auto simp: generate_password_def rbind_def rlift_def rret_def MIN_LENGTH_def MAX_LENGTH_def word_less_nat_alt
          split: if_splits)
  qed
  show ?all using pool_complete every_character_comes_up by (metis fst_conv)
qed

theorem password_is_as_requested_witness:
  "let config = \<lparr>pc_length = 12, pc_use_uppercase = False, pc_use_lowercase = True, pc_use_digits = True, pc_use_symbols = False,
      pc_exclude_ambiguous = True, pc_language = English\<rparr>
   in (\<exists>s. fst (generate_password sample_rand config ()) = Inr s \<and> length (utf8_chars s) = 12 \<and> list_all (selected_char config) (map codepoint (utf8_chars s)))
     \<and> (\<exists>i. fst (generate_password (always i) config ()) = Inr (concat (replicate 12 (utf8_encode 122)))) \<and> \<not> selected_char config 108"
proof -
  let ?config = "\<lparr>pc_length = 12, pc_use_uppercase = False, pc_use_lowercase = True, pc_use_digits = True, pc_use_symbols = False,
      pc_exclude_ambiguous = True, pc_language = English\<rparr>"
  have "in_range sample_rand" by (simp add: in_range_def sample_rand_def)
  note t = password_is_as_requested [OF this, of ?config "()"]
  have "selected_char ?config 122" "whole_alphabet English" "\<not> selected_char ?config 108" "selects_a_set ?config"
    by (simp_all add: selected_char_def small_letter_def whole_alphabet_def latin_def codes_alphabet selects_a_set_def)
  then show ?thesis using t unfolding Let_def by (auto split: sum.splits)
qed

text \<open>With ambiguous characters excluded, a password in a language written with Latin letters has none of them.\<close>

lemma no_ambiguous:
  assumes "pc_exclude_ambiguous config" and "latin (pc_language config)"
  shows "set (character_pool config) \<inter> set ambiguous = {}"
proof -
  have "letter_pool config = (if pc_use_uppercase config then codes ''ABCDEFGHJKLMNPQRSTUVWXYZ'' else [])
      @ (if pc_use_lowercase config then codes ''abcdefghjkmnpqrstuvwxyz'' else [])"
    using assms by (cases "pc_language config") (simp_all add: letter_pool_def uppercase_pool_def lowercase_pool_def latin_def)
  then show ?thesis using assms(1) by (simp add: character_pool_def ambiguous_def codes_def)
qed

theorem password_without_ambiguous_characters:
  assumes "generate_password G config g = (Inr s, g')" and "pc_exclude_ambiguous config" and "latin (pc_language config)"
  shows "set (map codepoint (utf8_chars s)) \<inter> set ambiguous = {}"
  using password_characters [OF assms(1)] no_ambiguous [OF assms(2,3)] by blast

section \<open>Digits between characters\<close>

lemma digit_text: "d < 10 \<Longrightarrow> show_nat d = utf8_encode (48 + d) \<and> scalar (48 + d) \<and> length (show_nat d) = 1"
proof -
  assume d: "d < 10"
  then have "show_nat d = [char_of (48 + d)]" by (subst show_nat.simps) simp
  with d show ?thesis by (simp add: utf8_encode_def code_units_def scalar_def)
qed

lemma boundary_splits:
  assumes "pos \<in> set (boundaries s)"
  obtains j where "take pos s = concat (take j (utf8_chars s))" and "drop pos s = concat (drop j (utf8_chars s))"
proof -
  have cut: "take (length (concat (take j (utf8_chars s)))) s = concat (take j (utf8_chars s)) \<and>
      drop (length (concat (take j (utf8_chars s)))) s = concat (drop j (utf8_chars s))" for j
  proof -
    let ?a = "concat (take j (utf8_chars s))" and ?b = "concat (drop j (utf8_chars s))"
    have s: "?a @ ?b = s" by (subst concat_append [symmetric]) (simp add: chars_concat)
    have "take (length ?a) (?a @ ?b) = ?a \<and> drop (length ?a) (?a @ ?b) = ?b" by simp
    then show ?thesis by (simp only: s)
  qed
  from assms show ?thesis
  proof (cases "pos = length s")
    case True
    then show ?thesis using that [of "length (utf8_chars s)"] by (simp add: chars_concat)
  next
    case False
    with assms obtain j where "pos = length (concat (take j (utf8_chars s)))" by (auto simp: boundaries_def)
    with cut [of j] that show ?thesis by blast
  qed
qed

lemma insert_digit_Inr:
  assumes "insert_digit G s g = (Inr t, g')" and "in_range G"
  shows "length t = Suc (length s) \<and> subseq s t \<and> (utf8_valid (str_bytes s) \<longrightarrow> utf8_valid (str_bytes t))"
proof -
  from assms(1) obtain pos d g1 where p: "pos \<in> set (boundaries s)" and d: "gen_range G 0 10 g1 = (Inr d, g')"
    and t: "t = take pos s @ show_nat d @ drop pos s" by (auto simp: insert_digit_def rnd_simps dest: pick_Inr)
  have "d < 10" using d assms(2) by (auto simp: gen_range_def in_range_def split: prod.splits) (metis fst_conv zero_less_numeral)
  note dt = digit_text [OF this]
  have "subseq (take pos s @ drop pos s) t" unfolding t by (intro list_emb_append_mono list_emb_append2) simp_all
  moreover have "utf8_valid (str_bytes t)" if v: "utf8_valid (str_bytes s)"
  proof -
    obtain ns where ns: "list_all scalar ns" "utf8_chars s = map utf8_encode ns" using valid_decomposed [OF v] by metis
    obtain j where j: "take pos s = concat (take j (utf8_chars s))" "drop pos s = concat (drop j (utf8_chars s))"
      using boundary_splits [OF p] by blast
    have "t = concat (map utf8_encode (take j ns @ [48 + d] @ drop j ns))" using dt by (simp add: t j ns(2) take_map drop_map)
    moreover have "list_all scalar (take j ns @ [48 + d] @ drop j ns)"
      using ns(1) dt by (auto simp: list_all_iff dest: in_set_takeD in_set_dropD)
    ultimately show ?thesis using valid_encoded by metis
  qed
  moreover have "length (take pos s) + length (drop pos s) = length s" by (subst length_append [symmetric]) simp
  then have "length t = Suc (length s)" unfolding t length_append using dt by linarith
  ultimately show ?thesis by simp
qed

section \<open>Passphrases\<close>

lemma gen_range_Inr: "gen_range G a b g = (Inr n, g') \<Longrightarrow> in_range G \<Longrightarrow> a \<le> n \<and> n < b"
proof -
  assume r: "gen_range G a b g = (Inr n, g')" and G: "in_range G"
  then obtain k where k: "a < b" "n = a + k" "r_range G (b - a) g = (k, g')" by (auto simp: gen_range_def split: if_splits prod.splits)
  have "fst (r_range G (b - a) g) < b - a" using G k(1) unfolding in_range_def by simp
  with k show ?thesis by simp
qed

lemma gen_range_total: "a < b \<Longrightarrow> \<exists>n g'. gen_range G a b g = (Inr n, g')"
  by (auto simp: gen_range_def split: prod.split)

lemma insert_digits_Inr:
  "insert_digits G n s g = (Inr t, g') \<Longrightarrow> in_range G \<Longrightarrow>
   length t = length s + n \<and> subseq s t \<and> (utf8_valid (str_bytes s) \<longrightarrow> utf8_valid (str_bytes t))"
proof (induction n arbitrary: s g)
  case (Suc n)
  then obtain u g1 where u: "insert_digit G s g = (Inr u, g1)" "insert_digits G n u g1 = (Inr t, g')" by (auto simp: rnd_simps)
  from insert_digit_Inr [OF u(1) Suc.prems(2)] Suc.IH [OF u(2) Suc.prems(2)] show ?case
    by (auto intro: subseq_order.order_trans)
qed (simp add: rret_def)

lemma insert_digits_total: "in_range G \<Longrightarrow> \<exists>t g'. insert_digits G n s g = (Inr t, g')"
proof (induction n arbitrary: s g)
  case (Suc n)
  have b: "boundaries s \<noteq> []" by (simp add: boundaries_def)
  obtain pos g1 where p: "pick G (boundaries s) g = (Inr pos, g1)" using pick_total [OF Suc.prems b] by blast
  obtain d g2 where "gen_range G 0 10 g1 = (Inr d, g2)" using gen_range_total [of 0 10 G g1] by auto
  then have "insert_digit G s g = (Inr (take pos s @ show_nat d @ drop pos s), g2)" using p by (simp add: insert_digit_def rbind_def rret_def)
  with Suc show ?case by (simp add: rbind_def)
qed (simp add: rret_def)

lemma choose_word_Inr:
  "choose_word G W cap ws g = (Inr w, g') \<Longrightarrow> w \<in> set ws \<or> cap \<and> w \<in> capitalised W ` set ws"
  by (auto simp: choose_word_def rnd_simps dest: pick_Inr split: if_splits)

lemma choose_word_total: "in_range G \<Longrightarrow> ws \<noteq> [] \<Longrightarrow> \<exists>w g'. choose_word G W cap ws g = (Inr w, g')"
  using pick_total [of G ws g] by (auto simp: choose_word_def rbind_def rret_def gen_bool_def split: prod.split)

text \<open>A passphrase is the requested number of words of the list, some of them capitalised, joined by the separator; the digits
  are inserted between characters, so they never break one, and their number is within the bounds. Every request
  within the bounds is served.\<close>

theorem passphrase_is_words_and_digits:
  assumes "in_range G"
  shows "case fst (generate_passphrase G W config g) of
      Inr s \<Rightarrow> (\<exists>ws k. let n = unat (pp_word_count config); words = wordlist_for W (pp_language config); t = join_str (pp_separator config) ws in
        length ws = n \<and> 4 \<le> n \<and> n \<le> 20
        \<and> (\<forall>w \<in> set ws. w \<in> set words \<or> pp_capitalise config \<and> w \<in> capitalised W ` set words)
        \<and> (if pp_append_number config then n \<le> k \<and> k \<le> n * 3 div 2 else k = 0)
        \<and> length s = length t + k \<and> subseq t s \<and> (utf8_valid (str_bytes t) \<longrightarrow> utf8_valid (str_bytes s)))
    | Inl e \<Rightarrow> e \<noteq> Panic \<and> (pp_word_count config < 4 \<or> 20 < pp_word_count config \<or> wordlist_for W (pp_language config) = [])"
proof -
  let ?n = "unat (pp_word_count config)" and ?words = "wordlist_for W (pp_language config)"
  show ?thesis
  proof (cases "4 \<le> ?n \<and> ?n \<le> 20 \<and> ?words \<noteq> []")
    case False
    then show ?thesis by (auto simp: generate_passphrase_def Let_def rlift_def word_less_nat_alt)
  next
    case True
    have "\<exists>ws g'. rmap (\<lambda>_. choose_word G W (pp_capitalise config) ?words) [0..<?n] g = (Inr ws, g')"
      by (rule rmap_total) (rule choose_word_total [OF assms], use True in blast)
    then obtain ws g1 where ws: "rmap (\<lambda>_. choose_word G W (pp_capitalise config) ?words) [0..<?n] g = (Inr ws, g1)" by blast
    have "length ws = length [0..<?n] \<and> list_all (\<lambda>w. w \<in> set ?words \<or> pp_capitalise config \<and> w \<in> capitalised W ` set ?words) ws"
      by (rule rmap_all [OF ws]) (rule choose_word_Inr)
    then have w: "length ws = ?n" "\<forall>w \<in> set ws. w \<in> set ?words \<or> pp_capitalise config \<and> w \<in> capitalised W ` set ?words"
      by (simp_all add: list_all_iff)
    let ?t = "join_str (pp_separator config) ws"
    show ?thesis
    proof (cases "pp_append_number config")
      case False
      then have "generate_passphrase G W config g = (Inr ?t, g1)" using True ws by (simp add: generate_passphrase_def Let_def rbind_def rret_def)
      then show ?thesis using False True w by (simp add: Let_def) (intro exI [of _ ws], simp)
    next
      case a: True
      have "?n < ?n * 3 div 2 + 1" by simp
      from gen_range_total [OF this, of G g1] obtain k g2 where k: "gen_range G ?n (?n * 3 div 2 + 1) g1 = (Inr k, g2)" by auto
      obtain s g3 where s: "insert_digits G k ?t g2 = (Inr s, g3)" using insert_digits_total [OF assms, of k ?t g2] by auto
      have "generate_passphrase G W config g = (Inr s, g3)" using True a ws k s by (simp add: generate_passphrase_def Let_def rbind_def)
      moreover have "?n \<le> k" "k \<le> ?n * 3 div 2" using gen_range_Inr [OF k assms] by auto
      ultimately show ?thesis using a True w insert_digits_Inr [OF s assms]
        unfolding Let_def by simp (intro exI [of _ ws] exI [of _ k], simp)
    qed
  qed
qed

section \<open>Strength\<close>

lemma tier_mono: "a \<le> b \<Longrightarrow> tier_for F a \<le> tier_for F b"
  by (auto simp: tier_for_def less_eq_StrengthTier_def)

lemma any_append: "utf8_valid (str_bytes s) \<Longrightarrow> any_char P (s @ t) \<longleftrightarrow> any_char P s \<or> any_char P t"
  by (simp add: any_char_def chars_append)

lemma pool_sum:
  "unat ((if a then POOL_LOWERCASE else 0) + (if b then POOL_UPPERCASE else 0) + (if c then POOL_DIGITS else 0)
     + (if d then POOL_SYMBOLS else 0) + (if e then POOL_NON_ASCII else 0))
   = (if a then 26 else 0) + (if b then 26 else 0) + (if c then 10 else 0) + (if d then 32 else 0) + (if e then 128 else 0)"
  by (cases a; cases b; cases c; cases d; cases e)
    (simp_all add: POOL_LOWERCASE_def POOL_UPPERCASE_def POOL_DIGITS_def POOL_SYMBOLS_def POOL_NON_ASCII_def)

lemma pool_mono: "utf8_valid (str_bytes s) \<Longrightarrow> unat (pool_size s) \<le> unat (pool_size (s @ t))"
  unfolding pool_size_def pool_sum by (auto simp: any_append)

text \<open>Typing more never makes a password look weaker: whatever is appended, neither the estimate nor the tier goes down.\<close>

theorem longer_is_not_weaker:
  assumes "monotone F" and "utf8_valid (str_bytes s)"
  shows "er_bits (estimate_entropy F s) \<le> er_bits (estimate_entropy F (s @ t)) \<and> er_tier (estimate_entropy F s) \<le> er_tier (estimate_entropy F (s @ t))"
proof -
  let ?b = "\<lambda>s. if unat (pool_size s) = 0 then f_of F 0 else f_mul F (f_of F (length (utf8_chars s))) (f_log2 F (f_of F (unat (pool_size s))))"
  have fo: "f_of F m \<le> f_of F n" if "m \<le> n" for m n using assms(1) that unfolding monotone_def by blast
  have fl: "f_of F 0 \<le> f_log2 F (f_of F m)" "f_log2 F (f_of F m) \<le> f_log2 F (f_of F n)" if "0 < m" "m \<le> n" for m n
    using assms(1) that unfolding monotone_def by blast+
  have fm: "f_of F 0 \<le> f_mul F a c" "f_mul F a c \<le> f_mul F b d" if "f_of F 0 \<le> a" "a \<le> b" "f_of F 0 \<le> c" "c \<le> d" for a b c d
    using assms(1) that unfolding monotone_def by blast+
  have l: "length (utf8_chars s) \<le> length (utf8_chars (s @ t))" using chars_append [OF assms(2)] by simp
  have nn: "f_of F 0 \<le> ?b x" for x
    using fl(1) [of "unat (pool_size x)" "unat (pool_size x)"] by (auto intro: fm(1) [OF fo order.refl])
  have le: "?b s \<le> ?b (s @ t)"
  proof (cases "unat (pool_size s) = 0")
    case False
    then have p: "0 < unat (pool_size s)" "unat (pool_size s) \<le> unat (pool_size (s @ t))" using pool_mono [OF assms(2)] by auto
    then show ?thesis using False fm(2) [OF fo [of 0] fo [OF l] fl(1) fl(2)] by (simp split: if_split)
  qed (use nn in simp)
  have bits: "er_bits (estimate_entropy F x) = ?b x" "er_tier (estimate_entropy F x) = tier_for F (?b x)" if "x \<noteq> []" for x
    using that by (simp_all add: estimate_entropy_def Let_def)
  show ?thesis
  proof (cases "s = []")
    case True
    have "er_tier (estimate_entropy F []) \<le> y" for y by (cases y) (simp_all add: estimate_entropy_def less_eq_StrengthTier_def)
    moreover have "er_bits (estimate_entropy F []) \<le> er_bits (estimate_entropy F x)" for x
      using nn [of x] bits [of x] by (cases "x = []") (simp_all add: estimate_entropy_def)
    ultimately show ?thesis using True by blast
  next
    case False
    then show ?thesis using bits [of s] bits [of "s @ t"] le tier_mono [OF le] by simp
  qed
qed

lemma sample_in_range: "in_range sample_rand"
  by (simp add: in_range_def sample_rand_def)

lemma sample_generated: "fst (generate_passphrase sample_rand sample_words sample_phrase ()) = Inr ''a-a-a-a''"
  by code_simp

theorem passphrase_is_words_and_digits_witness:
  "fst (generate_passphrase sample_rand sample_words sample_phrase ()) = Inr ''a-a-a-a''
   \<and> (\<exists>ws. length ws = 4 \<and> length ''a-a-a-a'' = length (join_str ''-'' ws) \<and> subseq (join_str ''-'' ws) ''a-a-a-a'')"
proof -
  from passphrase_is_words_and_digits [OF sample_in_range, where W = sample_words and g = "()" and config = sample_phrase]
  have "\<exists>ws. length ws = 4 \<and> length ''a-a-a-a'' = length (join_str ''-'' ws) \<and> subseq (join_str ''-'' ws) ''a-a-a-a''"
    unfolding sample_generated sum.case by (auto simp: Let_def sample_phrase_def)
  with sample_generated show ?thesis by blast
qed

theorem longer_is_not_weaker_witness:
  "er_tier (estimate_entropy \<lparr>f_of = id, f_log2 = id, f_mul = (*)\<rparr> ''ab'') \<le> er_tier (estimate_entropy \<lparr>f_of = id, f_log2 = id, f_mul = (*)\<rparr> (''ab'' @ ''C1''))"
proof -
  let ?F = "\<lparr>f_of = id, f_log2 = id, f_mul = (*)\<rparr> :: nat floats"
  have "monotone ?F" by (simp add: monotone_def mult_le_mono)
  moreover have "utf8_valid (str_bytes ''ab'')" by code_simp
  ultimately show ?thesis using longer_is_not_weaker [of ?F "''ab''" "''C1''"] by blast
qed

end
