(* ===== verification/Ctaphid.thy ===== *)
theory Ctaphid
  imports Effects
begin

text \<open>
  The framing of the virtual security key (\<open>rust/src/ctaphid.rs\<close>): 64-byte reports to messages and back.

  \<open>Ctaphid\<close> is the state of the device: the next channel to hand out, at most one message under reassembly, at most one
  complete message. \<open>handle_report\<close> is one inbound report; its branches are named after what they do
  (\<open>start_message\<close>, \<open>continue_message\<close>, \<open>finish\<close>, \<open>init_response\<close>). Counters are words and wrap as in a release build.

  The locale \<open>framed_link\<close> is what the daemon relies on, that a message sent in packets comes out whole; it is interpreted
  on the device as \<open>hid\<close>. Shown: messages arrive whole and in order, reassembly stays in bounds in every reachable
  state, and an unfinished message blocks the device.
\<close>

unbundle bit_operations_syntax

section \<open>Constants and state\<close>

definition BROADCAST_CID :: u32 where "BROADCAST_CID = 0xFFFFFFFF"
definition FRAME_INIT :: byte where "FRAME_INIT = 0x80"
definition CMD_PING :: byte where "CMD_PING = 0x01"
definition CMD_INIT :: byte where "CMD_INIT = 0x06"
definition CMD_CBOR :: byte where "CMD_CBOR = 0x10"
definition CMD_KEEPALIVE :: byte where "CMD_KEEPALIVE = 0x3B"
definition CMD_ERROR :: byte where "CMD_ERROR = 0x3F"
definition KEEPALIVE_PROCESSING :: byte where "KEEPALIVE_PROCESSING = 0x01"
definition ERR_INVALID_COMMAND :: byte where "ERR_INVALID_COMMAND = 0x01"
definition ERR_INVALID_SEQ :: byte where "ERR_INVALID_SEQ = 0x04"
definition ERR_CHANNEL_BUSY :: byte where "ERR_CHANNEL_BUSY = 0x06"
definition ERR_INVALID_CHANNEL :: byte where "ERR_INVALID_CHANNEL = 0x0B"
definition CAP_CBOR :: byte where "CAP_CBOR = 0x04"
definition CAP_NMSG :: byte where "CAP_NMSG = 0x08"
definition PROTOCOL_VERSION :: byte where "PROTOCOL_VERSION = 2"
definition INIT_PAYLOAD_LEN :: u16 where "INIT_PAYLOAD_LEN = 17"

record Pending =
  pn_cid :: u32
  pn_cmd :: byte
  pn_total :: nat
  pn_buf :: bytes
  pn_next_seq :: byte

record Ctaphid =
  hid_next_cid :: u32
  hid_pending :: "Pending option"
  hid_complete :: "(u32 \<times> byte \<times> bytes) option"

definition Ctaphid_new :: Ctaphid where
  "Ctaphid_new = \<lparr>hid_next_cid = 1, hid_pending = None, hid_complete = None\<rparr>"

section \<open>Encoding\<close>

text \<open>A zeroed 64-byte report with its first bytes written.\<close>

definition report64 :: "bytes \<Rightarrow> bytes" where
  "report64 b = b @ replicate (64 - length b) 0"

definition cont_report :: "u32 \<Rightarrow> nat \<Rightarrow> bytes \<Rightarrow> bytes" where
  "cont_report cid seq chunk = report64 (be_encode 4 (unat cid) @ [of_nat seq] @ chunk)"

function cont_reports :: "u32 \<Rightarrow> nat \<Rightarrow> bytes \<Rightarrow> bytes list" where
  "cont_reports cid seq rest =
     (if rest = [] then []
      else cont_report cid seq (take 59 rest) # cont_reports cid (Suc seq) (drop 59 rest))"
  by pat_completeness auto
termination by (relation "measure (\<lambda>(_, _, rest). length rest)") simp_all

declare cont_reports.simps [simp del]

definition init_report :: "u32 \<Rightarrow> byte \<Rightarrow> bytes \<Rightarrow> bytes" where
  "init_report cid cmd payload =
     report64 (be_encode 4 (unat cid) @ [FRAME_INIT OR cmd] @ be_encode 2 (length payload) @ take 57 payload)"

definition encode_message :: "u32 \<Rightarrow> byte \<Rightarrow> bytes \<Rightarrow> bytes list" where
  "encode_message cid cmd payload = init_report cid cmd payload # cont_reports cid 0 (drop 57 payload)"

definition keepalive_processing :: "u32 \<Rightarrow> bytes" where
  "keepalive_processing cid = encode_message cid CMD_KEEPALIVE [KEEPALIVE_PROCESSING] ! 0"

section \<open>Reassembly\<close>

definition allocated :: "Ctaphid \<Rightarrow> u32 \<Rightarrow> bool" where
  "allocated d cid = (1 \<le> cid \<and> cid < hid_next_cid d)"

definition finish :: "u32 \<Rightarrow> byte \<Rightarrow> bytes \<Rightarrow> Ctaphid \<Rightarrow> bytes list \<times> Ctaphid" where
  "finish cid cmd buf d =
     (if cmd = CMD_PING then (encode_message cid CMD_PING buf, d)
      else if cmd = CMD_CBOR then ([], d\<lparr>hid_complete := Some (cid, cmd, buf)\<rparr>)
      else (encode_message cid CMD_ERROR [ERR_INVALID_COMMAND], d))"

definition init_response :: "bytes \<Rightarrow> Ctaphid \<Rightarrow> bytes \<times> Ctaphid" where
  "init_response report d =
     (let cid = hid_next_cid d in
      (report64 (be_encode 4 (unat BROADCAST_CID) @ [FRAME_INIT OR CMD_INIT] @ be_encode 2 (unat INIT_PAYLOAD_LEN)
         @ take 8 (drop 7 report) @ be_encode 4 (unat cid) @ [PROTOCOL_VERSION, 0, 0, 0, CAP_CBOR OR CAP_NMSG]),
       d\<lparr>hid_next_cid := cid + 1\<rparr>))"

definition start_message :: "u32 \<Rightarrow> bytes \<Rightarrow> Ctaphid \<Rightarrow> bytes list \<times> Ctaphid" where
  "start_message cid report d =
     (if \<not> allocated d cid then (encode_message cid CMD_ERROR [ERR_INVALID_CHANNEL], d)
      else if hid_pending d \<noteq> None then (encode_message cid CMD_ERROR [ERR_CHANNEL_BUSY], d)
      else
        let cmd = report ! 4 AND NOT FRAME_INIT;
            total = be_decode [report ! 5, report ! 6];
            buf = take (min total 57) (drop 7 report)
        in if length buf = total then finish cid cmd buf d
           else ([], d\<lparr>hid_pending := Some \<lparr>pn_cid = cid, pn_cmd = cmd, pn_total = total, pn_buf = buf, pn_next_seq = 0\<rparr>\<rparr>))"

definition continue_message :: "u32 \<Rightarrow> bytes \<Rightarrow> Pending \<Rightarrow> Ctaphid \<Rightarrow> bytes list \<times> Ctaphid" where
  "continue_message cid report p d =
     (if pn_cid p \<noteq> cid then ([], d)
      else if report ! 4 \<noteq> pn_next_seq p then (encode_message cid CMD_ERROR [ERR_INVALID_SEQ], d\<lparr>hid_pending := None\<rparr>)
      else
        let p' = p\<lparr>pn_buf := pn_buf p @ take (min (pn_total p - length (pn_buf p)) 59) (drop 5 report),
                   pn_next_seq := pn_next_seq p + 1\<rparr>
        in if length (pn_buf p') = pn_total p'
           then finish (pn_cid p') (pn_cmd p') (pn_buf p') (d\<lparr>hid_pending := None\<rparr>)
           else ([], d\<lparr>hid_pending := Some p'\<rparr>))"

definition handle_report :: "bytes \<Rightarrow> Ctaphid \<Rightarrow> bytes list \<times> Ctaphid" where
  "handle_report report d =
     (let cid = of_nat (be_decode (take 4 report)) in
      if cid = BROADCAST_CID \<and> report ! 4 = FRAME_INIT OR CMD_INIT
      then (case init_response report d of (r, d') \<Rightarrow> ([r], d'))
      else if report ! 4 AND FRAME_INIT \<noteq> 0 then start_message cid report d
      else case hid_pending d of None \<Rightarrow> ([], d) | Some p \<Rightarrow> continue_message cid report p d)"

definition take_message :: "Ctaphid \<Rightarrow> (u32 \<times> byte \<times> bytes) option \<times> Ctaphid" where
  "take_message d = (hid_complete d, d\<lparr>hid_complete := None\<rparr>)"

section \<open>Notions the lemmas are stated with\<close>

fun feed :: "bytes list \<Rightarrow> Ctaphid \<Rightarrow> bytes list \<times> Ctaphid" where
  "feed [] d = ([], d)"
| "feed (r # rs) d = (case handle_report r d of (o1, d1) \<Rightarrow> case feed rs d1 of (o2, d2) \<Rightarrow> (o1 @ o2, d2))"

text \<open>What a waiting message always satisfies.\<close>

definition hid_wf :: "Ctaphid \<Rightarrow> bool" where
  "hid_wf d = (case hid_pending d of None \<Rightarrow> True | Some p \<Rightarrow>
     length (pn_buf p) < pn_total p \<and> pn_total p < 65536
     \<and> length (pn_buf p) = 57 + 59 * unat (pn_next_seq p) \<and> unat (pn_next_seq p) \<le> 128)"

text \<open>The states of the device: reports come in, messages are taken out.\<close>

inductive hid_reach :: "Ctaphid \<Rightarrow> bool" where
  start: "hid_reach Ctaphid_new"
| report: "hid_reach d \<Longrightarrow> length r = 64 \<Longrightarrow> hid_reach (snd (handle_report r d))"
| taken: "hid_reach d \<Longrightarrow> hid_reach (snd (take_message d))"

definition hid_idle :: "Ctaphid \<Rightarrow> bool" where
  "hid_idle d = (hid_pending d = None)"

definition hid_sendable :: "Ctaphid \<Rightarrow> u32 \<times> byte \<times> bytes \<Rightarrow> bool" where
  "hid_sendable d m = (case m of (cid, cmd, payload) \<Rightarrow> allocated d cid \<and> cmd = CMD_CBOR \<and> length payload \<le> 57 + 59 * 128)"

text \<open>Messages sent one after the other, each taken out when its packets are in.\<close>

fun send_all :: "(u32 \<times> byte \<times> bytes) list \<Rightarrow> Ctaphid \<Rightarrow> (u32 \<times> byte \<times> bytes) option list \<times> Ctaphid" where
  "send_all [] d = ([], d)"
| "send_all ((cid, cmd, payload) # ms) d =
     (case take_message (snd (feed (encode_message cid cmd payload) d)) of (x, d2) \<Rightarrow>
        case send_all ms d2 of (xs, d3) \<Rightarrow> (x # xs, d3))"

definition two_channels :: Ctaphid where
  "two_channels = Ctaphid_new\<lparr>hid_next_cid := 3\<rparr>"

section \<open>Bits of a byte\<close>

lemma bit7: "bit (x :: byte) 7 \<longleftrightarrow> 128 \<le> unat x"
proof -
  have "bit x 7 \<longleftrightarrow> bit (unat x) 7" by (simp add: bit_unsigned_iff)
  then have odd: "bit x 7 \<longleftrightarrow> odd (unat x div 128)" by (simp add: bit_iff_odd)
  show ?thesis
  proof (cases "unat x < 128")
    case False
    then have "unat x div 128 = 1" using unat_byte_less [of x] by (intro div_nat_eqI) simp_all
    with odd False show ?thesis by simp
  qed (simp add: odd)
qed

lemma FRAME_INIT_bit: "bit FRAME_INIT n \<longleftrightarrow> n = 7"
proof -
  have two: "FRAME_INIT = 2 ^ 7" by (simp add: FRAME_INIT_def)
  show ?thesis unfolding two bit_exp_iff by (auto simp: possible_bit_word)
qed

lemma frame_bit: "x AND FRAME_INIT \<noteq> 0 \<longleftrightarrow> 128 \<le> unat x"
proof -
  have "bit (x AND FRAME_INIT) n \<longleftrightarrow> bit x 7 \<and> n = 7" for n by (auto simp: bit_and_iff FRAME_INIT_bit)
  then have "x AND FRAME_INIT = 0 \<longleftrightarrow> \<not> bit x 7"
    by (metis bit_0_eq bit_word_eqI bot_apply bot_bool_def)
  then show ?thesis by (simp add: bit7)
qed

lemma frame_or: "(FRAME_INIT OR x) AND FRAME_INIT \<noteq> 0"
proof -
  have "bit ((FRAME_INIT OR x) AND FRAME_INIT) 7" by (simp add: bit_and_iff bit_or_iff FRAME_INIT_bit)
  then show ?thesis by auto
qed

lemma frame_strip: "unat x < 128 \<Longrightarrow> (FRAME_INIT OR x) AND NOT FRAME_INIT = x"
  by (rule bit_word_eqI) (auto simp: bit_and_iff bit_or_iff bit_not_iff FRAME_INIT_bit bit7)

section \<open>Reading back a report\<close>

lemma length_report64: "length b \<le> 64 \<Longrightarrow> length (report64 b) = 64"
  by (simp add: report64_def)

lemma cid_back: "of_nat (be_decode (be_encode 4 (unat (cid :: u32)))) = cid"
  using unsigned_less [of cid, where 'a = nat] by (simp add: be_decode_encode_small)

lemma length4: "length xs = 4 \<Longrightarrow> \<exists>a b c d. xs = [a, b, c, d]"
  by (auto simp: numeral_eq_Suc length_Suc_conv)

lemma length2: "length xs = 2 \<Longrightarrow> \<exists>a b. xs = [a, b]"
  by (auto simp: numeral_eq_Suc length_Suc_conv)

lemmas be4 = length4 [OF length_be_encode] and be2 = length2 [OF length_be_encode]

lemma init_report_parts:
  assumes "r = init_report cid cmd payload"
  shows "of_nat (be_decode (take 4 r)) = cid" and "r ! 4 = FRAME_INIT OR cmd"
    and "be_decode [r ! 5, r ! 6] = length payload mod 65536"
    and "n \<le> 57 \<Longrightarrow> n \<le> length payload \<Longrightarrow> take n (drop 7 r) = take n payload" and "length r = 64"
proof -
  obtain a b c d where p: "be_encode 4 (unat cid) = [a, b, c, d]" using be4 by blast
  obtain x y where q: "be_encode 2 (length payload) = [x, y]" using be2 by blast
  have r: "r = a # b # c # d # (FRAME_INIT OR cmd) # x # y # take 57 payload @ replicate (57 - min (length payload) 57) 0"
    by (simp add: assms init_report_def report64_def p q)
  show "of_nat (be_decode (take 4 r)) = cid" using cid_back [of cid] by (simp add: r p)
  show "r ! 4 = FRAME_INIT OR cmd" by (simp add: r)
  show "be_decode [r ! 5, r ! 6] = length payload mod 65536"
    using be_decode_encode [of 2 "length payload"] by (simp add: r q)
  show "take n (drop 7 r) = take n payload" if "n \<le> 57" "n \<le> length payload"
    using that by (simp add: r min_def)
  show "length r = 64" by (simp add: r)
qed

lemma cont_report_parts:
  assumes "r = cont_report cid seq chunk" and "length chunk \<le> 59"
  shows "of_nat (be_decode (take 4 r)) = cid" and "r ! 4 = of_nat seq" and "take (length chunk) (drop 5 r) = chunk" and "length r = 64"
proof -
  obtain a b c d where p: "be_encode 4 (unat cid) = [a, b, c, d]" using be4 by blast
  have r: "r = a # b # c # d # of_nat seq # chunk @ replicate (59 - length chunk) 0"
    by (simp add: assms(1) cont_report_def report64_def p)
  show "of_nat (be_decode (take 4 r)) = cid" using cid_back [of cid] by (simp add: r p)
  show "r ! 4 = of_nat seq" by (simp add: r)
  show "take (length chunk) (drop 5 r) = chunk" by (simp add: r)
  show "length r = 64" using assms(2) by (simp add: r)
qed

lemma allocated_not_broadcast: "allocated d cid \<Longrightarrow> cid \<noteq> BROADCAST_CID"
proof -
  have "BROADCAST_CID = -1" by (simp add: BROADCAST_CID_def)
  then show "allocated d cid \<Longrightarrow> cid \<noteq> BROADCAST_CID"
    using word_le_def by (metis allocated_def linorder_not_le word_n1_ge)
qed

lemma encode_message_lengths: "\<forall>r \<in> set (encode_message cid cmd payload). length r = 64"
proof -
  have "\<forall>r \<in> set (cont_reports cid seq rest). length r = 64" for seq rest
  proof (induction cid seq rest rule: cont_reports.induct)
    case (1 cid seq rest)
    have "length (cont_report cid seq (take 59 rest)) = 64" by (rule cont_report_parts(4) [OF refl]) simp
    with 1 show ?case by (subst cont_reports.simps) auto
  qed
  then show ?thesis by (simp add: encode_message_def init_report_parts(5) [OF refl])
qed

section \<open>Reassembly\<close>

text \<open>A continuation packet that fits: the buffer grows by it, and the message ends with the last one.\<close>

lemma handle_cont:
  assumes "hid_pending d = Some p" and "pn_cid p = cid" and "pn_next_seq p = of_nat seq" and "seq < 128"
    and "length chunk = min (pn_total p - length (pn_buf p)) 59"
    and "p' = p\<lparr>pn_buf := pn_buf p @ chunk, pn_next_seq := of_nat (Suc seq)\<rparr>"
  shows "handle_report (cont_report cid seq chunk) d =
    (if length (pn_buf p') = pn_total p then finish cid (pn_cmd p) (pn_buf p') (d\<lparr>hid_pending := None\<rparr>)
     else ([], d\<lparr>hid_pending := Some p'\<rparr>))"
proof -
  note r = cont_report_parts [of "cont_report cid seq chunk" cid seq chunk, OF refl]
  have len: "length chunk \<le> 59" using assms(5) by simp
  have "unat (of_nat seq :: byte) = seq" using assms(4) by (simp add: unat_of_nat)
  then have f: "(of_nat seq :: byte) AND FRAME_INIT = 0" using frame_bit [of "of_nat seq"] assms(4) by simp
  have ni: "(of_nat seq :: byte) \<noteq> FRAME_INIT OR CMD_INIT" using f frame_or by metis
  have "take (min (pn_total p - length (pn_buf p)) 59) (drop 5 (cont_report cid seq chunk)) = chunk"
    using r(3) [OF len] assms(5) by simp
  then show ?thesis
    using r(1,2) [OF len] f ni assms(1-3,6)
    by (simp add: handle_report_def continue_message_def Let_def add.commute)
qed

lemma feed_cont:
  assumes "hid_pending d = Some p" and "pn_cid p = cid" and "pn_next_seq p = of_nat seq"
    and "rest \<noteq> []" and "pn_total p = length (pn_buf p) + length rest" and "59 * seq + length rest \<le> 59 * 128"
  shows "feed (cont_reports cid seq rest) d = finish cid (pn_cmd p) (pn_buf p @ rest) (d\<lparr>hid_pending := None\<rparr>)"
  using assms
proof (induction cid seq rest arbitrary: d p rule: cont_reports.induct)
  case (1 cid seq rest)
  let ?chunk = "take 59 rest" and ?p = "p\<lparr>pn_buf := pn_buf p @ take 59 rest, pn_next_seq := of_nat (Suc seq)\<rparr>"
  have "0 < length rest" using "1.prems"(4) by simp
  then have seq: "seq < 128" using "1.prems"(6) by linarith
  have len: "length ?chunk = min (pn_total p - length (pn_buf p)) 59" using "1.prems"(5) by simp
  note step = handle_cont [OF "1.prems"(1-3) seq len refl]
  show ?case
  proof (cases "drop 59 rest = []")
    case True
    then have "take 59 rest = rest" by simp
    moreover have "feed (cont_reports cid (Suc seq) (drop 59 rest)) d' = ([], d')" for d'
      by (simp add: True cont_reports.simps [of cid "Suc seq" "[]"])
    ultimately show ?thesis using step "1.prems"(4,5)
      by (simp add: cont_reports.simps [of cid seq rest] case_prod_beta)
  next
    case False
    have "feed (cont_reports cid (Suc seq) (drop 59 rest)) (d\<lparr>hid_pending := Some ?p\<rparr>) =
        finish cid (pn_cmd ?p) (pn_buf ?p @ drop 59 rest) ((d\<lparr>hid_pending := Some ?p\<rparr>)\<lparr>hid_pending := None\<rparr>)"
      by (rule "1.IH" [OF "1.prems"(4), of _ ?p]) (use False "1.prems" in auto)
    with step "1.prems"(4,5) False show ?thesis
      by (simp add: cont_reports.simps [of cid seq rest] case_prod_beta)
  qed
qed

lemma handle_init:
  assumes "allocated d cid" and "hid_pending d = None" and "unat cmd < 128" and "length payload \<le> 57 + 59 * 128"
  shows "handle_report (init_report cid cmd payload) d =
    (if length payload \<le> 57 then finish cid cmd payload d
     else ([], d\<lparr>hid_pending := Some \<lparr>pn_cid = cid, pn_cmd = cmd, pn_total = length payload, pn_buf = take 57 payload,
       pn_next_seq = 0\<rparr>\<rparr>))"
proof -
  let ?r = "init_report cid cmd payload"
  note r = init_report_parts [of ?r cid cmd payload, OF refl]
  have tot: "be_decode [?r ! 5, ?r ! 6] = length payload" using r(3) assms(4) by simp
  have h: "handle_report ?r d = start_message cid ?r d"
    using allocated_not_broadcast [OF assms(1)] r(1,2) frame_or [of cmd] by (simp add: handle_report_def Let_def)
  have cmd: "?r ! 4 AND NOT FRAME_INIT = cmd" using r(2) frame_strip [OF assms(3)] by simp
  have buf: "take (min (length payload) 57) (drop 7 ?r) = take 57 payload"
    using r(4) [of "min (length payload) 57"] by (cases "length payload \<le> 57") (simp_all add: min_def)
  show ?thesis
    using buf by (cases "length payload \<le> 57") (simp_all add: h start_message_def assms(1,2) Let_def tot cmd r(5))
qed

lemma feed_message:
  assumes "allocated d cid" and "hid_pending d = None" and "unat cmd < 128" and "length payload \<le> 57 + 59 * 128"
  shows "feed (encode_message cid cmd payload) d = finish cid cmd payload d"
proof (cases "length payload \<le> 57")
  case True
  with handle_init [OF assms] show ?thesis
    by (simp add: encode_message_def cont_reports.simps [of cid 0 "[]"] case_prod_beta)
next
  case False
  let ?p = "\<lparr>pn_cid = cid, pn_cmd = cmd, pn_total = length payload, pn_buf = take 57 payload, pn_next_seq = 0\<rparr>"
  have "feed (cont_reports cid 0 (drop 57 payload)) (d\<lparr>hid_pending := Some ?p\<rparr>) =
      finish cid (pn_cmd ?p) (pn_buf ?p @ drop 57 payload) ((d\<lparr>hid_pending := Some ?p\<rparr>)\<lparr>hid_pending := None\<rparr>)"
    by (rule feed_cont) (use False assms(4) in auto)
  moreover have "d\<lparr>hid_pending := None\<rparr> = d" using assms(2) by simp
  ultimately show ?thesis using handle_init [OF assms] False by (simp add: encode_message_def case_prod_beta)
qed

section \<open>The invariant\<close>

lemma finish_pending [simp]: "hid_pending (snd (finish cid cmd buf d)) = hid_pending d"
  by (simp add: finish_def)

lemma hid_wf_other [simp]:
  "hid_wf (d\<lparr>hid_next_cid := x\<rparr>) = hid_wf d" "hid_wf (d\<lparr>hid_complete := y\<rparr>) = hid_wf d"
  by (simp_all add: hid_wf_def)

lemma start_wf:
  assumes "hid_wf d" and "length r = 64"
  shows "hid_wf (snd (start_message cid r d))"
proof -
  have "be_decode [r ! 5, r ! 6] < 65536" using be_decode_bound [of "[r ! 5, r ! 6]"] by simp
  then show ?thesis
    using assms by (auto simp: start_message_def Let_def hid_wf_def min_def)
qed

lemma continue_wf:
  assumes "hid_wf d" and "length r = 64" and "hid_pending d = Some p" and "unat (r ! 4) < 128"
  shows "hid_wf (snd (continue_message cid r p d))"
proof -
  have wf: "length (pn_buf p) < pn_total p" "pn_total p < 65536" "length (pn_buf p) = 57 + 59 * unat (pn_next_seq p)"
    using assms(1,3) by (simp_all add: hid_wf_def)
  have seq: "unat (pn_next_seq p + 1) = unat (pn_next_seq p) + 1" if "r ! 4 = pn_next_seq p"
    using that assms(4) by (simp add: unat_word_ariths)
  show ?thesis
    using wf seq assms(1,2,3,4) by (auto simp: continue_message_def Let_def hid_wf_def min_def)
qed

lemma report_wf: "hid_wf d \<Longrightarrow> length r = 64 \<Longrightarrow> hid_wf (snd (handle_report r d))"
  using frame_bit [of "r ! 4"]
  by (auto simp: handle_report_def Let_def start_wf continue_wf init_response_def split: option.split)

lemma reach_wf: "hid_reach d \<Longrightarrow> hid_wf d"
  by (induction rule: hid_reach.induct) (simp_all add: report_wf take_message_def, simp add: Ctaphid_new_def hid_wf_def)

section \<open>A link that delivers messages\<close>

text \<open>What the daemon relies on: a message put on the link in packets comes out whole, and the link is ready for the
  next one. Any run of messages is then delivered in order.\<close>

locale framed_link =
  fixes encode :: "'m \<Rightarrow> 'r list"
    and feeding :: "'r list \<Rightarrow> 's \<Rightarrow> 'o list \<times> 's"
    and taking :: "'s \<Rightarrow> 'm option \<times> 's"
    and idle :: "'s \<Rightarrow> bool"
    and sendable :: "'s \<Rightarrow> 'm \<Rightarrow> bool"
  assumes delivers: "idle s \<Longrightarrow> sendable s m \<Longrightarrow>
      \<exists>s1 s2. feeding (encode m) s = ([], s1) \<and> taking s1 = (Some m, s2) \<and> idle s2 \<and> (\<forall>m'. sendable s m' \<longrightarrow> sendable s2 m')"
begin

fun deliver :: "'m list \<Rightarrow> 's \<Rightarrow> 'm option list \<times> 's" where
  "deliver [] s = ([], s)"
| "deliver (m # ms) s = (case taking (snd (feeding (encode m) s)) of (x, s2) \<Rightarrow> case deliver ms s2 of (xs, s3) \<Rightarrow> (x # xs, s3))"

lemma all_delivered: "idle s \<Longrightarrow> \<forall>m \<in> set ms. sendable s m \<Longrightarrow> \<exists>s'. deliver ms s = (map Some ms, s') \<and> idle s'"
proof (induction ms arbitrary: s)
  case (Cons m ms)
  from delivers [OF Cons.prems(1), of m] Cons.prems(2) obtain s1 s2 where s: "feeding (encode m) s = ([], s1)"
    "taking s1 = (Some m, s2)" "idle s2" "\<forall>m'. sendable s m' \<longrightarrow> sendable s2 m'" by auto
  with Cons.IH [of s2] Cons.prems(2) show ?case by auto
qed simp

end

lemma feed_cbor:
  assumes "hid_idle d" and "hid_sendable d (cid, cmd, payload)"
  shows "feed (encode_message cid cmd payload) d = ([], d\<lparr>hid_complete := Some (cid, cmd, payload)\<rparr>)"
proof -
  have "unat CMD_CBOR < 128" by (simp add: CMD_CBOR_def)
  with assms feed_message [of d cid cmd payload] show ?thesis
    by (simp add: hid_idle_def hid_sendable_def finish_def CMD_CBOR_def CMD_PING_def)
qed

interpretation hid: framed_link "\<lambda>(cid, cmd, payload). encode_message cid cmd payload" feed take_message hid_idle hid_sendable
proof
  fix d :: Ctaphid and m :: "u32 \<times> byte \<times> bytes"
  assume a: "hid_idle d" "hid_sendable d m"
  obtain cid cmd payload where m: "m = (cid, cmd, payload)" by (cases m)
  show "\<exists>s1 s2. feed ((\<lambda>(cid, cmd, payload). encode_message cid cmd payload) m) d = ([], s1) \<and> take_message s1 = (Some m, s2)
      \<and> hid_idle s2 \<and> (\<forall>m'. hid_sendable d m' \<longrightarrow> hid_sendable s2 m')"
    using a feed_cbor [of d cid cmd payload]
    by (auto simp: m take_message_def hid_idle_def hid_sendable_def allocated_def)
qed

lemma send_all_deliver: "send_all ms d = hid.deliver ms d"
  by (induction ms d rule: send_all.induct) (simp_all split: prod.split)

section \<open>Properties of the transport\<close>

text \<open>C7. Any run of requests on channels the device handed out, each of at most 7609 bytes, is delivered whole and in
  order: every message comes out exactly as its packets were cut.\<close>

theorem messages_arrive_in_order:
  assumes "hid_pending d = None" and "\<forall>(cid, cmd, payload) \<in> set ms. allocated d cid \<and> cmd = CMD_CBOR \<and> length payload \<le> 7609"
  shows "fst (send_all ms d) = map Some ms"
  using hid.all_delivered [of d ms] assms
  by (fastforce simp: send_all_deliver hid_idle_def hid_sendable_def)

theorem messages_arrive_in_order_witness:
  "fst (send_all [(1, CMD_CBOR, replicate 60 7), (2, CMD_CBOR, [4])] two_channels)
     = [Some (1, CMD_CBOR, replicate 60 7), Some (2, CMD_CBOR, [4])]"
  using messages_arrive_in_order [of two_channels "[(1, CMD_CBOR, replicate 60 7), (2, CMD_CBOR, [4])]"]
  by (simp add: two_channels_def Ctaphid_new_def allocated_def)

text \<open>C34. A message under reassembly is always short of its announced length, by at least one byte, and its packet counter
  stays at most 128: the subtraction for the bytes to take and the counter never overflow.\<close>

theorem reassembly_in_bounds:
  assumes "hid_reach d" and "hid_pending d = Some p"
  shows "length (pn_buf p) < pn_total p \<and> pn_total p < 65536 \<and> length (pn_buf p) = 57 + 59 * unat (pn_next_seq p)
    \<and> unat (pn_next_seq p) \<le> 128"
  using reach_wf [OF assms(1)] assms(2) by (simp add: hid_wf_def)

lemma reach_two: "hid_reach two_channels"
proof -
  let ?r = "[0xFF, 0xFF, 0xFF, 0xFF, FRAME_INIT OR CMD_INIT] @ replicate 59 0"
  have b: "of_nat (be_decode [0xFF, 0xFF, 0xFF, 0xFF]) = BROADCAST_CID" by (simp add: be_decode_def BROADCAST_CID_def)
  have h: "snd (handle_report ?r d) = d\<lparr>hid_next_cid := hid_next_cid d + 1\<rparr>" for d
    using b by (simp add: handle_report_def init_response_def Let_def nth_append)
  have "hid_reach (snd (handle_report ?r (snd (handle_report ?r Ctaphid_new))))"
    by (intro hid_reach.intros) simp_all
  then show ?thesis unfolding h by (simp add: two_channels_def Ctaphid_new_def)
qed

theorem reassembly_in_bounds_witness:
  "\<exists>d p. hid_reach d \<and> hid_pending d = Some p \<and> length (pn_buf p) < pn_total p"
proof -
  let ?d = "snd (handle_report (init_report 1 CMD_CBOR (replicate 60 7)) two_channels)"
  have r: "hid_reach ?d" by (intro hid_reach.report reach_two init_report_parts(5) [OF refl])
  have "unat CMD_CBOR < 128" by (simp add: CMD_CBOR_def)
  then obtain p where p: "hid_pending ?d = Some p"
    using handle_init [of two_channels 1 CMD_CBOR "replicate 60 7"]
    by (simp add: two_channels_def Ctaphid_new_def allocated_def)
  from reassembly_in_bounds [OF r p] r p show ?thesis by blast
qed

text \<open>A message that is begun and never finished blocks the device: as long as no continuation packet comes on its
  channel, every attempt to start a message, on any channel, is answered with busy and changes nothing.\<close>

theorem unfinished_message_blocks:
  assumes "hid_pending d \<noteq> None" and "allocated d cid"
  shows "handle_report (init_report cid cmd payload) d = (encode_message cid CMD_ERROR [ERR_CHANNEL_BUSY], d)"
proof -
  let ?r = "init_report cid cmd payload"
  note r = init_report_parts [of ?r cid cmd payload, OF refl]
  show ?thesis
    using allocated_not_broadcast [OF assms(2)] r(1,2) frame_or [of cmd] assms
    by (simp add: handle_report_def start_message_def Let_def)
qed

theorem unfinished_message_blocks_witness:
  "\<exists>d. hid_reach d \<and> handle_report (init_report 2 CMD_CBOR [4]) d = (encode_message 2 CMD_ERROR [ERR_CHANNEL_BUSY], d)"
proof -
  let ?d = "snd (handle_report (init_report 1 CMD_CBOR (replicate 60 7)) two_channels)"
  have r: "hid_reach ?d" by (intro hid_reach.report reach_two init_report_parts(5) [OF refl])
  have "unat CMD_CBOR < 128" by (simp add: CMD_CBOR_def)
  then have "hid_pending ?d \<noteq> None" "allocated ?d 2"
    using handle_init [of two_channels 1 CMD_CBOR "replicate 60 7"]
    by (simp_all add: two_channels_def Ctaphid_new_def allocated_def)
  from unfinished_message_blocks [OF this] r show ?thesis by blast
qed

end
