(* ===== verification/Passkey_Daemon.thy ===== *)
theory Passkey_Daemon
  imports Ctaphid
begin

text \<open>
  The device below and the loop above the framing: the kernel events of \<open>rust/src/uhid.rs\<close> and the pump of
  \<open>rust/src/passkey_daemon.rs\<close>. \<open>pump_turn\<close> is one turn of the loop: what the device read gives and whether a keep-alive
  is due are its inputs; writes go to a list and can fail, which ends the thread. Opening the device, the instance lock
  and the thread around the loop are in \<open>Daemon_Life\<close>.

  Shown: a request is handed over whole and its answer goes back on its channel; with two requests open the first
  answer goes to the second channel.
\<close>

section \<open>The uhid events\<close>

definition VENDOR_ID :: u32 where "VENDOR_ID = 0x1209"
definition PRODUCT_ID :: u32 where "PRODUCT_ID = 0x6ABB"
definition UHID_CREATE2 :: u32 where "UHID_CREATE2 = 11"
definition BUS_USB :: u16 where "BUS_USB = 3"
definition UHID_OUTPUT :: u32 where "UHID_OUTPUT = 6"
definition UHID_INPUT2 :: u32 where "UHID_INPUT2 = 12"
definition UHID_DATA_MAX :: nat where "UHID_DATA_MAX = 4096"
definition DEVICE_NAME :: bytes where "DEVICE_NAME = str_bytes ''Gabbro Passkey Authenticator''"

definition REPORT_DESCRIPTOR :: bytes where
  "REPORT_DESCRIPTOR = [0x06, 0xD0, 0xF1, 0x09, 0x01, 0xA1, 0x01, 0x09, 0x20, 0x15, 0x00, 0x26, 0xFF, 0x00, 0x75, 0x08,
     0x95, 0x40, 0x81, 0x02, 0x09, 0x21, 0x15, 0x00, 0x26, 0xFF, 0x00, 0x75, 0x08, 0x95, 0x40, 0x91, 0x02, 0xC0]"

text \<open>Native byte order: little-endian, as on every target the application is built for.\<close>

definition ne_encode :: "nat \<Rightarrow> nat \<Rightarrow> bytes" where
  "ne_encode k n = rev (be_encode k n)"

definition ne_decode :: "bytes \<Rightarrow> nat" where
  "ne_decode b = be_decode (rev b)"

definition write_at :: "nat \<Rightarrow> bytes \<Rightarrow> bytes \<Rightarrow> bytes" where
  "write_at i b ev = take i ev @ b @ drop (i + length b) ev"

definition create2_event :: bytes where
  "create2_event =
     write_at 280 REPORT_DESCRIPTOR
    (write_at 268 (ne_encode 4 (unat PRODUCT_ID))
    (write_at 264 (ne_encode 4 (unat VENDOR_ID))
    (write_at 262 (ne_encode 2 (unat BUS_USB))
    (write_at 260 (ne_encode 2 (length REPORT_DESCRIPTOR))
    (write_at 4 DEVICE_NAME
    (write_at 0 (ne_encode 4 (unat UHID_CREATE2))
       (replicate (4 + 128 + 64 + 64 + 2 + 2 + 16 + 4096) 0)))))))"

definition input2_event :: "bytes \<Rightarrow> bytes" where
  "input2_event report =
     write_at 6 report
    (write_at 4 (ne_encode 2 (length report))
    (write_at 0 (ne_encode 4 (unat UHID_INPUT2))
       (replicate (4 + 2 + UHID_DATA_MAX) 0)))"

definition parse_output :: "bytes \<Rightarrow> bytes option" where
  "parse_output event =
     (if length event < 4 + UHID_DATA_MAX + 2 then None
      else if of_nat (ne_decode (take 4 event)) \<noteq> UHID_OUTPUT then None
      else Some (take (min (ne_decode [event ! (4 + UHID_DATA_MAX), event ! (4 + UHID_DATA_MAX + 1)]) UHID_DATA_MAX)
                  (drop 4 event)))"

section \<open>The daemon\<close>

text \<open>What the device gives on a read: nothing yet, an event, or a failure.\<close>

datatype device_read = WouldBlock | Event bytes | ReadError

definition read_event :: "device_read \<Rightarrow> unit + bytes option" where
  "read_event rd =
     (case rd of
        WouldBlock \<Rightarrow> Inr None
      | ReadError \<Rightarrow> Inl ()
      | Event buf \<Rightarrow>
          Inr (case parse_output buf of
                 None \<Rightarrow> None
               | Some report \<Rightarrow>
                   if length report < 64 then None
                   else if length report = 65 then Some (take 64 (drop 1 report))
                   else Some (take 64 report)))"

record Shared =
  sh_hid :: Ctaphid
  sh_inflight_cid :: "u32 option"
  sh_pending_response :: "bytes option"
  sh_written :: "bytes list"
  sh_write_fails :: "bool list"

definition dev_write :: "bytes \<Rightarrow> Shared \<Rightarrow> bool \<times> Shared" where
  "dev_write ev s =
     (let s' = s\<lparr>sh_write_fails := tl (sh_write_fails s)\<rparr> in
      if sh_write_fails s \<noteq> [] \<and> hd (sh_write_fails s) then (False, s')
      else (True, s'\<lparr>sh_written := sh_written s @ [ev]\<rparr>))"

fun write_reports :: "bytes list \<Rightarrow> Shared \<Rightarrow> bool \<times> Shared" where
  "write_reports [] s = (True, s)"
| "write_reports (r # rs) s =
     (case dev_write (input2_event r) s of
        (False, s') \<Rightarrow> (False, s')
      | (True, s') \<Rightarrow> write_reports rs s')"

text \<open>One turn of the loop. \<open>None\<close> is a thread that has ended; otherwise the request to hand to the user interface.\<close>

definition send_response :: "Shared \<Rightarrow> bool \<times> Shared" where
  "send_response s =
     (case (sh_pending_response s, sh_inflight_cid s) of
        (Some resp, Some cid) \<Rightarrow>
          (case write_reports (encode_message cid 0x10 resp) (s\<lparr>sh_pending_response := None\<rparr>) of
             (False, s') \<Rightarrow> (False, s')
           | (True, s') \<Rightarrow> (True, s'\<lparr>sh_inflight_cid := None\<rparr>))
      | _ \<Rightarrow> (True, s\<lparr>sh_pending_response := None\<rparr>))"

definition take_report :: "bytes \<Rightarrow> Shared \<Rightarrow> bytes option option \<times> Shared" where
  "take_report report s =
     (case handle_report report (sh_hid s) of (out, hid) \<Rightarrow>
        case write_reports out (s\<lparr>sh_hid := hid\<rparr>) of
          (False, s') \<Rightarrow> (None, s')
        | (True, s') \<Rightarrow>
            (case take_message (sh_hid s') of
               (None, hid') \<Rightarrow> (Some None, s'\<lparr>sh_hid := hid'\<rparr>)
             | (Some (cid, _, payload), hid') \<Rightarrow> (Some (Some payload), s'\<lparr>sh_hid := hid', sh_inflight_cid := Some cid\<rparr>)))"

definition keep_alive :: "bool \<Rightarrow> Shared \<Rightarrow> Shared" where
  "keep_alive due s =
     (case sh_inflight_cid s of
        Some cid \<Rightarrow> if due then snd (dev_write (input2_event (keepalive_processing cid)) s) else s
      | None \<Rightarrow> s)"

definition pump_turn :: "device_read \<Rightarrow> bool \<Rightarrow> Shared \<Rightarrow> bytes option option \<times> Shared" where
  "pump_turn rd due s =
     (case send_response s of
        (False, s1) \<Rightarrow> (None, s1)
      | (True, s1) \<Rightarrow>
          (case read_event rd of
             Inl _ \<Rightarrow> (None, s1)
           | Inr None \<Rightarrow> (Some None, keep_alive due s1)
           | Inr (Some report) \<Rightarrow>
               (case take_report report s1 of
                  (None, s2) \<Rightarrow> (None, s2)
                | (Some surfaced, s2) \<Rightarrow> (Some surfaced, keep_alive due s2))))"

definition respond :: "bytes \<Rightarrow> Shared \<Rightarrow> Shared" where
  "respond response s = s\<lparr>sh_pending_response := Some response\<rparr>"

definition Shared_new :: Shared where
  "Shared_new = \<lparr>sh_hid = Ctaphid_new, sh_inflight_cid = None, sh_pending_response = None, sh_written = [], sh_write_fails = []\<rparr>"

section \<open>Notions the lemmas are stated with\<close>

text \<open>The event in which the kernel hands over a report of the host, with a trailing report type.\<close>

definition output_event :: "bytes \<Rightarrow> bytes" where
  "output_event report = ne_encode 4 6 @ report @ replicate (4096 - length report) 0 @ ne_encode 2 (length report) @ [1]"

text \<open>The daemon over a list of reports, with the requests it hands over.\<close>

fun pump_reports :: "bytes list \<Rightarrow> Shared \<Rightarrow> bytes list \<times> Shared" where
  "pump_reports [] s = ([], s)"
| "pump_reports (r # rs) s =
     (case pump_turn (Event (output_event r)) False s of
        (None, s1) \<Rightarrow> ([], s1)
      | (Some surfaced, s1) \<Rightarrow>
          (case pump_reports rs s1 of (ps, s2) \<Rightarrow> ((case surfaced of None \<Rightarrow> [] | Some p \<Rightarrow> [p]) @ ps, s2)))"

definition two_clients :: Shared where
  "two_clients = Shared_new\<lparr>sh_hid := two_channels\<rparr>"

section \<open>Events\<close>

lemma parse_output_event:
  assumes "length report \<le> 4096"
  shows "parse_output (output_event report) = Some report"
proof -
  have l: "length (ne_encode k n) = k" for k n by (simp add: ne_encode_def)
  have d: "ne_decode (ne_encode k n) = n mod 256 ^ k" for k n by (simp add: ne_encode_def ne_decode_def be_decode_encode)
  obtain a b where ab: "ne_encode 2 (length report) = [a, b]" using length2 [OF l] by blast
  have t: "take 4 (output_event report) = ne_encode 4 6" by (simp add: output_event_def l)
  have n: "output_event report ! 4100 = a" "output_event report ! 4101 = b"
    using assms by (auto simp: output_event_def nth_append l ab)
  have "ne_decode [a, b] = length report" using d [of 2 "length report"] assms ab by simp
  moreover have "take (length report) (drop 4 (output_event report)) = report" by (simp add: output_event_def l)
  moreover have "length (output_event report) = 4103" using assms by (simp add: output_event_def l)
  ultimately show ?thesis using assms
    by (simp add: parse_output_def UHID_DATA_MAX_def t d n UHID_OUTPUT_def)
qed

lemma read_output_event: "length r = 64 \<Longrightarrow> read_event (Event (output_event r)) = Inr (Some r)"
  by (simp add: read_event_def parse_output_event)

lemma input2_event_length: "length report \<le> 64 \<Longrightarrow> length (input2_event report) = 4102"
  by (simp add: input2_event_def write_at_def ne_encode_def UHID_DATA_MAX_def)

section \<open>Writing\<close>

lemma write_reports_quiet:
  "sh_write_fails s = [] \<Longrightarrow> write_reports rs s = (True, s\<lparr>sh_written := sh_written s @ map input2_event rs\<rparr>)"
  by (induction rs arbitrary: s) (simp_all add: dev_write_def Let_def)

lemma no_response: "sh_pending_response s = None \<Longrightarrow> send_response s = (True, s)"
  by (simp add: send_response_def)

lemma pump_report:
  assumes "length r = 64" and "sh_pending_response s = None" and "sh_write_fails s = []"
    and "handle_report r (sh_hid s) = ([], d)"
  shows "pump_turn (Event (output_event r)) False s =
    (case hid_complete d of
       None \<Rightarrow> (Some None, s\<lparr>sh_hid := d\<rparr>)
     | Some (cid, _, payload) \<Rightarrow> (Some (Some payload), s\<lparr>sh_hid := d\<lparr>hid_complete := None\<rparr>, sh_inflight_cid := Some cid\<rparr>))"
  using assms
  by (auto simp: pump_turn_def no_response read_output_event take_report_def take_message_def keep_alive_def split: option.split)

section \<open>A request on its way to the user interface\<close>

lemma pump_cont:
  assumes "hid_pending (sh_hid s) = Some p" and "pn_cid p = cid" and "pn_next_seq p = of_nat seq" and "pn_cmd p = CMD_CBOR"
    and "rest \<noteq> []" and "pn_total p = length (pn_buf p) + length rest" and "59 * seq + length rest \<le> 59 * 128"
    and "sh_pending_response s = None" and "sh_write_fails s = []" and "hid_complete (sh_hid s) = None"
  shows "pump_reports (cont_reports cid seq rest) s =
    ([pn_buf p @ rest], s\<lparr>sh_hid := (sh_hid s)\<lparr>hid_pending := None\<rparr>, sh_inflight_cid := Some cid\<rparr>)"
  using assms
proof (induction cid seq rest arbitrary: s p rule: cont_reports.induct)
  case (1 cid seq rest)
  let ?p = "p\<lparr>pn_buf := pn_buf p @ take 59 rest, pn_next_seq := of_nat (Suc seq)\<rparr>"
  have "0 < length rest" using "1.prems"(5) by simp
  then have seq: "seq < 128" using "1.prems"(7) by linarith
  have len: "length (take 59 rest) = min (pn_total p - length (pn_buf p)) 59" using "1.prems"(6) by simp
  have l64: "length (cont_report cid seq (take 59 rest)) = 64" by (rule cont_report_parts(4) [OF refl]) simp
  note h = handle_cont [OF "1.prems"(1-3) seq len refl]
  note step = pump_report [OF l64 "1.prems"(8,9)]
  show ?case
  proof (cases "drop 59 rest = []")
    case True
    then have "take 59 rest = rest" by simp
    then have "handle_report (cont_report cid seq (take 59 rest)) (sh_hid s) =
        ([], (sh_hid s)\<lparr>hid_pending := None, hid_complete := Some (cid, CMD_CBOR, pn_buf p @ rest)\<rparr>)"
      using h "1.prems"(4,6) by (simp add: finish_def CMD_PING_def CMD_CBOR_def)
    from step [OF this] "1.prems"(5,10) True show ?thesis
      by (simp add: cont_reports.simps [of cid seq rest] cont_reports.simps [of cid "Suc seq" "[]"])
  next
    case False
    then have "handle_report (cont_report cid seq (take 59 rest)) (sh_hid s) = ([], (sh_hid s)\<lparr>hid_pending := Some ?p\<rparr>)"
      using h "1.prems"(6) by auto
    note st = step [OF this]
    let ?s = "s\<lparr>sh_hid := (sh_hid s)\<lparr>hid_pending := Some ?p\<rparr>\<rparr>"
    have "pump_reports (cont_reports cid (Suc seq) (drop 59 rest)) ?s =
        ([pn_buf ?p @ drop 59 rest], ?s\<lparr>sh_hid := (sh_hid ?s)\<lparr>hid_pending := None\<rparr>, sh_inflight_cid := Some cid\<rparr>)"
      by (rule "1.IH" [OF "1.prems"(5), of _ ?p]) (use False "1.prems" in auto)
    with st "1.prems"(5,10) show ?thesis by (simp add: cont_reports.simps [of cid seq rest])
  qed
qed

lemma pump_message:
  assumes "hid_idle (sh_hid s)" and "hid_sendable (sh_hid s) (cid, CMD_CBOR, payload)" and "hid_complete (sh_hid s) = None"
    and "sh_pending_response s = None" and "sh_write_fails s = []"
  shows "pump_reports (encode_message cid CMD_CBOR payload) s = ([payload], s\<lparr>sh_inflight_cid := Some cid\<rparr>)"
proof -
  let ?r = "init_report cid CMD_CBOR payload" and ?d = "sh_hid s"
  have al: "allocated ?d cid" "length payload \<le> 57 + 59 * 128" "hid_pending ?d = None"
    using assms(1,2) by (simp_all add: hid_sendable_def hid_idle_def)
  note step = pump_report [OF init_report_parts(5) [OF refl] assms(4,5)]
  have c: "?d\<lparr>hid_pending := None\<rparr> = ?d" "?d\<lparr>hid_complete := None\<rparr> = ?d" using al(3) assms(3) by simp_all
  have u: "unat CMD_CBOR < 128" by (simp add: CMD_CBOR_def)
  note h = handle_init [OF al(1,3) u al(2)]
  show ?thesis
  proof (cases "length payload \<le> 57")
    case True
    then have "handle_report ?r ?d = ([], ?d\<lparr>hid_complete := Some (cid, CMD_CBOR, payload)\<rparr>)"
      using h by (simp add: finish_def CMD_PING_def CMD_CBOR_def)
    from step [OF this] True c show ?thesis by (simp add: encode_message_def cont_reports.simps [of cid 0 "[]"])
  next
    case False
    let ?p = "\<lparr>pn_cid = cid, pn_cmd = CMD_CBOR, pn_total = length payload, pn_buf = take 57 payload, pn_next_seq = 0\<rparr>"
    let ?s = "s\<lparr>sh_hid := ?d\<lparr>hid_pending := Some ?p\<rparr>\<rparr>"
    have "handle_report ?r ?d = ([], ?d\<lparr>hid_pending := Some ?p\<rparr>)" using h False by simp
    note st = step [OF this]
    have "pump_reports (cont_reports cid 0 (drop 57 payload)) ?s =
        ([pn_buf ?p @ drop 57 payload], ?s\<lparr>sh_hid := (sh_hid ?s)\<lparr>hid_pending := None\<rparr>, sh_inflight_cid := Some cid\<rparr>)"
      by (rule pump_cont) (use False assms al in auto)
    with st assms(3) c show ?thesis by (simp add: encode_message_def)
  qed
qed

lemma answer_turn:
  assumes "sh_inflight_cid s = Some cid" and "sh_write_fails s = []"
  shows "pump_turn WouldBlock due (respond answer s) =
    (Some None, s\<lparr>sh_pending_response := None, sh_inflight_cid := None,
       sh_written := sh_written s @ map input2_event (encode_message cid 0x10 answer)\<rparr>)"
  using assms
  by (simp add: pump_turn_def send_response_def respond_def write_reports_quiet read_event_def keep_alive_def)

section \<open>Properties of the daemon\<close>

text \<open>A request sent by the host in packets is handed to the user interface once, whole, and the answer goes back in
  packets from which the host reassembles it, on the channel of the request.\<close>

theorem answer_returns_to_its_channel:
  assumes "hid_pending (sh_hid s) = None" and "hid_complete (sh_hid s) = None" and "allocated (sh_hid s) cid"
    and "length request \<le> 7609" and "sh_pending_response s = None" and "sh_write_fails s = []"
    and "pump_reports (encode_message cid CMD_CBOR request) s = (surfaced, s1)"
  shows "surfaced = [request]
    \<and> sh_written (snd (pump_turn WouldBlock due (respond answer s1))) =
        sh_written s @ map input2_event (encode_message cid CMD_CBOR answer)"
proof -
  have "pump_reports (encode_message cid CMD_CBOR request) s = ([request], s\<lparr>sh_inflight_cid := Some cid\<rparr>)"
    by (rule pump_message) (use assms in \<open>simp_all add: hid_idle_def hid_sendable_def\<close>)
  with assms(7) have s1: "surfaced = [request]" "s1 = s\<lparr>sh_inflight_cid := Some cid\<rparr>" by simp_all
  with assms(6) answer_turn [of s1 cid due answer] show ?thesis by (simp add: CMD_CBOR_def)
qed

theorem answer_returns_to_its_channel_witness:
  "\<exists>s1. pump_reports (encode_message 1 CMD_CBOR (replicate 60 7)) two_clients = ([replicate 60 7], s1)
     \<and> sh_written (snd (pump_turn WouldBlock False (respond [0] s1))) = map input2_event (encode_message 1 CMD_CBOR [0])"
proof -
  obtain surfaced s1 where p: "pump_reports (encode_message 1 CMD_CBOR (replicate 60 7)) two_clients = (surfaced, s1)"
    by (rule prod.exhaust)
  have a: "hid_pending (sh_hid two_clients) = None" "hid_complete (sh_hid two_clients) = None" "allocated (sh_hid two_clients) 1"
    "length (replicate 60 (7 :: byte)) \<le> 7609" "sh_pending_response two_clients = None" "sh_write_fails two_clients = []"
    "sh_written two_clients = []"
    by (simp_all add: two_clients_def Shared_new_def two_channels_def Ctaphid_new_def allocated_def)
  from answer_returns_to_its_channel [OF a(1-6) p, of False "[0]"] p a(7) show ?thesis by auto
qed

text \<open>The daemon remembers one channel only. When a second request comes in on another channel while the first still
  waits for the user, the answer to the first is sent on the channel of the second.\<close>

theorem answer_can_go_to_another_channel:
  assumes "sh_inflight_cid s = Some first" and "second \<noteq> first"
    and "hid_pending (sh_hid s) = None" and "hid_complete (sh_hid s) = None" and "allocated (sh_hid s) second"
    and "length request \<le> 7609" and "sh_pending_response s = None" and "sh_write_fails s = []"
  shows "sh_written (snd (pump_turn WouldBlock due (respond answer_to_first
      (snd (pump_reports (encode_message second CMD_CBOR request) s))))) =
    sh_written s @ map input2_event (encode_message second CMD_CBOR answer_to_first)"
proof -
  have "pump_reports (encode_message second CMD_CBOR request) s = ([request], s\<lparr>sh_inflight_cid := Some second\<rparr>)"
    by (rule pump_message) (use assms in \<open>simp_all add: hid_idle_def hid_sendable_def\<close>)
  with answer_turn [of "s\<lparr>sh_inflight_cid := Some second\<rparr>" second due answer_to_first] assms(8) show ?thesis
    by (simp add: CMD_CBOR_def)
qed

theorem answer_can_go_to_another_channel_witness:
  "sh_written (snd (pump_turn WouldBlock False (respond [0, 1]
      (snd (pump_reports (encode_message 2 CMD_CBOR [4]) (two_clients\<lparr>sh_inflight_cid := Some 1\<rparr>)))))) =
    map input2_event (encode_message 2 CMD_CBOR [0, 1])"
  using answer_can_go_to_another_channel [of "two_clients\<lparr>sh_inflight_cid := Some 1\<rparr>" 1 2 "[4]" False "[0, 1]"]
  by (simp add: two_clients_def Shared_new_def two_channels_def Ctaphid_new_def allocated_def)

end
