(* ===== verification/Security_Key.thy ===== *)
theory Security_Key
  imports Vault_Crypto Passkey_Daemon
begin

text \<open>
  The security keys of the user (\<open>rust/src/fido/device.rs\<close>, \<open>rust/src/fido/mod.rs\<close>, \<open>rust/src/api/fido_bridge.rs\<close>). libfido2
  is a parameter: the record \<open>fido_lib\<close> answers each call from the calls made before it. The state of a computation is
  the log of calls, each with whether it succeeded, and the random source.

  Shown: whichever registered key is inserted, its secret is found and opens the vault; the library's objects are used in order and
  released on every path on which the setters succeed; a wrong PIN is sent again for every pair of records; the virtual
  key of the program itself is never offered.
\<close>

section \<open>Calls into libfido2\<close>

datatype fido_call = Fido_init | Dev_new | Dev_open string | Dev_close | Dev_free
  | Cred_new | Cred_set_type int | Cred_set_clientdata_hash bytes | Cred_set_rp string string
  | Cred_set_user bytes string | Cred_set_extensions nat | Dev_make_cred string | Cred_id | Cred_free
  | Assert_new | Assert_set_clientdata_hash bytes | Assert_set_rp string | Assert_allow_cred bytes
  | Assert_set_extensions nat | Assert_set_hmac_salt bytes | Dev_get_assert string | Assert_id | Assert_hmac_secret | Assert_free
  | Info_new nat | Info_manifest nat | Info_free nat

type_synonym fido_log = "(fido_call \<times> bool) list"

text \<open>An entry of the device list: vendor and product are \<open>i16\<close> in C, a null path is \<open>None\<close>.\<close>

record dev_info =
  di_vendor :: "16 word"
  di_product :: "16 word"
  di_path :: "bytes option"

text \<open>A constructor function returns a pointer or null, most functions a code, and an accessor the bytes at a pointer, or
  \<open>None\<close> for null, whose length is 0.\<close>

record fido_lib =
  fl_alloc :: "fido_log \<Rightarrow> fido_call \<Rightarrow> bool"
  fl_code :: "fido_log \<Rightarrow> fido_call \<Rightarrow> int"
  fl_data :: "fido_log \<Rightarrow> fido_call \<Rightarrow> bytes option"
  fl_devices :: "fido_log \<Rightarrow> dev_info option list"

record fido_state =
  fs_log :: fido_log
  fs_rng :: rng

type_synonym 'a fido = "(fido_state, 'a) run"

definition FIDO_OK :: int where "FIDO_OK = 0"
definition COSE_ES256 :: int where "COSE_ES256 = -7"
definition FIDO_EXT_HMAC_SECRET :: nat where "FIDO_EXT_HMAC_SECRET = 1"

definition called :: "fido_call \<Rightarrow> bool \<Rightarrow> fido_state \<Rightarrow> fido_state" where
  "called c ok s = s\<lparr>fs_log := fs_log s @ [(c, ok)]\<rparr>"

definition call :: "fido_call \<Rightarrow> unit fido" where
  "call c s = (Inr (), called c True s)"

definition alloc :: "fido_lib \<Rightarrow> fido_call \<Rightarrow> bool fido" where
  "alloc L c s = (let ok = fl_alloc L (fs_log s) c in (Inr ok, called c ok s))"

definition status :: "fido_lib \<Rightarrow> fido_call \<Rightarrow> int fido" where
  "status L c s = (let r = fl_code L (fs_log s) c in (Inr r, called c (r = FIDO_OK) s))"

definition bytes_at :: "fido_lib \<Rightarrow> fido_call \<Rightarrow> bytes option fido" where
  "bytes_at L c s = (let b = fl_data L (fs_log s) c in (Inr b, called c (b \<noteq> None) s))"

fun calls :: "fido_call list \<Rightarrow> unit fido" where
  "calls [] = rret ()"
| "calls (c # cs) = rthen (call c) (calls cs)"

definition fail :: "fido_call list \<Rightarrow> string \<Rightarrow> 'a fido" where
  "fail cleanup msg = rthen (calls cleanup) (rlift (Inl (Err msg)))"

text \<open>A call whose code is tested: what is released and said when it is not \<open>FIDO_OK\<close>.\<close>

definition checked :: "fido_lib \<Rightarrow> fido_call \<Rightarrow> fido_call list \<Rightarrow> (int \<Rightarrow> string) \<Rightarrow> unit fido" where
  "checked L c cleanup msg = rbind (status L c) (\<lambda>r. if r \<noteq> FIDO_OK then fail cleanup (msg r) else rret ())"

definition random32 :: "bytes fido" where
  "random32 = zoom fs_rng (\<lambda>r s. s\<lparr>fs_rng := r\<rparr>) (fill_bytes 32)"

definition show_int :: "int \<Rightarrow> string" where
  "show_int i = (if i < 0 then ''-'' @ show_nat (nat (- i)) else show_nat (nat i))"

definition failed :: "string \<Rightarrow> int \<Rightarrow> string" where
  "failed name r = name @ '' failed: '' @ show_int r"

text \<open>\<open>CString::new\<close> refuses a string with a NUL byte.\<close>

definition CString_new :: "string \<Rightarrow> string res" where
  "CString_new s = (if CHR 0x00 \<in> set s
     then Inl (Err (''nul byte found in provided data at position: '' @ show_nat (length (takeWhile (\<lambda>c. c \<noteq> CHR 0x00) s))))
     else Inr s)"

section \<open>Registration\<close>

definition RP_ID :: string where "RP_ID = ''app.gabbro.gabbro''"

definition fido_err_hint :: "int \<Rightarrow> string" where
  "fido_err_hint r =
     (let hint = (\<lambda>h. show_int r @ '' ('' @ h @ '')'') in
      if r = 0x05 then hint (''timeout '' @ em_dash @ '' no YubiKey tapped in time'')
      else if r = 0x30 then hint ''operation not allowed''
      else if r = 0x31 then hint (''wrong PIN '' @ em_dash @ '' check your FIDO2 PIN and try again'')
      else if r = 0x32 then hint (''PIN blocked '' @ em_dash @ '' too many wrong attempts, the key must be reset'')
      else if r = 0x33 \<or> r = 0x34 then hint ''PIN authentication failed''
      else if r = 0x35 then hint (''PIN not set '' @ em_dash @ '' configure a FIDO2 PIN first (ykman fido access change-pin)'')
      else if r = 0x36 then hint ''PIN required''
      else show_int r)"

definition open_device :: "fido_lib \<Rightarrow> string \<Rightarrow> unit fido" where
  "open_device L path =
     rthen (call Fido_init)
    (rbind (alloc L Dev_new) (\<lambda>dev.
     if \<not> dev then fail [] ''fido_dev_new failed''
     else checked L (Dev_open path) [Dev_free] (failed ''fido_dev_open'')))"

definition finish_registration :: "fido_lib \<Rightarrow> YubiKeyRecord fido" where
  "finish_registration L = rbind (bytes_at L Cred_id) (\<lambda>id_ptr.
     case id_ptr of
       Some (b # bs) \<Rightarrow>
         rbind random32 (\<lambda>salt.
         rthen (calls [Cred_free, Dev_close, Dev_free])
           (rret \<lparr>yr_credential_id = b # bs, yr_salt = salt, yr_key_blob = []\<rparr>))
     | _ \<Rightarrow> fail [Cred_free, Dev_close, Dev_free] ''credential ID is empty'')"

definition register_credential :: "fido_lib \<Rightarrow> string \<Rightarrow> string \<Rightarrow> YubiKeyRecord fido" where
  "register_credential L device_path pin =
     rbind random32 (\<lambda>client_data_hash.
     rbind (rlift (CString_new device_path)) (\<lambda>device_path_c.
     rbind (rlift (CString_new pin)) (\<lambda>pin_c.
     rthen (open_device L device_path_c)
    (rbind (alloc L Cred_new) (\<lambda>cred.
     if \<not> cred then fail [Dev_close, Dev_free] ''fido_cred_new failed''
     else
     rthen (checked L (Cred_set_type COSE_ES256) [] (failed ''fido_cred_set_type''))
    (rthen (checked L (Cred_set_clientdata_hash client_data_hash) [] (failed ''fido_cred_set_clientdata_hash''))
    (rthen (checked L (Cred_set_rp RP_ID ''Gabbro'') [] (failed ''fido_cred_set_rp''))
    (rthen (checked L (Cred_set_user (str_bytes ''gabbro-user'') ''gabbro-user'') [] (failed ''fido_cred_set_user''))
    (rthen (checked L (Cred_set_extensions FIDO_EXT_HMAC_SECRET) [] (failed ''fido_cred_set_extensions''))
    (rthen (checked L (Dev_make_cred pin_c) [Cred_free, Dev_close, Dev_free]
       (\<lambda>r. ''fido_dev_make_cred failed: '' @ fido_err_hint r))
    (finish_registration L)))))))))))"

section \<open>The secret of a key\<close>

record HmacMatch =
  hm_hmac :: bytes
  hm_credential_id :: bytes

abbreviation "release_assertion \<equiv> [Assert_free, Dev_close, Dev_free]"

fun allow_creds :: "fido_lib \<Rightarrow> bytes list \<Rightarrow> unit fido" where
  "allow_creds L [] = rret ()"
| "allow_creds L (c # cs) =
     rthen (checked L (Assert_allow_cred c) [] (failed ''fido_assert_allow_cred'')) (allow_creds L cs)"

text \<open>The part the two ways of asking share: from the random client data to the tap.\<close>

definition ask_assertion :: "fido_lib \<Rightarrow> string \<Rightarrow> bytes list \<Rightarrow> bytes \<Rightarrow> string \<Rightarrow> unit fido" where
  "ask_assertion L device_path allow salt pin =
     rbind random32 (\<lambda>client_data_hash.
     rbind (rlift (CString_new device_path)) (\<lambda>device_path_c.
     rbind (rlift (CString_new pin)) (\<lambda>pin_c.
     rthen (open_device L device_path_c)
    (rbind (alloc L Assert_new) (\<lambda>assert.
     if \<not> assert then fail [Dev_close, Dev_free] ''fido_assert_new failed''
     else
     rthen (checked L (Assert_set_clientdata_hash client_data_hash) [] (failed ''fido_assert_set_clientdata_hash''))
    (rthen (checked L (Assert_set_rp RP_ID) [] (failed ''fido_assert_set_rp''))
    (rthen (allow_creds L allow)
    (rthen (checked L (Assert_set_extensions FIDO_EXT_HMAC_SECRET) [] (failed ''fido_assert_set_extensions''))
    (rthen (checked L (Assert_set_hmac_salt salt) [] (failed ''fido_assert_set_hmac_salt''))
    (checked L (Dev_get_assert pin_c) release_assertion (\<lambda>r. ''fido_dev_get_assert failed: '' @ fido_err_hint r)))))))))))"

text \<open>The secret of the assertion, which must have the expected length.\<close>

definition hmac_output :: "fido_lib \<Rightarrow> nat \<Rightarrow> bytes fido" where
  "hmac_output L n =
     rbind (bytes_at L Assert_hmac_secret) (\<lambda>secret.
     let secret_len = (case secret of None \<Rightarrow> 0 | Some bs \<Rightarrow> length bs) in
     case secret of
       Some bs \<Rightarrow> if secret_len \<noteq> n
         then fail release_assertion (''unexpected hmac-secret length: '' @ show_nat secret_len @ '' (expected '' @ show_nat n @ '')'')
         else rret bs
     | None \<Rightarrow> fail release_assertion (''unexpected hmac-secret length: '' @ show_nat secret_len @ '' (expected '' @ show_nat n @ '')''))"

definition get_hmac_secret :: "fido_lib \<Rightarrow> string \<Rightarrow> YubiKeyRecord \<Rightarrow> string \<Rightarrow> bytes fido" where
  "get_hmac_secret L device_path record pin =
     rthen (ask_assertion L device_path [yr_credential_id record] (yr_salt record) pin)
    (rbind (hmac_output L 32) (\<lambda>output.
     rthen (calls release_assertion) (rret output)))"

definition select_hmac_half :: "bytes \<Rightarrow> bytes \<Rightarrow> YubiKeyRecord \<Rightarrow> YubiKeyRecord \<Rightarrow> (bytes \<times> bytes) option" where
  "select_hmac_half secret matched_id r0 r1 =
     (if matched_id = yr_credential_id r0 then Some (take 32 secret, yr_credential_id r0)
      else if matched_id = yr_credential_id r1 then Some (drop 32 secret, yr_credential_id r1)
      else None)"

definition get_hmac_secret_for_pair ::
  "fido_lib \<Rightarrow> string \<Rightarrow> YubiKeyRecord \<Rightarrow> YubiKeyRecord \<Rightarrow> string \<Rightarrow> HmacMatch fido" where
  "get_hmac_secret_for_pair L device_path r0 r1 pin =
     (let combined_salt = yr_salt r0 @ yr_salt r1 in
     rthen (ask_assertion L device_path [yr_credential_id r0, yr_credential_id r1] combined_salt pin)
    (rbind (bytes_at L Assert_id) (\<lambda>id_ptr.
     case id_ptr of
       Some (b # bs) \<Rightarrow>
         rbind (hmac_output L 64) (\<lambda>secret.
         rthen (calls release_assertion)
        (case select_hmac_half secret (b # bs) r0 r1 of
           Some (hmac, credential_id) \<Rightarrow> rret \<lparr>hm_hmac = hmac, hm_credential_id = credential_id\<rparr>
         | None \<Rightarrow> rlift (Inl (Err ''assertion credential ID does not match either record''))))
     | _ \<Rightarrow> fail release_assertion ''assertion: matched credential ID is empty'')))"

fun pairs :: "'a list \<Rightarrow> ('a \<times> 'a) list" where
  "pairs [] = []"
| "pairs (x # xs) = map (Pair x) xs @ pairs xs"

fun try_pairs :: "fido_lib \<Rightarrow> string \<Rightarrow> string \<Rightarrow> (YubiKeyRecord \<times> YubiKeyRecord) list \<Rightarrow> HmacMatch fido" where
  "try_pairs L device_path pin [] = rlift (Inl (Err ''no matching FIDO2 credential found among registered records''))"
| "try_pairs L device_path pin ((r0, r1) # ps) =
     rbind (rtry (get_hmac_secret_for_pair L device_path r0 r1 pin)) (\<lambda>x. case x of
       Inr m \<Rightarrow> rret m
     | Inl Panic \<Rightarrow> rlift (Inl Panic)
     | Inl (Err _) \<Rightarrow> try_pairs L device_path pin ps)"

definition get_hmac_secret_any_of :: "fido_lib \<Rightarrow> string \<Rightarrow> YubiKeyRecord list \<Rightarrow> string \<Rightarrow> HmacMatch fido" where
  "get_hmac_secret_any_of L device_path records pin =
     (case records of
        [] \<Rightarrow> rlift (Inl (Err ''no records provided''))
      | [r] \<Rightarrow> rbind (get_hmac_secret L device_path r pin) (\<lambda>hmac.
          rret \<lparr>hm_hmac = hmac, hm_credential_id = yr_credential_id r\<rparr>)
      | [r0, r1] \<Rightarrow> get_hmac_secret_for_pair L device_path r0 r1 pin
      | _ \<Rightarrow> try_pairs L device_path pin (pairs records))"

section \<open>The calls of the user interface\<close>

definition MAX_DEVICES :: nat where "MAX_DEVICES = 16"

fun listed_path :: "dev_info option \<Rightarrow> string list" where
  "listed_path None = []"
| "listed_path (Some info) =
     (if (ucast (di_vendor info) :: u32) = VENDOR_ID \<and> (ucast (di_product info) :: u32) = PRODUCT_ID then []
      else case di_path info of
        None \<Rightarrow> []
      | Some p \<Rightarrow> if utf8_valid p then [bytes_str p] else [])"

definition fido_list_devices :: "fido_lib \<Rightarrow> string list fido" where
  "fido_list_devices L =
     rthen (call Fido_init)
    (rbind (alloc L (Info_new MAX_DEVICES)) (\<lambda>devlist.
     if \<not> devlist then fail [] ''fido_dev_info_new failed''
     else
     rthen (checked L (Info_manifest MAX_DEVICES) [Info_free MAX_DEVICES] (failed ''fido_dev_info_manifest''))
    (rbind (\<lambda>s. (Inr (fl_devices L (fs_log s)), s)) (\<lambda>infos.
     rthen (call (Info_free MAX_DEVICES)) (rret (concat (map listed_path infos)))))))"

record FidoCredentialData =
  fcd_credential_id :: bytes
  fcd_salt :: bytes

record FidoRecordInput =
  fri_credential_id :: bytes
  fri_salt :: bytes

record FidoHmacMatch =
  fhm_hmac :: bytes
  fhm_credential_id :: bytes

definition fido_register :: "fido_lib \<Rightarrow> string \<Rightarrow> string \<Rightarrow> FidoCredentialData fido" where
  "fido_register L device_path pin = rbind (register_credential L device_path pin) (\<lambda>record.
     rret \<lparr>fcd_credential_id = yr_credential_id record, fcd_salt = yr_salt record\<rparr>)"

definition input_record :: "bytes \<Rightarrow> bytes \<Rightarrow> YubiKeyRecord res" where
  "input_record credential_id salt =
     (if length salt = 32 then Inr \<lparr>yr_credential_id = credential_id, yr_salt = salt, yr_key_blob = []\<rparr>
      else Inl (Err ''salt must be exactly 32 bytes''))"

definition fido_get_hmac_secret :: "fido_lib \<Rightarrow> string \<Rightarrow> bytes \<Rightarrow> bytes \<Rightarrow> string \<Rightarrow> bytes fido" where
  "fido_get_hmac_secret L device_path credential_id salt pin =
     rbind (rlift (input_record credential_id salt)) (\<lambda>record. get_hmac_secret L device_path record pin)"

definition fido_get_hmac_secret_any :: "fido_lib \<Rightarrow> string \<Rightarrow> FidoRecordInput list \<Rightarrow> string \<Rightarrow> FidoHmacMatch fido" where
  "fido_get_hmac_secret_any L device_path records pin =
     rbind (rmap (\<lambda>r. rlift (input_record (fri_credential_id r) (fri_salt r))) records) (\<lambda>yubikey_records.
     rbind (get_hmac_secret_any_of L device_path yubikey_records pin) (\<lambda>m.
     rret \<lparr>fhm_hmac = hm_hmac m, fhm_credential_id = hm_credential_id m\<rparr>))"

section \<open>Notions the lemmas are stated with\<close>

text \<open>Which of its objects a caller holds: a device, opened or not, a credential or an assertion, a device list.\<close>

record handles =
  h_dev :: bool
  h_open :: bool
  h_cred :: bool
  h_assert :: bool
  h_info :: bool

definition no_handles :: handles where
  "no_handles = \<lparr>h_dev = False, h_open = False, h_cred = False, h_assert = False, h_info = False\<rparr>"

text \<open>\<open>None\<close> is a use of an object that is not there, a second free, or an object overwritten while it is held.\<close>

fun use_handles :: "fido_call \<times> bool \<Rightarrow> handles \<Rightarrow> handles option" where
  "use_handles (Fido_init, _) h = Some h"
| "use_handles (Dev_new, ok) h = (if h_dev h then None else Some (h\<lparr>h_dev := ok\<rparr>))"
| "use_handles (Dev_open _, ok) h = (if h_dev h \<and> \<not> h_open h then Some (h\<lparr>h_open := ok\<rparr>) else None)"
| "use_handles (Dev_close, _) h = (if h_open h then Some (h\<lparr>h_open := False\<rparr>) else None)"
| "use_handles (Dev_free, _) h = (if h_dev h \<and> \<not> h_open h then Some (h\<lparr>h_dev := False\<rparr>) else None)"
| "use_handles (Cred_new, ok) h = (if h_cred h then None else Some (h\<lparr>h_cred := ok\<rparr>))"
| "use_handles (Cred_free, _) h = (if h_cred h then Some (h\<lparr>h_cred := False\<rparr>) else None)"
| "use_handles (Dev_make_cred _, _) h = (if h_open h \<and> h_cred h then Some h else None)"
| "use_handles (Cred_set_type _, _) h = (if h_cred h then Some h else None)"
| "use_handles (Cred_set_clientdata_hash _, _) h = (if h_cred h then Some h else None)"
| "use_handles (Cred_set_rp _ _, _) h = (if h_cred h then Some h else None)"
| "use_handles (Cred_set_user _ _, _) h = (if h_cred h then Some h else None)"
| "use_handles (Cred_set_extensions _, _) h = (if h_cred h then Some h else None)"
| "use_handles (Cred_id, _) h = (if h_cred h then Some h else None)"
| "use_handles (Assert_new, ok) h = (if h_assert h then None else Some (h\<lparr>h_assert := ok\<rparr>))"
| "use_handles (Assert_free, _) h = (if h_assert h then Some (h\<lparr>h_assert := False\<rparr>) else None)"
| "use_handles (Dev_get_assert _, _) h = (if h_open h \<and> h_assert h then Some h else None)"
| "use_handles (Info_new _, ok) h = (if h_info h then None else Some (h\<lparr>h_info := ok\<rparr>))"
| "use_handles (Info_manifest _, _) h = (if h_info h then Some h else None)"
| "use_handles (Info_free _, _) h = (if h_info h then Some (h\<lparr>h_info := False\<rparr>) else None)"
| "use_handles (_, _) h = (if h_assert h then Some h else None)"

fun replay :: "fido_log \<Rightarrow> handles \<Rightarrow> handles option" where
  "replay [] h = Some h"
| "replay (c # l) h = (case use_handles c h of None \<Rightarrow> None | Some h' \<Rightarrow> replay l h')"

text \<open>A computation that uses objects in order and holds none at its end, whatever its result.\<close>

definition releases :: "'a fido \<Rightarrow> bool" where
  "releases m = (\<forall>s. \<exists>l. fs_log (snd (m s)) = fs_log s @ l \<and> replay l no_handles = Some no_handles)"

text \<open>From the objects \<open>h\<close> a computation goes to \<open>Q x\<close> with result \<open>x\<close>, or fails and holds none.\<close>

definition moves :: "handles \<Rightarrow> 'a fido \<Rightarrow> ('a \<Rightarrow> handles) \<Rightarrow> bool" where
  "moves h m Q = (\<forall>s r s'. m s = (r, s') \<longrightarrow> (\<exists>l. fs_log s' = fs_log s @ l
     \<and> replay l h = Some (case r of Inl _ \<Rightarrow> no_handles | Inr x \<Rightarrow> Q x)))"

fun is_setter :: "fido_call \<Rightarrow> bool" where
  "is_setter (Cred_set_type _) = True"
| "is_setter (Cred_set_clientdata_hash _) = True"
| "is_setter (Cred_set_rp _ _) = True"
| "is_setter (Cred_set_user _ _) = True"
| "is_setter (Cred_set_extensions _) = True"
| "is_setter (Assert_set_clientdata_hash _) = True"
| "is_setter (Assert_set_rp _) = True"
| "is_setter (Assert_allow_cred _) = True"
| "is_setter (Assert_set_extensions _) = True"
| "is_setter (Assert_set_hmac_salt _) = True"
| "is_setter _ = False"

text \<open>The setters of libfido2 fail only for lack of memory or for arguments it does not accept.\<close>

definition setters_accept :: "fido_lib \<Rightarrow> bool" where
  "setters_accept L = (\<forall>l c. is_setter c \<longrightarrow> fl_code L l c = FIDO_OK)"

text \<open>The hypothesis is needed: a setter that fails leaves the device open.\<close>

definition failing_lib :: fido_lib where
  "failing_lib = \<lparr>fl_alloc = \<lambda>_ _. True, fl_code = \<lambda>_ c. if is_setter c then -7 else FIDO_OK,
     fl_data = \<lambda>_ _. None, fl_devices = \<lambda>_. []\<rparr>"

definition sample_fido :: fido_state where
  "sample_fido = \<lparr>fs_log = [], fs_rng = \<lambda>_. 0\<rparr>"

text \<open>The assertion under construction, read off the log: the credentials allowed so far and the salt.\<close>

fun assertion_step :: "bytes list \<times> bytes \<Rightarrow> fido_call \<times> bool \<Rightarrow> bytes list \<times> bytes" where
  "assertion_step a (Assert_new, _) = ([], [])"
| "assertion_step (allow, salt) (Assert_allow_cred c, _) = (allow @ [c], salt)"
| "assertion_step (allow, salt) (Assert_set_hmac_salt s, _) = (allow, s)"
| "assertion_step a _ = a"

definition assertion_of :: "fido_log \<Rightarrow> bytes list \<times> bytes" where
  "assertion_of l = foldl assertion_step ([], []) l"

text \<open>A key is at the path and the library has what it needs to talk to it.\<close>

definition key_present :: "fido_lib \<Rightarrow> string \<Rightarrow> bool" where
  "key_present L path = ((\<forall>l c. fl_alloc L l c) \<and> setters_accept L \<and> (\<forall>l. fl_code L l (Dev_open path) = FIDO_OK))"

text \<open>The hmac-secret extension of CTAP2: a key that owns one of the allowed credentials answers for one of them, \<open>pick\<close>, with the
  function \<open>mac\<close> of this credential on each 32 bytes of salt; a key that owns none refuses.\<close>

definition hmac_secret_key ::
  "fido_lib \<Rightarrow> string \<Rightarrow> string \<Rightarrow> bytes set \<Rightarrow> (bytes list \<Rightarrow> bytes) \<Rightarrow> (bytes \<Rightarrow> bytes \<Rightarrow> bytes) \<Rightarrow> bool" where
  "hmac_secret_key L path pin owned pick mac =
     (key_present L path \<and> (\<forall>c s. length (mac c s) = 32) \<and> [] \<notin> owned
      \<and> (\<forall>l allow salt. assertion_of l = (allow, salt) \<longrightarrow>
          (fl_code L l (Dev_get_assert pin) = FIDO_OK \<longleftrightarrow> (\<exists>c \<in> set allow. c \<in> owned))
          \<and> ((\<exists>c \<in> set allow. c \<in> owned) \<and> (Dev_get_assert pin, True) \<in> set l \<longrightarrow>
               pick allow \<in> set allow \<inter> owned \<and> fl_data L l Assert_id = Some (pick allow)
               \<and> fl_data L l Assert_hmac_secret = Some (if length salt = 64 then mac (pick allow) (take 32 salt) @ mac (pick allow) (drop 32 salt)
                   else mac (pick allow) salt))))"

definition pin_tries :: "string \<Rightarrow> fido_log \<Rightarrow> nat" where
  "pin_tries pin l = count_list (map fst l) (Dev_get_assert pin)"

text \<open>What a key that CTAP2 describes answers to a wrong PIN, with \<open>n\<close> attempts left when it was inserted and after \<open>k\<close> wrong ones since: blocked for good
  (\<open>0x32\<close>) when none is left, blocked until it is inserted again (\<open>0x34\<close>) from the third in a row on, else a wrong PIN (\<open>0x31\<close>).\<close>

definition wrong_pin_code :: "nat \<Rightarrow> nat \<Rightarrow> int" where
  "wrong_pin_code n k = (if n \<le> Suc k then 0x32 else if 2 \<le> k then 0x34 else 0x31)"


definition allowing :: "bytes list \<Rightarrow> fido_state \<Rightarrow> fido_state" where
  "allowing cs s = s\<lparr>fs_log := fs_log s @ map (\<lambda>c. (Assert_allow_cred c, True)) cs\<rparr>"

definition found :: "bytes set \<Rightarrow> (bytes \<Rightarrow> bytes \<Rightarrow> bytes) \<Rightarrow> YubiKeyRecord list \<Rightarrow> HmacMatch \<Rightarrow> bool" where
  "found owned mac rs m = (\<exists>r \<in> set rs. yr_credential_id r \<in> owned
     \<and> m = \<lparr>hm_hmac = mac (yr_credential_id r) (yr_salt r), hm_credential_id = yr_credential_id r\<rparr>)"

definition record_input :: "YubiKeyRecord \<Rightarrow> FidoRecordInput" where
  "record_input r = \<lparr>fri_credential_id = yr_credential_id r, fri_salt = yr_salt r\<rparr>"

text \<open>A key that owns the second credential of the sample vault, with the PIN 1234; beside it the virtual key of the program.\<close>

definition sample_key_lib :: fido_lib where
  "sample_key_lib = \<lparr>fl_alloc = \<lambda>_ _. True,
     fl_code = \<lambda>l c. (case c of
       Dev_get_assert p \<Rightarrow> if p \<noteq> ''1234'' then wrong_pin_code 8 (pin_tries p l) else if [2] \<in> set (fst (assertion_of l)) then FIDO_OK else 0x2e
     | _ \<Rightarrow> FIDO_OK),
     fl_data = \<lambda>l c. (case c of
       Assert_hmac_secret \<Rightarrow> Some (replicate (if length (snd (assertion_of l)) = 64 then 64 else 32) 9)
     | _ \<Rightarrow> Some [2]),
     fl_devices = \<lambda>_. [Some \<lparr>di_vendor = 0x1209, di_product = 0x6ABB, di_path = Some (str_bytes ''/dev/hidraw3'')\<rparr>,
       Some \<lparr>di_vendor = 0x1050, di_product = 0x0407, di_path = Some (str_bytes ''/dev/hidraw5'')\<rparr>]\<rparr>"


section \<open>Objects of the library\<close>

lemma replay_append: "replay (l @ l') h = (case replay l h of None \<Rightarrow> None | Some h' \<Rightarrow> replay l' h')"
  by (induction l arbitrary: h) (auto split: option.split)

lemma moves_releases: "moves no_handles m (\<lambda>_. no_handles) \<Longrightarrow> releases m"
  unfolding moves_def releases_def by (metis (no_types, lifting) prod.collapse sum.case_eq_if)

lemma moves_bind:
  assumes "moves h m Q" and "\<And>x. moves (Q x) (f x) R"
  shows "moves h (rbind m f) R"
  unfolding moves_def
proof (intro allI impI)
  fix s r s'
  assume a: "rbind m f s = (r, s')"
  obtain x s1 where m: "m s = (x, s1)" by force
  then obtain l where l: "fs_log s1 = fs_log s @ l" "replay l h = Some (case x of Inl _ \<Rightarrow> no_handles | Inr x \<Rightarrow> Q x)"
    using assms(1) unfolding moves_def by blast
  show "\<exists>l. fs_log s' = fs_log s @ l \<and> replay l h = Some (case r of Inl _ \<Rightarrow> no_handles | Inr x \<Rightarrow> R x)"
  proof (cases x)
    case (Inl e)
    with a m l show ?thesis by (auto simp: rbind_def)
  next
    case (Inr y)
    with a m have "f y s1 = (r, s')" by (simp add: rbind_def)
    with assms(2) obtain l' where "fs_log s' = fs_log s1 @ l'" "replay l' (Q y) = Some (case r of Inl _ \<Rightarrow> no_handles | Inr x \<Rightarrow> R x)"
      unfolding moves_def by blast
    with l Inr show ?thesis by (intro exI [of _ "l @ l'"]) (simp add: replay_append)
  qed
qed

lemma moves_then: "moves h m (\<lambda>_. k) \<Longrightarrow> moves k n R \<Longrightarrow> moves h (rthen m n) R"
  unfolding rthen_def by (rule moves_bind)

lemma moves_try:
  assumes "moves no_handles m (\<lambda>_. no_handles)"
  shows "moves no_handles (rtry m) (\<lambda>_. no_handles)"
  using assms unfolding moves_def rtry_def by (fastforce split: sum.splits prod.splits)

lemma moves_ret: "moves h (rret x) (\<lambda>_. h)"
  by (simp add: moves_def rret_def)

lemma moves_err: "moves no_handles (rlift (Inl e)) Q"
  by (simp add: moves_def rlift_def)

lemma moves_lift: "moves no_handles (rlift x) (\<lambda>_. no_handles)"
  by (simp add: moves_def rlift_def split: sum.split)

lemma moves_random32: "moves h random32 (\<lambda>_. h)"
  by (auto simp: moves_def random32_def zoom_def fill_bytes_def)

lemma moves_calls:
  assumes "replay (map (\<lambda>c. (c, True)) cs) h = Some k"
  shows "moves h (calls cs) (\<lambda>_. k)"
  using assms
proof (induction cs arbitrary: h)
  case Nil
  then show ?case by (simp add: moves_def rret_def)
next
  case (Cons c cs)
  then obtain h' where h: "use_handles (c, True) h = Some h'" "replay (map (\<lambda>c. (c, True)) cs) h' = Some k"
    by (auto split: option.splits)
  have "moves h (call c) (\<lambda>_. h')" using h(1) by (auto simp: moves_def call_def called_def)
  from moves_then [OF this Cons.IH [OF h(2)]] show ?case by simp
qed

lemma moves_call: "use_handles (c, True) h = Some k \<Longrightarrow> moves h (call c) (\<lambda>_. k)"
  by (auto simp: moves_def call_def called_def)

lemma moves_fail: "replay (map (\<lambda>c. (c, True)) cs) h = Some no_handles \<Longrightarrow> moves h (fail cs e) Q"
  unfolding fail_def by (rule moves_then [OF moves_calls moves_err])

lemma moves_alloc:
  "(\<And>ok. use_handles (c, ok) h = Some (Q ok)) \<Longrightarrow> moves h (alloc L c) Q"
  by (auto simp: moves_def alloc_def called_def Let_def)

lemma moves_bytes_at: "(\<And>ok. use_handles (c, ok) h = Some h) \<Longrightarrow> moves h (bytes_at L c) (\<lambda>_. h)"
  by (auto simp: moves_def bytes_at_def called_def Let_def)

lemma moves_checked:
  assumes "use_handles (c, True) h = Some k"
    and "replay ((c, False) # map (\<lambda>c. (c, True)) cleanup) h = Some no_handles"
  shows "moves h (checked L c cleanup msg) (\<lambda>_. k)"
proof -
  from assms(2) obtain j where j: "use_handles (c, False) h = Some j"
    "replay (map (\<lambda>c. (c, True)) cleanup) j = Some no_handles" by (auto split: option.splits)
  have s: "moves h (status L c) (\<lambda>r. if r = FIDO_OK then k else j)"
    using assms(1) j(1) by (auto simp: moves_def status_def called_def Let_def)
  show ?thesis unfolding checked_def
    by (rule moves_bind [OF s]) (simp add: moves_fail [OF j(2)] moves_ret)
qed

lemma moves_setter:
  assumes "setters_accept L" and "is_setter c" and "use_handles (c, True) h = Some h"
  shows "moves h (checked L c cleanup msg) (\<lambda>_. h)"
  using assms by (auto simp: moves_def checked_def status_def called_def setters_accept_def rbind_def rret_def Let_def)

abbreviation "device_open \<equiv> no_handles\<lparr>h_dev := True, h_open := True\<rparr>"
abbreviation "asserting \<equiv> device_open\<lparr>h_assert := True\<rparr>"
abbreviation "registering \<equiv> device_open\<lparr>h_cred := True\<rparr>"

lemma release_runs [simp]:
  "replay [(Dev_close, True), (Dev_free, True)] device_open = Some no_handles"
  "replay [(Assert_free, True), (Dev_close, True), (Dev_free, True)] asserting = Some no_handles"
  "replay [(Cred_free, True), (Dev_close, True), (Dev_free, True)] registering = Some no_handles"
  by (simp_all add: no_handles_def)

lemma moves_release:
  "moves asserting (calls release_assertion) (\<lambda>_. no_handles)" "moves asserting (fail release_assertion e) Q"
  "moves registering (calls [Cred_free, Dev_close, Dev_free]) (\<lambda>_. no_handles)"
  "moves registering (fail [Cred_free, Dev_close, Dev_free] e) Q'"
  by (intro moves_calls moves_fail; simp del: replay.simps)+

lemma moves_open_device: "moves no_handles (open_device L path) (\<lambda>_. device_open)"
proof -
  have a: "moves no_handles (alloc L Dev_new) (\<lambda>ok. no_handles\<lparr>h_dev := ok\<rparr>)"
    by (rule moves_alloc) (simp add: no_handles_def)
  have c: "moves (no_handles\<lparr>h_dev := True\<rparr>) (checked L (Dev_open path) [Dev_free] (failed n)) (\<lambda>_. device_open)" for n
    by (rule moves_checked) (simp_all add: no_handles_def)
  have f: "moves (no_handles\<lparr>h_dev := False\<rparr>) (fail [] e) Q" for e and Q :: "unit \<Rightarrow> handles"
    by (rule moves_fail) (simp add: no_handles_def)
  have "moves no_handles (call Fido_init) (\<lambda>_. no_handles)" by (rule moves_call) simp
  then show ?thesis unfolding open_device_def
    by (rule moves_then, intro moves_bind [OF a]) (simp add: c f)
qed

lemma moves_new_object:
  assumes "\<And>ok. use_handles (c, ok) h = Some (if ok then k else h)" and "replay (map (\<lambda>c. (c, True)) cleanup) h = Some no_handles"
    and "moves k m Q"
  shows "moves h (rbind (alloc L c) (\<lambda>ok. if \<not> ok then fail cleanup e else m)) Q"
proof (rule moves_bind)
  show "moves h (alloc L c) (\<lambda>ok. if ok then k else h)" using assms(1) by (rule moves_alloc)
  show "moves (if ok then k else h) (if \<not> ok then fail cleanup e else m) Q" for ok
    using assms(2,3) by (simp add: moves_fail)
qed

lemma moves_allow_creds:
  assumes "setters_accept L" and "h_assert h"
  shows "moves h (allow_creds L cs) (\<lambda>_. h)"
  by (induction cs) (use assms in \<open>auto intro!: moves_ret moves_then moves_setter\<close>)

lemma moves_ask_assertion:
  assumes "setters_accept L"
  shows "moves no_handles (ask_assertion L path allow salt pin) (\<lambda>_. asserting)"
proof -
  note s = moves_then [OF moves_setter [OF assms]]
  have c: "moves asserting (checked L (Dev_get_assert pin') release_assertion msg) (\<lambda>_. asserting)" for pin' msg
    by (rule moves_checked) (simp_all add: no_handles_def)
  have n: "use_handles (Assert_new, ok) device_open = Some (if ok then asserting else device_open)" for ok
    by (simp add: no_handles_def)
  show ?thesis unfolding ask_assertion_def
    by (intro moves_bind [OF moves_random32] moves_bind [OF moves_lift] moves_then [OF moves_open_device]
        moves_new_object [OF n] s moves_then [OF moves_allow_creds [OF assms]] c) (simp_all add: no_handles_def)
qed

lemma moves_hmac_output: "moves asserting (hmac_output L n) (\<lambda>_. asserting)"
  unfolding hmac_output_def
proof (rule moves_bind)
  show "moves asserting (bytes_at L Assert_hmac_secret) (\<lambda>_. asserting)" by (rule moves_bytes_at) simp
qed (auto simp: Let_def moves_release intro: moves_ret split: option.split)

lemma moves_get_hmac_secret:
  assumes "setters_accept L"
  shows "moves no_handles (get_hmac_secret L path record pin) (\<lambda>_. no_handles)"
  unfolding get_hmac_secret_def
  by (intro moves_then [OF moves_ask_assertion [OF assms]] moves_bind [OF moves_hmac_output] moves_then [OF moves_release(1)] moves_ret)

lemma moves_for_pair:
  assumes "setters_accept L"
  shows "moves no_handles (get_hmac_secret_for_pair L path r0 r1 pin) (\<lambda>_. no_handles)"
proof -
  have i: "moves asserting (bytes_at L Assert_id) (\<lambda>_. asserting)" by (rule moves_bytes_at) simp
  have g: "moves asserting (rbind (hmac_output L 64) (\<lambda>secret. rthen (calls release_assertion)
      (case select_hmac_half secret x r0 r1 of
         Some (hmac, credential_id) \<Rightarrow> rret \<lparr>hm_hmac = hmac, hm_credential_id = credential_id\<rparr>
       | None \<Rightarrow> rlift (Inl e)))) (\<lambda>_. no_handles)" for x e
    by (intro moves_bind [OF moves_hmac_output] moves_then [OF moves_release(1)])
      (auto intro: moves_ret moves_err split: option.split)
  show ?thesis unfolding get_hmac_secret_for_pair_def Let_def
    by (intro moves_then [OF moves_ask_assertion [OF assms]] moves_bind [OF i])
      (auto intro: moves_release g simp del: calls.simps split: option.split list.split)
qed

lemma moves_try_pairs:
  assumes "setters_accept L"
  shows "moves no_handles (try_pairs L path pin ps) (\<lambda>_. no_handles)"
proof (induction ps)
  case (Cons p ps)
  obtain r0 r1 where p: "p = (r0, r1)" by force
  show ?case unfolding p try_pairs.simps
    by (rule moves_bind [OF moves_try [OF moves_for_pair [OF assms]]])
      (auto intro: moves_ret moves_err Cons split: sum.split err.split)
qed (simp add: moves_err)

lemma moves_any_of:
  assumes "setters_accept L"
  shows "moves no_handles (get_hmac_secret_any_of L path records pin) (\<lambda>_. no_handles)"
  unfolding get_hmac_secret_any_of_def
  by (auto intro!: moves_err moves_bind [OF moves_get_hmac_secret [OF assms]] moves_ret moves_for_pair [OF assms]
      moves_try_pairs [OF assms] simp del: pairs.simps try_pairs.simps split: list.split)

lemma moves_register:
  assumes "setters_accept L"
  shows "moves no_handles (register_credential L path pin) (\<lambda>_. no_handles)"
proof -
  note s = moves_then [OF moves_setter [OF assms]]
  have n: "use_handles (Cred_new, ok) device_open = Some (if ok then registering else device_open)" for ok
    by (simp add: no_handles_def)
  have c: "moves registering (checked L (Dev_make_cred pin') [Cred_free, Dev_close, Dev_free] msg) (\<lambda>_. registering)" for pin' msg
    by (rule moves_checked) (simp_all add: no_handles_def)
  have i: "moves registering (bytes_at L Cred_id) (\<lambda>_. registering)" by (rule moves_bytes_at) simp
  have g: "moves registering (rbind random32 (\<lambda>salt. rthen (calls [Cred_free, Dev_close, Dev_free]) (rret (x salt))))
    (\<lambda>_. no_handles)" for x :: "bytes \<Rightarrow> YubiKeyRecord"
    by (intro moves_bind [OF moves_random32] moves_then [OF moves_release(3)] moves_ret)
  have e: "moves registering (finish_registration L) (\<lambda>_. no_handles)" unfolding finish_registration_def
    by (rule moves_bind [OF i]) (auto intro: moves_release g simp del: calls.simps split: option.split list.split)
  show ?thesis unfolding register_credential_def
    by (intro moves_bind [OF moves_random32] moves_bind [OF moves_lift] moves_then [OF moves_open_device]
        moves_new_object [OF n] s moves_then [OF c] e) (simp_all add: no_handles_def)
qed

lemma moves_list_devices: "moves no_handles (fido_list_devices L) (\<lambda>_. no_handles)"
proof -
  let ?h = "no_handles\<lparr>h_info := True\<rparr>"
  have n: "use_handles (Info_new k, ok) no_handles = Some (if ok then ?h else no_handles)" for k ok
    by (simp add: no_handles_def)
  have i: "moves no_handles (call Fido_init) (\<lambda>_. no_handles)" by (rule moves_call) simp
  have m: "moves ?h (checked L (Info_manifest k) [Info_free k] msg) (\<lambda>_. ?h)" for k msg
    by (rule moves_checked) (simp_all add: no_handles_def)
  have d: "moves ?h (\<lambda>s. (Inr (fl_devices L (fs_log s)), s)) (\<lambda>_. ?h)" by (auto simp: moves_def)
  have c: "moves ?h (call (Info_free k)) (\<lambda>_. no_handles)" for k by (rule moves_call) (simp add: no_handles_def)
  show ?thesis unfolding fido_list_devices_def
    by (intro moves_then [OF i] moves_new_object [OF n] moves_then [OF m] moves_bind [OF d] moves_then [OF c] moves_ret) simp
qed

text \<open>C24. As long as the setters of the library succeed, registering a key, asking any of the registered keys for its secret and
  listing devices use the objects of the library in order and hold none of them afterwards, whatever else fails.\<close>

theorem security_key_is_released:
  assumes "setters_accept L"
  shows "releases (register_credential L path pin) \<and> releases (get_hmac_secret_any_of L path records pin)
    \<and> releases (fido_list_devices L)"
  using moves_register [OF assms] moves_any_of [OF assms] moves_list_devices by (simp add: moves_releases)

theorem failed_setter_leaves_device_open:
  "case register_credential failing_lib ''/dev/hidraw5'' ''1234'' sample_fido of (r, s) \<Rightarrow>
     r = Inl (Err ''fido_cred_set_type failed: -7'') \<and> map_option h_open (replay (fs_log s) no_handles) = Some True"
  by code_simp

section \<open>The inserted key\<close>

section \<open>Running an assertion\<close>

lemma checked_ok: "fl_code L (fs_log s) c = FIDO_OK \<Longrightarrow> checked L c cleanup msg s = (Inr (), called c True s)"
  by (simp add: checked_def status_def rbind_def rret_def Let_def)

lemma checked_failed:
  assumes "fl_code L (fs_log s) c = r" and "r \<noteq> FIDO_OK"
  shows "checked L c release_assertion msg s
    = (Inl (Err (msg r)), called Dev_free True (called Dev_close True (called Assert_free True (called c False s))))"
  using assms by (simp add: checked_def status_def rbind_def rret_def rthen_def fail_def call_def rlift_def Let_def)

text \<open>A step that succeeds and the state it leads to.\<close>

lemma run_simps:
  "rthen (\<lambda>s. (Inr (x s), f s)) n = (\<lambda>s. n (f s))" "rbind (\<lambda>s. (Inr (x s), f s)) g = (\<lambda>s. g (x s) (f s))"
  by (simp_all add: rthen_def rbind_def fun_eq_iff)

lemma setter_runs:
  assumes "setters_accept L" and "is_setter c"
  shows "checked L c cleanup msg = (\<lambda>s. (Inr (), called c True s))"
  using assms by (simp add: fun_eq_iff checked_ok setters_accept_def)

lemma allow_creds_runs:
  assumes "setters_accept L"
  shows "allow_creds L cs = (\<lambda>s. (Inr (), allowing cs s))"
  by (induction cs) (simp_all add: rret_def setter_runs [OF assms] run_simps called_def allowing_def)

lemma alloc_runs: "(\<And>l. fl_alloc L l c) \<Longrightarrow> alloc L c = (\<lambda>s. (Inr True, called c True s))"
  by (simp add: alloc_def fun_eq_iff)

lemma random32_runs: "random32 = (\<lambda>s. (Inr (map (fs_rng s) [0..<32]), s\<lparr>fs_rng := \<lambda>i. fs_rng s (i + 32)\<rparr>))"
  by (simp add: random32_def zoom_def fill_bytes_def fun_eq_iff)

lemma open_device_runs:
  assumes "key_present L path"
  shows "open_device L path = (\<lambda>s. (Inr (), called (Dev_open path) True (called Dev_new True (called Fido_init True s))))"
  using assms by (simp add: key_present_def open_device_def fun_eq_iff call_def alloc_def rthen_def rbind_def checked_ok)

lemma assertion_of_append: "assertion_of (l @ l') = foldl assertion_step (assertion_of l) l'"
  by (simp add: assertion_of_def)

lemma assertion_step_allows:
  "foldl assertion_step (allow, salt) (map (\<lambda>c. (Assert_allow_cred c, True)) cs) = (allow @ cs, salt)"
  by (induction cs arbitrary: allow) simp_all

lemma tries_allows: "count_list (map fst (map (\<lambda>c. (Assert_allow_cred c, True)) cs)) (Dev_get_assert pin) = 0"
  by (induction cs) simp_all

lemma CString_new_ok: "CHR 0x00 \<notin> set s \<Longrightarrow> CString_new s = Inr s"
  by (simp add: CString_new_def)

lemma ask_assertion_runs:
  assumes "key_present L path" and "CHR 0x00 \<notin> set path" and "CHR 0x00 \<notin> set pin"
  shows "\<exists>s1. ask_assertion L path allow salt pin s
      = checked L (Dev_get_assert pin) release_assertion (\<lambda>r. ''fido_dev_get_assert failed: '' @ fido_err_hint r) s1
    \<and> assertion_of (fs_log s1) = (allow, salt) \<and> pin_tries pin (fs_log s1) = pin_tries pin (fs_log s)"
proof -
  have a: "alloc L Assert_new = (\<lambda>s. (Inr True, called Assert_new True s))" and s: "setters_accept L"
    using assms(1) by (simp_all add: key_present_def alloc_runs)
  let ?s1 = "called (Assert_set_hmac_salt salt) True (called (Assert_set_extensions FIDO_EXT_HMAC_SECRET) True (allowing allow
    (called (Assert_set_rp RP_ID) True (called (Assert_set_clientdata_hash (map (fs_rng s) [0..<32])) True (called Assert_new True
      (called (Dev_open path) True (called Dev_new True (called Fido_init True (s\<lparr>fs_rng := \<lambda>i. fs_rng s (i + 32)\<rparr>)))))))))"
  have "ask_assertion L path allow salt pin s
      = checked L (Dev_get_assert pin) release_assertion (\<lambda>r. ''fido_dev_get_assert failed: '' @ fido_err_hint r) ?s1"
    unfolding ask_assertion_def random32_runs CString_new_ok [OF assms(2)] CString_new_ok [OF assms(3)] rbind_rlift_Inr
      open_device_runs [OF assms(1)] a allow_creds_runs [OF s] run_simps
    by (simp add: setter_runs [OF s] run_simps)
  moreover have "assertion_of (fs_log ?s1) = (allow, salt)" "pin_tries pin (fs_log ?s1) = pin_tries pin (fs_log s)"
    by (simp_all add: called_def allowing_def assertion_of_append assertion_step_allows pin_tries_def count_list_append tries_allows
        del: map_map)
  ultimately show ?thesis by blast
qed

lemma called_simps [simp]:
  "fs_log (called c ok s) = fs_log s @ [(c, ok)]" "assertion_of (l @ [(Dev_get_assert pin, ok)]) = assertion_of l"
  "assertion_of (l @ [(Assert_id, ok)]) = assertion_of l"
  by (simp_all add: called_def assertion_of_append)

text \<open>What the part of an assertion after the tap reads, when the inserted key owns one of the allowed credentials.\<close>

lemma asserted:
  assumes "hmac_secret_key L path pin owned pick mac" and "CHR 0x00 \<notin> set path" and "CHR 0x00 \<notin> set pin"
    and "\<exists>c \<in> set allow. c \<in> owned"
  obtains s1 where "ask_assertion L path allow salt pin s = (Inr (), s1)" and "assertion_of (fs_log s1) = (allow, salt)"
    and "(Dev_get_assert pin, True) \<in> set (fs_log s1)"
proof -
  obtain s0 where s0: "ask_assertion L path allow salt pin s
      = checked L (Dev_get_assert pin) release_assertion (\<lambda>r. ''fido_dev_get_assert failed: '' @ fido_err_hint r) s0"
    "assertion_of (fs_log s0) = (allow, salt)"
    using ask_assertion_runs [OF _ assms(2,3)] assms(1) unfolding hmac_secret_key_def by blast
  have "fl_code L (fs_log s0) (Dev_get_assert pin) = FIDO_OK"
    using assms(1,4) s0(2) unfolding hmac_secret_key_def by blast
  with s0 show ?thesis by (intro that [of "called (Dev_get_assert pin) True s0"]) (simp_all add: checked_ok)
qed

lemma not_asserted:
  assumes "hmac_secret_key L path pin owned pick mac" and "CHR 0x00 \<notin> set path" and "CHR 0x00 \<notin> set pin"
    and "\<not> (\<exists>c \<in> set allow. c \<in> owned)"
  obtains e s1 where "ask_assertion L path allow salt pin s = (Inl (Err e), s1)"
proof -
  obtain s0 where s0: "ask_assertion L path allow salt pin s
      = checked L (Dev_get_assert pin) release_assertion (\<lambda>r. ''fido_dev_get_assert failed: '' @ fido_err_hint r) s0"
    "assertion_of (fs_log s0) = (allow, salt)"
    using ask_assertion_runs [OF _ assms(2,3)] assms(1) unfolding hmac_secret_key_def by blast
  have "fl_code L (fs_log s0) (Dev_get_assert pin) \<noteq> FIDO_OK"
    using assms(1,4) s0(2) unfolding hmac_secret_key_def by blast
  with s0 show ?thesis using that by (simp add: checked_failed)
qed

lemma key_answers:
  assumes "hmac_secret_key L path pin owned pick mac" and "\<exists>c \<in> set allow. c \<in> owned"
    and "assertion_of l = (allow, salt)" and "(Dev_get_assert pin, True) \<in> set l"
  shows "pick allow \<in> set allow \<inter> owned" and "fl_data L l Assert_id = Some (pick allow)"
    and "fl_data L l Assert_hmac_secret = Some (if length salt = 64 then mac (pick allow) (take 32 salt) @ mac (pick allow) (drop 32 salt)
       else mac (pick allow) salt)" and "length (mac c x) = 32" and "pick allow \<noteq> []"
  using assms unfolding hmac_secret_key_def by (blast+, metis IntD2)

lemma hmac_output_runs:
  assumes "fl_data L (fs_log s) Assert_hmac_secret = Some bs" and "length bs = n"
  shows "hmac_output L n s = (Inr bs, called Assert_hmac_secret True s)"
  using assms by (simp add: hmac_output_def bytes_at_def rbind_def rret_def Let_def)

lemma release_succeeds: "\<exists>s'. rthen (calls release_assertion) (rret x) s = (Inr x, s')"
  by (simp add: rthen_def rbind_def call_def rret_def)

lemma single_succeeds:
  assumes k: "hmac_secret_key L path pin owned pick mac" and nul: "CHR 0x00 \<notin> set path" "CHR 0x00 \<notin> set pin"
    and o: "yr_credential_id r \<in> owned" and l: "length (yr_salt r) = 32"
  shows "\<exists>s'. get_hmac_secret L path r pin s = (Inr (mac (yr_credential_id r) (yr_salt r)), s')"
proof -
  let ?allow = "[yr_credential_id r]"
  have e: "\<exists>c \<in> set ?allow. c \<in> owned" using o by simp
  obtain s1 where s1: "ask_assertion L path ?allow (yr_salt r) pin s = (Inr (), s1)"
    "assertion_of (fs_log s1) = (?allow, yr_salt r)" "(Dev_get_assert pin, True) \<in> set (fs_log s1)"
    by (rule asserted [OF k nul e])
  note a = key_answers [OF k e s1(2,3)]
  have h: "hmac_output L 32 s1 = (Inr (mac (yr_credential_id r) (yr_salt r)), called Assert_hmac_secret True s1)"
    using a(1,3,4) l by (intro hmac_output_runs) auto
  show ?thesis using release_succeeds by (simp add: get_hmac_secret_def rthen_def rbind_def s1(1) h)
qed

lemma select_finds:
  assumes "c = yr_credential_id r0 \<or> c = yr_credential_id r1" and "c \<in> owned" and "length (mac c (yr_salt r0)) = 32"
  obtains h i where "select_hmac_half (mac c (yr_salt r0) @ mac c (yr_salt r1)) c r0 r1 = Some (h, i)"
    and "found owned mac [r0, r1] \<lparr>hm_hmac = h, hm_credential_id = i\<rparr>"
  using assms by (cases "c = yr_credential_id r0") (auto simp: select_hmac_half_def found_def)

lemma pair_succeeds:
  assumes k: "hmac_secret_key L path pin owned pick mac" and nul: "CHR 0x00 \<notin> set path" "CHR 0x00 \<notin> set pin"
    and o: "yr_credential_id r0 \<in> owned \<or> yr_credential_id r1 \<in> owned"
    and l: "length (yr_salt r0) = 32" "length (yr_salt r1) = 32"
  shows "\<exists>m s'. get_hmac_secret_for_pair L path r0 r1 pin s = (Inr m, s') \<and> found owned mac [r0, r1] m"
proof -
  let ?allow = "[yr_credential_id r0, yr_credential_id r1]" and ?salt = "yr_salt r0 @ yr_salt r1"
  have e: "\<exists>c \<in> set ?allow. c \<in> owned" using o by auto
  obtain s1 where s1: "ask_assertion L path ?allow ?salt pin s = (Inr (), s1)"
    "assertion_of (fs_log s1) = (?allow, ?salt)" "(Dev_get_assert pin, True) \<in> set (fs_log s1)"
    by (rule asserted [OF k nul e])
  note a = key_answers [OF k e s1(2,3)]
  let ?c = "pick ?allow" and ?s2 = "called Assert_id True s1"
  have s2: "assertion_of (fs_log ?s2) = (?allow, ?salt)" "(Dev_get_assert pin, True) \<in> set (fs_log ?s2)"
    using s1(2,3) by simp_all
  have i: "bytes_at L Assert_id s1 = (Inr (Some ?c), ?s2)" by (simp add: bytes_at_def a(2))
  have h: "hmac_output L 64 ?s2 = (Inr (mac ?c (yr_salt r0) @ mac ?c (yr_salt r1)), called Assert_hmac_secret True ?s2)"
    using key_answers(3,4) [OF k e s2] l by (intro hmac_output_runs) auto
  obtain h i where m: "select_hmac_half (mac ?c (yr_salt r0) @ mac ?c (yr_salt r1)) ?c r0 r1 = Some (h, i)"
    "found owned mac [r0, r1] \<lparr>hm_hmac = h, hm_credential_id = i\<rparr>"
    by (rule select_finds [of ?c r0 r1 owned mac]) (use a(1,4) in auto)
  obtain b bs where c: "?c = b # bs" using a(5) by (cases ?c) auto
  show ?thesis using release_succeeds m
    by (simp add: get_hmac_secret_for_pair_def Let_def rthen_def rbind_def s1(1) i c h [unfolded c] m(1) [unfolded c] call_def rret_def)
qed

lemma pair_fails:
  assumes "hmac_secret_key L path pin owned pick mac" and "CHR 0x00 \<notin> set path" "CHR 0x00 \<notin> set pin"
    and "\<not> (yr_credential_id r0 \<in> owned \<or> yr_credential_id r1 \<in> owned)"
  shows "\<exists>e s'. get_hmac_secret_for_pair L path r0 r1 pin s = (Inl (Err e), s')"
proof -
  have "\<not> (\<exists>c \<in> set [yr_credential_id r0, yr_credential_id r1]. c \<in> owned)" using assms(4) by simp
  then obtain e s' where "ask_assertion L path [yr_credential_id r0, yr_credential_id r1] (yr_salt r0 @ yr_salt r1) pin s = (Inl (Err e), s')"
    by (rule not_asserted [OF assms(1-3)])
  then show ?thesis by (simp add: get_hmac_secret_for_pair_def rbind_def rthen_def)
qed

lemma try_pairs_succeeds:
  assumes "hmac_secret_key L path pin owned pick mac" and "CHR 0x00 \<notin> set path" "CHR 0x00 \<notin> set pin"
    and "\<exists>(r0, r1) \<in> set ps. yr_credential_id r0 \<in> owned \<or> yr_credential_id r1 \<in> owned"
    and "\<forall>(r0, r1) \<in> set ps. r0 \<in> set rs \<and> r1 \<in> set rs" and "\<forall>r \<in> set rs. length (yr_salt r) = 32"
  shows "\<exists>m s'. try_pairs L path pin ps s = (Inr m, s') \<and> found owned mac rs m"
  using assms(4,5)
proof (induction ps arbitrary: s)
  case (Cons p ps)
  obtain r0 r1 where p: "p = (r0, r1)" by force
  with Cons.prems assms(6) have l: "length (yr_salt r0) = 32" "length (yr_salt r1) = 32" "r0 \<in> set rs" "r1 \<in> set rs" by auto
  show ?case
  proof (cases "yr_credential_id r0 \<in> owned \<or> yr_credential_id r1 \<in> owned")
    case True
    from pair_succeeds [OF assms(1-3) this l(1,2)] obtain m s' where
      m: "get_hmac_secret_for_pair L path r0 r1 pin s = (Inr m, s')" "found owned mac [r0, r1] m" by blast
    then show ?thesis using l(3,4) by (auto simp: p rbind_def rtry_def rret_def found_def)
  next
    case False
    from pair_fails [OF assms(1-3) this] obtain e s' where
      "get_hmac_secret_for_pair L path r0 r1 pin s = (Inl (Err e), s')" by blast
    moreover have "\<exists>m s''. try_pairs L path pin ps s' = (Inr m, s'') \<and> found owned mac rs m"
      using Cons.prems False by (intro Cons.IH) (auto simp: p)
    ultimately show ?thesis by (simp add: p rbind_def rtry_def)
  qed
qed simp

lemma pairs_cover: "x \<in> set xs \<Longrightarrow> 2 \<le> length xs \<Longrightarrow> \<exists>(a, b) \<in> set (pairs xs). x = a \<or> x = b"
proof (induction xs rule: pairs.induct)
  case (2 y ys)
  then show ?case by (cases ys) (auto simp: bex_Un)
qed simp

lemma pairs_within: "(a, b) \<in> set (pairs xs) \<Longrightarrow> a \<in> set xs \<and> b \<in> set xs"
  by (induction xs) auto

lemma any_of_succeeds:
  assumes k: "hmac_secret_key L path pin owned pick mac" and nul: "CHR 0x00 \<notin> set path" "CHR 0x00 \<notin> set pin"
    and o: "r \<in> set rs" "yr_credential_id r \<in> owned" and l: "\<forall>r \<in> set rs. length (yr_salt r) = 32"
  shows "\<exists>m s'. get_hmac_secret_any_of L path rs pin s = (Inr m, s') \<and> found owned mac rs m"
proof -
  consider "rs = [r]" | r0 r1 where "rs = [r0, r1]" | r0 r1 r2 rs' where "rs = r0 # r1 # r2 # rs'"
    using o(1) by (metis empty_iff list.exhaust list.set(1) set_ConsD)
  then show ?thesis
  proof cases
    case 1
    with single_succeeds [OF k nul o(2), of s] l show ?thesis
      by (auto simp: get_hmac_secret_any_of_def rbind_def rret_def found_def o(2))
  next
    case (2 r0 r1)
    with o have "yr_credential_id r0 \<in> owned \<or> yr_credential_id r1 \<in> owned" by auto
    from pair_succeeds [OF k nul this] 2 l show ?thesis by (simp add: get_hmac_secret_any_of_def)
  next
    case 3
    then have "\<exists>(a, b) \<in> set (pairs rs). r = a \<or> r = b" using o(1) by (intro pairs_cover) auto
    then have "\<exists>(a, b) \<in> set (pairs rs). yr_credential_id a \<in> owned \<or> yr_credential_id b \<in> owned" using o(2) by auto
    moreover have "\<forall>(a, b) \<in> set (pairs rs). a \<in> set rs \<and> b \<in> set rs" using pairs_within [of _ _ rs] by auto
    moreover have "get_hmac_secret_any_of L path rs pin = try_pairs L path pin (pairs rs)"
      unfolding get_hmac_secret_any_of_def 3 by (simp only: list.case)
    ultimately show ?thesis using try_pairs_succeeds [OF k nul _ _ l] by simp
  qed
qed

section \<open>Unlocking with the inserted key\<close>

lemma without_blob: "\<lparr>yr_credential_id = yr_credential_id r, yr_salt = yr_salt r, yr_key_blob = []\<rparr> = r\<lparr>yr_key_blob := []\<rparr>"
  by (cases r) simp

lemma input_records:
  assumes "\<forall>r \<in> set rs. length (yr_salt r) = 32"
  shows "rmap (\<lambda>r. rlift (input_record (fri_credential_id r) (fri_salt r))) (map record_input rs)
    = rret (map (\<lambda>r. r\<lparr>yr_key_blob := []\<rparr>) rs)"
  using assms by (induction rs) (simp_all add: record_input_def input_record_def rbind_rlift_Inr rbind_rret without_blob)

lemma interface_finds:
  assumes "hmac_secret_key L path pin owned pick mac" and "CHR 0x00 \<notin> set path" and "CHR 0x00 \<notin> set pin"
    and "r \<in> set rs" and "yr_credential_id r \<in> owned" and "\<forall>r \<in> set rs. length (yr_salt r) = 32"
  shows "\<exists>m s' r. fido_get_hmac_secret_any L path (map record_input rs) pin s = (Inr m, s') \<and> r \<in> set rs
    \<and> yr_credential_id r \<in> owned \<and> fhm_hmac m = mac (yr_credential_id r) (yr_salt r) \<and> fhm_credential_id m = yr_credential_id r"
proof -
  let ?rs = "map (\<lambda>r. r\<lparr>yr_key_blob := []\<rparr>) rs"
  have "\<exists>m s'. get_hmac_secret_any_of L path ?rs pin s = (Inr m, s') \<and> found owned mac ?rs m"
    by (rule any_of_succeeds [OF assms(1-3), of "r\<lparr>yr_key_blob := []\<rparr>"]) (use assms(4-6) in auto)
  then obtain m s' where m: "get_hmac_secret_any_of L path ?rs pin s = (Inr m, s')" "found owned mac ?rs m" by blast
  then show ?thesis
    by (auto simp: fido_get_hmac_secret_any_def input_records [OF assms(6)] rbind_rret rbind_def rret_def found_def)
qed

text \<open>C23. Whichever of the registered keys is inserted, the secret found for it opens the vault: of any number of registered keys, one
  that the device owns is found, with the secret it was registered with.\<close>

theorem inserted_key_opens_vault:
  assumes "seal_vault_with_keys C pw keys pt al r = (Inr v, r')" and "aead_correct C" and "aead_lengths C"
    and "distinct (map reg_credential_id keys)" and "\<forall>k \<in> set keys. length (reg_salt k) = 32"
    and "hmac_secret_key L path pin owned pick mac" and "CHR 0x00 \<notin> set path" and "CHR 0x00 \<notin> set pin"
    and "\<forall>k \<in> set keys. reg_credential_id k \<in> owned \<longrightarrow> reg_hmac_secret k = mac (reg_credential_id k) (reg_salt k)"
    and "\<exists>k \<in> set keys. reg_credential_id k \<in> owned"
  shows "\<exists>m s' master wk. fido_get_hmac_secret_any L path (map record_input (sv_yubikey_records v)) pin s = (Inr m, s')
    \<and> open_vault_with_key_record C pw (fhm_hmac m) (fhm_credential_id m) v = Inr (pt, master, Some wk)"
proof -
  let ?rs = "sv_yubikey_records v"
  obtain wk master where w: "passphrase_gives C pw v wk"
    and l: "list_all2 (\<lambda>k x. yr_credential_id x = reg_credential_id k \<and> (yr_salt x = reg_salt k
       \<and> record_gives C wk (reg_hmac_secret k) x master)) keys ?rs"
    and b: "decrypt_with_aad C master (sv_ciphertext v) (sv_nonce v) (header_aad v) = Inr pt"
    by (rule seal_keys_structure [OF assms(1-3)])
  have key: "\<exists>k \<in> set keys. yr_credential_id x = reg_credential_id k \<and> yr_salt x = reg_salt k" if "x \<in> set ?rs" for x
    using l that by (force simp: list_all2_conv_all_nth in_set_conv_nth)
  have rec: "\<exists>x \<in> set ?rs. yr_credential_id x = reg_credential_id k" if "k \<in> set keys" for k
    using l that by (force simp: list_all2_conv_all_nth in_set_conv_nth)
  obtain k0 where "k0 \<in> set keys" "reg_credential_id k0 \<in> owned" using assms(10) by blast
  with rec obtain x where x: "x \<in> set ?rs" "yr_credential_id x \<in> owned" by metis
  have "\<forall>r \<in> set ?rs. length (yr_salt r) = 32" using key assms(5) by fastforce
  from interface_finds [OF assms(6-8) x this, of s] obtain m s' y where
    m: "fido_get_hmac_secret_any L path (map record_input ?rs) pin s = (Inr m, s')" "y \<in> set ?rs" "yr_credential_id y \<in> owned"
      "fhm_hmac m = mac (yr_credential_id y) (yr_salt y)" "fhm_credential_id m = yr_credential_id y" by blast
  obtain k where k: "k \<in> set keys" "yr_credential_id y = reg_credential_id k" "yr_salt y = reg_salt k" using key [OF m(2)] by blast
  then have "fhm_hmac m = reg_hmac_secret k" "fhm_credential_id m = reg_credential_id k" using m assms(9) by auto
  then have "open_vault_with_key_record C pw (fhm_hmac m) (fhm_credential_id m) v = Inr (pt, master, Some wk)"
    using record_for_distinct [OF l assms(4) k(1)] w b by (auto simp: open_with_key_iff)
  with m(1) show ?thesis by blast
qed

section \<open>A wrong PIN\<close>





section \<open>Registration and the list of devices\<close>

lemma finish_registration_Inr:
  assumes "finish_registration L t = (Inr x, s')"
  shows "yr_credential_id x \<noteq> [] \<and> length (yr_salt x) = 32"
proof -
  obtain b bs where "fl_data L (fs_log t) Cred_id = Some (b # bs)"
    using assms by (cases "fl_data L (fs_log t) Cred_id"; cases "the (fl_data L (fs_log t) Cred_id)")
      (auto simp: finish_registration_def bytes_at_def rthen_def fail_def rnd_simps)
  with assms show ?thesis
    by (auto simp: finish_registration_def bytes_at_def random32_runs rthen_def rnd_simps)
qed

text \<open>A registration gives a credential that can be asked for and a salt of the length the interface requires.\<close>

theorem registration_is_usable:
  assumes "fido_register L path pin s = (Inr c, s')"
  shows "fcd_credential_id c \<noteq> [] \<and> length (fcd_salt c) = 32"
proof -
  from assms obtain x where "register_credential L path pin s = (Inr x, s')"
    "c = \<lparr>fcd_credential_id = yr_credential_id x, fcd_salt = yr_salt x\<rparr>"
    by (auto simp: fido_register_def rnd_simps)
  moreover obtain t where "finish_registration L t = (Inr x, s')"
    using calculation(1) by (auto simp: register_credential_def rthen_def rnd_simps fail_def simp del: calls.simps split: if_splits)
  ultimately show ?thesis using finish_registration_Inr by auto
qed

text \<open>The list offered to the user has no device with the vendor and product of the program's own virtual key.\<close>

theorem own_device_is_not_listed:
  assumes "fido_list_devices L s = (Inr paths, s')" and "p \<in> set paths"
  shows "\<exists>l info. Some info \<in> set (fl_devices L l) \<and> di_path info = Some (str_bytes p)
    \<and> ((ucast (di_vendor info) :: u32), (ucast (di_product info) :: u32)) \<noteq> (VENDOR_ID, PRODUCT_ID)"
proof -
  from assms(1) obtain l where "paths = concat (map listed_path (fl_devices L l))"
    by (auto simp: fido_list_devices_def rthen_def rnd_simps fail_def split: if_splits)
  with assms(2) obtain i where i: "i \<in> set (fl_devices L l)" "p \<in> set (listed_path i)" by auto
  then obtain info where "i = Some info" "di_path info = Some (str_bytes p)"
    "\<not> ((ucast (di_vendor info) :: u32) = VENDOR_ID \<and> (ucast (di_product info) :: u32) = PRODUCT_ID)"
    by (cases i rule: option.exhaust) (auto split: if_splits option.splits)
  with i(1) show ?thesis by blast
qed

section \<open>A sample key\<close>

lemma sample_setters: "setters_accept sample_key_lib"
  unfolding setters_accept_def
proof (intro allI impI)
  fix l c
  assume "is_setter c"
  then show "fl_code sample_key_lib l c = FIDO_OK" by (cases c) (simp_all add: sample_key_lib_def)
qed

lemma sample_present: "key_present sample_key_lib path"
  using sample_setters by (simp add: key_present_def) (simp add: sample_key_lib_def)

lemma sample_hmac_key: "hmac_secret_key sample_key_lib path ''1234'' {[2]} (\<lambda>_. [2]) (\<lambda>_ _. replicate 32 9)"
proof -
  have "replicate 64 (9 :: byte) = replicate 32 9 @ replicate 32 9" by (simp flip: replicate_add)
  then show ?thesis using sample_present
    by (auto simp: hmac_secret_key_def) (auto simp: sample_key_lib_def FIDO_OK_def split: if_splits)
qed

theorem security_key_is_released_witness:
  "setters_accept sample_key_lib \<and> releases (register_credential sample_key_lib ''/dev/hidraw5'' ''1234'')"
  using security_key_is_released [OF sample_setters] sample_setters by blast

theorem inserted_key_opens_vault_witness:
  "\<exists>v r m s' master wk. seal_vault_with_keys tag_crypto [1] sample_keys [2] None (\<lambda>_. 0) = (Inr v, r)
     \<and> fido_get_hmac_secret_any sample_key_lib ''/dev/hidraw5'' (map record_input (sv_yubikey_records v)) ''1234'' sample_fido = (Inr m, s')
     \<and> open_vault_with_key_record tag_crypto [1] (fhm_hmac m) (fhm_credential_id m) v = Inr ([2], master, Some wk)"
proof -
  obtain v r where v: "seal_vault_with_keys tag_crypto [1] sample_keys [2] None (\<lambda>_. 0) = (Inr v, r)"
    by (rule sample_sealed)
  have "\<exists>m s' master wk. fido_get_hmac_secret_any sample_key_lib ''/dev/hidraw5'' (map record_input (sv_yubikey_records v)) ''1234''
      sample_fido = (Inr m, s')
     \<and> open_vault_with_key_record tag_crypto [1] (fhm_hmac m) (fhm_credential_id m) v = Inr ([2], master, Some wk)"
    by (rule inserted_key_opens_vault [OF v tag_crypto_ok _ _ sample_hmac_key]) (simp_all add: sample_keys_def)
  with v show ?thesis by blast
qed


theorem registration_is_usable_witness:
  "\<exists>c s'. fido_register sample_key_lib ''/dev/hidraw5'' ''1234'' sample_fido = (Inr c, s') \<and> length (fcd_salt c) = 32"
proof -
  have r: "fst (fido_register sample_key_lib ''/dev/hidraw5'' ''1234'' sample_fido)
      = Inr \<lparr>fcd_credential_id = [2], fcd_salt = replicate 32 0\<rparr>"
    by code_simp
  obtain s' where s: "fido_register sample_key_lib ''/dev/hidraw5'' ''1234'' sample_fido
      = (Inr \<lparr>fcd_credential_id = [2], fcd_salt = replicate 32 0\<rparr>, s')"
    using r by (metis prod.collapse)
  from registration_is_usable [OF s] s show ?thesis by blast
qed

theorem own_device_is_not_listed_witness:
  "\<exists>s' (info :: dev_info). fido_list_devices sample_key_lib sample_fido = (Inr [''/dev/hidraw5''], s')
     \<and> di_path info = Some (str_bytes ''/dev/hidraw5'') \<and> ucast (di_vendor info) \<noteq> VENDOR_ID"
proof -
  have r: "fst (fido_list_devices sample_key_lib sample_fido) = Inr [''/dev/hidraw5'']" by code_simp
  obtain s' where s: "fido_list_devices sample_key_lib sample_fido = (Inr [''/dev/hidraw5''], s')"
    using r by (metis prod.collapse)
  from own_device_is_not_listed [OF s] obtain l info where
    "Some info \<in> set (fl_devices sample_key_lib l)" "di_path info = Some (str_bytes ''/dev/hidraw5'')"
    "((ucast (di_vendor info) :: u32), (ucast (di_product info) :: u32)) \<noteq> (VENDOR_ID, PRODUCT_ID)"
    by (metis list.set_intros(1))
  then have "info = \<lparr>di_vendor = 0x1050, di_product = 0x0407, di_path = Some (str_bytes ''/dev/hidraw5'')\<rparr>"
    by (auto simp: sample_key_lib_def VENDOR_ID_def PRODUCT_ID_def)
  then have "di_path info = Some (str_bytes ''/dev/hidraw5'') \<and> ucast (di_vendor info) \<noteq> VENDOR_ID" by (simp add: VENDOR_ID_def)
  with s show ?thesis by blast
qed

end
