(* ===== verification/Daemon_Life.thy ===== *)
theory Daemon_Life
  imports Passkey_Daemon
begin

text \<open>
  The life of the passkey daemon (\<open>rust/src/passkey_daemon.rs\<close>, the calls of \<open>rust/src/api/passkey_daemon_bridge.rs\<close>): opening
  the device under the instance lock, attaching the pump, answering and stopping, in several running copies of the
  program at once. A call of the user interface is a list of system calls; \<open>advance\<close> makes the next one, and a step of the
  whole system is one such system call, one step of a pump thread (it looks at the flag, or it makes the turn the flag allowed), the start of a call or of a program, or the death of a program.

  A \<open>daemon\<close> is the device, its pump and the lock; whoever holds it, a slot of the program or a call under way, is its owner.
  The two mutexes around the slots are held for single steps only, and nothing that runs under them panics, so that the branch
  for a poisoned mutex cannot be taken.

  Shown: programs that share a runtime directory never have two virtual keys plugged in, at no point of any interleaving;
  a stopped daemon leaves neither key nor lock; nothing holds a stop up for ever; an answer given after the pump has ended is accepted and lost.
\<close>

section \<open>The daemon and its owners\<close>

record daemon =
  dm_shared :: Shared
  dm_running :: bool
  dm_turning :: bool
  dm_ended :: bool

text \<open>The calls under way, each at the system call it makes next. \<open>stop\<close> is also the first part of \<open>open\<close>, so its states carry what
  comes after. Values are dropped field by field: the device first, then the lock.\<close>

datatype dcall = Stop_opened dcall | Stop_daemon dcall | Stop_join daemon dcall | Drop_device dcall | Drop_lock dcall
  | Open_lock | Open_device | Open_create | Open_store | Start_take | Start_store daemon | Respond bytes | Done "unit res"

record gabbro =
  gb_lock_path :: string
  gb_opened :: bool
  gb_daemon :: "daemon option"
  gb_detached :: "daemon list"
  gb_requests :: "bytes list"
  gb_calls :: "dcall list"

text \<open>The kernel: which lock files are locked, and how many virtual keys the programs under each lock file have plugged in.\<close>

record kernel =
  kn_locked :: "string \<Rightarrow> bool"
  kn_plugged :: "string \<Rightarrow> nat"

record sys_answers =
  sa_lock_file :: "string option"
  sa_uhid :: "string option"
  sa_create :: "string option"

definition instance_lock_path :: "string option \<Rightarrow> string \<Rightarrow> string" where
  "instance_lock_path xdg_runtime_dir temp_dir =
     (let dir = (case xdg_runtime_dir of Some d \<Rightarrow> d | None \<Rightarrow> temp_dir) in
      (if dir = [] \<or> last dir = CHR ''/'' then dir else dir @ ''/'') @ ''gabbro-passkey.lock'')"

section \<open>The calls\<close>

definition open_call :: dcall where
  "open_call = Stop_opened Open_lock"

definition start_call :: dcall where
  "start_call = Start_take"

definition stop_call :: dcall where
  "stop_call = Stop_opened (Done (Inr ()))"

definition take_instance_lock :: "sys_answers \<Rightarrow> gabbro \<Rightarrow> kernel \<Rightarrow> dcall \<times> kernel" where
  "take_instance_lock a g k =
     (case sa_lock_file a of
        Some e \<Rightarrow> (Done (Inl (Err (''open '' @ gb_lock_path g @ '': '' @ e))), k)
      | None \<Rightarrow>
          if kn_locked k (gb_lock_path g)
          then (Done (Inl (Err ''another Gabbro instance already owns the passkey device (instance lock held)'')), k)
          else (Open_device, k\<lparr>kn_locked := (kn_locked k)(gb_lock_path g := True)\<rparr>))"

definition daemon_new :: daemon where
  "daemon_new = \<lparr>dm_shared = Shared_new, dm_running = True, dm_turning = False, dm_ended = False\<rparr>"

fun advance :: "sys_answers \<Rightarrow> dcall \<Rightarrow> gabbro \<Rightarrow> kernel \<Rightarrow> (dcall \<times> gabbro \<times> kernel) option" where
  "advance a (Stop_opened c) g k = Some
     (if gb_opened g then (Drop_device (Drop_lock (Stop_daemon c)), g\<lparr>gb_opened := False\<rparr>, k) else (Stop_daemon c, g, k))"
| "advance a (Stop_daemon c) g k = Some
     (case gb_daemon g of
        Some d \<Rightarrow> (Stop_join (d\<lparr>dm_running := False\<rparr>) c, g\<lparr>gb_daemon := None\<rparr>, k)
      | None \<Rightarrow> (c, g, k))"
| "advance a (Stop_join d c) g k = (if dm_ended d then Some (Drop_device (Drop_lock c), g, k) else None)"
| "advance a (Drop_device c) g k = Some
     (c, g, k\<lparr>kn_plugged := (kn_plugged k)(gb_lock_path g := kn_plugged k (gb_lock_path g) - 1)\<rparr>)"
| "advance a (Drop_lock c) g k = Some (c, g, k\<lparr>kn_locked := (kn_locked k)(gb_lock_path g := False)\<rparr>)"
| "advance a Open_lock g k = (case take_instance_lock a g k of (c, k') \<Rightarrow> Some (c, g, k'))"
| "advance a Open_device g k = Some
     (case sa_uhid a of
        Some e \<Rightarrow> (Drop_lock (Done (Inl (Err (''open /dev/uhid: '' @ e @ '' (is the udev rule installed?)'')))), g, k)
      | None \<Rightarrow> (Open_create, g, k))"
| "advance a Open_create g k = Some
     (case sa_create a of
        Some e \<Rightarrow> (Drop_lock (Done (Inl (Err (''create uhid device: '' @ e)))), g, k)
      | None \<Rightarrow> (Open_store, g, k\<lparr>kn_plugged := (kn_plugged k)(gb_lock_path g := kn_plugged k (gb_lock_path g) + 1)\<rparr>))"
| "advance a Open_store g k = Some
     (if gb_opened g then (Drop_device (Drop_lock (Done (Inr ()))), g, k) else (Done (Inr ()), g\<lparr>gb_opened := True\<rparr>, k))"
| "advance a Start_take g k = Some
     (if gb_opened g then (Start_store daemon_new, g\<lparr>gb_opened := False\<rparr>, k)
      else (Done (Inl (Err ''passkey daemon: open() must succeed before start()'')), g, k))"
| "advance a (Start_store d) g k = Some
     (case gb_daemon g of
        Some old \<Rightarrow> (Drop_lock (Done (Inr ())), g\<lparr>gb_daemon := Some d, gb_detached := old # gb_detached g\<rparr>, k)
      | None \<Rightarrow> (Done (Inr ()), g\<lparr>gb_daemon := Some d\<rparr>, k))"
| "advance a (Respond r) g k = Some
     (case gb_daemon g of
        Some d \<Rightarrow> (Done (Inr ()), g\<lparr>gb_daemon := Some (d\<lparr>dm_shared := respond r (dm_shared d)\<rparr>)\<rparr>, k)
      | None \<Rightarrow> (Done (Inl (Err ''passkey daemon is not running'')), g, k))"
| "advance a (Done r) g k = None"

text \<open>The steps of the pump thread: it looks at the flag, and ends or begins a turn; then it makes the turn, and ends when the device fails. The turn
  holds the mutex around the shared state, which besides only \<open>respond\<close> takes, and is therefore one step; a stop can come between the
  look at the flag and the turn.\<close>

definition pump_step :: "device_read \<Rightarrow> bool \<Rightarrow> daemon \<Rightarrow> (bytes list \<times> daemon) option" where
  "pump_step rd due d =
     (if dm_ended d then None
      else if \<not> dm_turning d then Some ([], if dm_running d then d\<lparr>dm_turning := True\<rparr> else d\<lparr>dm_ended := True\<rparr>)
      else case pump_turn rd due (dm_shared d) of
        (None, s) \<Rightarrow> Some ([], d\<lparr>dm_shared := s, dm_turning := False, dm_ended := True\<rparr>)
      | (Some surfaced, s) \<Rightarrow> Some ((case surfaced of None \<Rightarrow> [] | Some p \<Rightarrow> [p]), d\<lparr>dm_shared := s, dm_turning := False\<rparr>))"

section \<open>The system\<close>

fun locks_of :: "dcall \<Rightarrow> nat" where
  "locks_of (Stop_opened c) = locks_of c"
| "locks_of (Stop_daemon c) = locks_of c"
| "locks_of (Stop_join d c) = Suc (locks_of c)"
| "locks_of (Drop_device c) = locks_of c"
| "locks_of (Drop_lock c) = Suc (locks_of c)"
| "locks_of Open_device = 1"
| "locks_of Open_create = 1"
| "locks_of Open_store = 1"
| "locks_of (Start_store d) = 1"
| "locks_of _ = 0"

fun devices_of :: "dcall \<Rightarrow> nat" where
  "devices_of (Stop_opened c) = devices_of c"
| "devices_of (Stop_daemon c) = devices_of c"
| "devices_of (Stop_join d c) = Suc (devices_of c)"
| "devices_of (Drop_device c) = Suc (devices_of c)"
| "devices_of (Drop_lock c) = devices_of c"
| "devices_of Open_store = 1"
| "devices_of (Start_store d) = 1"
| "devices_of _ = 0"

definition slots :: "gabbro \<Rightarrow> nat" where
  "slots g = of_bool (gb_opened g) + of_bool (gb_daemon g \<noteq> None)"

definition locks_held :: "gabbro \<Rightarrow> nat" where
  "locks_held g = slots g + sum_list (map locks_of (gb_calls g))"

definition devices_held :: "gabbro \<Rightarrow> nat" where
  "devices_held g = slots g + length (gb_detached g) + sum_list (map devices_of (gb_calls g))"

text \<open>When a program dies the kernel closes what it held.\<close>

definition closed :: "gabbro \<Rightarrow> kernel \<Rightarrow> kernel" where
  "closed g k = k\<lparr>kn_locked := (kn_locked k)(gb_lock_path g := (kn_locked k (gb_lock_path g) \<and> locks_held g = 0)),
     kn_plugged := (kn_plugged k)(gb_lock_path g := kn_plugged k (gb_lock_path g) - devices_held g)\<rparr>"

definition launched :: "string \<Rightarrow> gabbro" where
  "launched p = \<lparr>gb_lock_path = p, gb_opened = False, gb_daemon = None, gb_detached = [], gb_requests = [], gb_calls = []\<rparr>"

type_synonym dsystem = "gabbro list \<times> kernel"

inductive daemon_step :: "dsystem \<Rightarrow> dsystem \<Rightarrow> bool" where
  Launch: "daemon_step (gs, k) (launched p # gs, k)"
| Die: "daemon_step (xs @ g # ys, k) (xs @ ys, closed g k)"
| Begin: "c \<in> {open_call, start_call, stop_call} \<union> range Respond \<Longrightarrow>
    daemon_step (xs @ g # ys, k) (xs @ g\<lparr>gb_calls := c # gb_calls g\<rparr> # ys, k)"
| Return: "gb_calls g = cs @ Done r # ds \<Longrightarrow>
    daemon_step (xs @ g # ys, k) (xs @ g\<lparr>gb_calls := cs @ ds\<rparr> # ys, k)"
| Advance: "gb_calls g = cs @ c # ds \<Longrightarrow> advance a c g k = Some (c', g', k') \<Longrightarrow>
    daemon_step (xs @ g # ys, k) (xs @ g'\<lparr>gb_calls := cs @ c' # ds\<rparr> # ys, k')"
| Pump: "gb_daemon g = Some d \<Longrightarrow> pump_step rd due d = Some (ps, d') \<Longrightarrow>
    daemon_step (xs @ g # ys, k) (xs @ g\<lparr>gb_daemon := Some d', gb_requests := gb_requests g @ ps\<rparr> # ys, k)"
| Pump_starting: "gb_calls g = cs @ Start_store d # ds \<Longrightarrow> pump_step rd due d = Some (ps, d') \<Longrightarrow>
    daemon_step (xs @ g # ys, k) (xs @ g\<lparr>gb_calls := cs @ Start_store d' # ds, gb_requests := gb_requests g @ ps\<rparr> # ys, k)"
| Pump_joining: "gb_calls g = cs @ Stop_join d c # ds \<Longrightarrow> pump_step rd due d = Some (ps, d') \<Longrightarrow>
    daemon_step (xs @ g # ys, k) (xs @ g\<lparr>gb_calls := cs @ Stop_join d' c # ds, gb_requests := gb_requests g @ ps\<rparr> # ys, k)"
| Pump_detached: "gb_detached g = cs @ d # ds \<Longrightarrow> pump_step rd due d = Some (ps, d') \<Longrightarrow>
    daemon_step (xs @ g # ys, k) (xs @ g\<lparr>gb_detached := cs @ d' # ds, gb_requests := gb_requests g @ ps\<rparr> # ys, k)"

definition no_programs :: dsystem where
  "no_programs = ([], \<lparr>kn_locked = \<lambda>_. False, kn_plugged = \<lambda>_. 0\<rparr>)"

section \<open>Notions the lemmas are stated with\<close>

definition idle_call :: "dcall \<Rightarrow> bool" where
  "idle_call c = (locks_of c = 0 \<and> devices_of c = 0)"

text \<open>What follows a \<open>stop\<close> owns nothing yet, and a device is dropped before its lock.\<close>

fun call_ok :: "dcall \<Rightarrow> bool" where
  "call_ok (Stop_opened c) = (idle_call c \<and> call_ok c)"
| "call_ok (Stop_daemon c) = (idle_call c \<and> call_ok c)"
| "call_ok (Stop_join d c) = (idle_call c \<and> call_ok c)"
| "call_ok (Drop_device (Drop_lock c)) = (idle_call c \<and> call_ok c)"
| "call_ok (Drop_device _) = False"
| "call_ok (Drop_lock c) = (idle_call c \<and> call_ok c)"
| "call_ok _ = True"

definition gabbro_ok :: "gabbro \<Rightarrow> bool" where
  "gabbro_ok g = (gb_detached g = [] \<and> (\<forall>c \<in> set (gb_calls g). call_ok c))"

definition locks_at :: "string \<Rightarrow> gabbro list \<Rightarrow> nat" where
  "locks_at p gs = (\<Sum>g\<leftarrow>gs. if gb_lock_path g = p then locks_held g else 0)"

definition devices_at :: "string \<Rightarrow> gabbro list \<Rightarrow> nat" where
  "devices_at p gs = (\<Sum>g\<leftarrow>gs. if gb_lock_path g = p then devices_held g else 0)"

text \<open>Every lock and every key the kernel has is held by exactly one owner.\<close>

definition owned_once :: "dsystem \<Rightarrow> bool" where
  "owned_once s = (case s of (gs, k) \<Rightarrow> (\<forall>g \<in> set gs. gabbro_ok g)
     \<and> (\<forall>p. locks_at p gs = of_bool (kn_locked k p) \<and> devices_at p gs = kn_plugged k p))"

definition unplugged :: "gabbro \<Rightarrow> kernel \<Rightarrow> kernel" where
  "unplugged g k = k\<lparr>kn_plugged := (kn_plugged k)(gb_lock_path g := kn_plugged k (gb_lock_path g) - 1),
     kn_locked := (kn_locked k)(gb_lock_path g := False)\<rparr>"

text \<open>The states of a stop, and how many steps it and the pump it waits for have left.\<close>

fun stopping :: "dcall \<Rightarrow> bool" where
  "stopping (Stop_opened c) = stopping c"
| "stopping (Stop_daemon c) = stopping c"
| "stopping (Stop_join d c) = (\<not> dm_running d \<and> stopping c)"
| "stopping (Drop_device c) = stopping c"
| "stopping (Drop_lock c) = stopping c"
| "stopping c = (c = Done (Inr ()))"

definition pump_left :: "daemon \<Rightarrow> nat" where
  "pump_left d = (if dm_ended d then 0 else if dm_turning d then 2 else 1)"

fun stop_left :: "dcall \<Rightarrow> nat" where
  "stop_left (Stop_opened c) = 9 + stop_left c"
| "stop_left (Stop_daemon c) = 6 + stop_left c"
| "stop_left (Stop_join d c) = pump_left d + 3 + stop_left c"
| "stop_left (Drop_device c) = 1 + stop_left c"
| "stop_left (Drop_lock c) = 1 + stop_left c"
| "stop_left c = 0"

text \<open>What any step of the system does to a stop under way.\<close>

definition stop_survives :: "gabbro list \<Rightarrow> gabbro \<Rightarrow> dcall \<Rightarrow> gabbro list \<Rightarrow> bool" where
  "stop_survives gs h c gs' = ((\<exists>xs ys. gs = xs @ h # ys \<and> gs' = xs @ ys)
     \<or> (\<exists>h' \<in> set gs'. \<exists>c' \<in> set (gb_calls h'). stopping c' \<and> stop_left c' \<le> stop_left c))"

text \<open>A schedule: who makes the next step, and what the kernel answers.\<close>

datatype daction = Launches string | Begins nat dcall | Advances nat sys_answers

fun perform :: "daction \<Rightarrow> dsystem \<Rightarrow> dsystem option" where
  "perform (Launches p) (gs, k) = Some (launched p # gs, k)"
| "perform (Begins i c) (gs, k) =
     (if i < length gs \<and> (c = open_call \<or> c = start_call \<or> c = stop_call)
      then Some (gs[i := (gs ! i)\<lparr>gb_calls := c # gb_calls (gs ! i)\<rparr>], k) else None)"
| "perform (Advances i a) (gs, k) =
     (if i < length gs then
        case gb_calls (gs ! i) of
          [] \<Rightarrow> None
        | c # ds \<Rightarrow> (case advance a c (gs ! i) k of
            Some (c', g', k') \<Rightarrow> Some (gs[i := g'\<lparr>gb_calls := c' # ds\<rparr>], k')
          | None \<Rightarrow> None)
      else None)"

fun performs :: "daction list \<Rightarrow> dsystem \<Rightarrow> dsystem option" where
  "performs [] s = Some s"
| "performs (x # xs) s = (case perform x s of None \<Rightarrow> None | Some t \<Rightarrow> performs xs t)"

definition no_errors :: sys_answers where
  "no_errors = \<lparr>sa_lock_file = None, sa_uhid = None, sa_create = None\<rparr>"

text \<open>One program opens the device and attaches the pump; a second one tries to open it too.\<close>

definition two_programs :: "daction list" where
  "two_programs = [Launches ''/run/L'', Launches ''/run/L'', Begins 0 open_call] @ replicate 6 (Advances 0 no_errors)
     @ [Begins 1 open_call] @ replicate 3 (Advances 1 no_errors)"

section \<open>The invariant\<close>

lemma at_simps [simp]:
  "locks_at p [] = 0" "locks_at p (g # gs) = (if gb_lock_path g = p then locks_held g else 0) + locks_at p gs"
  "locks_at p (xs @ ys) = locks_at p xs + locks_at p ys"
  "devices_at p [] = 0" "devices_at p (g # gs) = (if gb_lock_path g = p then devices_held g else 0) + devices_at p gs"
  "devices_at p (xs @ ys) = devices_at p xs + devices_at p ys"
  by (simp_all add: locks_at_def devices_at_def)

lemma devices_need_locks: "call_ok c \<Longrightarrow> devices_of c \<le> locks_of c"
  by (cases c rule: call_ok.cases) (auto simp: idle_call_def)

lemma devices_within_locks:
  assumes "gabbro_ok g"
  shows "devices_held g \<le> locks_held g"
proof -
  have "sum_list (map devices_of (gb_calls g)) \<le> sum_list (map locks_of (gb_calls g))"
    using assms by (intro sum_list_mono) (auto simp: gabbro_ok_def devices_need_locks)
  with assms show ?thesis by (simp add: gabbro_ok_def devices_held_def locks_held_def)
qed

lemma plugged_within_locked:
  assumes "owned_once (gs, k)"
  shows "kn_plugged k p \<le> of_bool (kn_locked k p)"
proof -
  have "devices_at p gs \<le> locks_at p gs"
    unfolding devices_at_def locks_at_def
    using assms by (intro sum_list_mono) (auto simp: owned_once_def devices_within_locks)
  with assms show ?thesis by (simp add: owned_once_def)
qed

text \<open>A step of one program that keeps the balance between what it holds and what the kernel counts under its lock file.\<close>

lemma owned_once_local:
  assumes "owned_once (xs @ g # ys, k)" and "gabbro_ok g'" and "gb_lock_path g' = gb_lock_path g"
    and "locks_held g' + of_bool (kn_locked k (gb_lock_path g)) = locks_held g + of_bool (kn_locked k' (gb_lock_path g))"
    and "devices_held g' + kn_plugged k (gb_lock_path g) = devices_held g + kn_plugged k' (gb_lock_path g)"
    and "\<And>p. p \<noteq> gb_lock_path g \<Longrightarrow> kn_locked k' p = kn_locked k p \<and> kn_plugged k' p = kn_plugged k p"
  shows "owned_once (xs @ g' # ys, k')"
proof -
  have "locks_at p (xs @ g' # ys) = of_bool (kn_locked k' p) \<and> devices_at p (xs @ g' # ys) = kn_plugged k' p" for p
  proof -
    have e: "locks_at p (xs @ g # ys) = of_bool (kn_locked k p)" "devices_at p (xs @ g # ys) = kn_plugged k p"
      using assms(1) by (simp_all add: owned_once_def)
    show ?thesis
    proof (cases "p = gb_lock_path g")
      case True
      with e assms(3-5) show ?thesis by (simp del: of_bool_eq_iff)
    next
      case False
      with e assms(3,6) show ?thesis by simp
    qed
  qed
  with assms(1,2) show ?thesis by (auto simp: owned_once_def)
qed

text \<open>The program that makes a step holds at most one lock, the one of the kernel.\<close>

lemma counted:
  assumes "owned_once (gs, k)"
  shows "locks_at p gs = of_bool (kn_locked k p)" and "devices_at p gs = kn_plugged k p" and "g \<in> set gs \<Longrightarrow> gabbro_ok g"
  using assms unfolding owned_once_def by blast+

lemma holder:
  assumes "owned_once (xs @ g # ys, k)"
  shows "locks_held g \<le> of_bool (kn_locked k (gb_lock_path g))" and "devices_held g \<le> kn_plugged k (gb_lock_path g)" and "gabbro_ok g"
  using counted(1,2) [OF assms, of "gb_lock_path g"] counted(3) [OF assms, of g] by simp_all

lemma advance_frame:
  assumes "advance a c g k = Some (c', g', k')"
  shows "gb_lock_path g' = gb_lock_path g" and "gb_calls g' = gb_calls g"
    and "p \<noteq> gb_lock_path g \<Longrightarrow> kn_locked k' p = kn_locked k p \<and> kn_plugged k' p = kn_plugged k p"
  using assms by (cases c; auto simp: take_instance_lock_def split: if_splits option.splits)+

text \<open>A call that holds a lock is the only owner in its program, so it never replaces a device in a slot.\<close>

lemma call_ok_Drop_device: "call_ok (Drop_device c) \<longleftrightarrow> (\<exists>c'. c = Drop_lock c' \<and> idle_call c' \<and> call_ok c')"
  by (cases c) auto

lemma advance_balance:
  assumes "advance a c g k = Some (c', g', k')" and "call_ok c" and "gb_detached g = []"
    and "slots g + locks_of c \<le> of_bool (kn_locked k (gb_lock_path g))" and "devices_of c \<le> kn_plugged k (gb_lock_path g)"
  shows "call_ok c' \<and> gb_detached g' = []
    \<and> slots g' + locks_of c' + of_bool (kn_locked k (gb_lock_path g)) = slots g + locks_of c + of_bool (kn_locked k' (gb_lock_path g))
    \<and> slots g' + devices_of c' + kn_plugged k (gb_lock_path g) = slots g + devices_of c + kn_plugged k' (gb_lock_path g)"
proof (cases c)
  case (Stop_opened c1)
  with assms show ?thesis by (cases "gb_opened g") (auto simp: slots_def idle_call_def)
next
  case (Stop_daemon c1)
  with assms show ?thesis by (cases "gb_daemon g") (auto simp: slots_def idle_call_def)
next
  case (Stop_join d c1)
  with assms show ?thesis by (cases "dm_ended d") (auto simp: idle_call_def)
next
  case (Drop_device c1)
  with assms show ?thesis by (auto simp: call_ok_Drop_device idle_call_def)
next
  case (Drop_lock c1)
  with assms show ?thesis by (cases "kn_locked k (gb_lock_path g)") (auto simp: idle_call_def)
next
  case Open_lock
  with assms show ?thesis by (auto simp: take_instance_lock_def split: option.splits if_splits)
next
  case Open_device
  with assms show ?thesis by (auto simp: idle_call_def split: option.splits)
next
  case Open_create
  with assms show ?thesis by (auto simp: idle_call_def split: option.splits)
next
  case Open_store
  with assms show ?thesis by (auto simp: slots_def of_bool_def split: if_splits)
next
  case Start_take
  with assms show ?thesis by (auto simp: slots_def split: if_splits)
next
  case (Start_store d)
  with assms show ?thesis by (auto simp: slots_def of_bool_def split: option.splits if_splits)
next
  case (Respond r)
  with assms show ?thesis by (auto simp: slots_def split: option.splits)
qed (use assms in auto)

lemma held_calls:
  "locks_held (g\<lparr>gb_calls := cs\<rparr>) = slots g + sum_list (map locks_of cs)"
  "devices_held (g\<lparr>gb_calls := cs\<rparr>) = slots g + length (gb_detached g) + sum_list (map devices_of cs)"
  by (simp_all add: locks_held_def devices_held_def slots_def)

lemma begin_idle: "c \<in> {open_call, start_call, stop_call} \<union> range Respond \<Longrightarrow> idle_call c \<and> call_ok c"
  by (auto simp: open_call_def start_call_def stop_call_def idle_call_def)

lemma owned_once_die:
  assumes "owned_once (xs @ g # ys, k)"
  shows "owned_once (xs @ ys, closed g k)"
proof -
  have "locks_at p (xs @ ys) = of_bool (kn_locked (closed g k) p) \<and> devices_at p (xs @ ys) = kn_plugged (closed g k) p" for p
    using counted(1,2) [OF assms, of p] by (cases "kn_locked k p") (auto simp: closed_def split: if_splits)
  with assms show ?thesis by (auto simp: owned_once_def)
qed

lemma owned_once_advance:
  assumes "owned_once (xs @ g # ys, k)" and c: "gb_calls g = cs @ c # ds" and a: "advance a c g k = Some (c', g', k')"
  shows "owned_once (xs @ g'\<lparr>gb_calls := cs @ c' # ds\<rparr> # ys, k')"
proof -
  note h = holder [OF assms(1)]
  have ok: "gb_detached g = []" "call_ok c" "\<forall>x \<in> set (cs @ ds). call_ok x" using h(3) by (simp_all add: gabbro_ok_def c)
  have "slots g + locks_of c \<le> of_bool (kn_locked k (gb_lock_path g))" "devices_of c \<le> kn_plugged k (gb_lock_path g)"
    using h(1,2) by (simp_all add: locks_held_def devices_held_def c)
  note b = advance_balance [OF a ok(2,1) this] and f = advance_frame [OF a]
  show ?thesis
  proof (rule owned_once_local [OF assms(1)])
    show "gabbro_ok (g'\<lparr>gb_calls := cs @ c' # ds\<rparr>)" using b ok(3) by (auto simp: gabbro_ok_def)
  qed (use b f ok(1) in \<open>simp_all add: held_calls locks_held_def [of g] devices_held_def [of g] c\<close>)
qed

lemma owned_once_step:
  assumes "daemon_step s t" and "owned_once s"
  shows "owned_once t"
  using assms
proof (induction rule: daemon_step.induct)
  case (Launch gs k p)
  then show ?case by (auto simp: owned_once_def launched_def gabbro_ok_def locks_held_def devices_held_def slots_def)
next
  case (Die xs g ys k)
  then show ?case by (rule owned_once_die)
next
  case (Begin c xs g ys k)
  note h = holder(3) [OF Begin(2)] and i = begin_idle [OF Begin(1)]
  show ?case
    by (rule owned_once_local [OF Begin(2)]) (use h i in \<open>auto simp: gabbro_ok_def held_calls idle_call_def locks_held_def [of g] devices_held_def [of g]\<close>)
next
  case (Return g cs r ds xs ys k)
  note h = holder(3) [OF Return(2)]
  show ?case
    by (rule owned_once_local [OF Return(2)]) (use h in \<open>auto simp: gabbro_ok_def held_calls Return(1) locks_held_def [of g] devices_held_def [of g]\<close>)
next
  case (Advance g cs c ds a k c' g' k' xs ys)
  then show ?case by (intro owned_once_advance)
next
  case (Pump g d rd due ps d' xs ys k)
  note h = holder(3) [OF Pump(3)]
  show ?case
    by (rule owned_once_local [OF Pump(3)]) (use h Pump(1) in \<open>auto simp: gabbro_ok_def locks_held_def devices_held_def slots_def\<close>)
next
  case (Pump_starting g cs d ds rd due ps d' xs ys k)
  note h = holder(3) [OF Pump_starting(3)]
  show ?case
    by (rule owned_once_local [OF Pump_starting(3)]) (use h Pump_starting(1) in \<open>auto simp: gabbro_ok_def locks_held_def devices_held_def slots_def\<close>)
next
  case (Pump_joining g cs d c ds rd due ps d' xs ys k)
  note h = holder(3) [OF Pump_joining(3)]
  show ?case
    by (rule owned_once_local [OF Pump_joining(3)]) (use h Pump_joining(1) in \<open>auto simp: gabbro_ok_def locks_held_def devices_held_def slots_def\<close>)
next
  case (Pump_detached g cs d ds rd due ps d' xs ys k)
  then have False using holder(3) [OF Pump_detached(3)] by (simp add: gabbro_ok_def)
  then show ?case ..
qed

lemma owned_once_initially: "owned_once no_programs"
  by (simp add: no_programs_def owned_once_def)

lemma reachable_owned_once: "daemon_step\<^sup>*\<^sup>* no_programs s \<Longrightarrow> owned_once s"
  by (induction rule: rtranclp_induct) (rule owned_once_initially, rule owned_once_step)

text \<open>C26. Whatever the programs do and in whatever order their system calls happen, at most one virtual key is plugged in by the
  programs that use one lock file, and the lock is held while it is; no pump thread is ever left without an owner.\<close>

theorem at_most_one_virtual_key:
  assumes "daemon_step\<^sup>*\<^sup>* no_programs (gs, k)"
  shows "kn_plugged k p \<le> 1 \<and> (0 < kn_plugged k p \<longrightarrow> kn_locked k p) \<and> (\<forall>g \<in> set gs. gb_detached g = [])"
proof -
  note o = reachable_owned_once [OF assms]
  from plugged_within_locked [OF o, of p] counted(3) [OF o] show ?thesis
    by (cases "kn_locked k p") (auto simp: gabbro_ok_def)
qed

section \<open>Stopping\<close>

text \<open>The next system call of one of the calls of a program.\<close>

lemma call_at:
  assumes "advance a c g k = Some (c', g', k')" and "gb_calls g = cs @ c # ds"
    and "daemon_step\<^sup>*\<^sup>* (xs @ g'\<lparr>gb_calls := cs @ c' # ds\<rparr> # ys, k') t"
  shows "daemon_step\<^sup>*\<^sup>* (xs @ g # ys, k) t"
  using Advance [OF assms(2,1), of xs ys] assms(3) by (simp add: converse_rtranclp_into_rtranclp)

lemma unplugged_calls [simp]: "unplugged (g\<lparr>gb_calls := cs\<rparr>) k = unplugged g k"
  by (simp add: unplugged_def)

lemma drop_path:
  assumes "gb_calls g = cs @ Drop_device (Drop_lock c) # ds"
  shows "daemon_step\<^sup>*\<^sup>* (xs @ g # ys, k) (xs @ g\<lparr>gb_calls := cs @ c # ds\<rparr> # ys, unplugged g k)"
proof -
  let ?k = "k\<lparr>kn_plugged := (kn_plugged k)(gb_lock_path g := kn_plugged k (gb_lock_path g) - 1)\<rparr>"
  let ?g = "g\<lparr>gb_calls := cs @ Drop_lock c # ds\<rparr>"
  have "daemon_step\<^sup>*\<^sup>* (xs @ ?g # ys, ?k) (xs @ g\<lparr>gb_calls := cs @ c # ds\<rparr> # ys, unplugged g k)"
    by (rule call_at [of undefined "Drop_lock c" ?g ?k c ?g "unplugged g k" cs ds]) (simp_all add: unplugged_def)
  then show ?thesis
    by (rule call_at [of undefined "Drop_device (Drop_lock c)" g k "Drop_lock c" g ?k cs ds, rotated 2]) (simp_all add: assms)
qed

lemma pump_joins:
  assumes "gb_calls g = cs @ Stop_join d c # ds" and "pump_step rd due d = Some ([], d')"
    and "daemon_step\<^sup>*\<^sup>* (xs @ g\<lparr>gb_calls := cs @ Stop_join d' c # ds\<rparr> # ys, k) t"
  shows "daemon_step\<^sup>*\<^sup>* (xs @ g # ys, k) t"
  using Pump_joining [OF assms(1,2), of xs ys k] assms(3) by (simp add: converse_rtranclp_into_rtranclp)

lemma pump_idle_turn: "\<exists>d'. \<not> dm_ended d \<longrightarrow> dm_turning d \<longrightarrow>
    pump_step WouldBlock False d = Some ([], d') \<and> \<not> dm_turning d' \<and> dm_running d' = dm_running d"
  by (auto simp: pump_step_def pump_turn_def read_event_def split: prod.split bool.split)

lemma join_path:
  assumes "gb_calls g = cs @ Stop_join d c # ds" and "\<not> dm_running d"
  shows "daemon_step\<^sup>*\<^sup>* (xs @ g # ys, k) (xs @ g\<lparr>gb_calls := cs @ c # ds\<rparr> # ys, unplugged g k)"
proof -
  have ended: "daemon_step\<^sup>*\<^sup>* (xs @ h # ys, k) (xs @ g\<lparr>gb_calls := cs @ c # ds\<rparr> # ys, unplugged g k)"
    if "h = g\<lparr>gb_calls := cs @ Stop_join d' c # ds\<rparr>" "dm_ended d'" for h d'
    using drop_path [of "g\<lparr>gb_calls := cs @ Drop_device (Drop_lock c) # ds\<rparr>" cs c ds xs ys k] that
    by (intro call_at [of undefined "Stop_join d' c" h k "Drop_device (Drop_lock c)" h k cs ds]) (simp_all add: unplugged_def)
  have looking: "daemon_step\<^sup>*\<^sup>* (xs @ h # ys, k) (xs @ g\<lparr>gb_calls := cs @ c # ds\<rparr> # ys, unplugged g k)"
    if h: "h = g\<lparr>gb_calls := cs @ Stop_join d' c # ds\<rparr>" "\<not> dm_turning d'" "\<not> dm_running d'" for h d'
  proof (cases "dm_ended d'")
    case True
    with ended [OF h(1)] show ?thesis .
  next
    case False
    then have "pump_step WouldBlock False d' = Some ([], d'\<lparr>dm_ended := True\<rparr>)" using h(2,3) by (simp add: pump_step_def)
    then show ?thesis using ended [OF refl, of "d'\<lparr>dm_ended := True\<rparr>"] h(1) by (intro pump_joins [of h cs d' c ds]) simp_all
  qed
  have g: "g = g\<lparr>gb_calls := cs @ Stop_join d c # ds\<rparr>" using assms(1) by simp
  show ?thesis
  proof (cases "dm_ended d \<or> \<not> dm_turning d")
    case True
    with ended [OF g] looking [OF g] assms(2) show ?thesis by blast
  next
    case False
    with pump_idle_turn [of d] obtain d' where d': "pump_step WouldBlock False d = Some ([], d')" "\<not> dm_turning d'" "dm_running d' = dm_running d"
      by blast
    from looking [OF refl d'(2)] d'(3) assms(2) show ?thesis by (intro pump_joins [OF assms(1) d'(1)]) simp
  qed
qed

lemma stop_daemon_path:
  assumes "gb_calls g = cs @ Stop_daemon c # ds"
  shows "\<exists>g'. daemon_step\<^sup>*\<^sup>* (xs @ g # ys, k) (xs @ g' # ys, if gb_daemon g = None then k else unplugged g k)
    \<and> gb_calls g' = cs @ c # ds \<and> gb_daemon g' = None \<and> gb_opened g' = gb_opened g"
proof (cases "gb_daemon g")
  case None
  have "daemon_step\<^sup>*\<^sup>* (xs @ g # ys, k) (xs @ g\<lparr>gb_calls := cs @ c # ds\<rparr> # ys, k)"
    by (rule call_at [of undefined "Stop_daemon c" g k c g k cs ds]) (simp_all add: assms None)
  then show ?thesis using None by (intro exI [of _ "g\<lparr>gb_calls := cs @ c # ds\<rparr>"]) simp
next
  case (Some d)
  let ?j = "Stop_join (d\<lparr>dm_running := False\<rparr>) c" and ?g = "g\<lparr>gb_daemon := None\<rparr>"
  have "daemon_step\<^sup>*\<^sup>* (xs @ ?g\<lparr>gb_calls := cs @ ?j # ds\<rparr> # ys, k) (xs @ ?g\<lparr>gb_calls := cs @ c # ds\<rparr> # ys, unplugged g k)"
    using join_path [of "?g\<lparr>gb_calls := cs @ ?j # ds\<rparr>" cs "d\<lparr>dm_running := False\<rparr>" c ds xs ys k] by (simp add: unplugged_def)
  then have "daemon_step\<^sup>*\<^sup>* (xs @ g # ys, k) (xs @ ?g\<lparr>gb_calls := cs @ c # ds\<rparr> # ys, unplugged g k)"
    by (rule call_at [of undefined "Stop_daemon c" g k ?j ?g k cs ds, rotated 2]) (simp_all add: assms Some)
  then show ?thesis using Some by (intro exI [of _ "?g\<lparr>gb_calls := cs @ c # ds\<rparr>"]) simp
qed

lemma stop_path:
  assumes "gb_calls g = cs @ Stop_opened c # ds" and "slots g \<le> 1"
  shows "\<exists>g'. daemon_step\<^sup>*\<^sup>* (xs @ g # ys, k) (xs @ g' # ys, if slots g = 0 then k else unplugged g k)
    \<and> gb_calls g' = cs @ c # ds \<and> slots g' = 0"
proof (cases "gb_opened g")
  case True
  let ?d = "Drop_device (Drop_lock (Stop_daemon c))" and ?g = "g\<lparr>gb_opened := False\<rparr>"
  have n: "gb_daemon g = None" using True assms(2) by (cases "gb_daemon g") (simp_all add: slots_def)
  obtain g' where g': "daemon_step\<^sup>*\<^sup>* (xs @ ?g\<lparr>gb_calls := cs @ Stop_daemon c # ds\<rparr> # ys, unplugged g k) (xs @ g' # ys, unplugged g k)"
    "gb_calls g' = cs @ c # ds" "gb_daemon g' = None" "\<not> gb_opened g'"
    using stop_daemon_path [of "?g\<lparr>gb_calls := cs @ Stop_daemon c # ds\<rparr>" cs c ds xs ys "unplugged g k"] n by auto
  have "daemon_step\<^sup>*\<^sup>* (xs @ ?g\<lparr>gb_calls := cs @ ?d # ds\<rparr> # ys, k) (xs @ ?g\<lparr>gb_calls := cs @ Stop_daemon c # ds\<rparr> # ys, unplugged g k)"
    using drop_path [of "?g\<lparr>gb_calls := cs @ ?d # ds\<rparr>" cs "Stop_daemon c" ds xs ys k] by (simp add: unplugged_def)
  then have "daemon_step\<^sup>*\<^sup>* (xs @ g # ys, k) (xs @ ?g\<lparr>gb_calls := cs @ Stop_daemon c # ds\<rparr> # ys, unplugged g k)"
    by (rule call_at [of undefined "Stop_opened c" g k ?d ?g k cs ds, rotated 2]) (simp_all add: assms(1) True)
  with g' have "daemon_step\<^sup>*\<^sup>* (xs @ g # ys, k) (xs @ g' # ys, unplugged g k)" by (blast intro: rtranclp_trans)
  with g' True show ?thesis by (auto simp: slots_def)
next
  case False
  obtain g' where g': "daemon_step\<^sup>*\<^sup>* (xs @ g\<lparr>gb_calls := cs @ Stop_daemon c # ds\<rparr> # ys, k)
      (xs @ g' # ys, if gb_daemon g = None then k else unplugged g k)" "gb_calls g' = cs @ c # ds" "gb_daemon g' = None" "\<not> gb_opened g'"
    using stop_daemon_path [of "g\<lparr>gb_calls := cs @ Stop_daemon c # ds\<rparr>" cs c ds xs ys k, unfolded unplugged_calls] False by auto
  from g'(1) have "daemon_step\<^sup>*\<^sup>* (xs @ g # ys, k) (xs @ g' # ys, if gb_daemon g = None then k else unplugged g k)"
    by (rule call_at [of undefined "Stop_opened c" g k "Stop_daemon c" g k cs ds, rotated 2]) (simp_all add: assms(1) False)
  with g' False show ?thesis by (auto simp: slots_def)
qed

text \<open>C27. A stop can run to its end in every reachable state, whatever other calls of the program are under way and wherever its pump is
  between its look at the flag and the end of a turn. Afterwards both slots are empty, the key and the lock that were in them are
  given back, and of locks the program holds only what its other calls do; without such calls another program can take the lock.\<close>

theorem stop_completes:
  assumes "daemon_step\<^sup>*\<^sup>* no_programs (xs @ g # ys, k)" and "gb_calls g = cs @ stop_call # ds"
  shows "\<exists>g' k'. daemon_step\<^sup>*\<^sup>* (xs @ g # ys, k) (xs @ g' # ys, k') \<and> gb_calls g' = cs @ Done (Inr ()) # ds
    \<and> \<not> gb_opened g' \<and> gb_daemon g' = None \<and> locks_held g' = sum_list (map locks_of (cs @ ds))
    \<and> kn_plugged k' (gb_lock_path g) = kn_plugged k (gb_lock_path g) - slots g
    \<and> kn_locked k' (gb_lock_path g) = (kn_locked k (gb_lock_path g) \<and> slots g = 0)"
proof -
  note h = holder [OF reachable_owned_once [OF assms(1)]]
  have s: "slots g \<le> 1" using h(1) by (cases "kn_locked k (gb_lock_path g)") (simp_all add: locks_held_def)
  let ?k = "if slots g = 0 then k else unplugged g k"
  obtain g' where g': "daemon_step\<^sup>*\<^sup>* (xs @ g # ys, k) (xs @ g' # ys, ?k)" "gb_calls g' = cs @ Done (Inr ()) # ds" "slots g' = 0"
    using stop_path [OF assms(2) [unfolded stop_call_def] s, of xs ys k] by blast
  then have "\<not> gb_opened g'" "gb_daemon g' = None" by (auto simp: slots_def split: if_splits)
  with g' s show ?thesis by (intro exI [of _ g'] exI [of _ ?k]) (auto simp: locks_held_def [of g'] unplugged_def)
qed

lemma pump_progress:
  assumes "pump_step rd due d = Some (ps, d')" and "\<not> dm_running d"
  shows "\<not> dm_running d' \<and> pump_left d' < pump_left d"
  using assms by (auto simp: pump_step_def pump_left_def split: if_splits prod.splits option.splits)

lemma advance_progress:
  assumes "advance a c g k = Some (c', g', k')" and "stopping c"
  shows "stopping c' \<and> stop_left c' < stop_left c"
  using assms by (cases c) (auto simp: pump_left_def split: if_splits option.splits)

lemma join_progress:
  assumes "pump_step rd due d = Some (ps, d')" and "stopping (Stop_join d c)"
  shows "stopping (Stop_join d' c) \<and> stop_left (Stop_join d' c) < stop_left (Stop_join d c)"
  using assms pump_progress by fastforce

lemma survives_local:
  assumes "h \<in> set (xs @ g # ys)" and "c \<in> set (gb_calls h)" and "stopping c"
    and "h = g \<Longrightarrow> \<exists>c' \<in> set (gb_calls g'). stopping c' \<and> stop_left c' \<le> stop_left c"
  shows "stop_survives (xs @ g # ys) h c (xs @ g' # ys)"
proof (cases "h = g")
  case True
  with assms(4) show ?thesis by (auto simp: stop_survives_def)
next
  case False
  with assms(1-3) show ?thesis by (auto simp: stop_survives_def)
qed

lemma step_keeps_stop:
  assumes "daemon_step s t" and "h \<in> set (fst s)" and c: "c \<in> set (gb_calls h)" "stopping c" "c \<noteq> Done (Inr ())"
  shows "stop_survives (fst s) h c (fst t)"
  using assms(1,2)
proof (induction rule: daemon_step.induct)
  case (Launch gs k p)
  then show ?case using c by (auto simp: stop_survives_def)
next
  case (Die xs g ys k)
  then show ?case using c by (cases "h = g") (auto simp: stop_survives_def)
next
  case (Begin c0 xs g ys k)
  then show ?case using c by (simp, intro survives_local) auto
next
  case (Return g cs r ds xs ys k)
  then show ?case using c by (simp, intro survives_local) auto
next
  case (Advance g cs c0 ds a k c' g' k' xs ys)
  from Advance(3) c Advance(1) advance_progress [OF Advance(2)] show ?case by (simp, intro survives_local) (auto dest: less_imp_le)
next
  case (Pump_starting g cs d ds rd due ps d' xs ys k)
  then show ?case using c by (simp, intro survives_local) auto
next
  case (Pump_joining g cs d c1 ds rd due ps d' xs ys k)
  from Pump_joining(3) c Pump_joining(1) join_progress [OF Pump_joining(2), of c1] show ?case
    by (simp, intro survives_local) (auto dest: less_imp_le)
next
  case (Pump g d rd due ps d' xs ys k)
  then show ?case using c by (simp, intro survives_local) auto
next
  case (Pump_detached g cs d ds rd due ps d' xs ys k)
  then show ?case using c by (simp, intro survives_local) auto
qed

text \<open>C28. A stop cannot be held up for ever. At most nine steps are left to it and to the pump it waits for when it begins; as long as it
  has not returned, its next system call can be made, or the pump it waits for can make a step, whatever the kernel and the device
  answer; and each such step leaves it fewer. No other step of the system, short of the death of the program, takes the stop away or leaves
  it more to do.\<close>

theorem stop_makes_progress:
  "stopping stop_call \<and> stop_left stop_call = 9
   \<and> (stopping c \<and> c \<noteq> Done (Inr ()) \<longrightarrow>
        (\<forall>a. advance a c g k \<noteq> None) \<or> (\<exists>d c'. c = Stop_join d c' \<and> (\<forall>rd due. pump_step rd due d \<noteq> None)))
   \<and> (stopping c \<and> advance a c g k = Some (c', g', k') \<longrightarrow> stopping c' \<and> stop_left c' < stop_left c)
   \<and> (stopping (Stop_join d c) \<and> pump_step rd due d = Some (ps, d') \<longrightarrow>
        stopping (Stop_join d' c) \<and> stop_left (Stop_join d' c) < stop_left (Stop_join d c))
   \<and> (daemon_step s t \<and> h \<in> set (fst s) \<and> c \<in> set (gb_calls h) \<and> stopping c \<and> c \<noteq> Done (Inr ()) \<longrightarrow>
        (\<exists>xs ys. fst s = xs @ h # ys \<and> fst t = xs @ ys)
        \<or> (\<exists>h' \<in> set (fst t). \<exists>c' \<in> set (gb_calls h'). stopping c' \<and> stop_left c' \<le> stop_left c))"
proof (intro conjI impI)
  show "stopping stop_call" "stop_left stop_call = 9" by (simp_all add: stop_call_def)
next
  assume c: "stopping c \<and> c \<noteq> Done (Inr ())"
  show "(\<forall>a. advance a c g k \<noteq> None) \<or> (\<exists>d c'. c = Stop_join d c' \<and> (\<forall>rd due. pump_step rd due d \<noteq> None))"
  proof (cases c)
    case (Stop_join d c1)
    then show ?thesis by (cases "dm_ended d") (auto simp: pump_step_def split: prod.split option.split)
  qed (use c in auto)
next
  assume "stopping c \<and> advance a c g k = Some (c', g', k')"
  then show "stopping c'" "stop_left c' < stop_left c" using advance_progress by blast+
next
  assume "stopping (Stop_join d c) \<and> pump_step rd due d = Some (ps, d')"
  then show "stopping (Stop_join d' c)" "stop_left (Stop_join d' c) < stop_left (Stop_join d c)" using join_progress by blast+
next
  assume "daemon_step s t \<and> h \<in> set (fst s) \<and> c \<in> set (gb_calls h) \<and> stopping c \<and> c \<noteq> Done (Inr ())"
  then show "(\<exists>xs ys. fst s = xs @ h # ys \<and> fst t = xs @ ys)
      \<or> (\<exists>h' \<in> set (fst t). \<exists>c' \<in> set (gb_calls h'). stopping c' \<and> stop_left c' \<le> stop_left c)"
    using step_keeps_stop [of s t h c] by (simp add: stop_survives_def)
qed

theorem stop_makes_progress_witness:
  "let d = daemon_new\<lparr>dm_running := False, dm_turning := True\<rparr>; c = Done (Inr ()) in
     \<exists>d'. pump_step WouldBlock False d = Some ([], d') \<and> stop_left (Stop_join d' c) < stop_left (Stop_join d c)"
proof -
  let ?d = "daemon_new\<lparr>dm_running := False, dm_turning := True\<rparr>"
  obtain d' where "pump_step WouldBlock False ?d = Some ([], d')" using pump_idle_turn [of ?d] by (auto simp: daemon_new_def)
  with stop_makes_progress [of "Done (Inr ())" undefined undefined undefined undefined undefined undefined ?d WouldBlock False "[]" d']
  show ?thesis by (simp add: Let_def daemon_new_def)
qed

section \<open>Running the system\<close>

lemma split_at: "i < length gs \<Longrightarrow> gs[i := x] = take i gs @ x # drop (Suc i) gs" "i < length gs \<Longrightarrow> gs = take i gs @ gs ! i # drop (Suc i) gs"
  by (simp_all add: upd_conv_take_nth_drop id_take_nth_drop)

lemma perform_steps: "perform x s = Some t \<Longrightarrow> daemon_step s t"
proof (induction x s rule: perform.induct)
  case (1 p gs k)
  then show ?case by (auto intro: Launch)
next
  case (2 i c gs k)
  then have i: "i < length gs" "c \<in> {open_call, start_call, stop_call} \<union> range Respond"
    "t = (gs[i := (gs ! i)\<lparr>gb_calls := c # gb_calls (gs ! i)\<rparr>], k)" by (auto split: if_splits)
  from Begin [OF i(2), of "take i gs" "gs ! i" "drop (Suc i) gs" k] show ?case
    by (simp add: i(3) split_at(1) [OF i(1)] split_at(2) [OF i(1), symmetric])
next
  case (3 i a gs k)
  then obtain c ds c' g' k' where i: "i < length gs" "gb_calls (gs ! i) = [] @ c # ds" "advance a c (gs ! i) k = Some (c', g', k')"
    "t = (gs[i := g'\<lparr>gb_calls := c' # ds\<rparr>], k')" by (auto split: if_splits list.splits option.splits)
  from Advance [OF i(2,3), of "take i gs" "drop (Suc i) gs"] show ?case
    by (simp add: i(4) split_at(1) [OF i(1)] split_at(2) [OF i(1), symmetric])
qed

lemma performs_steps: "performs xs s = Some t \<Longrightarrow> daemon_step\<^sup>*\<^sup>* s t"
  by (induction xs arbitrary: s) (auto dest!: perform_steps split: option.splits intro: converse_rtranclp_into_rtranclp)

lemma two_programs_run:
  "\<exists>g h k. performs two_programs no_programs = Some ([g, h], k) \<and> gb_opened g \<and> gb_lock_path g = ''/run/L'' \<and> kn_plugged k ''/run/L'' = 1
     \<and> gb_calls h = [Done (Inl (Err ''another Gabbro instance already owns the passkey device (instance lock held)''))]"
  by (simp add: two_programs_def no_programs_def launched_def open_call_def no_errors_def take_instance_lock_def numeral_eq_Suc)

theorem at_most_one_virtual_key_witness:
  "\<exists>g h k. daemon_step\<^sup>*\<^sup>* no_programs ([g, h], k) \<and> kn_plugged k ''/run/L'' = 1 \<and> kn_locked k ''/run/L''
     \<and> gb_calls h = [Done (Inl (Err ''another Gabbro instance already owns the passkey device (instance lock held)''))]"
proof -
  obtain g h k where r: "performs two_programs no_programs = Some ([g, h], k)" "kn_plugged k ''/run/L'' = 1"
    "gb_calls h = [Done (Inl (Err ''another Gabbro instance already owns the passkey device (instance lock held)''))]"
    using two_programs_run by blast
  from at_most_one_virtual_key [OF performs_steps [OF r(1)], of "''/run/L''"] r(2,3) performs_steps [OF r(1)] show ?thesis by auto
qed

theorem stop_completes_witness:
  "\<exists>g k g' k'. daemon_step\<^sup>*\<^sup>* no_programs ([g], k) \<and> kn_plugged k ''/run/L'' = 1
     \<and> daemon_step\<^sup>*\<^sup>* ([g], k) ([g'], k') \<and> kn_plugged k' ''/run/L'' = 0 \<and> \<not> kn_locked k' ''/run/L''"
proof -
  let ?acts = "[Launches ''/run/L'', Begins 0 open_call] @ replicate 6 (Advances 0 no_errors)"
  obtain g k where g: "performs ?acts no_programs = Some ([g], k)" "kn_plugged k ''/run/L'' = 1" "gb_opened g" "gb_daemon g = None"
    "gb_lock_path g = ''/run/L''" "gb_calls g = [Done (Inr ())]"
    by (simp add: no_programs_def launched_def open_call_def no_errors_def take_instance_lock_def numeral_eq_Suc)
  let ?g = "g\<lparr>gb_calls := [stop_call]\<rparr>"
  have "daemon_step ([g], k) ([g\<lparr>gb_calls := []\<rparr>], k)" using Return [of g "[]" "Inr ()" "[]" "[]" "[]" k] g(6) by simp
  moreover have "daemon_step ([g\<lparr>gb_calls := []\<rparr>], k) ([?g], k)"
    using Begin [of stop_call "[]" "g\<lparr>gb_calls := []\<rparr>" "[]" k] by simp
  ultimately have r: "daemon_step\<^sup>*\<^sup>* no_programs ([] @ ?g # [], k)"
    using performs_steps [OF g(1)] by (simp add: rtranclp.rtrancl_into_rtrancl)
  have h: "slots ?g = 1" using g(3,4) by (simp add: slots_def)
  from stop_completes [OF r, of "[]" "[]"] obtain g' k' where "daemon_step\<^sup>*\<^sup>* ([?g], k) ([g'], k')"
    "kn_plugged k' ''/run/L'' = 0" "\<not> kn_locked k' ''/run/L''" using g(2,5) h by auto
  with r g(2) show ?thesis by auto
qed

text \<open>The pump thread ends when the device fails, but the daemon stays in its slot: an answer is still accepted, no turn of
  the pump will ever send it, and the virtual key stays plugged in until a stop.\<close>

theorem answer_after_pump_ended_is_lost:
  assumes "gb_daemon g = Some d" and "dm_ended d"
  shows "\<exists>d'. advance a (Respond r) g k = Some (Done (Inr ()), g\<lparr>gb_daemon := Some d'\<rparr>, k)
    \<and> sh_written (dm_shared d') = sh_written (dm_shared d) \<and> (\<forall>rd due. pump_step rd due d' = None)"
  using assms by (intro exI [of _ "d\<lparr>dm_shared := respond r (dm_shared d)\<rparr>"]) (simp add: respond_def pump_step_def)

theorem answer_after_pump_ended_is_lost_witness:
  "\<exists>d d'. pump_step ReadError False (daemon_new\<lparr>dm_turning := True\<rparr>) = Some ([], d)
     \<and> advance no_errors (Respond [0]) ((launched ''/run/L'')\<lparr>gb_daemon := Some d\<rparr>) (snd no_programs)
         = Some (Done (Inr ()), (launched ''/run/L'')\<lparr>gb_daemon := Some d'\<rparr>, snd no_programs)
     \<and> pump_step WouldBlock False d' = None"
proof -
  obtain d where d: "pump_step ReadError False (daemon_new\<lparr>dm_turning := True\<rparr>) = Some ([], d)" "dm_ended d"
    by (auto simp: pump_step_def daemon_new_def pump_turn_def send_response_def Shared_new_def read_event_def)
  from answer_after_pump_ended_is_lost [of "(launched ''/run/L'')\<lparr>gb_daemon := Some d\<rparr>" d no_errors "[0]" "snd no_programs"] d show ?thesis by auto
qed

end
