(* ===== verification/Hardening.thy ===== *)
theory Hardening
  imports Effects
begin

text \<open>
  Process hardening (\<open>rust/src/hardening.rs\<close>, \<open>rust/src/api/simple.rs\<close>) on Linux: the attributes of the process that decide whether its
  memory can leave it, and the two system calls that set them. Each call can fail, as the list of faults to come says.

  Shown: once the start-up code succeeds no later call of the program lets a crash write a core file; the memory can be read by a
  debugger only between a successful raise and the next successful lowering; after a partial failure the start-up code has still
  closed the first route.
\<close>

record process =
  pr_dumpable :: nat
  pr_core :: "nat \<times> nat"
  pr_faults :: "string option list"

definition sys_call :: "string \<Rightarrow> (process \<Rightarrow> process) \<Rightarrow> (process, unit) run" where
  "sys_call name f p = (case pr_faults p of
     Some e # es \<Rightarrow> (Inl (Err (name @ '' failed: '' @ e)), p\<lparr>pr_faults := es\<rparr>)
   | None # es \<Rightarrow> (Inr (), f (p\<lparr>pr_faults := es\<rparr>))
   | [] \<Rightarrow> (Inr (), f p))"

definition harden_process :: "(process, unit) run" where
  "harden_process =
     rthen (sys_call ''prctl(PR_SET_DUMPABLE, 0)'' (pr_dumpable_update (\<lambda>_. 0)))
           (sys_call ''setrlimit(RLIMIT_CORE, 0)'' (pr_core_update (\<lambda>_. (0, 0))))"

definition set_process_dumpable :: "bool \<Rightarrow> (process, unit) run" where
  "set_process_dumpable dumpable =
     (let arg = if dumpable then 1 else 0 in
      sys_call (''prctl(PR_SET_DUMPABLE, '' @ show_nat arg @ '')'') (pr_dumpable_update (\<lambda>_. arg)))"

text \<open>The error of the start-up code is printed and not fatal.\<close>

definition init_app :: "process \<Rightarrow> process" where
  "init_app p = snd (harden_process p)"

text \<open>The calls the program makes later: one per file dialog that opens or closes. The result says whether each of them succeeded.\<close>

fun toggles :: "bool list \<Rightarrow> process \<Rightarrow> bool list \<times> process" where
  "toggles [] p = ([], p)"
| "toggles (b # bs) p = (case set_process_dumpable b p of (r, p') \<Rightarrow>
     case toggles bs p' of (oks, p'') \<Rightarrow> ((\<exists>u. r = Inr u) # oks, p''))"

lemma sys_call_result:
  assumes "sys_call n f p = (r, q)"
  obtains es where "r = Inr ()" and "q = f (p\<lparr>pr_faults := es\<rparr>)" | e es where "r = Inl (Err e)" and "q = p\<lparr>pr_faults := es\<rparr>"
proof (cases "pr_faults p")
  case Nil
  then have eq: "p\<lparr>pr_faults := []\<rparr> = p" by (cases p) simp
  from Nil assms have "r = Inr ()" "q = f p" by (auto simp: sys_call_def)
  then show ?thesis using that(1) [of "[]"] by (simp only: eq)
next
  case (Cons x xs)
  with assms that show ?thesis by (cases x) (auto simp: sys_call_def)
qed

lemma toggle_state:
  assumes "set_process_dumpable b p = (r, q)"
  shows "pr_core q = pr_core p \<and> pr_dumpable q = (if r = Inr () then if b then 1 else 0 else pr_dumpable p)"
  using assms unfolding set_process_dumpable_def Let_def by (elim sys_call_result) simp_all

lemma toggles_state:
  "toggles bs p = (oks, p') \<Longrightarrow> pr_core p' = pr_core p
     \<and> pr_dumpable p' = (case rev (filter snd (zip bs oks)) of [] \<Rightarrow> pr_dumpable p | (b, _) # _ \<Rightarrow> if b then 1 else 0)"
proof (induction bs arbitrary: p oks)
  case (Cons b bs)
  obtain r q where q: "set_process_dumpable b p = (r, q)" by force
  with Cons.prems obtain os where o: "toggles bs q = (os, p')" and eq: "oks = (\<exists>u. r = Inr u) # os"
    by (auto split: prod.splits)
  have "(\<exists>u. r = Inr u) \<longleftrightarrow> r = Inr ()" by auto
  with Cons.IH [OF o] toggle_state [OF q] show ?case
    by (auto simp: eq split: list.splits)
qed auto

theorem core_dumps_stay_off:
  assumes "harden_process p = (Inr (), p1)" and "toggles bs p1 = (oks, p2)"
  shows "pr_core p2 = (0, 0)
    \<and> pr_dumpable p2 = (case rev (filter snd (zip bs oks)) of [] \<Rightarrow> 0 | (b, _) # _ \<Rightarrow> if b then 1 else 0)"
proof -
  let ?f = "pr_dumpable_update (\<lambda>_. 0)" and ?g = "pr_core_update (\<lambda>_. (0, 0))"
  obtain q where q: "sys_call ''prctl(PR_SET_DUMPABLE, 0)'' ?f p = (Inr (), q)" "sys_call ''setrlimit(RLIMIT_CORE, 0)'' ?g q = (Inr (), p1)"
    using assms(1) by (auto simp: harden_process_def rthen_def rnd_simps)
  from q(1) have "pr_dumpable q = 0" by (elim sys_call_result) simp_all
  with q(2) have "pr_dumpable p1 = 0 \<and> pr_core p1 = (0, 0)" by (elim sys_call_result) simp_all
  with toggles_state [OF assms(2)] show ?thesis by (auto split: list.split)
qed

theorem core_dumps_stay_off_witness:
  "\<exists>p1 p2. harden_process \<lparr>pr_dumpable = 1, pr_core = (5, 9), pr_faults = [None, None, None, Some ''EPERM'']\<rparr> = (Inr (), p1)
     \<and> toggles [True, False] p1 = ([True, False], p2) \<and> pr_core p2 = (0, 0) \<and> pr_dumpable p2 = 1"
proof -
  let ?p = "\<lparr>pr_dumpable = 1, pr_core = (5, 9), pr_faults = [None, None, None, Some ''EPERM'']\<rparr>"
  let ?p1 = "\<lparr>pr_dumpable = 0, pr_core = (0, 0), pr_faults = [None, Some ''EPERM'']\<rparr>"
  let ?p2 = "\<lparr>pr_dumpable = 1, pr_core = (0, 0), pr_faults = []\<rparr>"
  have h: "harden_process ?p = (Inr (), ?p1)" by (simp add: harden_process_def sys_call_def rthen_def rbind_def)
  have t: "toggles [True, False] ?p1 = ([True, False], ?p2)" by (simp add: set_process_dumpable_def sys_call_def)
  from core_dumps_stay_off [OF h t] h t show ?thesis
    by (intro exI [of _ ?p1] exI [of _ ?p2]) (simp del: toggles.simps)
qed

text \<open>A failure to lower the core limit comes after the process is closed to debuggers, and start-up goes on.\<close>

theorem partial_hardening:
  assumes "fst (harden_process p) = Inl e" and "pr_faults p = None # es"
  shows "pr_dumpable (init_app p) = 0"
  using assms by (auto simp: init_app_def harden_process_def sys_call_def rthen_def rbind_def split: list.splits option.splits)

theorem partial_hardening_witness:
  "pr_dumpable (init_app \<lparr>pr_dumpable = 1, pr_core = (5, 9), pr_faults = [None, Some ''EPERM'']\<rparr>) = 0"
  by (rule partial_hardening [where e = "Err ''setrlimit(RLIMIT_CORE, 0) failed: EPERM''"])
    (simp_all add: harden_process_def sys_call_def rthen_def rbind_def)

end
