(* ===== verification/Spec2Isabelle.thy ===== *)
theory Spec2Isabelle
  imports Session Bridge Relying_Party Trigger Generators Security_Key Daemon_Life Hardening
begin

text \<open>
  Gabbro is an offline password manager: a Rust core (\<open>rust/src\<close>) below a Flutter user interface. This
  development models the core, from the bytes of the vault file to the operations the user interface calls, and
  proves what makes it correct.

  \<^bold>\<open>The parts and how they interact.\<close> A vault is a file: a header in clear (\<open>vault/file_format.rs\<close>) and an encrypted
  body. \<open>crypto/\<close> derives the key from a passphrase and, if any are registered, from security keys, and seals the
  body with the header as authenticated data. \<open>vault/io.rs\<close> writes the file so that a crash never loses the vault and
  keeps a safety copy beside it. The body is JSON (\<open>vault/serialization.rs\<close>) and holds folders, entries
  (\<open>vault/entry.rs\<close>), deletion marks and key aliases. \<open>api/vault.rs\<close> has the operations on entries and on whole vaults;
  \<open>vault/session.rs\<close> keeps the open vault behind a lock, serves the user interface, and merges another device's
  vault into it. On Linux the program is also a security key for browsers: \<open>uhid.rs\<close> and \<open>passkey_daemon.rs\<close> carry the
  reports of a virtual device, \<open>ctaphid.rs\<close> makes messages of them, \<open>ctap2.rs\<close> answers the commands with the user's
  consent, and \<open>api/passkey_bridge.rs\<close> with \<open>crypto/webauthn.rs\<close> creates passkeys in the vault and signs with them.
  \<open>import/\<close> reads the exports of other password managers and \<open>api/import.rs\<close> puts their entries into the open vault.
  \<open>api/vault_bridge.rs\<close> is what the user interface calls: it converts entries to and from mirror structs and forwards to the
  session. \<open>autotype/\<close> types a login into another window through the X server, and \<open>api/password_generator.rs\<close>,
  \<open>api/passphrase_generator.rs\<close> and \<open>api/entropy.rs\<close> make new secrets and rate them. \<open>fido/\<close> and
  \<open>api/fido_bridge.rs\<close> ask the user's security keys for the secrets that unlock a vault, and \<open>hardening.rs\<close> closes the process to
  other processes at start-up.

  \<^bold>\<open>Theories, in dependency order.\<close>
  \<^item> \<open>Prelude\<close>: results and errors, byte and string conversions, ordered maps and insertion-ordered maps of Rust as
    lists with their interface locales, the collections used by the automation.
  \<^item> \<open>Effects\<close>: computations with state and errors; the state survives an error.
  \<^item> \<open>Entry\<close> (\<open>vault/entry.rs\<close>): the seven entry types as records and a datatype, the recovery history, card validation,
    the passkey credential blob.
  \<^item> \<open>File_Format\<close> (\<open>vault/file_format.rs\<close>): writer, reader and version probes of the container; round trip both ways,
    truncation is refused, the probes agree with the reader.
  \<^item> \<open>Dates\<close> (calendar functions of \<open>api/vault.rs\<close>): days and dates are inverse, expiry after a number of days.
  \<^item> \<open>Entry_Update\<close> (\<open>api/vault.rs\<close>): updating, masking and deleting entries; an update that keeps the type
    of an entry keeps every replaced secret of a recorded field in the history.
  \<^item> \<open>Merge\<close> and \<open>Sync\<close> (second half of \<open>vault/session.rs\<close>): two copies of an entry merged field by field, two vaults
    merged, the fast merge and the reviewed merge; nothing is lost without a record of it.
  \<^item> \<open>Vault_Crypto\<close> (\<open>crypto/\<close>): sealing and opening; every registered key opens, a removed one does not, a changed
    header is refused, a passphrase change keeps the keys.
  \<^item> \<open>Vault_IO\<close> (\<open>vault/io.rs\<close>): a disk on which every call can fail and every intermediate state can be the one a crash
    leaves; saving, restoring and adopting are safe at every such state.
  \<^item> \<open>Serialization\<close> (\<open>vault/serialization.rs\<close>): the body format and the conversion of older formats.
  \<^item> \<open>Vault_Store\<close> (storage functions of \<open>api/vault.rs\<close>): whole vaults on disk; the locale \<open>vault_backend\<close> is interpreted on
    the passphrase path and on the security-key path.
  \<^item> \<open>Session\<close> (first half of \<open>vault/session.rs\<close>): the application state and every operation on it.
  \<^item> \<open>Authenticator\<close> (\<open>crypto/webauthn.rs\<close>, \<open>api/passkey_bridge.rs\<close>, \<open>ctap2.rs\<close>, \<open>api/passkey_daemon_bridge.rs\<close>): passkeys;
    nothing is signed without consent, the chosen account signs, drawing a key ends.
  \<^item> \<open>Relying_Party\<close>: a site that follows the ceremonies of WebAuthn, as the specification of \<open>crypto/webauthn.rs\<close> and
    \<open>api/passkey_bridge.rs\<close>; it accepts every sign-in with a passkey it registered, and no other site does.
  \<^item> \<open>Ctaphid\<close> (\<open>ctaphid.rs\<close>): the framing machine; messages cut into reports arrive whole and in order, reassembly stays in
    bounds; an unfinished message blocks the device.
  \<^item> \<open>Passkey_Daemon\<close> (\<open>uhid.rs\<close>, \<open>passkey_daemon.rs\<close>): the events of the virtual device and one turn of the pump; an answer
    returns to the channel of its request as long as no second request comes in between.
  \<^item> \<open>Daemon_Life\<close> (\<open>passkey_daemon.rs\<close>): opening, starting, answering and stopping as steps of single system calls, interleaved in any number of
    running programs; at most one virtual key exists at any moment, a stop is never held up for ever and leaves neither key nor lock.
  \<^item> \<open>Import_Csv\<close> (\<open>import/csv.rs\<close>, \<open>import/google_pm.rs\<close>, \<open>import/dashlane.rs\<close>): CSV readers; a plain table reads back as it was
    written, no cell is lost, doubled quotes are.
  \<^item> \<open>Unicode\<close>: characters of a UTF-8 string and their codepoints, as \<open>chars()\<close> and \<open>from_utf8\<close> of the standard library see them;
    encoding and decoding are inverse.
  \<^item> \<open>Importers\<close> (\<open>import/bitwarden.rs\<close>, \<open>import/enpass.rs\<close>, \<open>api/import.rs\<close>): the locale \<open>importer\<close> is interpreted on the five
    importers; an import only adds, taking over a vault keeps ids distinct, Enpass items are accounted for.
  \<^item> \<open>Bridge\<close> (\<open>api/vault_bridge.rs\<close>, mirror structs of \<open>api/vault.rs\<close>): the calls of the user interface and the relation of
    all calls from outside; no sequence of them loses an entry, except that cancelling a sync drops what came after its merge; an unchanged
    edit keeps the entry; the editor and the list of entries get no key material.
  \<^item> \<open>Autotype\<close> (\<open>autotype/\<close>, \<open>api/autotype_bridge.rs\<close>): the X server as a machine that takes one request at a time and may refuse
    any of them; what a window receives is exactly the login, only the target window receives it, the keyboard mapping is restored
    whatever fails, and no error text shows a value.
  \<^item> \<open>Trigger\<close> (\<open>autotype/trigger.rs\<close>, \<open>bin/gabbro-autotype.rs\<close>, \<open>api/autofill_bridge.rs\<close>): what starts a fill from outside; a trigger
    reported as sent is handled once by the listener of the development tool, unless reading the connection fails.
  \<^item> \<open>Generators\<close> (\<open>api/password_generator.rs\<close>, \<open>api/passphrase_generator.rs\<close>, \<open>api/entropy.rs\<close>): generated passwords and passphrases
    have the requested form, as stated by an independent description of the characters a request selects; a longer password is rated no lower.
  \<^item> \<open>Security_Key\<close> (\<open>fido/device.rs\<close>, \<open>api/fido_bridge.rs\<close>): calls into libfido2 as a log with answers; whichever registered key is inserted opens
    the vault, the objects of the library are released, a wrong PIN is sent again for every pair of records, even after the key is blocked.
  \<^item> \<open>Hardening\<close> (\<open>hardening.rs\<close>, \<open>api/simple.rs\<close>): the process attributes behind core files and debuggers.

  \<^bold>\<open>State and errors.\<close> Structs are records with the source's field names behind a two-letter prefix, enums are
  datatypes, \<open>u64\<close>, \<open>u32\<close> and bytes are words, strings are lists of bytes as characters. A result is \<open>err + 'a\<close>: \<open>Err\<close>
  with the source's message, or \<open>Panic\<close> where the Rust code panics. The clock is a stream of readings, the random
  source a stream of bytes, the disk a map from paths to nodes with a list of faults to come and the trace of states
  passed.

  \<^bold>\<open>Parameters.\<close> Argon2id, HKDF and AES-GCM (record \<open>crypto\<close>), serde_json (record \<open>serde\<close>), SHA-256, base64, the UUID and
  JSON printers and the iteration order of hash maps (record \<open>env\<close>), P-256, CBOR,
  base64url and the derived readers of requests (record \<open>auth_env\<close>), the derived readers of the JSON exports and the Unicode
  class of a character (record \<open>import_env\<close>), the answers of the X server and the clock beside it (record \<open>x_server\<close>), the random
  generator (record \<open>rand\<close>), the word lists and the upper case of a character (record \<open>word_env\<close>), floating-point arithmetic
  (record \<open>floats\<close>) and libfido2 (record \<open>fido_lib\<close>) are arguments; the laws relied on are named
  predicates (\<open>aead_correct\<close>, \<open>serde_roundtrip\<close>, \<open>b64_inverse\<close>, \<open>permutes_lists\<close>, \<open>reports\<close>, \<open>serves\<close>,
  \<open>in_range\<close>, \<open>monotone\<close>, \<open>setters_accept\<close>, \<open>key_present\<close>, \<open>hmac_secret_key\<close>, \<open>counts_wrong_pins\<close>, \<open>site_crypto\<close>), satisfied by concrete functions in the
  witnesses.

  \<^bold>\<open>Bounds and termination.\<close> All functions are total, except that drawing a signing key repeats until the random bytes
  are one and is a partial function whose \<open>None\<close> is not returning; it returns when such bytes come. Waiting for the keys of a shortcut to be released ends
  after one second of the clock (a measure on the time left). Following symbolic links stops after 40 steps as in the kernel; no
  other fuel is used. Word widths are kept where the code can wrap.

  \<^bold>\<open>Not modelled.\<close> Zeroization (no observable result), the non-unix branch of the file writer, the generated Flutter
  bridge (calls that only forward are the session operations themselves), the stubs for
  platforms without a feature, the JNI calls that only copy strings, the development binaries and the user interface.
\<close>

end
